(* ===== verification/Prelude.thy ===== *)
theory Prelude
  imports Main "HOL-Library.Word"
begin

text \<open>
  What every component shares: bytes and fixed-width integers, the faults a C++
  execution can end in, the result type that carries them, \<open>size_t\<close> arithmetic,
  byte-array updates (\<open>memcpy\<close> into a fixed array) and the big-endian fields of
  the FLV and RTMP headers. Collections:
  \<^item> \<open>size_simps\<close>: \<open>size_t\<close> arithmetic that does not wrap;
  \<^item> \<open>result_simps\<close>: reading a successful chain of fallible steps.
\<close>

named_theorems size_simps \<open>size_t arithmetic without wrap-around\<close>
named_theorems result_simps \<open>inversion of fallible computations\<close>

section \<open>Bytes and machine integers\<close>

type_synonym byte = "8 word"
type_synonym bytes = "byte list"
type_synonym u32 = "32 word"

text \<open>A string literal of the source as the bytes of its \<open>std::string\<close>.\<close>

definition lit :: "string \<Rightarrow> bytes" where
  "lit s = map of_char s"

lemma length_lit [simp]: "length (lit s) = length s"
  by (simp add: lit_def)

lemma lit_append: "lit (s @ t) = lit s @ lit t"
  by (simp add: lit_def)

section \<open>Faults and fallible results\<close>

text \<open>
  How an execution can fail to go on: an access outside an object
  (\<open>OutOfBounds\<close>), \<open>std::out_of_range\<close> and \<open>std::length_error\<close> thrown by the
  standard library, a null pointer dereferenced, an object used after it was
  freed, a failed \<open>assert\<close>, \<open>Diverges\<close> for a loop that used up the iterations a definition allows it, and
  \<open>Exited\<close> for a call of \<open>exit\<close>.
\<close>

datatype fault = OutOfBounds | OutOfRange | LengthError | NullPointer | UseAfterFree | AssertFailed | Diverges | Exited

type_synonym 'a result = "fault + 'a"

definition ebind :: "'a result \<Rightarrow> ('a \<Rightarrow> 'b result) \<Rightarrow> 'b result" where
  "ebind r f = (case r of Inl e \<Rightarrow> Inl e | Inr x \<Rightarrow> f x)"

lemma ebind_simps [simp]:
  "ebind (Inl e) f = Inl e"
  "ebind (Inr x) f = f x"
  by (simp_all add: ebind_def)

lemma ebind_Inr_iff [result_simps]:
  "ebind r f = Inr y \<longleftrightarrow> (\<exists>x. r = Inr x \<and> f x = Inr y)"
  by (cases r) auto

lemma ebind_Inl_iff:
  "ebind r f = Inl e \<longleftrightarrow> r = Inl e \<or> (\<exists>x. r = Inr x \<and> f x = Inl e)"
  by (cases r) auto

lemma ebind_assoc: "ebind (ebind r f) g = ebind r (\<lambda>x. ebind (f x) g)"
  by (cases r) auto

lemma ebind_case3: "ebind r (\<lambda>(a, b, c). f a b c) = Inr y \<longleftrightarrow> (\<exists>a b c. r = Inr (a, b, c) \<and> f a b c = Inr y)"
  by (cases r) (auto split: prod.splits)

lemma ebind_case4: "ebind r (\<lambda>(a, b, c, d). f a b c d) = Inr y \<longleftrightarrow> (\<exists>a b c d. r = Inr (a, b, c, d) \<and> f a b c d = Inr y)"
  by (cases r) (auto split: prod.splits)

lemma ebind_cong: "(\<And>x. f x = g x) \<Longrightarrow> ebind r f = ebind r g"
  by (cases r) simp_all

lemma ebindE:
  assumes "ebind r (\<lambda>a. Inr (f a)) = Inr y"
  obtains a where "f a = y"
  using assms by (cases r) auto

lemma ebind_pairE:
  assumes "ebind r (\<lambda>(a, b). Inr (f a b)) = Inr y"
  obtains a b where "r = Inr (a, b)" "f a b = y"
  using assms by (cases r) (auto split: prod.splits)

lemma ebind_case3E:
  assumes "ebind r (\<lambda>(a, b, c). Inr (f a b c)) = Inr y"
  obtains a b c where "r = Inr (a, b, c)" "f a b c = y"
  using assms by (auto simp: ebind_case3)

lemma ebind_case4E:
  assumes "ebind r (\<lambda>(a, b, c, d). Inr (f a b c d)) = Inr y"
  obtains a b c d where "r = Inr (a, b, c, d)" "f a b c d = y"
  using assms by (auto simp: ebind_case4)

text \<open>A run keeps a property when every value it can produce has it.\<close>

definition holds :: "('a \<Rightarrow> bool) \<Rightarrow> 'a result \<Rightarrow> bool" where
  "holds P r \<longleftrightarrow> (\<exists>x. r = Inr x \<and> P x)"

lemma holds_Inr [simp]: "holds P (Inr x) \<longleftrightarrow> P x"
  by (simp add: holds_def)

lemma holds_Inl [simp]: "\<not> holds P (Inl e)"
  by (simp add: holds_def)

lemma holds_mono: "holds P r \<Longrightarrow> (\<And>x. P x \<Longrightarrow> Q x) \<Longrightarrow> holds Q r"
  by (auto simp: holds_def)

lemma holdsE: "holds P r \<Longrightarrow> (\<And>x. r = Inr x \<Longrightarrow> P x \<Longrightarrow> thesis) \<Longrightarrow> thesis"
  by (auto simp: holds_def)

lemma holds_ebind:
  "holds P r \<Longrightarrow> (\<And>x. P x \<Longrightarrow> holds Q (f x)) \<Longrightarrow> holds Q (ebind r f)"
  by (auto simp: holds_def)

text \<open>
  A run that either succeeds with the property, or (where that is allowed) fails for lack
  of memory; other faults are excluded.
\<close>

definition safe :: "bool \<Rightarrow> ('a \<Rightarrow> bool) \<Rightarrow> 'a result \<Rightarrow> bool" where
  "safe may_fail P r \<longleftrightarrow> (may_fail \<and> r = Inl LengthError) \<or> holds P r"

lemma safe_Inr [simp]: "safe f P (Inr x) \<longleftrightarrow> P x"
  by (simp add: safe_def)

lemma safe_False: "safe False P r \<longleftrightarrow> holds P r"
  by (simp add: safe_def)

lemma safe_holds: "holds P r \<Longrightarrow> safe f P r"
  by (simp add: safe_def)

lemma safe_ebind:
  assumes "safe f P r" "\<And>x. P x \<Longrightarrow> safe f Q (g x)"
  shows "safe f Q (ebind r g)"
proof (cases r)
  case (Inl e)
  with assms(1) show ?thesis by (simp add: safe_def)
next
  case (Inr x)
  with assms(1) have "P x" by simp
  with Inr assms(2) show ?thesis by simp
qed

lemma safe_mono: "safe f P r \<Longrightarrow> (\<And>x. P x \<Longrightarrow> Q x) \<Longrightarrow> safe f Q r"
  by (auto simp: safe_def holds_def)

lemma safe_result: "safe f P r \<Longrightarrow> (\<And>x. r = Inr x \<Longrightarrow> P x \<Longrightarrow> Q x) \<Longrightarrow> safe f Q r"
  by (auto simp: safe_def holds_def)

section \<open>size\_t arithmetic\<close>

text \<open>
  \<open>size_t\<close> values are naturals below \<open>2 ^ 64\<close>; addition and subtraction wrap as
  the code's do. \<open>max_size\<close> is the \<open>max_size()\<close> of a \<open>std::vector<char>\<close>.
\<close>

definition size_mod :: nat where
  "size_mod = 2 ^ 64"

definition max_size :: nat where
  "max_size = 2 ^ 63 - 1"

definition size_add :: "nat \<Rightarrow> nat \<Rightarrow> nat" where
  "size_add a b = (a + b) mod size_mod"

definition size_sub :: "nat \<Rightarrow> nat \<Rightarrow> nat" where
  "size_sub a b = (a + size_mod - b) mod size_mod"

text \<open>\<open>std::string::npos\<close>, the largest \<open>size_t\<close>.\<close>

definition npos :: nat where
  "npos = size_mod - 1"

lemma max_size_lt: "max_size < size_mod"
  by (simp add: max_size_def size_mod_def)

lemma size_add_eq [size_simps]: "a + b < size_mod \<Longrightarrow> size_add a b = a + b"
  by (simp add: size_add_def)

lemma size_add_le_max [size_simps]: "a + b \<le> max_size \<Longrightarrow> size_add a b = a + b"
  using max_size_lt by (simp add: size_add_def)

lemma size_sub_eq [size_simps]:
  assumes "b \<le> a" "a < size_mod"
  shows "size_sub a b = a - b"
proof -
  have "a + size_mod - b = size_mod + (a - b)" using assms(1) by linarith
  moreover have "a - b < size_mod" using assms(2) by linarith
  ultimately show ?thesis by (simp only: size_sub_def mod_add_self1 mod_less)
qed

lemma size_sub_le_max [size_simps]: "b \<le> a \<Longrightarrow> a \<le> max_size \<Longrightarrow> size_sub a b = a - b"
  using max_size_lt by (simp add: size_sub_eq)

lemma size_add_lt: "size_add a b < size_mod"
  by (simp add: size_add_def size_mod_def)

lemma size_sub_lt: "size_sub a b < size_mod"
  by (simp add: size_sub_def size_mod_def)

lemma size_add_0 [simp]: "a < size_mod \<Longrightarrow> size_add a 0 = a"
  by (simp add: size_add_def)

section \<open>Writing into byte arrays\<close>

text \<open>\<open>overwrite off xs a\<close> is the array \<open>a\<close> after \<open>memcpy(&a[off], xs, |xs|)\<close>.\<close>

definition overwrite :: "nat \<Rightarrow> 'a list \<Rightarrow> 'a list \<Rightarrow> 'a list" where
  "overwrite off xs a = take off a @ xs @ drop (off + length xs) a"

lemma length_overwrite [simp]:
  "off + length xs \<le> length a \<Longrightarrow> length (overwrite off xs a) = length a"
  by (simp add: overwrite_def)

lemma take_overwrite:
  "off \<le> length a \<Longrightarrow> take off (overwrite off xs a) = take off a"
  by (simp add: overwrite_def)

lemma take_overwrite_le:
  "n \<le> off \<Longrightarrow> off \<le> length a \<Longrightarrow> take n (overwrite off xs a) = take n a"
  by (simp add: overwrite_def min_absorb1)

lemma slice_overwrite:
  "off \<le> length a \<Longrightarrow> take (length xs) (drop off (overwrite off xs a)) = xs"
  by (simp add: overwrite_def)

lemma nth_overwrite:
  assumes "off + length xs \<le> length a" "i < length a"
  shows "overwrite off xs a ! i =
    (if i < off then a ! i else if i < off + length xs then xs ! (i - off) else a ! i)"
  using assms by (auto simp: overwrite_def nth_append min_def)

lemma drop_overwrite_ge:
  assumes "off + length xs \<le> n" "off + length xs \<le> length a"
  shows "drop n (overwrite off xs a) = drop n a"
  using assms by (simp add: overwrite_def min_absorb2)

section \<open>Lists\<close>

lemma takeWhile_until [simp]: "c \<notin> set xs \<Longrightarrow> takeWhile (\<lambda>x. x \<noteq> c) (xs @ c # ys) = xs"
  by (induction xs) auto

lemma takeWhile_none [simp]: "c \<notin> set xs \<Longrightarrow> takeWhile (\<lambda>x. x \<noteq> c) xs = xs"
  by (induction xs) auto

section \<open>Big-endian fields\<close>

text \<open>Byte \<open>i\<close> of a little-endian 32-bit integer in memory.\<close>

definition u32_byte :: "u32 \<Rightarrow> nat \<Rightarrow> byte" where
  "u32_byte w i = ucast (drop_bit (8 * i) w)"

text \<open>A 24-bit big-endian field read as the code reads it.\<close>

definition be24 :: "byte \<Rightarrow> byte \<Rightarrow> byte \<Rightarrow> u32" where
  "be24 a b c = ucast a * 65536 + ucast b * 256 + ucast c"

text \<open>A 32-bit field read through a \<open>uint32_t*\<close> on a little-endian machine.\<close>

definition le32 :: "byte \<Rightarrow> byte \<Rightarrow> byte \<Rightarrow> byte \<Rightarrow> u32" where
  "le32 a b c d = ucast a + ucast b * 256 + ucast c * 65536 + ucast d * 16777216"

lemma unat_byte_lt: "unat (b :: byte) < 256"
  using unsigned_less [of b] by simp

lemma unat_u32_lt: "unat (w :: u32) < 2 ^ 32"
  using unsigned_less [of w] by simp

lemma unat_ucast_u32 [simp]: "unat (ucast (b :: byte) :: u32) = unat b"
proof -
  have "unat b < 2 ^ 32" by (rule less_trans [OF unat_byte_lt]) simp
  then show ?thesis by (simp add: unsigned_ucast_eq take_bit_nat_eq_self)
qed

lemma unat_ucast_byte: "unat (ucast (w :: u32) :: byte) = unat w mod 256"
  by (simp add: unsigned_ucast_eq take_bit_eq_mod)

lemma unat_be24: "unat (be24 a b c) = unat a * 65536 + unat b * 256 + unat c"
proof -
  have "unat a < 256" "unat b < 256" "unat c < 256" by (rule unat_byte_lt)+
  then show ?thesis
    by (simp add: be24_def unat_word_ariths)
qed

lemma unat_be24_lt: "unat (be24 a b c) < 2 ^ 24"
proof -
  have "unat a < 256" "unat b < 256" "unat c < 256" by (rule unat_byte_lt)+
  then show ?thesis unfolding unat_be24 by simp
qed

lemma mod_2_24: "(n :: nat) div 65536 mod 256 * 65536 + n div 256 mod 256 * 256 + n mod 256 = n mod 2 ^ 24"
proof -
  have "n mod (256 * 65536) = 65536 * (n div 65536 mod 256) + n mod 65536"
    using mod_mult2_eq [of n 65536 256] by (simp add: mult.commute)
  moreover have "n mod (256 * 256) = 256 * (n div 256 mod 256) + n mod 256"
    using mod_mult2_eq [of n 256 256] by simp
  ultimately show ?thesis by simp
qed

lemma unat_u32_byte: "unat (u32_byte w i) = unat w div 2 ^ (8 * i) mod 256"
  by (simp add: u32_byte_def unat_ucast_byte unat_drop_bit_eq flip: drop_bit_eq_div)

text \<open>Writing the low 24 bits big-endian and reading them back.\<close>

lemma be24_u32_byte: "be24 (u32_byte w 2) (u32_byte w 1) (u32_byte w 0) = take_bit 24 w"
proof -
  have "unat (be24 (u32_byte w 2) (u32_byte w 1) (u32_byte w 0)) = unat w mod 2 ^ 24"
    using mod_2_24 [of "unat w"] by (simp add: unat_be24 unat_u32_byte)
  also have "\<dots> = unat (take_bit 24 w)"
    by (simp only: unsigned_take_bit_eq take_bit_nat_def)
  finally show ?thesis by (simp only: word_unat_eq_iff)
qed

lemma div_mod_radix:
  fixes x r m :: nat
  assumes "r < m"
  shows "(x * m + r) div m = x" "(x * m + r) mod m = r"
  using assms by simp_all

lemma u32_byte_be24:
  "u32_byte (be24 a b c) 2 = a"
  "u32_byte (be24 a b c) (Suc 0) = b"
  "u32_byte (be24 a b c) 0 = c"
proof -
  have lt: "unat a < 256" "unat b < 256" "unat c < 256" by (rule unat_byte_lt)+
  have *: "(unat a * 65536 + unat b * 256 + unat c) div 65536 = unat a"
    "(unat a * 65536 + unat b * 256 + unat c) div 256 = unat a * 256 + unat b"
    "(unat a * 65536 + unat b * 256 + unat c) mod 256 = unat c"
    "(unat a * 256 + unat b) mod 256 = unat b"
    using div_mod_radix [of "unat b * 256 + unat c" 65536 "unat a"]
      div_mod_radix [of "unat c" 256 "unat a * 256 + unat b"]
      div_mod_radix [of "unat b" 256 "unat a"] lt
    by (simp_all add: algebra_simps)
  show "u32_byte (be24 a b c) 2 = a" "u32_byte (be24 a b c) (Suc 0) = b" "u32_byte (be24 a b c) 0 = c"
    using lt * by (simp_all add: word_unat_eq_iff unat_u32_byte unat_be24)
qed

text \<open>\<open>static_cast<uint32_t>\<close> of a \<open>size_t\<close>.\<close>

definition to_u32 :: "nat \<Rightarrow> u32" where
  "to_u32 n = word_of_nat n"

lemma unat_to_u32: "unat (to_u32 n) = n mod 2 ^ 32"
  by (simp add: to_u32_def unat_of_nat)

lemma unat_to_u32_small [simp]: "n < 2 ^ 32 \<Longrightarrow> unat (to_u32 n) = n"
  by (simp add: unat_to_u32)

text \<open>A 32-bit big-endian field, as a correct reader takes it.\<close>

definition be32 :: "byte \<Rightarrow> byte \<Rightarrow> byte \<Rightarrow> byte \<Rightarrow> u32" where
  "be32 a b c d = ucast a * 16777216 + ucast b * 65536 + ucast c * 256 + ucast d"

lemma unat_be32: "unat (be32 a b c d) = unat a * 16777216 + unat b * 65536 + unat c * 256 + unat d"
proof -
  have "unat a < 256" "unat b < 256" "unat c < 256" "unat d < 256" by (rule unat_byte_lt)+
  then show ?thesis by (simp add: be32_def unat_word_ariths)
qed

lemma unat_le32: "unat (le32 a b c d) = unat a + unat b * 256 + unat c * 65536 + unat d * 16777216"
proof -
  have "unat a < 256" "unat b < 256" "unat c < 256" "unat d < 256" by (rule unat_byte_lt)+
  then show ?thesis by (simp add: le32_def unat_word_ariths)
qed

lemma be32_u32_byte: "be32 (u32_byte w 3) (u32_byte w 2) (u32_byte w 1) (u32_byte w 0) = w"
proof -
  have lt: "unat w < 2 ^ 32" using unsigned_less [of w] by simp
  then have hi: "unat w div 16777216 mod 256 = unat w div 16777216" by simp
  have "unat (be32 (u32_byte w 3) (u32_byte w 2) (u32_byte w 1) (u32_byte w 0)) =
      unat w div 16777216 * 16777216 + (unat w div 65536 mod 256 * 65536 + unat w div 256 mod 256 * 256
        + unat w mod 256)"
    by (simp add: unat_be32 unat_u32_byte hi)
  also have "\<dots> = unat w"
    using mod_2_24 [of "unat w"] div_mult_mod_eq [of "unat w" 16777216] by simp
  finally show ?thesis by (simp only: word_unat_eq_iff)
qed

lemma u32_byte_be32:
  "u32_byte (be32 a b c d) 3 = a" "u32_byte (be32 a b c d) 2 = b"
  "u32_byte (be32 a b c d) (Suc 0) = c" "u32_byte (be32 a b c d) 0 = d"
proof -
  have lt: "unat a < 256" "unat b < 256" "unat c < 256" "unat d < 256" by (rule unat_byte_lt)+
  let ?n = "unat a * 16777216 + unat b * 65536 + unat c * 256 + unat d"
  have *: "?n div 16777216 = unat a" "?n div 65536 = unat a * 256 + unat b"
    "?n div 256 = unat a * 65536 + unat b * 256 + unat c" "?n mod 256 = unat d"
    "(unat a * 256 + unat b) mod 256 = unat b"
    "(unat a * 65536 + unat b * 256 + unat c) mod 256 = unat c"
    using lt div_mod_radix [of "unat b * 65536 + unat c * 256 + unat d" 16777216 "unat a"]
      div_mod_radix [of "unat c * 256 + unat d" 65536 "unat a * 256 + unat b"]
      div_mod_radix [of "unat d" 256 "unat a * 65536 + unat b * 256 + unat c"]
      div_mod_radix [of "unat b" 256 "unat a"]
      div_mod_radix [of "unat c" 256 "unat a * 256 + unat b"]
    by (simp_all add: algebra_simps)
  show "u32_byte (be32 a b c d) 3 = a" "u32_byte (be32 a b c d) 2 = b"
    "u32_byte (be32 a b c d) (Suc 0) = c" "u32_byte (be32 a b c d) 0 = d"
    using lt * by (simp_all add: word_unat_eq_iff unat_u32_byte unat_be32)
qed

lemma be24_to_u32: "n < 2 ^ 24 \<Longrightarrow>
    unat (be24 (u32_byte (to_u32 n) 2) (u32_byte (to_u32 n) 1) (u32_byte (to_u32 n) 0)) = n"
  using mod_2_24 [of n] by (simp add: unat_be24 unat_u32_byte unat_to_u32)

lemma to_u32_unat [simp]: "to_u32 (unat w) = w"
  by (simp add: to_u32_def)


end
