(* ===== verification/PrefixCode.thy ===== *)
theory PrefixCode
  imports Prelude
begin

text \<open>
  Self-delimiting encodings: the contract of a byte format whose decoder finds the end
  of an item by itself, so that a stream of items can be cut back into them. The locale
  \<open>prefix_code\<close> is interpreted for HTTP chunks and for FLV tags; the general facts say
  that a whole stream decodes to the encoded items and that what follows an incomplete
  item stays undecoded.
\<close>

text \<open>Decode items until the decoder refuses; the items and the bytes left.\<close>

fun decode_stream :: "(bytes \<Rightarrow> ('a \<times> bytes) option) \<Rightarrow> nat \<Rightarrow> bytes \<Rightarrow> 'a list \<times> bytes" where
  "decode_stream dec 0 bs = ([], bs)"
| "decode_stream dec (Suc fuel) bs =
     (case dec bs of None \<Rightarrow> ([], bs)
      | Some (x, rest) \<Rightarrow> (let (xs, left) = decode_stream dec fuel rest in (x # xs, left)))"

text \<open>Every item is at least one byte long, so the length of the stream is enough fuel.\<close>

definition decode_all :: "(bytes \<Rightarrow> ('a \<times> bytes) option) \<Rightarrow> bytes \<Rightarrow> 'a list \<times> bytes" where
  "decode_all dec bs = decode_stream dec (length bs) bs"

locale prefix_code =
  fixes enc :: "'a \<Rightarrow> bytes"
    and dec :: "bytes \<Rightarrow> ('a \<times> bytes) option"
    and valid :: "'a \<Rightarrow> bool"
  assumes dec_enc: "valid x \<Longrightarrow> dec (enc x @ rest) = Some (x, rest)"
    and dec_Nil: "dec [] = None"
begin

lemma enc_nonempty: "valid x \<Longrightarrow> enc x \<noteq> []"
proof
  assume "valid x" "enc x = []"
  then have "dec [] = Some (x, [])" using dec_enc [of x "[]"] by simp
  then show False by (simp add: dec_Nil)
qed

lemma enc_inj:
  assumes "valid x" "valid y" "enc x = enc y"
  shows "x = y"
  using dec_enc [OF assms(1), of "[]"] dec_enc [OF assms(2), of "[]"] assms(3) by simp

lemma stream_items:
  "\<forall>x \<in> set xs. valid x \<Longrightarrow> length xs + k \<le> fuel \<Longrightarrow> dec rest = None \<Longrightarrow>
   decode_stream dec fuel (concat (map enc xs) @ rest) = (xs, rest)"
proof (induction xs arbitrary: fuel)
  case Nil
  then show ?case by (cases fuel) auto
next
  case (Cons x xs)
  then obtain f where f: "fuel = Suc f" by (cases fuel) auto
  with Cons show ?case by (simp add: dec_enc)
qed

lemma concat_length: "\<forall>x \<in> set xs. valid x \<Longrightarrow> length xs \<le> length (concat (map enc xs))"
proof (induction xs)
  case Nil
  then show ?case by simp
next
  case (Cons x xs)
  then have "enc x \<noteq> []" by (simp add: enc_nonempty)
  then have "1 \<le> length (enc x)" by (cases "enc x") auto
  with Cons show ?case by auto
qed

lemma decode_all_items:
  assumes "\<forall>x \<in> set xs. valid x" "dec rest = None"
  shows "decode_all dec (concat (map enc xs) @ rest) = (xs, rest)"
  using stream_items [OF assms(1), of 0 "length (concat (map enc xs) @ rest)" rest]
    concat_length [OF assms(1)] assms(2)
  by (simp add: decode_all_def)

lemma streams_inj:
  assumes "\<forall>x \<in> set xs. valid x" "\<forall>y \<in> set ys. valid y"
    and "concat (map enc xs) = concat (map enc ys)"
  shows "xs = ys"
  using decode_all_items [OF assms(1) dec_Nil] decode_all_items [OF assms(2) dec_Nil] assms(3)
  by simp

end

end
