(* ===== verification/Format.thy ===== *)
theory Format
  imports PrefixCode
begin

text \<open>
  \<^verbatim>\<open>utils/Format.{h,cpp}\<close>: the hexadecimal lengths of HTTP chunks and the two functions
  that take the stream's path out of an HTTP request line and of an RTMP URL, with the
  \<open>npos\<close> arithmetic and the exceptions of \<open>std::string\<close> written out. The last part is
  the chunked transfer coding itself: the chunk the code sends for a payload, and a
  reference decoder of RFC 7230 chunks that gives the payload back.
\<close>

section \<open>What the code uses of std::string\<close>

text \<open>\<open>s.find(c, pos)\<close>.\<close>

definition str_find :: "byte \<Rightarrow> bytes \<Rightarrow> nat \<Rightarrow> nat" where
  "str_find c s pos =
     (let i = pos + length (takeWhile (\<lambda>x. x \<noteq> c) (drop pos s)) in
      if i < length s then i else npos)"

text \<open>\<open>s.find(pat)\<close> for a pattern that is not empty.\<close>

fun find_sub :: "bytes \<Rightarrow> bytes \<Rightarrow> nat option" where
  "find_sub pat [] = None"
| "find_sub pat (x # xs) =
     (if take (length pat) (x # xs) = pat then Some 0 else map_option Suc (find_sub pat xs))"

definition str_find_str :: "bytes \<Rightarrow> bytes \<Rightarrow> nat" where
  "str_find_str pat s = (case find_sub pat s of None \<Rightarrow> npos | Some i \<Rightarrow> i)"

text \<open>\<open>s.find_last_of(c)\<close>.\<close>

definition str_find_last_of :: "byte \<Rightarrow> bytes \<Rightarrow> nat" where
  "str_find_last_of c s =
     (if c \<in> set s then length s - 1 - length (takeWhile (\<lambda>x. x \<noteq> c) (rev s)) else npos)"

text \<open>\<open>s.substr(pos, n)\<close> throws when \<open>pos > s.size()\<close>.\<close>

definition str_substr :: "bytes \<Rightarrow> nat \<Rightarrow> nat \<Rightarrow> bytes result" where
  "str_substr s pos n = (if pos > length s then Inl OutOfRange else Inr (take n (drop pos s)))"

text \<open>\<open>s[i]\<close>: the terminating zero at \<open>s.size()\<close>, undefined behind it.\<close>

definition str_at :: "bytes \<Rightarrow> nat \<Rightarrow> byte result" where
  "str_at s i = (if i < length s then Inr (s ! i) else if i = length s then Inr 0 else Inl OutOfBounds)"

text \<open>\<open>strlen(&s[i])\<close>: the bytes up to the first zero, the string's own terminator at the latest.\<close>

definition str_len_at :: "bytes \<Rightarrow> nat \<Rightarrow> nat result" where
  "str_len_at s i =
     (if i \<le> length s then Inr (length (takeWhile (\<lambda>x. x \<noteq> 0) (drop i s))) else Inl OutOfBounds)"

abbreviation (input) SPACE :: byte where "SPACE \<equiv> 0x20"
abbreviation (input) SLASH :: byte where "SLASH \<equiv> 0x2f"
abbreviation (input) CR :: byte where "CR \<equiv> 0x0d"
abbreviation (input) LF :: byte where "LF \<equiv> 0x0a"

section \<open>The functions of namespace Format\<close>

definition hex_digit :: "nat \<Rightarrow> byte" where
  "hex_digit d = (if d < 10 then word_of_nat (48 + d) else word_of_nat (87 + d))"

fun ToHexString :: "nat \<Rightarrow> bytes" where
  "ToHexString n = (if n < 16 then [hex_digit n] else ToHexString (n div 16) @ [hex_digit (n mod 16)])"

declare ToHexString.simps [simp del]

definition ToHexStringWithCrlf :: "nat \<Rightarrow> bytes" where
  "ToHexStringWithCrlf n = ToHexString n @ [CR, LF]"

definition GetUrl :: "bytes \<Rightarrow> bytes result" where
  "GetUrl str =
     (let url_begin = size_add (str_find SPACE str 0) 1;
          url_end = str_find SPACE str url_begin in
      ebind (str_at str (size_sub url_end 1)) (\<lambda>c.
      let url_end = (if c = SLASH then size_sub url_end 1 else url_end) in
      str_substr str (size_add url_begin 1) (size_sub (size_sub url_end url_begin) 1)))"

definition GetPathFromUrl :: "bytes \<Rightarrow> bytes result" where
  "GetPathFromUrl url =
     (let idx = str_find_str [SLASH, SLASH] url;
          idx1 = str_find SLASH url (size_add idx 2) in
      ebind (str_substr url idx1 npos) (\<lambda>path.
      let path_len = length path;
          path_len = (if str_find_last_of SLASH path = size_sub (length path) 1
                      then size_sub path_len 1 else path_len) in
      str_substr path 1 (size_sub path_len 1)))"

section \<open>Hexadecimal lengths\<close>

definition hex_value :: "byte \<Rightarrow> nat option" where
  "hex_value c = (let n = unat c in
     if 48 \<le> n \<and> n \<le> 57 then Some (n - 48)
     else if 97 \<le> n \<and> n \<le> 102 then Some (n - 87) else None)"

fun hex_read :: "nat \<Rightarrow> bytes \<Rightarrow> nat option" where
  "hex_read acc [] = Some acc"
| "hex_read acc (c # cs) = (case hex_value c of None \<Rightarrow> None | Some d \<Rightarrow> hex_read (16 * acc + d) cs)"

lemma unat_byte_of_nat: "n < 256 \<Longrightarrow> unat (word_of_nat n :: byte) = n"
  by (simp add: unat_of_nat)

lemma hex_value_digit: "d < 16 \<Longrightarrow> hex_value (hex_digit d) = Some d"
  using unat_byte_of_nat [of "48 + d"] unat_byte_of_nat [of "87 + d"]
  by (auto simp: hex_value_def hex_digit_def Let_def simp del: of_nat_add)

lemma hex_read_append:
  "hex_read acc (xs @ ys) = (case hex_read acc xs of None \<Rightarrow> None | Some a \<Rightarrow> hex_read a ys)"
  by (induction xs arbitrary: acc) (auto split: option.splits)

lemma hex_read_ToHexString: "hex_read 0 (ToHexString n) = Some n"
proof (induction n rule: ToHexString.induct)
  case (1 n)
  show ?case
  proof (cases "n < 16")
    case True
    then show ?thesis by (subst ToHexString.simps) (simp add: hex_value_digit)
  next
    case False
    with 1 have "hex_read 0 (ToHexString (n div 16)) = Some (n div 16)" by simp
    with False show ?thesis
      by (subst ToHexString.simps) (simp add: hex_read_append hex_value_digit)
  qed
qed

lemma ToHexString_nonempty: "ToHexString n \<noteq> []"
  by (subst ToHexString.simps) simp

lemma hex_digit_not_CR: "d < 16 \<Longrightarrow> hex_digit d \<noteq> CR"
proof
  assume d: "d < 16" and "hex_digit d = CR"
  then have "hex_value CR = Some d" using hex_value_digit [OF d] by simp
  then show False by (simp add: hex_value_def)
qed

lemma ToHexString_no_CR: "CR \<notin> set (ToHexString n)"
proof (induction n rule: ToHexString.induct)
  case (1 n)
  then show ?case by (subst ToHexString.simps) (auto simp: hex_digit_not_CR dest: sym)
qed

lemma ToHexString_length: "n < 16 ^ k \<Longrightarrow> 0 < k \<Longrightarrow> length (ToHexString n) \<le> k"
proof (induction k arbitrary: n)
  case 0
  then show ?case by simp
next
  case (Suc k)
  show ?case
  proof (cases "n < 16")
    case True
    then show ?thesis by (subst ToHexString.simps) simp
  next
    case False
    then have "k \<noteq> 0" using Suc.prems by (cases k) auto
    moreover have "n div 16 < 16 ^ k" using Suc.prems by (simp add: less_mult_imp_div_less mult.commute)
    ultimately have "length (ToHexString (n div 16)) \<le> k" using Suc.IH by simp
    with False show ?thesis by (subst ToHexString.simps) simp
  qed
qed

section \<open>Chunked transfer coding\<close>

text \<open>One chunk as the server writes it: length in hex, CRLF, payload, CRLF.\<close>

definition http_chunk :: "bytes \<Rightarrow> bytes" where
  "http_chunk payload = ToHexStringWithCrlf (length payload) @ payload @ [CR, LF]"

text \<open>
  A reference decoder for one chunk, from the grammar of RFC 7230: the payload and what
  follows; \<open>None\<close> for the last chunk (length zero), an incomplete one or bad syntax.
\<close>

definition http_dechunk :: "bytes \<Rightarrow> (bytes \<times> bytes) option" where
  "http_dechunk bs =
     (let ds = takeWhile (\<lambda>c. c \<noteq> CR) bs; rest = drop (length ds) bs in
      if ds = [] \<or> take 2 rest \<noteq> [CR, LF] then None
      else case hex_read 0 ds of
        None \<Rightarrow> None
      | Some n \<Rightarrow>
          (let body = drop 2 rest in
           if n = 0 \<or> length body < n + 2 \<or> take 2 (drop n body) \<noteq> [CR, LF] then None
           else Some (take n body, drop (n + 2) body)))"

lemma http_dechunk_chunk:
  assumes "payload \<noteq> []"
  shows "http_dechunk (http_chunk payload @ rest) = Some (payload, rest)"
proof -
  let ?h = "ToHexString (length payload)"
  have tw: "takeWhile (\<lambda>c. c \<noteq> CR) (?h @ CR # xs) = ?h" for xs
    using ToHexString_no_CR [of "length payload"] by simp
  show ?thesis
    using assms by (simp add: http_chunk_def ToHexStringWithCrlf_def http_dechunk_def tw
      ToHexString_nonempty hex_read_ToHexString)
qed

interpretation chunk: prefix_code http_chunk http_dechunk "\<lambda>p. p \<noteq> []"
  by unfold_locales (simp_all add: http_dechunk_chunk, simp add: http_dechunk_def)

section \<open>Paths of requests and URLs\<close>

lemma npos_gt: "n \<le> max_size \<Longrightarrow> n < npos"
  by (simp add: npos_def max_size_def size_mod_def)

lemma str_find_at:
  "c \<notin> set xs \<Longrightarrow> str_find c (pre @ xs @ c # ys) (length pre) = length pre + length xs"
  by (simp add: str_find_def)

lemma str_find_first: "c \<notin> set xs \<Longrightarrow> str_find c (xs @ c # ys) 0 = length xs"
  using str_find_at [of c xs "[]"] by simp

lemma str_find_none: "c \<notin> set (drop pos s) \<Longrightarrow> str_find c s pos = npos"
  by (cases "pos \<le> length s") (simp_all add: str_find_def Let_def)

lemma find_sub_slashes:
  "SLASH \<notin> set xs \<Longrightarrow> find_sub [SLASH, SLASH] (xs @ SLASH # SLASH # ys) = Some (length xs)"
  by (induction xs) (auto simp: neq_Nil_conv)

lemma str_find_last_of_snoc: "str_find_last_of c (xs @ [c]) = length xs"
  by (simp add: str_find_last_of_def)

lemma str_find_last_of_other:
  assumes "xs \<noteq> []" "last xs \<noteq> c" "length xs \<le> max_size"
  shows "str_find_last_of c xs \<noteq> length xs - 1"
proof (cases "c \<in> set xs")
  case True
  obtain ys y where xs: "xs = ys @ [y]" using assms(1) by (metis rev_exhaust)
  with assms(2) True have "c \<in> set ys" by auto
  then have "ys \<noteq> []" by auto
  with xs assms(2) True show ?thesis by (cases ys) (auto simp: str_find_last_of_def)
next
  case False
  have "length xs - 1 < npos" using npos_gt [of "length xs - 1"] assms(3) by linarith
  with False show ?thesis by (simp add: str_find_last_of_def)
qed

text \<open>The path without the slash a client may put behind it.\<close>

definition strip_slash :: "bytes \<Rightarrow> bytes" where
  "strip_slash p = (if p \<noteq> [] \<and> last p = SLASH then butlast p else p)"

text \<open>
  For a request line \<open>METHOD /path VERSION\<close> with a path that is not empty,
  \<^verbatim>\<open>GetUrl\<close> returns the path, without a trailing slash, as the comment in
  \<^verbatim>\<open>Format.h\<close> promises.
\<close>

lemma GetUrl_of_request:
  assumes "SPACE \<notin> set m" "SPACE \<notin> set p" "p \<noteq> []"
    and "length m + length p + length rest + 3 \<le> max_size"
  shows "GetUrl (m @ SPACE # SLASH # p @ SPACE # rest) = Inr (strip_slash p)"
proof -
  let ?s = "m @ SPACE # SLASH # p @ SPACE # rest"
  have b: "size_add (str_find SPACE ?s 0) 1 = length m + 1"
    using assms by (simp add: str_find_first size_simps)
  have "str_find SPACE ((m @ [SPACE]) @ (SLASH # p) @ SPACE # rest) (length (m @ [SPACE]))
      = length (m @ [SPACE]) + length (SLASH # p)"
    by (rule str_find_at) (use assms in auto)
  then have e: "str_find SPACE ?s (length m + 1) = length m + 2 + length p" by simp
  obtain q l where p: "p = q @ [l]" using assms(3) by (metis rev_exhaust)
  have le: "length m + 2 + length p \<le> max_size" using assms(4) by linarith
  have sub: "size_sub (length m + 2 + length p) 1 = length m + 1 + length p"
    using le by (simp add: size_simps)
  have at: "str_at ?s (length m + 1 + length p) = Inr l"
    by (simp add: str_at_def p nth_append)
  have add: "size_add (length m + 1) 1 = length m + 2" using le by (simp add: size_simps)
  have n1: "size_sub (size_sub (length m + 1 + length p) (length m + 1)) 1 = length q"
    using le p by (simp add: size_sub_le_max)
  have n2: "size_sub (size_sub (length m + 2 + length p) (length m + 1)) 1 = length p"
    using le p by (simp add: size_sub_le_max)
  show ?thesis
    by (simp only: GetUrl_def Let_def b e sub at ebind_simps add)
      (cases "l = SLASH", use p n1 n2 in \<open>auto simp: str_substr_def strip_slash_def\<close>)
qed

text \<open>
  A request with fewer than two blanks makes \<^verbatim>\<open>GetUrl\<close> read the string at
  \<^verbatim>\<open>npos - 1\<close>, far outside it: the caller checks nothing before.
\<close>

lemma GetUrl_malformed:
  assumes "count_list s SPACE < 2" "length s \<le> max_size"
  shows "GetUrl s = Inl OutOfBounds"
proof -
  have far: "str_at s (size_sub npos 1) = Inl OutOfBounds"
    using assms(2) by (simp add: str_at_def npos_def size_sub_def size_mod_def max_size_def)
  have wrap: "size_add npos 1 = 0" by (simp add: npos_def size_add_def size_mod_def)
  show ?thesis
  proof (cases "SPACE \<in> set s")
    case False
    then have "str_find SPACE s 0 = npos" by (simp add: str_find_none)
    then show ?thesis by (simp add: GetUrl_def Let_def wrap far del: One_nat_def)
  next
    case True
    then obtain xs ys where s: "s = xs @ SPACE # ys" "SPACE \<notin> set xs"
      by (meson split_list_first)
    then have ys: "SPACE \<notin> set ys" using assms(1) by (simp add: count_list_append count_notin) (metis count_list_0_iff)
    have "size_add (str_find SPACE s 0) 1 = length xs + 1"
      using s assms(2) by (simp add: str_find_first size_simps)
    moreover have "str_find SPACE s (length xs + 1) = npos"
      using s ys by (intro str_find_none) simp
    ultimately show ?thesis by (simp add: GetUrl_def Let_def far del: One_nat_def)
  qed
qed

text \<open>What \<^verbatim>\<open>GetPathFromUrl\<close> does with the part of the URL behind the host.\<close>

lemma path_behind_slash:
  assumes "length p + 1 \<le> max_size"
  shows "(let path_len = length (SLASH # p);
        path_len = (if str_find_last_of SLASH (SLASH # p) = size_sub (length (SLASH # p)) 1
                    then size_sub path_len 1 else path_len) in
      str_substr (SLASH # p) 1 (size_sub path_len 1)) = Inr (strip_slash p)"
proof (cases "p = []")
  case True
  then show ?thesis by (simp add: str_find_last_of_def str_substr_def strip_slash_def Let_def size_sub_def size_mod_def)
next
  case False
  then obtain q l where p: "p = q @ [l]" by (metis rev_exhaust)
  have le: "length p + 1 \<le> max_size" by (rule assms)
  have len: "size_sub (length (SLASH # p)) 1 = length p" using le by (simp add: size_simps)
  have le1: "Suc (length q) \<le> max_size" using le p by simp
  show ?thesis
  proof (cases "l = SLASH")
    case True
    then have last: "str_find_last_of SLASH (SLASH # p) = length p"
      using str_find_last_of_snoc [of SLASH "SLASH # q"] p by simp
    have "size_sub (length p) 1 = length q" using le1 p by (simp add: size_sub_le_max)
    with last len p True show ?thesis
      by (simp only: Let_def) (simp add: str_substr_def strip_slash_def)
  next
    case False
    have "str_find_last_of SLASH (SLASH # p) \<noteq> length (SLASH # p) - 1"
      by (rule str_find_last_of_other) (use p False le in auto)
    with len p False show ?thesis
      by (simp only: Let_def) (simp add: str_substr_def strip_slash_def)
  qed
qed

lemma GetPathFromUrl_of_url:
  assumes "SLASH \<notin> set sch" "SLASH \<notin> set host"
    and "length sch + length host + length p + 3 \<le> max_size"
  shows "GetPathFromUrl (sch @ [SLASH, SLASH] @ host @ SLASH # p) = Inr (strip_slash p) \<and>
    GetPathFromUrl (sch @ [SLASH, SLASH] @ host) = Inl OutOfRange"
proof -
  have idx: "str_find_str [SLASH, SLASH] (sch @ [SLASH, SLASH] @ t) = length sch" for t
    using find_sub_slashes [OF assms(1), of t] by (simp add: str_find_str_def)
  have i2: "size_add (length sch) 2 = length (sch @ [SLASH, SLASH])"
    using assms(3) by (simp add: size_simps)
  have f: "str_find SLASH ((sch @ [SLASH, SLASH]) @ host @ SLASH # p) (length (sch @ [SLASH, SLASH]))
      = length sch + 2 + length host"
    using str_find_at [OF assms(2), of "sch @ [SLASH, SLASH]" p] by simp
  have path: "str_substr ((sch @ [SLASH, SLASH]) @ host @ SLASH # p) (length sch + 2 + length host) npos
      = Inr (SLASH # p)"
    using npos_gt [of "Suc (length p)"] assms(3) by (simp add: str_substr_def)
  have rest: "(let path_len = length (SLASH # p);
        path_len = (if str_find_last_of SLASH (SLASH # p) = size_sub (length (SLASH # p)) 1
                    then size_sub path_len 1 else path_len) in
      str_substr (SLASH # p) 1 (size_sub path_len 1)) = Inr (strip_slash p)"
    by (rule path_behind_slash) (use assms(3) in simp)
  have "GetPathFromUrl (sch @ [SLASH, SLASH] @ host @ SLASH # p) = Inr (strip_slash p)"
    using rest f path idx [of "host @ SLASH # p"]
    by (simp only: GetPathFromUrl_def Let_def i2 append_assoc ebind_simps)
  moreover have f2: "str_find SLASH (sch @ [SLASH, SLASH] @ host) (length (sch @ [SLASH, SLASH])) = npos"
    by (rule str_find_none) (simp add: assms(2))
  moreover have lt: "length (sch @ [SLASH, SLASH] @ host) < npos"
    by (rule npos_gt) (use assms(3) in simp)
  moreover have "GetPathFromUrl (sch @ [SLASH, SLASH] @ host) = Inl OutOfRange"
    using lt by (simp only: GetPathFromUrl_def Let_def idx i2 f2 str_substr_def if_True ebind_simps)
  ultimately show ?thesis by simp
qed

text \<open>
  \<^verbatim>\<open>GetPathFromUrl\<close> takes the path behind the host of \<open>scheme://host/path\<close>, without
  a trailing slash, and throws \<^verbatim>\<open>std::out_of_range\<close> for a URL with nothing behind the
  host: the two cases of a URL whose scheme and host hold no slash.
\<close>

lemma GetPathFromUrl_spec:
  assumes "SLASH \<notin> set sch" "SLASH \<notin> set host"
    and "length sch + length host + length p + 3 \<le> max_size"
  shows "GetPathFromUrl (sch @ [SLASH, SLASH] @ host @ SLASH # p) = Inr (strip_slash p) \<and>
    GetPathFromUrl (sch @ [SLASH, SLASH] @ host) = Inl OutOfRange"
  by (rule GetPathFromUrl_of_url [OF assms])

end
