(* ===== verification/Fifo.thy ===== *)
theory Fifo
  imports Prelude
begin

text \<open>
  The contract of a byte queue, as its clients use it: bytes are appended behind the
  pending ones and consumed from the front, and an append fails only for lack of
  memory. The locale \<open>byte_fifo\<close> states the laws; what follows from them is proved
  once: appending a list of pieces is appending their concatenation, and over any
  interleaving of appends and reads no byte is lost, duplicated or reordered.
\<close>

fun append_all :: "(bytes \<Rightarrow> 'b \<Rightarrow> 'b result) \<Rightarrow> bytes list \<Rightarrow> 'b \<Rightarrow> 'b result" where
  "append_all app [] b = Inr b"
| "append_all app (xs # xss) b = ebind (app xs b) (append_all app xss)"

datatype fifo_op = Put bytes | Take nat

fun puts :: "fifo_op list \<Rightarrow> bytes list" where
  "puts [] = []"
| "puts (Put xs # ops) = xs # puts ops"
| "puts (Take n # ops) = puts ops"

text \<open>A run of a queue: the bytes taken, in order, and the queue left.\<close>

fun fifo_run :: "(bytes \<Rightarrow> 'b \<Rightarrow> 'b result) \<Rightarrow> (nat \<Rightarrow> 'b \<Rightarrow> (bytes \<times> 'b) result) \<Rightarrow>
    fifo_op list \<Rightarrow> 'b \<Rightarrow> (bytes \<times> 'b) result" where
  "fifo_run app tk [] b = Inr ([], b)"
| "fifo_run app tk (Put xs # ops) b = ebind (app xs b) (fifo_run app tk ops)"
| "fifo_run app tk (Take n # ops) b = ebind (tk n b) (\<lambda>(ys, b).
     ebind (fifo_run app tk ops b) (\<lambda>(zs, b). Inr (ys @ zs, b)))"

text \<open>The specification: the same operations on a list of bytes.\<close>

fun queue_run :: "fifo_op list \<Rightarrow> bytes \<Rightarrow> bytes \<times> bytes" where
  "queue_run [] q = ([], q)"
| "queue_run (Put xs # ops) q = queue_run ops (q @ xs)"
| "queue_run (Take n # ops) q = (let (out, q') = queue_run ops (drop n q) in (take n q @ out, q'))"

lemma queue_run_conserves: "queue_run ops q = (out, q') \<Longrightarrow> out @ q' = q @ concat (puts ops)"
proof (induction ops q arbitrary: out q' rule: queue_run.induct)
  case (3 n ops q)
  then obtain out2 where "queue_run ops (drop n q) = (out2, q')" "out = take n q @ out2" by (auto split: prod.splits)
  with 3(1) show ?case by simp
qed auto

locale byte_fifo =
  fixes ok :: "'b \<Rightarrow> bool"
    and contents :: "'b \<Rightarrow> bytes"
    and append :: "bytes \<Rightarrow> 'b \<Rightarrow> 'b result"
    and take_front :: "nat \<Rightarrow> 'b \<Rightarrow> (bytes \<times> 'b) result"
    and capacity :: nat
  assumes append_law: "ok b \<Longrightarrow> length (contents b) + length xs \<le> capacity \<Longrightarrow>
      holds (\<lambda>b'. ok b' \<and> contents b' = contents b @ xs) (append xs b)"
    and append_safe: "ok b \<Longrightarrow> length xs \<le> capacity \<Longrightarrow> append xs b = Inl LengthError \<or>
      holds (\<lambda>b'. ok b' \<and> contents b' = contents b @ xs) (append xs b)"
    and take_law: "ok b \<Longrightarrow>
      \<exists>b'. take_front n b = Inr (take n (contents b), b') \<and> ok b' \<and> contents b' = drop n (contents b)"
begin

lemma append_Inr:
  assumes "ok b" "length xs \<le> capacity" "append xs b = Inr b'"
  shows "ok b' \<and> contents b' = contents b @ xs"
  using append_safe [OF assms(1,2)] assms(3) by simp

lemma append_all_ok:
  "ok b \<Longrightarrow> length (contents b) + length (concat xss) \<le> capacity \<Longrightarrow>
   holds (\<lambda>b'. ok b' \<and> contents b' = contents b @ concat xss) (append_all append xss b)"
proof (induction xss arbitrary: b)
  case Nil
  then show ?case by simp
next
  case (Cons xs xss)
  have "holds (\<lambda>b'. ok b' \<and> contents b' = contents b @ xs) (append xs b)"
    by (rule append_law) (use Cons.prems in auto)
  then obtain c where c: "append xs b = Inr c" "ok c" "contents c = contents b @ xs"
    by (auto simp: holds_def)
  have "holds (\<lambda>b'. ok b' \<and> contents b' = contents c @ concat xss) (append_all append xss c)"
    by (rule Cons.IH) (use Cons.prems c in auto)
  then show ?case using c by simp
qed

text \<open>A run does what the specification does, or stops for lack of memory.\<close>

lemma run_refines:
  "ok b \<Longrightarrow> \<forall>xs \<in> set (puts ops). length xs \<le> capacity \<Longrightarrow>
   safe (capacity < length (contents b) + length (concat (puts ops)))
     (\<lambda>(out, b'). ok b' \<and> queue_run ops (contents b) = (out, contents b')) (fifo_run append take_front ops b)"
proof (induction ops arbitrary: b)
  case Nil
  then show ?case by simp
next
  case (Cons x ops)
  show ?case
  proof (cases x)
    case (Put xs)
    let ?f = "capacity < length (contents b) + length (concat (puts (Put xs # ops)))"
    have "safe ?f (\<lambda>c. ok c \<and> contents c = contents b @ xs) (append xs b)"
      using append_law [OF Cons.prems(1), of xs] append_safe [OF Cons.prems(1), of xs] Cons.prems(2) Put
      by (cases ?f) (auto simp: safe_def)
    then show ?thesis unfolding Put fifo_run.simps
    proof (rule safe_ebind)
      fix c
      assume c: "ok c \<and> contents c = contents b @ xs"
      with Cons.IH [of c] Cons.prems(2) Put
      show "safe ?f (\<lambda>(out, b'). ok b' \<and> queue_run (Put xs # ops) (contents b) = (out, contents b')) (fifo_run append take_front ops c)"
        by (simp add: add.assoc)
    qed
  next
    case (Take n)
    obtain c where c: "take_front n b = Inr (take n (contents b), c)" "ok c" "contents c = drop n (contents b)"
      using take_law [OF Cons.prems(1)] by blast
    have "safe (capacity < length (contents c) + length (concat (puts ops)))
        (\<lambda>(out, b'). ok b' \<and> queue_run ops (contents c) = (out, contents b')) (fifo_run append take_front ops c)"
      by (rule Cons.IH [OF c(2)]) (use Cons.prems(2) Take in simp)
    moreover have "capacity < length (contents c) + length (concat (puts ops)) \<Longrightarrow>
        capacity < length (contents b) + length (concat (puts ops))" by (simp add: c(3))
    ultimately show ?thesis using c(3) by (cases "fifo_run append take_front ops c") (auto simp: Take c(1) safe_def)
  qed
qed

end

end
