(* ===== verification/Buffer.thy ===== *)
theory Buffer
  imports Fifo
begin

text \<open>
  \<^verbatim>\<open>utils/Buffer.{h,cpp}\<close>: the growable byte buffer every connection, FLV tag and RTMP
  message is held in. The record has the class's five fields; a read or write outside
  the vector is the fault \<open>OutOfBounds\<close>, growing the vector past \<open>max_size()\<close> is
  \<open>LengthError\<close>. \<open>readable\<close> is the abstraction: the unread bytes, in order. The
  lemmas give every operation on it, and the locale \<open>byte_fifo\<close> states the contract
  the other components rely on: appending and consuming act on \<open>readable\<close> as on a
  queue of bytes.
\<close>

section \<open>State\<close>

definition DEFAULT_BUFFER_SIZE :: nat where
  "DEFAULT_BUFFER_SIZE = 4096"

definition IDX_BEGIN :: nat where
  "IDX_BEGIN = 8"

record buffer =
  buf_data :: bytes
  read_idx :: nat
  write_idx :: nat
  sum_read :: nat
  sum_write :: nat

section \<open>Operations\<close>

definition Buffer_sized :: "nat \<Rightarrow> buffer" where
  "Buffer_sized n = \<lparr>buf_data = replicate (n + IDX_BEGIN) 0, read_idx = IDX_BEGIN,
     write_idx = IDX_BEGIN, sum_read = 0, sum_write = 0\<rparr>"

definition Buffer_new :: buffer where
  "Buffer_new = Buffer_sized DEFAULT_BUFFER_SIZE"

definition ReadableLength :: "buffer \<Rightarrow> nat" where
  "ReadableLength b = size_sub (write_idx b) (read_idx b)"

definition WritableLength :: "buffer \<Rightarrow> nat" where
  "WritableLength b = size_sub (length (buf_data b)) (write_idx b)"

definition AddWriteIndex :: "nat \<Rightarrow> buffer \<Rightarrow> buffer" where
  "AddWriteIndex i b = b\<lparr>sum_write := size_add (sum_write b) i, write_idx := size_add (write_idx b) i\<rparr>"

definition AddReadIndex :: "nat \<Rightarrow> buffer \<Rightarrow> buffer" where
  "AddReadIndex i b =
     (if i > ReadableLength b then
        b\<lparr>sum_read := size_add (sum_read b) (ReadableLength b),
          read_idx := size_add (read_idx b) (ReadableLength b)\<rparr>
      else
        b\<lparr>sum_read := size_add (sum_read b) i, read_idx := size_add (read_idx b) i\<rparr>)"

text \<open>
  \<open>ReadBegin()\<close> and \<open>WriteBegin()\<close> are pointers into the vector. What the callers do
  with them is: read \<open>n\<close> bytes at \<open>ReadBegin() + off\<close>, and copy bytes to
  \<open>WriteBegin()\<close>; both stay inside the vector or are undefined.
\<close>

definition ReadBegin_at :: "buffer \<Rightarrow> nat \<Rightarrow> nat \<Rightarrow> bytes result" where
  "ReadBegin_at b off n =
     (if read_idx b + off + n \<le> length (buf_data b)
      then Inr (take n (drop (read_idx b + off) (buf_data b))) else Inl OutOfBounds)"

definition WriteBegin_put :: "bytes \<Rightarrow> buffer \<Rightarrow> buffer result" where
  "WriteBegin_put xs b =
     (if write_idx b + length xs \<le> length (buf_data b)
      then Inr (b\<lparr>buf_data := overwrite (write_idx b) xs (buf_data b)\<rparr>) else Inl OutOfBounds)"

definition AdjustBuffer :: "buffer \<Rightarrow> buffer result" where
  "AdjustBuffer b =
     (let readable_length = ReadableLength b in
      if read_idx b \<le> write_idx b \<and> write_idx b \<le> length (buf_data b)
         \<and> IDX_BEGIN + (write_idx b - read_idx b) \<le> length (buf_data b)
      then Inr (b\<lparr>buf_data := overwrite IDX_BEGIN
                    (take (write_idx b - read_idx b) (drop (read_idx b) (buf_data b))) (buf_data b),
                  read_idx := IDX_BEGIN,
                  write_idx := size_add IDX_BEGIN readable_length\<rparr>)
      else Inl OutOfBounds)"

definition Buffer_Reset :: "buffer \<Rightarrow> buffer" where
  "Buffer_Reset b = b\<lparr>read_idx := IDX_BEGIN, write_idx := IDX_BEGIN, sum_read := 0, sum_write := 0\<rparr>"

definition ReSize :: "nat \<Rightarrow> buffer \<Rightarrow> buffer result" where
  "ReSize new_size b =
     (let n = size_add new_size IDX_BEGIN in
      if n > max_size then Inl LengthError
      else Inr (b\<lparr>buf_data := take n (buf_data b) @ replicate (n - length (buf_data b)) 0\<rparr>))"

definition GetSumRead :: "buffer \<Rightarrow> nat" where
  "GetSumRead b = sum_read b"

definition GetSumWrite :: "buffer \<Rightarrow> nat" where
  "GetSumWrite b = sum_write b"

text \<open>
  \<open>AppendData(const char*, size_t)\<close> with the bytes its caller's range holds. The
  overload for a \<open>std::string\<close> passes the string's own bytes; the one for a
  \<open>Buffer\<close> passes that buffer's readable range and returns its length.
\<close>

definition AppendData :: "bytes \<Rightarrow> buffer \<Rightarrow> buffer result" where
  "AppendData xs b =
     ebind (AdjustBuffer b) (\<lambda>b.
     ebind (if length xs > WritableLength b
            then ReSize (size_add (length (buf_data b)) (size_sub (length xs) (WritableLength b))) b
            else Inr b) (\<lambda>b.
     ebind (WriteBegin_put xs b) (\<lambda>b.
     Inr (AddWriteIndex (length xs) b))))"

definition AppendBuffer :: "buffer \<Rightarrow> buffer \<Rightarrow> (nat \<times> buffer) result" where
  "AppendBuffer src b =
     ebind (ReadBegin_at src 0 (ReadableLength src)) (\<lambda>xs.
     ebind (AppendData xs b) (\<lambda>b. Inr (ReadableLength src, b)))"

definition ReadAllAsString :: "buffer \<Rightarrow> (bytes \<times> buffer) result" where
  "ReadAllAsString b =
     ebind (ReadBegin_at b 0 (ReadableLength b)) (\<lambda>s.
     Inr (s, AddReadIndex (ReadableLength b) b))"

definition DropAllData :: "buffer \<Rightarrow> buffer" where
  "DropAllData b = AddReadIndex (ReadableLength b) b"

text \<open>
  \<open>read(2)\<close> is the kernel's: \<open>sys_read n\<close> is what it does with room for \<open>n\<close> bytes,
  \<open>None\<close> for its error return \<open>-1\<close>, otherwise the bytes it stores.
\<close>

definition ReadFromSockfd :: "(nat \<Rightarrow> bytes option) \<Rightarrow> buffer \<Rightarrow> (int \<times> buffer) result" where
  "ReadFromSockfd sys_read b =
     ebind (AdjustBuffer b) (\<lambda>b.
     case sys_read (WritableLength b) of
       None \<Rightarrow> Inr (-1, b)
     | Some xs \<Rightarrow>
         ebind (WriteBegin_put xs b) (\<lambda>b.
         if xs = [] then Inr (0, b)
         else Inr (int (length xs), AddWriteIndex (length xs) b)))"

definition ReadFromSockfdAndDrop :: "(nat \<Rightarrow> bytes option) \<Rightarrow> buffer \<Rightarrow> (int \<times> buffer) result" where
  "ReadFromSockfdAndDrop sys_read b =
     ebind (AdjustBuffer b) (\<lambda>b.
     case sys_read (WritableLength b) of
       None \<Rightarrow> Inr (-1, b)
     | Some xs \<Rightarrow> ebind (WriteBegin_put xs b) (\<lambda>b. Inr (int (length xs), b)))"

definition AppendString :: "bytes \<Rightarrow> buffer \<Rightarrow> buffer result" where
  "AppendString data b = AppendData data b"

definition Buffer_Swap :: "nat \<times> nat \<Rightarrow> nat \<times> nat" where
  "Buffer_Swap = (\<lambda>(lhs, rhs). (rhs, lhs))"

text \<open>\<open>this->SwapBuffer(other)\<close>: all five fields change places.\<close>

definition SwapBuffer :: "buffer \<Rightarrow> buffer \<Rightarrow> buffer \<times> buffer" where
  "SwapBuffer this other =
     (\<lparr>buf_data = buf_data other, read_idx = read_idx other, write_idx = write_idx other,
       sum_read = sum_read other, sum_write = sum_write other\<rparr>,
      \<lparr>buf_data = buf_data this, read_idx = read_idx this, write_idx = write_idx this,
       sum_read = sum_read this, sum_write = sum_write this\<rparr>)"

section \<open>Invariant and abstraction\<close>

definition buf_ok :: "buffer \<Rightarrow> bool" where
  "buf_ok b \<longleftrightarrow> IDX_BEGIN \<le> read_idx b \<and> read_idx b \<le> write_idx b
     \<and> write_idx b \<le> length (buf_data b) \<and> length (buf_data b) \<le> max_size"

definition readable :: "buffer \<Rightarrow> bytes" where
  "readable b = take (write_idx b - read_idx b) (drop (read_idx b) (buf_data b))"

text \<open>Room for \<open>n\<close> more bytes before the vector reaches \<open>max_size()\<close>.\<close>

definition fits :: "nat \<Rightarrow> buffer \<Rightarrow> bool" where
  "fits n b \<longleftrightarrow> length (readable b) + n + 2 * IDX_BEGIN \<le> max_size"

lemma IDX_BEGIN_eq [simp]: "IDX_BEGIN = 8"
  by (simp add: IDX_BEGIN_def)

lemma buf_okD:
  assumes "buf_ok b"
  shows "8 \<le> read_idx b" "read_idx b \<le> write_idx b" "write_idx b \<le> length (buf_data b)"
    "length (buf_data b) \<le> max_size" "write_idx b \<le> max_size" "read_idx b \<le> max_size"
  using assms by (auto simp: buf_ok_def)

lemma ReadableLength_eq: "buf_ok b \<Longrightarrow> ReadableLength b = write_idx b - read_idx b"
  by (simp add: ReadableLength_def size_simps buf_okD)

lemma length_readable [simp]: "buf_ok b \<Longrightarrow> length (readable b) = ReadableLength b"
  by (auto simp: readable_def ReadableLength_eq buf_ok_def)

lemma WritableLength_eq: "buf_ok b \<Longrightarrow> WritableLength b = length (buf_data b) - write_idx b"
  by (simp add: WritableLength_def size_simps buf_okD)

lemma ReadableLength_le: "buf_ok b \<Longrightarrow> ReadableLength b \<le> max_size"
  using buf_okD(5) [of b] by (simp add: ReadableLength_eq)

lemma Buffer_sized_ok: "n + 8 \<le> max_size \<Longrightarrow> buf_ok (Buffer_sized n)"
  by (simp add: buf_ok_def Buffer_sized_def)

lemma readable_Buffer_sized [simp]: "readable (Buffer_sized n) = []"
  by (simp add: readable_def Buffer_sized_def)

lemma Buffer_new_ok [simp]: "buf_ok Buffer_new"
  unfolding Buffer_new_def by (rule Buffer_sized_ok) (simp add: DEFAULT_BUFFER_SIZE_def max_size_def)

lemma readable_Buffer_new [simp]: "readable Buffer_new = []"
  by (simp add: Buffer_new_def)

lemma ReadableLength_Buffer_new [simp]: "ReadableLength Buffer_new = 0"
  using length_readable [OF Buffer_new_ok] by simp

section \<open>Every operation on the readable bytes\<close>

lemma readable_alt: "readable b = drop (read_idx b) (take (write_idx b) (buf_data b))"
  by (simp add: readable_def drop_take)

lemma readable_prefix:
  "buf_ok b \<Longrightarrow> n \<le> ReadableLength b \<Longrightarrow> ReadBegin_at b 0 n = Inr (take n (readable b))"
  by (auto simp: ReadBegin_at_def readable_def ReadableLength_eq buf_ok_def min_def)

lemma ReadBegin_all: "buf_ok b \<Longrightarrow> ReadBegin_at b 0 (ReadableLength b) = Inr (readable b)"
  by (simp add: readable_prefix)

lemma AddReadIndex_fields [simp]:
  "buf_data (AddReadIndex n b) = buf_data b" "write_idx (AddReadIndex n b) = write_idx b"
  "sum_write (AddReadIndex n b) = sum_write b"
  by (simp_all add: AddReadIndex_def)

lemma read_idx_AddReadIndex:
  "buf_ok b \<Longrightarrow> read_idx (AddReadIndex n b) = read_idx b + min n (ReadableLength b)"
  using buf_okD [of b] by (auto simp: AddReadIndex_def ReadableLength_eq size_simps min_def)

lemma AddReadIndex_ok [simp]: "buf_ok b \<Longrightarrow> buf_ok (AddReadIndex n b)"
  using buf_okD [of b]
  by (simp add: buf_ok_def [of "AddReadIndex n b"] read_idx_AddReadIndex ReadableLength_eq)

lemma readable_AddReadIndex [simp]: "buf_ok b \<Longrightarrow> readable (AddReadIndex n b) = drop n (readable b)"
  by (cases "n \<le> write_idx b - read_idx b")
    (auto simp: readable_def read_idx_AddReadIndex ReadableLength_eq drop_take min_def add.commute)

lemma ReadableLength_AddReadIndex [simp]:
  "buf_ok b \<Longrightarrow> ReadableLength (AddReadIndex n b) = ReadableLength b - n"
  using length_readable [of "AddReadIndex n b"] length_readable [of b] by simp

lemma DropAllData_readable: "buf_ok b \<Longrightarrow> readable (DropAllData b) = []"
  by (simp add: DropAllData_def)

lemma ReadAllAsString_eq:
  "buf_ok b \<Longrightarrow> ReadAllAsString b = Inr (readable b, AddReadIndex (ReadableLength b) b)"
  by (simp add: ReadAllAsString_def ReadBegin_all)

lemma Buffer_Reset_ok:
  "buf_ok b \<Longrightarrow> buf_ok (Buffer_Reset b) \<and> readable (Buffer_Reset b) = []"
  by (auto simp: buf_ok_def Buffer_Reset_def readable_def)

lemma AdjustBuffer_ok:
  assumes "buf_ok b"
  obtains b' where "AdjustBuffer b = Inr b'" "buf_ok b'" "readable b' = readable b"
    "read_idx b' = 8" "write_idx b' = 8 + ReadableLength b"
    "length (buf_data b') = length (buf_data b)"
    "sum_read b' = sum_read b" "sum_write b' = sum_write b"
proof -
  note ok = buf_okD [OF assms]
  let ?r = "take (write_idx b - read_idx b) (drop (read_idx b) (buf_data b))"
  have len: "length ?r = write_idx b - read_idx b" using ok by simp
  have wr: "size_add 8 (ReadableLength b) = 8 + ReadableLength b"
    using ok by (simp add: size_simps ReadableLength_eq assms)
  have le: "8 + length ?r \<le> length (buf_data b)" using ok len by linarith
  define b' where "b' = b\<lparr>buf_data := overwrite 8 ?r (buf_data b), read_idx := 8,
    write_idx := 8 + ReadableLength b\<rparr>"
  have "AdjustBuffer b = Inr b'"
    using ok le len by (simp add: AdjustBuffer_def Let_def wr b'_def)
  moreover have "buf_ok b'"
    using ok le len by (simp add: buf_ok_def b'_def ReadableLength_eq assms)
  moreover have "readable b' = readable b"
    using slice_overwrite [of 8 "buf_data b" ?r] le len
    by (simp add: readable_def b'_def ReadableLength_eq assms)
  ultimately show ?thesis
    using that [of b'] le by (simp add: b'_def)
qed

lemma AddWriteIndex_fields [simp]:
  "buf_data (AddWriteIndex n b) = buf_data b" "read_idx (AddWriteIndex n b) = read_idx b"
  "sum_read (AddWriteIndex n b) = sum_read b"
  by (simp_all add: AddWriteIndex_def)

text \<open>Copying bytes behind the readable ones and moving the write index over them.\<close>

lemma put_then_advance:
  assumes "buf_ok b" "write_idx b + length xs \<le> length (buf_data b)"
  obtains b' where "WriteBegin_put xs b = Inr b'" "buf_ok b'" "readable b' = readable b"
    "buf_ok (AddWriteIndex (length xs) b')"
    "readable (AddWriteIndex (length xs) b') = readable b @ xs"
    "write_idx b' = write_idx b" "length (buf_data b') = length (buf_data b)"
    "sum_write b' = sum_write b" "sum_read b' = sum_read b" "read_idx b' = read_idx b"
proof -
  note ok = buf_okD [OF assms(1)]
  define b' where "b' = b\<lparr>buf_data := overwrite (write_idx b) xs (buf_data b)\<rparr>"
  have wr: "size_add (write_idx b) (length xs) = write_idx b + length xs"
    using assms(2) ok by (simp add: size_simps)
  have data: "overwrite (write_idx b) xs (buf_data b)
      = take (write_idx b) (buf_data b) @ xs @ drop (write_idx b + length xs) (buf_data b)"
    by (simp add: overwrite_def)
  have put: "WriteBegin_put xs b = Inr b'"
    using assms(2) by (simp add: WriteBegin_put_def b'_def)
  have ok': "buf_ok b'" and okw: "buf_ok (AddWriteIndex (length xs) b')"
    using ok assms(2) by (simp_all add: buf_ok_def b'_def AddWriteIndex_def wr)
  have r1: "readable b' = readable b"
    using ok assms(2) by (simp add: readable_alt b'_def data)
  have r2: "readable (AddWriteIndex (length xs) b') = readable b @ xs"
    using ok assms(2) by (simp add: readable_alt b'_def AddWriteIndex_def data wr)
  show ?thesis
    using that [OF put ok' r1 okw r2] assms(2) by (simp add: b'_def)
qed

text \<open>
  \<open>AppendData\<close> moves the readable bytes to the front, grows the vector when they and
  the new bytes do not fit, and writes behind them. It faults only by outgrowing
  \<open>max_size()\<close>.
\<close>

lemma ReSize_grow:
  assumes "buf_ok b" "length (buf_data b) \<le> new_size" "new_size + 8 \<le> max_size"
  obtains b' where "ReSize new_size b = Inr b'" "buf_ok b'" "readable b' = readable b"
    "write_idx b' = write_idx b" "read_idx b' = read_idx b" "length (buf_data b') = new_size + 8"
    "sum_write b' = sum_write b" "sum_read b' = sum_read b"
proof -
  note ok = buf_okD [OF assms(1)]
  have n: "size_add new_size 8 = new_size + 8" using assms(3) by (simp add: size_simps)
  define b' where "b' = b\<lparr>buf_data := buf_data b @ replicate (new_size + 8 - length (buf_data b)) 0\<rparr>"
  have "ReSize new_size b = Inr b'"
    using assms by (simp add: ReSize_def Let_def n b'_def)
  moreover have "buf_ok b'"
    using ok assms by (simp add: buf_ok_def b'_def)
  moreover have "readable b' = readable b"
    using ok by (simp add: readable_alt b'_def)
  ultimately show ?thesis
    using that [of b'] assms by (simp add: b'_def)
qed

text \<open>The bytes the vector has to hold for the readable bytes and \<open>n\<close> more.\<close>

definition grown :: "nat \<Rightarrow> buffer \<Rightarrow> nat" where
  "grown n b = (if n > length (buf_data b) - (8 + ReadableLength b)
     then 8 + ReadableLength b + n + 8 else length (buf_data b))"

lemma AppendData_grown:
  assumes "buf_ok b" "grown (length xs) b \<le> max_size"
  obtains b' where "AppendData xs b = Inr b'" "buf_ok b'" "readable b' = readable b @ xs"
    "length (buf_data b') = grown (length xs) b" "read_idx b' = 8"
    "sum_write b' = size_add (sum_write b) (length xs)" "sum_read b' = sum_read b"
proof -
  obtain a where a: "AdjustBuffer b = Inr a" "buf_ok a" "readable a = readable b"
      "write_idx a = 8 + ReadableLength b" "length (buf_data a) = length (buf_data b)"
      "sum_write a = sum_write b" "sum_read a = sum_read b" "read_idx a = 8"
    by (rule AdjustBuffer_ok [OF assms(1)]) blast
  note ok = buf_okD [OF a(2)]
  have wl: "WritableLength a = length (buf_data b) - (8 + ReadableLength b)"
    using a by (simp add: WritableLength_eq)
  obtain c where c: "(if length xs > WritableLength a
        then ReSize (size_add (length (buf_data a)) (size_sub (length xs) (WritableLength a))) a
        else Inr a) = Inr c" "buf_ok c" "readable c = readable b"
      "write_idx c = 8 + ReadableLength b" "read_idx c = 8"
      "length (buf_data c) = grown (length xs) b" "8 + ReadableLength b + length xs \<le> length (buf_data c)"
      "sum_write c = sum_write b" "sum_read c = sum_read b"
  proof (cases "length xs > WritableLength a")
    case False
    then show ?thesis using that [of a] a ok by (simp add: wl grown_def)
  next
    case True
    have g: "grown (length xs) b = 8 + ReadableLength b + length xs + 8"
      using True wl by (simp add: grown_def)
    have lt: "length xs \<le> max_size" using assms(2) g by linarith
    have sub: "size_sub (length xs) (WritableLength a) = length xs - WritableLength a"
      using True lt by (simp add: size_simps)
    have sum: "length (buf_data a) + (length xs - WritableLength a) = 8 + ReadableLength b + length xs"
      using True ok a wl by simp
    have add: "size_add (length (buf_data b)) (length xs - WritableLength a)
        = 8 + ReadableLength b + length xs"
      using assms(2) g sum a(5) by (simp add: size_add_le_max)
    obtain d where "ReSize (8 + ReadableLength b + length xs) a = Inr d" "buf_ok d"
        "readable d = readable a" "write_idx d = write_idx a" "read_idx d = read_idx a"
        "length (buf_data d) = 8 + ReadableLength b + length xs + 8"
        "sum_write d = sum_write a" "sum_read d = sum_read a"
      by (rule ReSize_grow [OF a(2), of "8 + ReadableLength b + length xs"])
        (use True wl ok a assms(2) g in auto)
    then show ?thesis using that [of d] True a by (simp add: sub add g)
  qed
  have fit: "write_idx c + length xs \<le> length (buf_data c)" using c(4,7) by simp
  obtain d where d: "WriteBegin_put xs c = Inr d" "buf_ok (AddWriteIndex (length xs) d)"
      "readable (AddWriteIndex (length xs) d) = readable c @ xs" "length (buf_data d) = length (buf_data c)"
      "sum_write d = sum_write c" "sum_read d = sum_read c" "read_idx d = read_idx c"
    by (rule put_then_advance [OF c(2) fit]) blast
  show ?thesis
    using that [of "AddWriteIndex (length xs) d"] a c d
    by (simp add: AppendData_def AddWriteIndex_def)
qed

lemma grown_le: "buf_ok b \<Longrightarrow> fits n b \<Longrightarrow> grown n b \<le> max_size"
  using buf_okD [of b] by (simp add: grown_def fits_def)

lemma fits_iff: "buf_ok b \<Longrightarrow> fits n b \<longleftrightarrow> ReadableLength b + n + 16 \<le> max_size"
  by (simp add: fits_def)

lemma AppendData_ok:
  "buf_ok b \<Longrightarrow> fits (length xs) b \<Longrightarrow>
   holds (\<lambda>b'. buf_ok b' \<and> readable b' = readable b @ xs) (AppendData xs b)"
  by (rule AppendData_grown [of b xs]) (auto intro: grown_le)

lemma AppendData_full:
  assumes "buf_ok b" "max_size < grown (length xs) b" "length xs \<le> 2 ^ 62"
  shows "AppendData xs b = Inl LengthError"
proof -
  obtain a where a: "AdjustBuffer b = Inr a" "buf_ok a"
      "write_idx a = 8 + ReadableLength b" "length (buf_data a) = length (buf_data b)"
    by (rule AdjustBuffer_ok [OF assms(1)]) blast
  note ok = buf_okD [OF a(2)]
  have wl: "WritableLength a = length (buf_data b) - (8 + ReadableLength b)"
    using a by (simp add: WritableLength_eq)
  have g: "length xs > WritableLength a" "8 + ReadableLength b + length xs + 8 > max_size"
    using assms(2) wl ok a by (auto simp: grown_def split: if_splits)
  have small: "8 + ReadableLength b + length xs + 8 < size_mod"
    using ok a assms(3) by (simp add: max_size_def size_mod_def)
  have sub: "size_sub (length xs) (WritableLength a) = length xs - WritableLength a"
    using g(1) small by (simp add: size_sub_eq)
  have sum: "length (buf_data b) + (length xs - WritableLength a) = 8 + ReadableLength b + length xs"
    using g ok a wl by simp
  have add: "size_add (length (buf_data b)) (length xs - WritableLength a)
      = 8 + ReadableLength b + length xs"
    using sum small by (simp add: size_add_eq)
  have "ReSize (8 + ReadableLength b + length xs) a = Inl LengthError"
    using g(2) small by (simp add: ReSize_def Let_def size_add_eq)
  then show ?thesis using a g(1) by (simp add: AppendData_def sub add)
qed

lemma AppendData_total:
  assumes "buf_ok b" "length xs \<le> 2 ^ 62"
  shows "AppendData xs b = Inl LengthError \<or>
    holds (\<lambda>b'. buf_ok b' \<and> readable b' = readable b @ xs) (AppendData xs b)"
proof (cases "grown (length xs) b \<le> max_size")
  case True
  then show ?thesis by (rule AppendData_grown [OF assms(1)]) auto
next
  case False
  then show ?thesis using AppendData_full assms by simp
qed

text \<open>What a default buffer holds never leaves its first allocation while it fits.\<close>

lemma AppendBuffer_eq:
  "buf_ok src \<Longrightarrow> AppendBuffer src b = ebind (AppendData (readable src) b) (\<lambda>b. Inr (ReadableLength src, b))"
  by (simp add: AppendBuffer_def ReadBegin_all)

text \<open>Reading from a socket appends what the kernel delivered, or changes nothing.\<close>

definition read_contract :: "(nat \<Rightarrow> bytes option) \<Rightarrow> bool" where
  "read_contract sys_read \<longleftrightarrow> (\<forall>n. case sys_read n of None \<Rightarrow> True | Some xs \<Rightarrow> length xs \<le> n)"

lemma read_contractD: "read_contract f \<Longrightarrow> f n = Some xs \<Longrightarrow> length xs \<le> n"
  by (auto simp: read_contract_def split: option.splits dest: spec [of _ n])

definition socket_room :: "buffer \<Rightarrow> nat" where
  "socket_room b = length (buf_data b) - (8 + ReadableLength b)"

lemma ReadFromSockfd_ok:
  assumes "buf_ok b" "read_contract sys_read"
  shows "\<exists>n b'. ReadFromSockfd sys_read b = Inr (n, b') \<and> buf_ok b' \<and>
    length (buf_data b') = length (buf_data b) \<and>
    (case sys_read (socket_room b) of
       None \<Rightarrow> n = -1 \<and> readable b' = readable b
     | Some xs \<Rightarrow> n = int (length xs) \<and> readable b' = readable b @ xs)"
proof -
  obtain a where a: "AdjustBuffer b = Inr a" "buf_ok a" "readable a = readable b"
      "write_idx a = 8 + ReadableLength b" "length (buf_data a) = length (buf_data b)"
    by (rule AdjustBuffer_ok [OF assms(1)]) blast
  have wl: "WritableLength a = socket_room b"
    using a by (simp add: WritableLength_eq socket_room_def)
  show ?thesis
  proof (cases "sys_read (socket_room b)")
    case None
    then show ?thesis using a by (simp add: ReadFromSockfd_def wl)
  next
    case (Some xs)
    then have "length xs \<le> socket_room b" by (rule read_contractD [OF assms(2)])
    then have "write_idx a + length xs \<le> length (buf_data a)"
      using buf_okD(3) [OF a(2)] a(4,5) by (simp add: socket_room_def)
    then show ?thesis
      by (rule put_then_advance [OF a(2)]) (use a Some in \<open>simp add: ReadFromSockfd_def wl\<close>)
  qed
qed

lemma SwapBuffer_eq: "SwapBuffer a b = (b, a)"
  by (simp add: SwapBuffer_def)

section \<open>A buffer is a byte queue\<close>

text \<open>The way the code takes bytes: copy them from \<open>ReadBegin()\<close>, then \<open>AddReadIndex\<close>.\<close>

definition Buffer_take :: "nat \<Rightarrow> buffer \<Rightarrow> (bytes \<times> buffer) result" where
  "Buffer_take n b =
     ebind (ReadBegin_at b 0 (min n (ReadableLength b))) (\<lambda>xs. Inr (xs, AddReadIndex n b))"

lemma Buffer_take_eq: "buf_ok b \<Longrightarrow> Buffer_take n b = Inr (take n (readable b), AddReadIndex n b)"
  by (cases "n \<le> ReadableLength b") (simp_all add: Buffer_take_def readable_prefix min_def)

interpretation bq: byte_fifo buf_ok readable AppendData Buffer_take "2 ^ 62"
proof unfold_locales
  fix b and xs :: bytes
  assume b: "buf_ok b" and "length (readable b) + length xs \<le> 2 ^ 62"
  then have "fits (length xs) b" by (simp add: fits_def max_size_def)
  with b show "holds (\<lambda>b'. buf_ok b' \<and> readable b' = readable b @ xs) (AppendData xs b)"
    by (rule AppendData_ok)
next
  fix b and xs :: bytes
  assume "buf_ok b" "length xs \<le> 2 ^ 62"
  then show "AppendData xs b = Inl LengthError \<or>
      holds (\<lambda>b'. buf_ok b' \<and> readable b' = readable b @ xs) (AppendData xs b)"
    by (rule AppendData_total)
next
  fix b n
  assume "buf_ok b"
  then show "\<exists>b'. Buffer_take n b = Inr (take n (readable b), b') \<and> buf_ok b' \<and>
      readable b' = drop n (readable b)"
    by (simp add: Buffer_take_eq)
qed

text \<open>
  C10: a buffer is a queue of bytes. Over any interleaving of appends and reads, each read gives exactly the bytes that a
  list of bytes would give, and what is left readable is what is left of that list, so that no byte is lost, doubled or
  reordered; the buffer stays well formed. No access leaves the vector: the only way for a run not to
  succeed is to outgrow \<^verbatim>\<open>max_size()\<close>, which needs more than \<open>2 ^ 62\<close> bytes.
\<close>

theorem Buffer_run_conserves:
  assumes "buf_ok b" "\<forall>xs \<in> set (puts ops). length xs \<le> 2 ^ 62"
  shows "safe (2 ^ 62 < length (readable b) + length (concat (puts ops)))
    (\<lambda>(out, b'). buf_ok b' \<and> queue_run ops (readable b) = (out, readable b') \<and> out @ readable b' = readable b @ concat (puts ops))
    (fifo_run AppendData Buffer_take ops b)"
  by (rule safe_mono [OF bq.run_refines [OF assms]]) (auto dest: queue_run_conserves)

text \<open>Appends and reads interleaved on a fresh buffer of 4 bytes, which has to grow.\<close>

theorem Buffer_run_conserves_witness:
  "\<exists>b. fifo_run AppendData Buffer_take [Put [1, 2, 3], Take 2, Put [4, 5, 6, 7], Take 3] (Buffer_sized 4) = Inr ([1, 2, 3, 4, 5], b) \<and>
     buf_ok b \<and> readable b = [6, 7]"
proof -
  let ?ops = "[Put [1, 2, 3], Take 2, Put [4, 5, 6, 7], Take 3]"
  have "buf_ok (Buffer_sized 4)" by (rule Buffer_sized_ok) (simp add: max_size_def)
  from Buffer_run_conserves [OF this, of ?ops] show ?thesis by (auto simp: safe_False elim!: holdsE)
qed

end
