(* ===== verification/FlvCodec.thy ===== *)
theory FlvCodec
  imports Buffer PrefixCode
begin

text \<open>
  \<^verbatim>\<open>utils/codec/FlvCodec.{h,cpp}\<close>: the FLV file header and the FLV tag, whose 15 header
  bytes are kept serialised and written through fixed offsets. The specification is a
  reference reader of FLV tags (previous tag size, type, data size, timestamp, extension
  and stream id, data), an instance of \<open>prefix_code\<close>; the lemmas show which fields the
  setters write and that a complete tag is what the reader reads back.
\<close>

section \<open>FlvHeader\<close>

record flv_header =
  fh_flv :: bytes
  fh_version :: byte
  fh_type_flag :: byte
  fh_header_length :: u32

definition FLV_HEADER_LENGTH :: nat where
  "FLV_HEADER_LENGTH = 9"

definition DEFAULT_HEADER :: bytes where
  "DEFAULT_HEADER = [0x46, 0x4C, 0x56, 0x01, 0x05, 0x00, 0x00, 0x00, 0x09]"

definition FlvHeader_new :: flv_header where
  "FlvHeader_new = \<lparr>fh_flv = lit ''FLV'', fh_version = 1, fh_type_flag = 5, fh_header_length = 0x09000000\<rparr>"

definition SetInfo :: "bytes \<Rightarrow> byte \<Rightarrow> byte \<Rightarrow> u32 \<Rightarrow> flv_header \<Rightarrow> flv_header" where
  "SetInfo flv version type_flag header_length h =
     h\<lparr>fh_flv := flv, fh_version := version, fh_type_flag := type_flag, fh_header_length := header_length\<rparr>"

text \<open>\<open>EncodeToBuffer(data, length)\<close>: the return value and the bytes stored at \<open>data\<close>.\<close>

definition FlvHeader_EncodeToBuffer :: "nat \<Rightarrow> int \<times> bytes" where
  "FlvHeader_EncodeToBuffer n =
     (if n < FLV_HEADER_LENGTH then (0, []) else (int FLV_HEADER_LENGTH, DEFAULT_HEADER))"

definition DecodeFileHeader :: "bytes \<Rightarrow> flv_header option \<Rightarrow> int \<times> flv_header option" where
  "DecodeFileHeader data tag =
     (if length data < FLV_HEADER_LENGTH then (0, tag)
      else (int FLV_HEADER_LENGTH,
        map_option (SetInfo (take 3 data) (data ! 3) (data ! 4)
          (le32 (data ! 5) (data ! 6) (data ! 7) (data ! 8))) tag))"

section \<open>FlvTag\<close>

record flv_tag =
  tag_header :: bytes
  tag_body :: buffer

definition GetBody :: "flv_tag \<Rightarrow> buffer" where
  "GetBody t = tag_body t"

definition GetHeader :: "flv_tag \<Rightarrow> bytes" where
  "GetHeader t = tag_header t"

definition FLV_TAG_HEADER_LENGTH :: nat where
  "FLV_TAG_HEADER_LENGTH = 15"

definition PREVIOUS_TAG_SIZE_SUB :: nat where "PREVIOUS_TAG_SIZE_SUB = 0"
definition TAG_TYPE_SUB :: nat where "TAG_TYPE_SUB = 4"
definition DATA_SIZE_SUB :: nat where "DATA_SIZE_SUB = 5"
definition TIMESTAMP_SUB :: nat where "TIMESTAMP_SUB = 8"
definition STREAM_ID_SUB :: nat where "STREAM_ID_SUB = 10"

definition FlvTag_new :: flv_tag where
  "FlvTag_new = \<lparr>tag_header = replicate 15 0, tag_body = Buffer_new\<rparr>"

definition GetDataSize :: "flv_tag \<Rightarrow> u32" where
  "GetDataSize t = be24 (tag_header t ! DATA_SIZE_SUB) (tag_header t ! (DATA_SIZE_SUB + 1))
     (tag_header t ! (DATA_SIZE_SUB + 2))"

text \<open>The four header bytes are read as one \<open>uint32_t\<close>, whose element 0 is used four times.\<close>

definition GetPreviousTagSize :: "flv_tag \<Rightarrow> u32" where
  "GetPreviousTagSize t =
     (let previous_tag_size = le32 (tag_header t ! PREVIOUS_TAG_SIZE_SUB) (tag_header t ! 1)
            (tag_header t ! 2) (tag_header t ! 3) in
      previous_tag_size * 0x1000000 + previous_tag_size * 0x10000 +
      previous_tag_size * 0x100 + previous_tag_size)"

definition GetCurrentTagSize :: "flv_tag \<Rightarrow> u32" where
  "GetCurrentTagSize t = of_nat (FLV_TAG_HEADER_LENGTH - 4) + GetDataSize t"

definition GetBodyDataLength :: "flv_tag \<Rightarrow> u32" where
  "GetBodyDataLength t = to_u32 (ReadableLength (tag_body t))"

definition GetRemainDataSize :: "flv_tag \<Rightarrow> u32" where
  "GetRemainDataSize t = GetDataSize t - GetBodyDataLength t"

definition FlvTag_AppendData :: "bytes \<Rightarrow> flv_tag \<Rightarrow> flv_tag result" where
  "FlvTag_AppendData data t = ebind (AppendData data (tag_body t)) (\<lambda>b. Inr (t\<lparr>tag_body := b\<rparr>))"

text \<open>\<open>memcpy\<close> of 15 bytes with no test of the length.\<close>

definition FlvTag_DecodeTagHander :: "bytes \<Rightarrow> flv_tag \<Rightarrow> (int \<times> flv_tag) result" where
  "FlvTag_DecodeTagHander data t =
     (if length data < FLV_TAG_HEADER_LENGTH then Inl OutOfBounds
      else Inr (int FLV_TAG_HEADER_LENGTH, t\<lparr>tag_header := take FLV_TAG_HEADER_LENGTH data\<rparr>))"

definition FlvCodec_DecodeTagHander :: "bytes \<Rightarrow> flv_tag option \<Rightarrow> (int \<times> flv_tag option) result" where
  "FlvCodec_DecodeTagHander data tag =
     (if length data < FLV_TAG_HEADER_LENGTH then Inr (0, tag)
      else case tag of None \<Rightarrow> Inr (0, None)
      | Some t \<Rightarrow> ebind (FlvTag_DecodeTagHander data t) (\<lambda>(n, t). Inr (n, Some t)))"

definition SetTagType :: "byte \<Rightarrow> flv_tag \<Rightarrow> flv_tag" where
  "SetTagType tag_type t = t\<lparr>tag_header := overwrite TAG_TYPE_SUB [tag_type] (tag_header t)\<rparr>"

text \<open>The next three copy three bytes from their argument.\<close>

definition SetDataSize :: "bytes \<Rightarrow> flv_tag \<Rightarrow> flv_tag" where
  "SetDataSize data_size t = t\<lparr>tag_header := overwrite DATA_SIZE_SUB (take 3 data_size) (tag_header t)\<rparr>"

definition SetTimeStamp :: "bytes \<Rightarrow> flv_tag \<Rightarrow> flv_tag" where
  "SetTimeStamp timestamp t = t\<lparr>tag_header := overwrite TIMESTAMP_SUB (take 3 timestamp) (tag_header t)\<rparr>"

definition SetSteamId :: "bytes \<Rightarrow> flv_tag \<Rightarrow> flv_tag" where
  "SetSteamId stream_id t = t\<lparr>tag_header := overwrite STREAM_ID_SUB (take 3 stream_id) (tag_header t)\<rparr>"

definition SetPreviousTagSize :: "u32 \<Rightarrow> flv_tag \<Rightarrow> flv_tag" where
  "SetPreviousTagSize previous_tag_size t = t\<lparr>tag_header := overwrite PREVIOUS_TAG_SIZE_SUB
     [u32_byte previous_tag_size 3, u32_byte previous_tag_size 2,
      u32_byte previous_tag_size 1, u32_byte previous_tag_size 0] (tag_header t)\<rparr>"

definition GetTagType :: "flv_tag \<Rightarrow> byte" where
  "GetTagType t = tag_header t ! TAG_TYPE_SUB"

lemmas flv_offsets = FLV_TAG_HEADER_LENGTH_def PREVIOUS_TAG_SIZE_SUB_def TAG_TYPE_SUB_def
  DATA_SIZE_SUB_def TIMESTAMP_SUB_def STREAM_ID_SUB_def

lemmas flv_setters = SetTagType_def SetDataSize_def SetTimeStamp_def SetSteamId_def SetPreviousTagSize_def

section \<open>Which bytes the setters write\<close>

definition hdr_ok :: "flv_tag \<Rightarrow> bool" where
  "hdr_ok t \<longleftrightarrow> length (tag_header t) = 15"

lemma hdr_okE:
  assumes "hdr_ok t"
  obtains a0 a1 a2 a3 a4 a5 a6 a7 a8 a9 a10 a11 a12 a13 a14
  where "tag_header t = [a0, a1, a2, a3, a4, a5, a6, a7, a8, a9, a10, a11, a12, a13, a14]"
  using assms by (auto simp: hdr_ok_def length_Suc_conv eval_nat_numeral)

lemma hdr_ok_new [simp]: "hdr_ok FlvTag_new"
  by (simp add: hdr_ok_def FlvTag_new_def)

lemma hdr_ok_setters [simp]:
  "hdr_ok t \<Longrightarrow> hdr_ok (SetTagType ty t)"
  "hdr_ok t \<Longrightarrow> hdr_ok (SetDataSize sz t)"
  "hdr_ok t \<Longrightarrow> hdr_ok (SetTimeStamp ts t)"
  "hdr_ok t \<Longrightarrow> hdr_ok (SetPreviousTagSize n t)"
  "hdr_ok t \<Longrightarrow> hdr_ok (SetSteamId sid t)"
  by (auto simp: hdr_ok_def flv_setters flv_offsets)

lemma tag_body_setters [simp]:
  "tag_body (SetTagType ty t) = tag_body t"
  "tag_body (SetDataSize sz t) = tag_body t"
  "tag_body (SetTimeStamp ts t) = tag_body t"
  "tag_body (SetPreviousTagSize n t) = tag_body t"
  "tag_body (SetSteamId sid t) = tag_body t"
  by (simp_all add: flv_setters)

lemma GetDataSize_setters [simp]:
  "hdr_ok t \<Longrightarrow> GetDataSize (SetTagType ty t) = GetDataSize t"
  "hdr_ok t \<Longrightarrow> GetDataSize (SetTimeStamp ts t) = GetDataSize t"
  "hdr_ok t \<Longrightarrow> GetDataSize (SetPreviousTagSize n t) = GetDataSize t"
  "hdr_ok t \<Longrightarrow> GetDataSize (SetDataSize [a, b, c] t) = be24 a b c"
  by (auto elim!: hdr_okE simp: GetDataSize_def flv_setters flv_offsets overwrite_def)

lemma GetTagType_setters [simp]:
  "hdr_ok t \<Longrightarrow> GetTagType (SetTagType ty t) = ty"
  "hdr_ok t \<Longrightarrow> GetTagType (SetDataSize sz t) = GetTagType t"
  "hdr_ok t \<Longrightarrow> GetTagType (SetTimeStamp ts t) = GetTagType t"
  "hdr_ok t \<Longrightarrow> GetTagType (SetPreviousTagSize n t) = GetTagType t"
  by (auto elim!: hdr_okE simp: GetTagType_def flv_setters flv_offsets overwrite_def)

lemma GetCurrentTagSize_prev [simp]:
  "hdr_ok t \<Longrightarrow> GetCurrentTagSize (SetPreviousTagSize n t) = GetCurrentTagSize t"
  by (simp add: GetCurrentTagSize_def)

section \<open>Reference reader of FLV tags\<close>

text \<open>An FLV tag as the format defines it; \<open>it_tail\<close> is the timestamp extension and stream id.\<close>

record flv_item =
  it_prev :: u32
  it_type :: byte
  it_ts :: u32
  it_tail :: bytes
  it_data :: bytes

definition item_ok :: "flv_item \<Rightarrow> bool" where
  "item_ok it \<longleftrightarrow> length (it_tail it) = 4 \<and> unat (it_ts it) < 2 ^ 24 \<and> length (it_data it) < 2 ^ 24"

definition item_bytes :: "flv_item \<Rightarrow> bytes" where
  "item_bytes it =
     [u32_byte (it_prev it) 3, u32_byte (it_prev it) 2, u32_byte (it_prev it) 1, u32_byte (it_prev it) 0,
      it_type it] @
     (let n = to_u32 (length (it_data it)) in [u32_byte n 2, u32_byte n 1, u32_byte n 0]) @
     [u32_byte (it_ts it) 2, u32_byte (it_ts it) 1, u32_byte (it_ts it) 0] @ it_tail it @ it_data it"

definition read_item :: "bytes \<Rightarrow> (flv_item \<times> bytes) option" where
  "read_item bs =
     (if length bs < 15 then None
      else let n = unat (be24 (bs ! 5) (bs ! 6) (bs ! 7)); body = drop 15 bs in
        if length body < n then None
        else Some (\<lparr>it_prev = be32 (bs ! 0) (bs ! 1) (bs ! 2) (bs ! 3), it_type = bs ! 4,
                    it_ts = be24 (bs ! 8) (bs ! 9) (bs ! 10), it_tail = take 4 (drop 11 bs),
                    it_data = take n body\<rparr>, drop n body))"

lemma take_bit_24_small: "unat (w :: u32) < 2 ^ 24 \<Longrightarrow> take_bit 24 w = w"
  by (simp add: word_unat_eq_iff unsigned_take_bit_eq take_bit_nat_eq_self)

lemma read_item_bytes:
  assumes "item_ok it"
  shows "read_item (item_bytes it @ rest) = Some (it, rest)"
proof -
  obtain a b c d where tail: "it_tail it = [a, b, c, d]"
  proof -
    have "length (it_tail it) = Suc (Suc (Suc (Suc 0)))" using assms by (simp add: item_ok_def)
    then show ?thesis using that by (auto simp: length_Suc_conv)
  qed
  define n where "n = to_u32 (length (it_data it))"
  have data: "length (it_data it) < 2 ^ 24" using assms by (simp add: item_ok_def)
  have sz: "unat (be24 (u32_byte n 2) (u32_byte n (Suc 0)) (u32_byte n 0)) = length (it_data it)"
    using be24_to_u32 [OF data] by (simp add: n_def)
  have ts: "be24 (u32_byte (it_ts it) 2) (u32_byte (it_ts it) (Suc 0)) (u32_byte (it_ts it) 0) = it_ts it"
    using be24_u32_byte [of "it_ts it"] assms by (simp add: take_bit_24_small item_ok_def)
  have pv: "be32 (u32_byte (it_prev it) 3) (u32_byte (it_prev it) 2) (u32_byte (it_prev it) (Suc 0))
      (u32_byte (it_prev it) 0) = it_prev it"
    using be32_u32_byte [of "it_prev it"] by simp
  have "item_bytes it @ rest =
     [u32_byte (it_prev it) 3, u32_byte (it_prev it) 2, u32_byte (it_prev it) (Suc 0), u32_byte (it_prev it) 0,
      it_type it, u32_byte n 2, u32_byte n (Suc 0), u32_byte n 0, u32_byte (it_ts it) 2,
      u32_byte (it_ts it) (Suc 0), u32_byte (it_ts it) 0, a, b, c, d] @ it_data it @ rest"
    by (simp add: item_bytes_def tail n_def Let_def)
  moreover have "it = \<lparr>it_prev = it_prev it, it_type = it_type it, it_ts = it_ts it,
      it_tail = [a, b, c, d], it_data = it_data it\<rparr>"
    using tail by (cases it) simp
  ultimately show ?thesis by (simp add: read_item_def sz ts pv)
qed

interpretation flv: prefix_code item_bytes read_item item_ok
  by unfold_locales (simp_all add: read_item_bytes, simp add: read_item_def)

section \<open>A complete tag is one item of the stream\<close>

text \<open>What the code sends of a tag: \<open>GetHeader()\<close>'s 15 bytes, then the body's readable bytes.\<close>

definition tag_bytes :: "flv_tag \<Rightarrow> bytes" where
  "tag_bytes t = tag_header t @ readable (tag_body t)"

definition tag_complete :: "flv_tag \<Rightarrow> bool" where
  "tag_complete t \<longleftrightarrow> hdr_ok t \<and> buf_ok (tag_body t) \<and> ReadableLength (tag_body t) = unat (GetDataSize t)"

definition tag_item :: "flv_tag \<Rightarrow> flv_item" where
  "tag_item t = (let h = tag_header t in
     \<lparr>it_prev = be32 (h ! 0) (h ! 1) (h ! 2) (h ! 3), it_type = h ! 4,
      it_ts = be24 (h ! 8) (h ! 9) (h ! 10), it_tail = take 4 (drop 11 h), it_data = readable (tag_body t)\<rparr>)"

lemma tag_item_ok:
  assumes "tag_complete t"
  shows "item_ok (tag_item t)" "item_bytes (tag_item t) = tag_bytes t"
proof -
  from assms have h: "hdr_ok t" and b: "buf_ok (tag_body t)"
    and l: "length (readable (tag_body t)) = unat (GetDataSize t)"
    by (simp_all add: tag_complete_def)
  show "item_ok (tag_item t)"
    using h l unat_be24_lt by (auto elim!: hdr_okE simp: item_ok_def tag_item_def GetDataSize_def)
  show "item_bytes (tag_item t) = tag_bytes t"
    using h l by (auto elim!: hdr_okE simp: item_bytes_def tag_item_def tag_bytes_def GetDataSize_def
      flv_offsets Let_def u32_byte_be32 u32_byte_be24)
qed

lemma tag_item_setters:
  assumes "hdr_ok t"
  shows "tag_item (SetPreviousTagSize n t) = (tag_item t)\<lparr>it_prev := n\<rparr>"
    and "tag_item (SetTagType ty t) = (tag_item t)\<lparr>it_type := ty\<rparr>"
    and "tag_item (SetTimeStamp [a, b, c] t) = (tag_item t)\<lparr>it_ts := be24 a b c\<rparr>"
    and "tag_item (SetDataSize [a, b, c] t) = tag_item t"
  using assms be32_u32_byte [of n]
  by (auto elim!: hdr_okE simp: tag_item_def flv_setters flv_offsets overwrite_def Let_def)

text \<open>
  A run of complete tags, written one behind the other as the code writes them, is
  read back by the reference reader as exactly those tags: the fixed header offsets are
  those of the FLV format, and each tag is as long as its size field says.
\<close>

lemma decode_tags:
  assumes "\<forall>t \<in> set ts. tag_complete t"
  shows "decode_all read_item (concat (map tag_bytes ts)) = (map tag_item ts, [])"
proof -
  have items: "\<forall>it \<in> set (map tag_item ts). item_ok it" using assms tag_item_ok by auto
  have eq: "map tag_bytes ts = map item_bytes (map tag_item ts)"
    using assms by (simp add: tag_item_ok)
  show ?thesis
    using flv.decode_all_items [OF items flv.dec_Nil] unfolding eq by simp
qed

text \<open>A tag with a three-byte body, for the witnesses.\<close>

definition sample_tag :: flv_tag where
  "sample_tag = \<lparr>tag_header = [0, 0, 0, 0, 9, 0, 0, 3, 0, 0, 40, 0, 0, 0, 0],
     tag_body = \<lparr>buf_data = [0, 0, 0, 0, 0, 0, 0, 0, 0x17, 1, 2], read_idx = 8, write_idx = 11,
       sum_read = 0, sum_write = 3\<rparr>\<rparr>"

lemma sample_tag_complete: "tag_complete sample_tag"
  by (simp add: tag_complete_def sample_tag_def hdr_ok_def buf_ok_def max_size_def ReadableLength_def
    size_sub_def size_mod_def GetDataSize_def flv_offsets unat_be24)

section \<open>Reading the previous tag size\<close>

text \<open>
  The four bytes hold the size big-endian, but \<^verbatim>\<open>GetPreviousTagSize\<close> multiplies one
  little-endian \<open>uint32_t\<close> by \<open>0x01010101\<close>.
\<close>

lemma GetPreviousTagSize_eq:
  "hdr_ok t \<Longrightarrow> GetPreviousTagSize (SetPreviousTagSize n t) =
     le32 (u32_byte n 3) (u32_byte n 2) (u32_byte n 1) (u32_byte n 0) * 0x01010101"
  by (auto elim!: hdr_okE simp: GetPreviousTagSize_def flv_setters flv_offsets overwrite_def Let_def
      algebra_simps)

text \<open>
  The big-endian bytes of \<open>n\<close>, swapped and multiplied: byte \<open>i\<close> of the product is the sum of
  the upper bytes of \<open>n\<close>, which gives \<open>n\<close> back only for 0.
\<close>

lemma radix_256:
  fixes x y :: nat
  assumes "x + 256 * p = y + 256 * q" "x < 256" "y < 256"
  shows "x = y" "p = q"
proof -
  have "(x + 256 * p) mod 256 = (y + 256 * q) mod 256" using assms(1) by (rule arg_cong)
  then show "x = y" using assms(2,3) by simp
  with assms(1) show "p = q" by simp
qed

lemma swap_times_ones:
  fixes b0 b1 b2 k :: nat
  assumes lt: "b0 < 256" "b1 < 256" "b2 < 256"
    and eq: "(b2 * 256 + b1 * 65536 + b0 * 16777216) * 0x01010101 =
      b0 + b1 * 256 + b2 * 65536 + k * 4294967296"
  shows "b0 = 0 \<and> b1 = 0 \<and> b2 = 0"
proof -
  have "0 + 256 * ((b2 + b1 * 256 + b0 * 65536) * 0x01010101) =
      b0 + 256 * (b1 + b2 * 256 + k * 16777216)"
    using eq by simp
  note 0 = radix_256 [OF this _ lt(1)]
  then have "b2 + 256 * (b1 * 0x01010101 + b2 * 65793) = b1 + 256 * (b2 + k * 65536)"
    by simp
  note 1 = radix_256 [OF this lt(3,2)]
  then have "b1 + 256 * (b1 * 66050) = 0 + 256 * (256 * k)" by simp
  note 2 = radix_256 [OF this lt(2)]
  show ?thesis using 0(1) 1(1) 2(1) by simp
qed

lemma unat_swapped:
  "unat (le32 (u32_byte n 3) (u32_byte n 2) (u32_byte n 1) (u32_byte n 0) * 0x01010101) =
     (unat (u32_byte n 3) + unat (u32_byte n 2) * 256 + unat (u32_byte n 1) * 65536 +
      unat (u32_byte n 0) * 16777216) * 0x01010101 mod 4294967296"
  by (simp add: unat_mult_lem unat_word_ariths unat_le32)

lemma GetPreviousTagSize_differs:
  assumes "hdr_ok t" "0 < unat n" "unat n < 2 ^ 24"
  shows "GetPreviousTagSize (SetPreviousTagSize n t) \<noteq> n"
proof
  assume same: "GetPreviousTagSize (SetPreviousTagSize n t) = n"
  let ?b = "\<lambda>i. unat (u32_byte n i)"
  let ?x = "(?b 2 * 256 + ?b 1 * 65536 + ?b 0 * 16777216) * 0x01010101"
  have b3: "?b 3 = 0" unfolding unat_u32_byte using assms(3) by simp
  have n: "unat n = ?b 0 + ?b 1 * 256 + ?b 2 * 65536"
    using be32_u32_byte [of n] unat_be32 [of "u32_byte n 3" "u32_byte n 2" "u32_byte n 1" "u32_byte n 0"] b3
    by simp
  have "?x mod 4294967296 = unat n"
    using same GetPreviousTagSize_eq [OF assms(1), of n] unat_swapped [of n] b3 by simp
  then have eq: "?x = ?b 0 + ?b 1 * 256 + ?b 2 * 65536 + ?x div 4294967296 * 4294967296"
    unfolding n by (metis add.commute div_mult_mod_eq)
  have "?b 0 = 0 \<and> ?b 1 = 0 \<and> ?b 2 = 0"
    by (rule swap_times_ones [OF unat_byte_lt unat_byte_lt unat_byte_lt eq])
  with assms(2) show False by (simp add: n)
qed

text \<open>
  A previous tag size the code stored is not what \<^verbatim>\<open>GetPreviousTagSize\<close> returns, for
  any size of a tag that exists (0 < size < 2^24): the big-endian field is multiplied as
  one little-endian integer instead of being put together from its four bytes.
\<close>

lemma GetPreviousTagSize_wrong:
  assumes "hdr_ok t" "0 < unat n" "unat n < 2 ^ 24"
  shows "GetPreviousTagSize (SetPreviousTagSize n t) \<noteq> n"
  by (rule GetPreviousTagSize_differs [OF assms])

end
