(* ===== verification/RtmpCodec.thy ===== *)
theory RtmpCodec
  imports FlvCodec
begin

text \<open>
  \<^verbatim>\<open>utils/codec/RtmpCodec.{h,cpp}\<close>: the RTMP message being received (its chunk header
  fields and the body collected so far), the decoding of the four chunk header formats,
  and the conversion of a complete message into an FLV tag, where the clock of the codec
  adds up the relative timestamps. A \<open>RtmpPack\<close> is default-initialised in the code, so
  its fields other than the buffer are indeterminate: \<open>RtmpPack_new\<close> takes them from an
  argument.
\<close>

section \<open>RtmpPack\<close>

datatype RtmpPackFmt = FMT0 | FMT1 | FMT2 | FMT3

datatype RtmpPackType = RTMP_OTHER | RTMP_ABORT | RTMP_ACKNOWLEDGE | RTMP_CONTROL
  | RTMP_AUDIO | RTMP_VIDEO | RTMP_SCRIPT

text \<open>The values of the two enumerations.\<close>

fun fmt_code :: "RtmpPackFmt \<Rightarrow> byte" where
  "fmt_code FMT0 = 0" | "fmt_code FMT1 = 1" | "fmt_code FMT2 = 2" | "fmt_code FMT3 = 3"

fun type_code :: "RtmpPackType \<Rightarrow> byte" where
  "type_code RTMP_OTHER = 0"
| "type_code RTMP_ABORT = 2"
| "type_code RTMP_ACKNOWLEDGE = 3"
| "type_code RTMP_CONTROL = 4"
| "type_code RTMP_AUDIO = 8"
| "type_code RTMP_VIDEO = 9"
| "type_code RTMP_SCRIPT = 18"

record rtmp_pack =
  pk_fmt :: RtmpPackFmt
  pk_csid :: byte
  pk_timestamp :: bytes
  pk_data_size :: bytes
  pk_type :: RtmpPackType
  pk_stream_id :: u32
  pk_buffer :: buffer

definition RtmpPack_new :: "rtmp_pack \<Rightarrow> rtmp_pack" where
  "RtmpPack_new junk = junk\<lparr>pk_buffer := Buffer_new\<rparr>"

definition GetRtmpPackType :: "rtmp_pack \<Rightarrow> RtmpPackType" where
  "GetRtmpPackType p = pk_type p"

definition GetDataSizePtr :: "rtmp_pack \<Rightarrow> bytes" where
  "GetDataSizePtr p = pk_data_size p"

definition GetFmt :: "rtmp_pack \<Rightarrow> RtmpPackFmt" where
  "GetFmt p = pk_fmt p"

definition GetCsid :: "rtmp_pack \<Rightarrow> byte" where
  "GetCsid p = pk_csid p"

definition Pack_GetTimeStamp :: "rtmp_pack \<Rightarrow> bytes" where
  "Pack_GetTimeStamp p = pk_timestamp p"

definition Pack_GetBuffer :: "rtmp_pack \<Rightarrow> buffer" where
  "Pack_GetBuffer p = pk_buffer p"

definition RTMPPACK_FMT_MAX :: byte where "RTMPPACK_FMT_MAX = 3"
definition FMT0_HEADER_LENGTH :: nat where "FMT0_HEADER_LENGTH = 11"
definition FMT1_HEADER_LENGTH :: nat where "FMT1_HEADER_LENGTH = 7"
definition FMT2_HEADER_LENGTH :: nat where "FMT2_HEADER_LENGTH = 3"
definition FMT3_HEADER_LENGTH :: nat where "FMT3_HEADER_LENGTH = 0"

definition SetPackType :: "byte \<Rightarrow> rtmp_pack \<Rightarrow> rtmp_pack" where
  "SetPackType type p = p\<lparr>pk_type :=
     (if type = 8 then RTMP_AUDIO else if type = 9 then RTMP_VIDEO else if type = 18 then RTMP_SCRIPT
      else if type = 2 then RTMP_ABORT else if type = 3 then RTMP_ACKNOWLEDGE
      else if type = 4 then RTMP_CONTROL else RTMP_OTHER)\<rparr>"

definition DecodeFmt1 :: "bytes \<Rightarrow> rtmp_pack \<Rightarrow> int \<times> rtmp_pack" where
  "DecodeFmt1 data p =
     (if length data < FMT1_HEADER_LENGTH then (0, p)
      else (int FMT1_HEADER_LENGTH, SetPackType (data ! 6)
             (p\<lparr>pk_timestamp := take 3 data, pk_data_size := take 3 (drop 3 data)\<rparr>)))"

definition DecodeFmt0 :: "bytes \<Rightarrow> rtmp_pack \<Rightarrow> int \<times> rtmp_pack" where
  "DecodeFmt0 data p =
     (if length data < FMT0_HEADER_LENGTH then (0, p)
      else let p = snd (DecodeFmt1 data p) in
        (int FMT0_HEADER_LENGTH,
         p\<lparr>pk_stream_id := le32 (data ! 7) (data ! 8) (data ! 9) (data ! 10)\<rparr>))"

definition DecodeFmt2 :: "bytes \<Rightarrow> rtmp_pack \<Rightarrow> int \<times> rtmp_pack" where
  "DecodeFmt2 data p =
     (if length data < FMT2_HEADER_LENGTH then (0, p)
      else (int FMT2_HEADER_LENGTH, p\<lparr>pk_timestamp := take 3 data\<rparr>))"

definition fmt_of :: "byte \<Rightarrow> RtmpPackFmt" where
  "fmt_of fmt = (if fmt = 0 then FMT0 else if fmt = 1 then FMT1 else if fmt = 2 then FMT2 else FMT3)"

definition RtmpPack_DecodeHeader :: "bytes \<Rightarrow> rtmp_pack \<Rightarrow> int \<times> rtmp_pack" where
  "RtmpPack_DecodeHeader data p =
     (let fmt = drop_bit 6 (data ! 0);
          p = p\<lparr>pk_csid := and (data ! 0) 0x3F\<rparr> in
      if fmt > RTMPPACK_FMT_MAX then (-1, p)
      else let p = p\<lparr>pk_fmt := fmt_of fmt\<rparr>;
               res = (case pk_fmt p of
                  FMT0 \<Rightarrow> DecodeFmt0 (drop 1 data) p
                | FMT1 \<Rightarrow> DecodeFmt1 (drop 1 data) p
                | FMT2 \<Rightarrow> DecodeFmt2 (drop 1 data) p
                | FMT3 \<Rightarrow> (int FMT3_HEADER_LENGTH, p)) in
        if pk_fmt p = FMT3 then (fst res + 1, snd res)
        else if fst res \<le> 0 then res
        else (fst res + 1, snd res))"

definition GetBodyDataSize :: "rtmp_pack \<Rightarrow> u32" where
  "GetBodyDataSize p = be24 (pk_data_size p ! 0) (pk_data_size p ! 1) (pk_data_size p ! 2)"

definition SetBodyDataSize :: "u32 \<Rightarrow> rtmp_pack \<Rightarrow> rtmp_pack" where
  "SetBodyDataSize data_size p =
     p\<lparr>pk_data_size := [u32_byte data_size 2, u32_byte data_size 1, u32_byte data_size 0]\<rparr>"

definition GetBodyCurrentSize :: "rtmp_pack \<Rightarrow> u32" where
  "GetBodyCurrentSize p = to_u32 (ReadableLength (pk_buffer p))"

definition GetBodyRemainSize :: "rtmp_pack \<Rightarrow> u32" where
  "GetBodyRemainSize p = GetBodyDataSize p - GetBodyCurrentSize p"

definition RtmpPack_AppendData :: "bytes \<Rightarrow> rtmp_pack \<Rightarrow> rtmp_pack result" where
  "RtmpPack_AppendData data p = ebind (AppendData data (pk_buffer p)) (\<lambda>b. Inr (p\<lparr>pk_buffer := b\<rparr>))"

section \<open>RtmpCodec\<close>

text \<open>
  The codec's state is its clock, the \<open>uint32_t\<close> of the union; \<open>ts_[i]\<close> is its byte \<open>i\<close>
  on a little-endian machine.
\<close>

definition RtmpCodec_new :: u32 where
  "RtmpCodec_new = 0"

definition RtmpCodec_DecodeHeader :: "bytes \<Rightarrow> rtmp_pack \<Rightarrow> int \<times> rtmp_pack" where
  "RtmpCodec_DecodeHeader data p = (if data = [] then (0, p) else RtmpPack_DecodeHeader data p)"

definition AddTimeStamp :: "bytes \<Rightarrow> u32 \<Rightarrow> u32" where
  "AddTimeStamp ts clock = clock + ucast (ts ! 2) + ucast (ts ! 1) * 256 + ucast (ts ! 0) * 65536"

definition EncodeHeaderToFlvTag :: "rtmp_pack \<Rightarrow> flv_tag \<Rightarrow> u32 \<Rightarrow> flv_tag \<times> u32" where
  "EncodeHeaderToFlvTag p t clock =
     (let t = SetDataSize (pk_data_size p) (SetTagType (type_code (pk_type p)) t);
          clock = AddTimeStamp (pk_timestamp p) clock in
      (SetTimeStamp [u32_byte clock 2, u32_byte clock 1, u32_byte clock 0] t, clock))"

definition RtmpCodec_SwapBuffer :: "rtmp_pack \<Rightarrow> flv_tag \<Rightarrow> rtmp_pack \<times> flv_tag" where
  "RtmpCodec_SwapBuffer p t =
     (let (pb, tb) = SwapBuffer (pk_buffer p) (tag_body t) in
      (p\<lparr>pk_buffer := pb\<rparr>, t\<lparr>tag_body := tb\<rparr>))"

definition EncodeHeaderAndSwapBuffer :: "rtmp_pack \<Rightarrow> flv_tag \<Rightarrow> u32 \<Rightarrow> rtmp_pack \<times> flv_tag \<times> u32" where
  "EncodeHeaderAndSwapBuffer p t clock =
     (let (t, clock) = EncodeHeaderToFlvTag p t clock;
          (p, t) = RtmpCodec_SwapBuffer p t in (p, t, clock))"

section \<open>Debug output\<close>

text \<open>\<^verbatim>\<open>ss << std::hex << (int) b\<close> of a byte.\<close>

definition hex_byte :: "byte \<Rightarrow> string" where
  "hex_byte b = (let digit = (\<lambda>n. ''0123456789abcdef'' ! n); n = unat b in
     if n < 16 then [digit n] else [digit (n div 16), digit (n mod 16)])"

definition GetHeaderDebugMessage :: "rtmp_pack \<Rightarrow> string" where
  "GetHeaderDebugMessage p =
     (let out = (\<lambda>bs. concat (map (\<lambda>b. hex_byte b @ '' '') bs));
          first = push_bit 6 (fmt_code (pk_fmt p)) + pk_csid p in
      out [first] @
      (case pk_fmt p of
         FMT0 \<Rightarrow> out (pk_timestamp p @ pk_data_size p) @ hex_byte (type_code (pk_type p))
       | FMT1 \<Rightarrow> out (pk_timestamp p @ pk_data_size p) @ hex_byte (type_code (pk_type p))
       | FMT2 \<Rightarrow> out (pk_timestamp p)
       | FMT3 \<Rightarrow> ''''))"

section \<open>What a header decodes to\<close>

text \<open>The number of bytes of a chunk header, by its first byte.\<close>

definition header_len :: "byte \<Rightarrow> nat" where
  "header_len c = (case fmt_of (drop_bit 6 c) of FMT0 \<Rightarrow> 12 | FMT1 \<Rightarrow> 8 | FMT2 \<Rightarrow> 4 | FMT3 \<Rightarrow> 1)"

definition pack_type_of :: "byte \<Rightarrow> RtmpPackType" where
  "pack_type_of ty =
     (if ty = 8 then RTMP_AUDIO else if ty = 9 then RTMP_VIDEO else if ty = 18 then RTMP_SCRIPT
      else if ty = 2 then RTMP_ABORT else if ty = 3 then RTMP_ACKNOWLEDGE
      else if ty = 4 then RTMP_CONTROL else RTMP_OTHER)"

definition pack_ok :: "rtmp_pack \<Rightarrow> bool" where
  "pack_ok p \<longleftrightarrow> length (pk_timestamp p) = 3 \<and> length (pk_data_size p) = 3 \<and> buf_ok (pk_buffer p)"

text \<open>The chunk header fields a decoded header leaves in the message.\<close>

definition decoded :: "bytes \<Rightarrow> rtmp_pack \<Rightarrow> rtmp_pack \<Rightarrow> bool" where
  "decoded h p p' \<longleftrightarrow> pk_buffer p' = pk_buffer p \<and>
     (case fmt_of (drop_bit 6 (h ! 0)) of
        FMT3 \<Rightarrow> pk_timestamp p' = pk_timestamp p \<and> pk_data_size p' = pk_data_size p \<and> pk_type p' = pk_type p
      | FMT2 \<Rightarrow> pk_timestamp p' = [h ! 1, h ! 2, h ! 3] \<and> pk_data_size p' = pk_data_size p \<and>
          pk_type p' = pk_type p
      | _ \<Rightarrow> pk_timestamp p' = [h ! 1, h ! 2, h ! 3] \<and> pk_data_size p' = [h ! 4, h ! 5, h ! 6] \<and>
          pk_type p' = pack_type_of (h ! 7))"

lemma fmt_le_max: "\<not> RTMPPACK_FMT_MAX < drop_bit 6 (c :: byte)"
proof -
  have "unat (drop_bit 6 c) = unat c div 64" by (subst unat_drop_bit_eq) (simp add: drop_bit_eq_div)
  also have "\<dots> < 4" using unat_byte_lt [of c] by simp
  finally show ?thesis by (simp add: RTMPPACK_FMT_MAX_def word_less_nat_alt)
qed

lemma fmt_of_code [simp]: "fmt_of (fmt_code f) = f"
  by (cases f) (simp_all add: fmt_of_def)

lemma header_len_bounds: "1 \<le> header_len c" "header_len c \<le> 12"
  by (simp_all add: header_len_def split: RtmpPackFmt.splits)

lemma take_nth_3: "3 \<le> length xs \<Longrightarrow> take 3 xs = [xs ! 0, xs ! 1, xs ! 2]"
  by (cases xs rule: list.exhaust; cases "tl xs"; cases "tl (tl xs)") (auto simp: eval_nat_numeral)

lemmas header_lengths = FMT0_HEADER_LENGTH_def FMT1_HEADER_LENGTH_def FMT2_HEADER_LENGTH_def
  FMT3_HEADER_LENGTH_def

text \<open>A header that is not complete yet: 0, and only the format and stream id change.\<close>

lemma DecodeHeader_short:
  assumes "data = [] \<or> length data < header_len (data ! 0)"
  shows "\<exists>f c. RtmpCodec_DecodeHeader data p = (0, p\<lparr>pk_fmt := f, pk_csid := c\<rparr>)"
proof (cases "data = []")
  case True
  then show ?thesis
    by (intro exI [of _ "pk_fmt p"] exI [of _ "pk_csid p"]) (simp add: RtmpCodec_DecodeHeader_def)
next
  case False
  with assms have "length data < header_len (data ! 0)" by simp
  with False show ?thesis
    by (intro exI [of _ "fmt_of (drop_bit 6 (data ! 0))"] exI [of _ "and (data ! 0) 0x3F"])
      (cases "fmt_of (drop_bit 6 (data ! 0))"; simp add: RtmpCodec_DecodeHeader_def
        RtmpPack_DecodeHeader_def fmt_le_max header_len_def Let_def DecodeFmt0_def DecodeFmt1_def
        DecodeFmt2_def header_lengths less_diff_conv)
qed

text \<open>A complete header: its length, and the fields its format carries.\<close>

lemma DecodeHeader_full:
  assumes "data \<noteq> []" "header_len (data ! 0) \<le> length data"
  shows "\<exists>p'. RtmpCodec_DecodeHeader data p = (int (header_len (data ! 0)), p') \<and> decoded data p p'"
proof -
  have "3 \<le> length (drop 1 data) \<Longrightarrow> take 3 (drop 1 data) = [data ! 1, data ! 2, data ! 3]"
    "3 \<le> length (drop 4 data) \<Longrightarrow> take 3 (drop 4 data) = [data ! 4, data ! 5, data ! 6]"
    by (subst take_nth_3; simp add: eval_nat_numeral)+
  with assms show ?thesis
    by (cases "fmt_of (drop_bit 6 (data ! 0))"; simp add: RtmpCodec_DecodeHeader_def
        RtmpPack_DecodeHeader_def fmt_le_max header_len_def Let_def DecodeFmt0_def DecodeFmt1_def
        DecodeFmt2_def header_lengths decoded_def SetPackType_def pack_type_of_def not_less)
qed

lemma decoded_ok: "decoded h p p' \<Longrightarrow> pack_ok p \<Longrightarrow> pack_ok p'"
  by (auto simp: decoded_def pack_ok_def split: RtmpPackFmt.splits)

lemma decoded_take:
  assumes "header_len (h ! 0) \<le> n" "0 < n"
  shows "decoded (take n h) p p' \<longleftrightarrow> decoded h p p'"
  using assms by (auto simp: decoded_def header_len_def split: RtmpPackFmt.splits)

end
