(* ===== verification/ChunkStream.thy ===== *)
theory ChunkStream
  imports RtmpCodec
begin

text \<open>
  The reference model of an RTMP chunk stream, read one byte at a time: the header of a
  chunk, then at most 4096 bytes of the body of the current message, and an FLV item for
  every complete audio or video message, stamped with the sum of the relative timestamps
  and with the size of the item before it. It knows nothing of buffers, of how the bytes
  arrive or of loops that stop early; \<^verbatim>\<open>RtmpManager::ParseData\<close> is proved to refine it.
  The second part is the encoder of the format and the round trip: a stream of messages,
  cut into chunks and with compressed headers, reads back as the messages.
\<close>

section \<open>The byte machine\<close>

definition CHUNK_SIZE :: nat where
  "CHUNK_SIZE = 4096"

record chunk_state =
  cs_head :: bytes
  cs_in_body :: bool
  cs_delta :: u32
  cs_size :: u32
  cs_type :: RtmpPackType
  cs_acc :: bytes
  cs_read :: u32
  cs_clock :: u32
  cs_last :: u32

definition cs_remain :: "chunk_state \<Rightarrow> u32" where
  "cs_remain s = cs_size s - to_u32 (length (cs_acc s))"

text \<open>The message fits in the rest of this chunk.\<close>

definition last_chunk :: "chunk_state \<Rightarrow> bool" where
  "last_chunk s \<longleftrightarrow> cs_remain s \<le> 4096 \<and> cs_read s = 0"

definition head_fields :: "bytes \<Rightarrow> chunk_state \<Rightarrow> chunk_state" where
  "head_fields h s = (case fmt_of (drop_bit 6 (h ! 0)) of
     FMT3 \<Rightarrow> s
   | FMT2 \<Rightarrow> s\<lparr>cs_delta := be24 (h ! 1) (h ! 2) (h ! 3)\<rparr>
   | _ \<Rightarrow> s\<lparr>cs_delta := be24 (h ! 1) (h ! 2) (h ! 3), cs_size := be24 (h ! 4) (h ! 5) (h ! 6),
           cs_type := pack_type_of (h ! 7)\<rparr>)"

text \<open>The item a complete message makes; messages that are no media make none.\<close>

definition cs_item :: "chunk_state \<Rightarrow> flv_item" where
  "cs_item s = \<lparr>it_prev = cs_last s, it_type = type_code (cs_type s), it_ts = take_bit 24 (cs_clock s),
     it_tail = [0, 0, 0, 0], it_data = cs_acc s\<rparr>"

definition is_media :: "RtmpPackType \<Rightarrow> bool" where
  "is_media ty \<longleftrightarrow> ty = RTMP_VIDEO \<or> ty = RTMP_AUDIO"

definition finish :: "chunk_state \<Rightarrow> chunk_state \<times> flv_item list" where
  "finish s =
     (if cs_size s = 0 then (s\<lparr>cs_in_body := False\<rparr>, [])
      else let s = s\<lparr>cs_clock := cs_clock s + cs_delta s\<rparr>;
               t = s\<lparr>cs_in_body := False, cs_acc := []\<rparr> in
        if is_media (cs_type s) then (t\<lparr>cs_last := 11 + cs_size s\<rparr>, [cs_item s]) else (t, []))"

definition settle :: "chunk_state \<Rightarrow> chunk_state \<times> flv_item list" where
  "settle s = (if cs_remain s = 0 then finish s else (s, []))"

definition feed1 :: "chunk_state \<Rightarrow> byte \<Rightarrow> chunk_state \<times> flv_item list" where
  "feed1 s b =
     (if cs_in_body s then
        (if last_chunk s then settle (s\<lparr>cs_acc := cs_acc s @ [b]\<rparr>)
         else let s = s\<lparr>cs_acc := cs_acc s @ [b], cs_read := cs_read s + 1\<rparr> in
           if cs_read s = 4096 then (s\<lparr>cs_read := 0, cs_in_body := False\<rparr>, []) else (s, []))
      else let h = cs_head s @ [b] in
        if length h < header_len (h ! 0) then (s\<lparr>cs_head := h\<rparr>, [])
        else settle ((head_fields h s)\<lparr>cs_head := [], cs_in_body := True\<rparr>))"

fun feed :: "chunk_state \<Rightarrow> bytes \<Rightarrow> chunk_state \<times> flv_item list" where
  "feed s [] = (s, [])"
| "feed s (b # bs) = (let (s, xs) = feed1 s b; (s, ys) = feed s bs in (s, xs @ ys))"

lemma feed_append:
  "feed s (xs @ ys) = (let (t, as) = feed s xs; (u, bs) = feed t ys in (u, as @ bs))"
  by (induction xs arbitrary: s) (auto simp: Let_def split: prod.splits)

section \<open>Feeding a header and a stretch of a body\<close>

lemma cs_remain_simps [simp]:
  "cs_remain (s\<lparr>cs_in_body := v\<rparr>) = cs_remain s"
  "cs_remain (s\<lparr>cs_head := h\<rparr>) = cs_remain s"
  "cs_remain (s\<lparr>cs_read := r\<rparr>) = cs_remain s"
  by (simp_all add: cs_remain_def)

lemma feed_head_part:
  "\<not> cs_in_body s \<Longrightarrow> hs @ h \<noteq> [] \<Longrightarrow> length (hs @ h) < header_len ((hs @ h) ! 0) \<Longrightarrow> cs_head s = hs \<Longrightarrow>
   feed s h = (s\<lparr>cs_head := hs @ h\<rparr>, [])"
proof (induction h arbitrary: s hs)
  case Nil
  then show ?case by simp
next
  case (Cons b h)
  have hd: "(hs @ [b]) ! 0 = (hs @ b # h) ! 0" by (cases hs) auto
  have "feed1 s b = (s\<lparr>cs_head := hs @ [b]\<rparr>, [])"
    using Cons.prems hd by (simp add: feed1_def Let_def)
  moreover have "feed (s\<lparr>cs_head := hs @ [b]\<rparr>) h = (s\<lparr>cs_head := hs @ [b]\<rparr>\<lparr>cs_head := (hs @ [b]) @ h\<rparr>, [])"
    by (rule Cons.IH) (use Cons.prems hd in auto)
  ultimately show ?case by simp
qed

lemma feed_head:
  assumes "\<not> cs_in_body s" "cs_head s = []" "h \<noteq> []" "length h = header_len (h ! 0)"
  shows "feed s h = settle ((head_fields h s)\<lparr>cs_in_body := True\<rparr>)"
proof -
  obtain g b where h: "h = g @ [b]" using assms(3) by (cases h rule: rev_exhaust) auto
  have g: "feed s g = (s\<lparr>cs_head := g\<rparr>, [])"
  proof (cases "g = []")
    case True
    with assms(2) show ?thesis by (cases s) simp
  next
    case False
    with assms h show ?thesis using feed_head_part [of s "[]" g] by (simp add: nth_append)
  qed
  have "feed1 (s\<lparr>cs_head := g\<rparr>) b = settle ((head_fields h s)\<lparr>cs_in_body := True\<rparr>)"
  proof -
    have "(head_fields h (s\<lparr>cs_head := g\<rparr>))\<lparr>cs_head := [], cs_in_body := True\<rparr> =
        (head_fields h s)\<lparr>cs_in_body := True\<rparr>"
      using assms(2) by (cases s) (simp add: head_fields_def split: RtmpPackFmt.splits)
    moreover have "feed1 (s\<lparr>cs_head := g\<rparr>) b =
        settle ((head_fields h (s\<lparr>cs_head := g\<rparr>))\<lparr>cs_head := [], cs_in_body := True\<rparr>)"
      using assms h by (simp add: feed1_def Let_def)
    ultimately show ?thesis by simp
  qed
  then show ?thesis using g h by (simp add: feed_append Let_def split: prod.splits)
qed

lemma unat_cs_remain:
  assumes "unat (cs_remain s) \<noteq> 0"
  shows "unat (cs_remain (s\<lparr>cs_acc := cs_acc s @ [b]\<rparr>)) = unat (cs_remain s) - 1"
proof -
  have "cs_remain (s\<lparr>cs_acc := cs_acc s @ [b]\<rparr>) = cs_remain s - 1"
    by (simp add: cs_remain_def to_u32_def)
  moreover have "cs_remain s \<noteq> 0" using assms by auto
  ultimately show ?thesis by (simp add: unat_minus_one)
qed

text \<open>Bytes of the last chunk of a message.\<close>

lemma feed_last_chunk:
  "cs_in_body s \<Longrightarrow> last_chunk s \<Longrightarrow> xs \<noteq> [] \<Longrightarrow> length xs \<le> unat (cs_remain s) \<Longrightarrow>
   feed s xs = settle (s\<lparr>cs_acc := cs_acc s @ xs\<rparr>)"
proof (induction xs arbitrary: s)
  case Nil
  then show ?case by simp
next
  case (Cons b xs)
  let ?s = "s\<lparr>cs_acc := cs_acc s @ [b]\<rparr>"
  have r: "unat (cs_remain ?s) = unat (cs_remain s) - 1"
    by (rule unat_cs_remain) (use Cons.prems in auto)
  have f: "feed1 s b = settle ?s" using Cons.prems by (simp add: feed1_def)
  show ?case
  proof (cases "xs = []")
    case True
    then show ?thesis using f by (simp split: prod.splits)
  next
    case False
    then have 1: "1 \<le> length xs" by (cases xs) auto
    have 2: "Suc (length xs) \<le> unat (cs_remain s)" using Cons.prems(4) by simp
    have le: "length xs \<le> unat (cs_remain ?s)" using 2 r by linarith
    have "unat (cs_remain ?s) \<noteq> 0" using 1 2 r by linarith
    then have nz: "cs_remain ?s \<noteq> 0" by auto
    have "unat (cs_remain s) \<le> 4096" "cs_read s = 0"
      using Cons.prems(2) by (simp_all add: last_chunk_def word_le_nat_alt)
    then have "unat (cs_remain ?s) \<le> 4096" using r by linarith
    then have "last_chunk ?s" using \<open>cs_read s = 0\<close> by (simp add: last_chunk_def word_le_nat_alt)
    with Cons.IH [of ?s] False le nz Cons.prems show ?thesis by (simp add: f settle_def)
  qed
qed

text \<open>Bytes of a chunk that is not the message's last.\<close>

lemma feed_mid_chunk:
  assumes "cs_in_body s" "\<not> last_chunk s" "unat (cs_read s) + length xs \<le> 4096"
    "unat (cs_read s) < 4096"
  shows "feed s xs =
    (if unat (cs_read s) + length xs = 4096
     then (s\<lparr>cs_acc := cs_acc s @ xs, cs_read := 0, cs_in_body := False\<rparr>, [])
     else (s\<lparr>cs_acc := cs_acc s @ xs, cs_read := cs_read s + to_u32 (length xs)\<rparr>, []))"
  using assms
proof (induction xs arbitrary: s)
  case Nil
  then show ?case by (cases s) (simp add: to_u32_def)
next
  case (Cons b xs)
  let ?s = "s\<lparr>cs_acc := cs_acc s @ [b], cs_read := cs_read s + 1\<rparr>"
  have r: "unat (cs_read s + 1) = unat (cs_read s) + 1"
    using Cons.prems(4) by (simp add: unat_word_ariths)
  have e: "cs_read s + 1 = 4096 \<longleftrightarrow> unat (cs_read s) + 1 = 4096"
    using r by (simp add: word_unat_eq_iff)
  show ?case
  proof (cases "unat (cs_read s) + 1 = 4096")
    case True
    then have "xs = []" using Cons.prems by (cases xs) auto
    with True e Cons.prems show ?thesis by (simp add: feed1_def Let_def)
  next
    case False
    then have f: "feed1 s b = (?s, [])" using Cons.prems e by (simp add: feed1_def Let_def)
    have "cs_read s + 1 \<noteq> 0" using r by auto
    then have nl: "\<not> last_chunk ?s" by (simp add: last_chunk_def)
    have "feed ?s xs = (if unat (cs_read ?s) + length xs = 4096
       then (?s\<lparr>cs_acc := cs_acc ?s @ xs, cs_read := 0, cs_in_body := False\<rparr>, [])
       else (?s\<lparr>cs_acc := cs_acc ?s @ xs, cs_read := cs_read ?s + to_u32 (length xs)\<rparr>, []))"
      by (rule Cons.IH) (use Cons.prems nl r False in auto)
    then show ?thesis using f r by (simp add: to_u32_def algebra_simps)
  qed
qed

text \<open>Feeding from a state whose message may be complete already.\<close>

definition feed_from :: "chunk_state \<Rightarrow> bytes \<Rightarrow> chunk_state \<times> flv_item list" where
  "feed_from s xs = (let (t, as) = settle s; (u, bs) = feed t xs in (u, as @ bs))"

lemma feed_from_open: "cs_remain s \<noteq> 0 \<Longrightarrow> feed_from s xs = feed s xs"
  by (simp add: feed_from_def settle_def Let_def split: prod.splits)

lemma feed_head_then:
  assumes "\<not> cs_in_body s" "cs_head s = []" "h \<noteq> []" "length h = header_len (h ! 0)"
  shows "feed s (h @ xs) = feed_from ((head_fields h s)\<lparr>cs_in_body := True\<rparr>) xs"
  by (simp add: feed_append feed_head [OF assms] feed_from_def)

lemma finish_in_body [simp]: "finish (s\<lparr>cs_in_body := v\<rparr>) = finish s"
  by (cases s) (simp add: finish_def cs_item_def Let_def)

lemma remain_after:
  assumes "length xs = unat (cs_remain s)"
  shows "cs_remain (s\<lparr>cs_acc := cs_acc s @ xs\<rparr>) = 0"
  using assms by (simp add: cs_remain_def to_u32_def)

lemma feed_from_last:
  assumes "cs_in_body s" "last_chunk s" "length xs = unat (cs_remain s)"
  shows "feed_from s xs = finish (s\<lparr>cs_acc := cs_acc s @ xs\<rparr>)"
proof (cases "cs_remain s = 0")
  case True
  then have "xs = []" using assms(3) by simp
  with True show ?thesis by (simp add: feed_from_def settle_def split: prod.splits)
next
  case False
  then have "unat (cs_remain s) \<noteq> 0" by (simp add: unat_eq_0)
  with assms(3) have "xs \<noteq> []" by auto
  with False assms show ?thesis
    by (simp add: feed_from_open feed_last_chunk remain_after settle_def)
qed

lemma feed_from_part:
  assumes "cs_in_body s" "last_chunk s" "length xs < unat (cs_remain s)"
  shows "feed_from s xs = (s\<lparr>cs_acc := cs_acc s @ xs\<rparr>, [])"
    and "cs_remain (s\<lparr>cs_acc := cs_acc s @ xs\<rparr>) \<noteq> 0"
proof -
  have r: "cs_remain (s\<lparr>cs_acc := cs_acc s @ xs\<rparr>) = cs_remain s - to_u32 (length xs)"
    by (simp add: cs_remain_def to_u32_def)
  have "length xs < 2 ^ 32" using assms(3) unat_u32_lt [of "cs_remain s"] by linarith
  then have "to_u32 (length xs) \<noteq> cs_remain s"
    using assms(3) by (metis less_irrefl unat_to_u32_small)
  then show nz: "cs_remain (s\<lparr>cs_acc := cs_acc s @ xs\<rparr>) \<noteq> 0" by (simp add: r)
  have "cs_remain s \<noteq> 0" using assms(3) by auto
  with assms nz show "feed_from s xs = (s\<lparr>cs_acc := cs_acc s @ xs\<rparr>, [])"
    by (cases "xs = []") (simp_all add: feed_from_open feed_last_chunk settle_def)
qed

text \<open>The machine collects at most the bytes it is fed.\<close>

lemma finish_acc: "length (cs_acc (fst (finish s))) \<le> length (cs_acc s)"
  by (simp add: finish_def Let_def)

lemma settle_acc: "length (cs_acc (fst (settle s))) \<le> length (cs_acc s)"
  by (simp add: settle_def finish_acc)

lemma head_fields_acc [simp]: "cs_acc (head_fields h s) = cs_acc s"
  by (simp add: head_fields_def split: RtmpPackFmt.splits)

lemma feed1_acc: "length (cs_acc (fst (feed1 s b))) \<le> length (cs_acc s) + 1"
  using settle_acc [of "s\<lparr>cs_acc := cs_acc s @ [b]\<rparr>"]
    settle_acc [of "(head_fields (cs_head s @ [b]) s)\<lparr>cs_head := [], cs_in_body := True\<rparr>"]
  by (simp add: feed1_def Let_def)

lemma feed_acc: "length (cs_acc (fst (feed s xs))) \<le> length (cs_acc s) + length xs"
proof (induction xs arbitrary: s)
  case Nil
  then show ?case by simp
next
  case (Cons b xs)
  obtain t as u bs where "feed1 s b = (t, as)" "feed t xs = (u, bs)" by fastforce
  with feed1_acc [of s b] Cons [of t] show ?case by simp
qed

section \<open>Encoding messages\<close>

text \<open>
  A message with the format of its first header. Formats 2 and 3 leave out fields that are
  as in the message before it; a body is cut every 4096 bytes by a one-byte header.
\<close>

record rtmp_msg =
  ms_fmt :: RtmpPackFmt
  ms_delta :: u32
  ms_type :: RtmpPackType
  ms_data :: bytes

definition basic_header :: "nat \<Rightarrow> RtmpPackFmt \<Rightarrow> byte" where
  "basic_header csid f = word_of_nat (64 * unat (fmt_code f) + csid)"

definition u24 :: "u32 \<Rightarrow> bytes" where
  "u24 w = [u32_byte w 2, u32_byte w 1, u32_byte w 0]"

definition msg_size :: "rtmp_msg \<Rightarrow> u32" where
  "msg_size m = to_u32 (length (ms_data m))"

fun msg_header :: "nat \<Rightarrow> bytes \<Rightarrow> rtmp_msg \<Rightarrow> bytes" where
  "msg_header csid sid m = basic_header csid (ms_fmt m) #
     (case ms_fmt m of
        FMT0 \<Rightarrow> u24 (ms_delta m) @ u24 (msg_size m) @ type_code (ms_type m) # sid
      | FMT1 \<Rightarrow> u24 (ms_delta m) @ u24 (msg_size m) @ [type_code (ms_type m)]
      | FMT2 \<Rightarrow> u24 (ms_delta m)
      | FMT3 \<Rightarrow> [])"

function body_chunks :: "byte \<Rightarrow> bytes \<Rightarrow> bytes" where
  "body_chunks c data = (if length data \<le> CHUNK_SIZE then data
     else take CHUNK_SIZE data @ c # body_chunks c (drop CHUNK_SIZE data))"
  by auto
termination by (relation "measure (\<lambda>(c, data). length data)") (auto simp: CHUNK_SIZE_def)

declare body_chunks.simps [simp del]

definition encode_msg :: "nat \<Rightarrow> bytes \<Rightarrow> rtmp_msg \<Rightarrow> bytes" where
  "encode_msg csid sid m = msg_header csid sid m @ body_chunks (basic_header csid FMT3) (ms_data m)"

definition encode_msgs :: "nat \<Rightarrow> bytes \<Rightarrow> rtmp_msg list \<Rightarrow> bytes" where
  "encode_msgs csid sid ms = concat (map (encode_msg csid sid) ms)"

definition msg_ok :: "rtmp_msg \<Rightarrow> bool" where
  "msg_ok m \<longleftrightarrow> unat (ms_delta m) < 2 ^ 24 \<and> ms_data m \<noteq> [] \<and> length (ms_data m) < 2 ^ 24"

fun follows :: "rtmp_msg option \<Rightarrow> rtmp_msg \<Rightarrow> bool" where
  "follows None m \<longleftrightarrow> ms_fmt m = FMT0 \<or> ms_fmt m = FMT1"
| "follows (Some p) m \<longleftrightarrow>
     (ms_fmt m = FMT2 \<or> ms_fmt m = FMT3 \<longrightarrow>
        length (ms_data m) = length (ms_data p) \<and> ms_type m = ms_type p) \<and>
     (ms_fmt m = FMT3 \<longrightarrow> ms_delta m = ms_delta p)"

fun msgs_ok :: "rtmp_msg option \<Rightarrow> rtmp_msg list \<Rightarrow> bool" where
  "msgs_ok p [] \<longleftrightarrow> True"
| "msgs_ok p (m # ms) \<longleftrightarrow> msg_ok m \<and> follows p m \<and> msgs_ok (Some m) ms"

text \<open>The FLV items of a stream of messages, from the clock and the last item's size.\<close>

fun media_items :: "u32 \<Rightarrow> u32 \<Rightarrow> rtmp_msg list \<Rightarrow> flv_item list" where
  "media_items clock prev [] = []"
| "media_items clock prev (m # ms) =
     (let clock = clock + ms_delta m in
      if is_media (ms_type m) then
        \<lparr>it_prev = prev, it_type = type_code (ms_type m), it_ts = take_bit 24 clock,
          it_tail = [0, 0, 0, 0], it_data = ms_data m\<rparr> # media_items clock (11 + msg_size m) ms
      else media_items clock prev ms)"

section \<open>Round trip\<close>

definition idle :: "chunk_state \<Rightarrow> bool" where
  "idle s \<longleftrightarrow> \<not> cs_in_body s \<and> cs_head s = [] \<and> cs_acc s = [] \<and> cs_read s = 0"

text \<open>The fields of the last message, which compressed headers refer to.\<close>

definition carries :: "chunk_state \<Rightarrow> rtmp_msg \<Rightarrow> bool" where
  "carries s m \<longleftrightarrow> cs_delta s = ms_delta m \<and> cs_size s = msg_size m \<and> cs_type s = ms_type m"

lemma unat_basic_header:
  assumes "csid < 64"
  shows "unat (basic_header csid f) = 64 * unat (fmt_code f) + csid"
proof -
  have "unat (fmt_code f) \<le> 3" by (cases f) simp_all
  then have "64 * unat (fmt_code f) + csid < 256" using assms by linarith
  then show ?thesis by (simp add: basic_header_def unat_of_nat del: of_nat_add of_nat_mult)
qed

lemma fmt_of_basic [simp]:
  assumes "csid < 64"
  shows "fmt_of (drop_bit 6 (basic_header csid f)) = f"
proof -
  have "unat (drop_bit 6 (basic_header csid f)) = unat (basic_header csid f) div 64"
    by (subst unat_drop_bit_eq) (simp add: drop_bit_eq_div)
  also have "\<dots> = unat (fmt_code f)" using assms by (simp add: unat_basic_header)
  finally have "drop_bit 6 (basic_header csid f) = fmt_code f" by (simp only: word_unat_eq_iff)
  then show ?thesis by simp
qed

lemma header_len_basic:
  "csid < 64 \<Longrightarrow> header_len (basic_header csid f) =
     (case f of FMT0 \<Rightarrow> 12 | FMT1 \<Rightarrow> 8 | FMT2 \<Rightarrow> 4 | FMT3 \<Rightarrow> 1)"
  by (simp add: header_len_def)

lemma pack_type_of_code [simp]: "pack_type_of (type_code ty) = ty"
  by (cases ty) (simp_all add: pack_type_of_def)

lemma u24_read:
  assumes "unat w < 2 ^ 24"
  shows "be24 (u32_byte w 2) (u32_byte w (Suc 0)) (u32_byte w 0) = w"
  using be24_u32_byte [of w] take_bit_24_small [OF assms] by simp

lemma msg_ok_size: "msg_ok m \<Longrightarrow> unat (msg_size m) = length (ms_data m)"
  by (simp add: msg_ok_def msg_size_def)

text \<open>The header of a message.\<close>

lemma feed_msg_header:
  assumes "idle s" "csid < 64" "length sid = 4" "msg_ok m" "p = None \<or> (\<exists>q. p = Some q \<and> carries s q)"
    "follows p m"
  obtains t where "feed s (msg_header csid sid m @ xs) = feed_from t xs" "carries t m" "cs_in_body t"
    "cs_head t = []" "cs_acc t = []" "cs_read t = 0" "cs_clock t = cs_clock s" "cs_last t = cs_last s"
proof -
  define t where "t = (head_fields (msg_header csid sid m) s)\<lparr>cs_in_body := True\<rparr>"
  have d: "be24 (u32_byte (ms_delta m) 2) (u32_byte (ms_delta m) (Suc 0)) (u32_byte (ms_delta m) 0) = ms_delta m"
    "be24 (u32_byte (msg_size m) 2) (u32_byte (msg_size m) (Suc 0)) (u32_byte (msg_size m) 0) = msg_size m"
    using assms(4) by (simp_all add: u24_read msg_ok_def msg_ok_size)
  have "feed s (msg_header csid sid m @ xs) = feed_from t xs"
    unfolding t_def using assms(1-3)
    by (intro feed_head_then) (simp_all add: idle_def header_len_basic u24_def split: RtmpPackFmt.split)
  moreover have "carries t m"
    using assms(2,5,6) d
    by (cases "ms_fmt m") (auto simp: t_def head_fields_def u24_def carries_def msg_size_def)
  moreover have "cs_in_body t" "cs_head t = []" "cs_acc t = []" "cs_read t = 0" "cs_clock t = cs_clock s"
    "cs_last t = cs_last s"
    using assms(1,2) by (simp_all add: t_def head_fields_def idle_def split: RtmpPackFmt.split)
  ultimately show ?thesis by (rule that)
qed

text \<open>The body: \<open>data\<close> is what is missing to the size in the header.\<close>

lemma feed_body_chunks:
  assumes "csid < 64"
  shows "cs_in_body t \<Longrightarrow> cs_head t = [] \<Longrightarrow> cs_read t = 0 \<Longrightarrow> data \<noteq> [] \<Longrightarrow>
   unat (cs_size t) = length (cs_acc t) + length data \<Longrightarrow>
   feed_from t (body_chunks (basic_header csid FMT3) data) = finish (t\<lparr>cs_acc := cs_acc t @ data\<rparr>)"
proof (induction "basic_header csid FMT3" data arbitrary: t rule: body_chunks.induct)
  case (1 data)
  let ?c = "basic_header csid FMT3"
  have sum: "length (cs_acc t) + length data < 2 ^ 32" using 1(6) unat_u32_lt [of "cs_size t"] by simp
  have rem: "unat (cs_remain t) = length data"
  proof -
    have "cs_size t = to_u32 (length (cs_acc t) + length data)" using 1(6) by (metis to_u32_unat)
    then have "cs_remain t = to_u32 (length data)" by (simp add: cs_remain_def to_u32_def)
    then show ?thesis using sum by simp
  qed
  then have open0: "cs_remain t \<noteq> 0" using 1(5) by auto
  show ?case
  proof (cases "length data \<le> CHUNK_SIZE")
    case True
    then have "last_chunk t" using rem 1(4) by (simp add: last_chunk_def CHUNK_SIZE_def word_le_nat_alt)
    with True 1(2) rem show ?thesis by (simp add: body_chunks.simps feed_from_last)
  next
    case False
    let ?d = "take CHUNK_SIZE data"
    let ?t = "t\<lparr>cs_acc := cs_acc t @ ?d\<rparr>"
    have len: "length ?d = 4096" using False by (simp add: CHUNK_SIZE_def)
    have "\<not> last_chunk t" using False rem by (simp add: last_chunk_def CHUNK_SIZE_def word_le_nat_alt)
    then have part: "feed t ?d = (?t\<lparr>cs_read := 0, cs_in_body := False\<rparr>, [])"
      using feed_mid_chunk [of t ?d] 1(2,4) len by simp
    have "feed (?t\<lparr>cs_read := 0, cs_in_body := False\<rparr>) ([?c] @ body_chunks ?c (drop CHUNK_SIZE data)) =
        feed_from ((head_fields [?c] (?t\<lparr>cs_read := 0, cs_in_body := False\<rparr>))\<lparr>cs_in_body := True\<rparr>)
          (body_chunks ?c (drop CHUNK_SIZE data))"
      by (rule feed_head_then) (use assms 1(3) in \<open>simp_all add: header_len_basic\<close>)
    moreover have "(head_fields [?c] (?t\<lparr>cs_read := 0, cs_in_body := False\<rparr>))\<lparr>cs_in_body := True\<rparr> = ?t"
      using assms 1(2,4) by (cases t) (simp add: head_fields_def)
    ultimately have rest: "feed (?t\<lparr>cs_read := 0, cs_in_body := False\<rparr>) (?c # body_chunks ?c (drop CHUNK_SIZE data))
        = feed_from ?t (body_chunks ?c (drop CHUNK_SIZE data))" by simp
    have "feed_from ?t (body_chunks ?c (drop CHUNK_SIZE data)) =
        finish (?t\<lparr>cs_acc := cs_acc ?t @ drop CHUNK_SIZE data\<rparr>)"
      by (rule 1(1)) (use False 1(2-6) len in \<open>auto simp: CHUNK_SIZE_def\<close>)
    with part rest False show ?thesis
      by (simp add: body_chunks.simps [of _ data] feed_from_open [OF open0] feed_append)
  qed
qed

text \<open>One message read back.\<close>

definition msg_items :: "u32 \<Rightarrow> u32 \<Rightarrow> rtmp_msg \<Rightarrow> flv_item list" where
  "msg_items clock prev m =
     (if is_media (ms_type m) then
        [\<lparr>it_prev = prev, it_type = type_code (ms_type m), it_ts = take_bit 24 (clock + ms_delta m),
          it_tail = [0, 0, 0, 0], it_data = ms_data m\<rparr>] else [])"

definition next_prev :: "u32 \<Rightarrow> rtmp_msg \<Rightarrow> u32" where
  "next_prev prev m = (if is_media (ms_type m) then 11 + msg_size m else prev)"

lemma media_items_Cons:
  "media_items clock prev (m # ms) =
     msg_items clock prev m @ media_items (clock + ms_delta m) (next_prev prev m) ms"
  by (simp add: msg_items_def next_prev_def Let_def)

lemma feed_msg:
  assumes "idle s" "csid < 64" "length sid = 4" "msg_ok m" "p = None \<or> (\<exists>q. p = Some q \<and> carries s q)"
    "follows p m"
  obtains t where "feed s (encode_msg csid sid m) = (t, msg_items (cs_clock s) (cs_last s) m)" "idle t"
    "carries t m" "cs_clock t = cs_clock s + ms_delta m" "cs_last t = next_prev (cs_last s) m"
proof -
  obtain u where u: "feed s (encode_msg csid sid m) = feed_from u (body_chunks (basic_header csid FMT3) (ms_data m))"
      "carries u m" "cs_in_body u" "cs_head u = []" "cs_acc u = []" "cs_read u = 0"
      "cs_clock u = cs_clock s" "cs_last u = cs_last s"
    unfolding encode_msg_def by (rule feed_msg_header [OF assms]) blast
  have data: "ms_data m \<noteq> []" "unat (cs_size u) = length (cs_acc u) + length (ms_data m)"
    using assms(4) u(2,5) by (simp_all add: carries_def msg_ok_size) (simp add: msg_ok_def)
  have "cs_size u \<noteq> 0" using data by (metis add_is_0 length_0_conv unat_0)
  moreover note feed_body_chunks [OF assms(2) u(3,4,6) data]
  ultimately have f: "feed s (encode_msg csid sid m) =
     (u\<lparr>cs_clock := cs_clock u + cs_delta u, cs_in_body := False, cs_acc := [],
        cs_last := next_prev (cs_last s) m\<rparr>, msg_items (cs_clock s) (cs_last s) m)"
    using u by (simp add: finish_def cs_item_def carries_def msg_items_def next_prev_def Let_def)
  show ?thesis by (rule that [OF f]) (use u in \<open>simp_all add: idle_def carries_def\<close>)
qed

lemma feed_msgs:
  assumes "csid < 64" "length sid = 4"
  shows "idle s \<Longrightarrow> p = None \<or> (\<exists>q. p = Some q \<and> carries s q) \<Longrightarrow> msgs_ok p ms \<Longrightarrow>
    \<exists>t. feed s (encode_msgs csid sid ms) = (t, media_items (cs_clock s) (cs_last s) ms) \<and> idle t"
proof (induction ms arbitrary: s p)
  case Nil
  then show ?case by (simp add: encode_msgs_def)
next
  case (Cons m ms)
  then have ok: "msg_ok m" "follows p m" "msgs_ok (Some m) ms" by simp_all
  obtain t where t: "feed s (encode_msg csid sid m) = (t, msg_items (cs_clock s) (cs_last s) m)" "idle t"
    "carries t m" "cs_clock t = cs_clock s + ms_delta m" "cs_last t = next_prev (cs_last s) m"
    by (rule feed_msg [OF Cons.prems(1) assms ok(1) Cons.prems(2) ok(2)]) blast
  obtain u where "feed t (encode_msgs csid sid ms) = (u, media_items (cs_clock t) (cs_last t) ms)" "idle u"
    using Cons.IH [OF t(2) _ ok(3)] t(3) by auto
  with t show ?case by (simp add: encode_msgs_def feed_append media_items_Cons del: media_items.simps)
qed

text \<open>The chain of previous tag sizes of the items.\<close>

fun chain_from :: "u32 \<Rightarrow> flv_item list \<Rightarrow> bool" where
  "chain_from prev [] \<longleftrightarrow> True"
| "chain_from prev (it # its) \<longleftrightarrow> it_prev it = prev \<and> chain_from (11 + to_u32 (length (it_data it))) its"

lemma media_items_chain: "chain_from prev (media_items clock prev ms)"
  by (induction ms arbitrary: clock prev) (simp_all add: msg_size_def Let_def)

lemma media_items_data:
  "map it_data (media_items clock prev ms) = map ms_data (filter (\<lambda>m. is_media (ms_type m)) ms)"
  by (induction ms arbitrary: clock prev) (simp_all add: Let_def)

text \<open>The items of any bytes form a chain, whatever the headers in them say.\<close>

definition last_of :: "u32 \<Rightarrow> flv_item list \<Rightarrow> u32" where
  "last_of prev its = (if its = [] then prev else 11 + to_u32 (length (it_data (last its))))"

lemma chain_append:
  "chain_from prev (xs @ ys) \<longleftrightarrow> chain_from prev xs \<and> chain_from (last_of prev xs) ys"
  by (induction xs arbitrary: prev) (auto simp: last_of_def)

lemma finish_chain:
  "cs_remain s = 0 \<Longrightarrow> finish s = (t, its) \<Longrightarrow> chain_from (cs_last s) its \<and> cs_last t = last_of (cs_last s) its"
  by (auto simp: finish_def cs_item_def last_of_def cs_remain_def Let_def split: if_splits)

lemma settle_chain:
  "settle s = (t, its) \<Longrightarrow> chain_from (cs_last s) its \<and> cs_last t = last_of (cs_last s) its"
  by (auto simp: settle_def last_of_def split: if_splits dest: finish_chain)

lemma head_fields_last [simp]: "cs_last (head_fields h s) = cs_last s"
  by (simp add: head_fields_def split: RtmpPackFmt.splits)

lemma feed1_chain:
  "feed1 s b = (t, its) \<Longrightarrow> chain_from (cs_last s) its \<and> cs_last t = last_of (cs_last s) its"
  by (auto simp: feed1_def last_of_def Let_def split: if_splits dest: settle_chain)

lemma feed_chain:
  "feed s xs = (t, its) \<Longrightarrow> chain_from (cs_last s) its \<and> cs_last t = last_of (cs_last s) its"
proof (induction xs arbitrary: s its)
  case Nil
  then show ?case by (simp add: last_of_def)
next
  case (Cons b xs)
  obtain u as bs where "feed1 s b = (u, as)" "feed u xs = (t, bs)" "its = as @ bs"
    using Cons.prems by (auto split: prod.splits)
  with feed1_chain [of s b u as] Cons.IH [of u bs] show ?case
    by (auto simp: chain_append last_of_def)
qed

text \<open>
  A stream of messages, encoded with any mixture of the four header formats that RTMP
  allows and cut into chunks, reads back as these messages: each audio or video message
  is one item with its bytes, the sum of the relative timestamps so far and the size of the
  item before it, and the reader is left between two messages.
\<close>

theorem chunk_stream_round_trip:
  assumes "idle s" "csid < 64" "length sid = 4" "msgs_ok None ms"
  shows "snd (feed s (encode_msgs csid sid ms)) = media_items (cs_clock s) (cs_last s) ms \<and>
    idle (fst (feed s (encode_msgs csid sid ms))) \<and>
    map it_data (snd (feed s (encode_msgs csid sid ms))) =
      map ms_data (filter (\<lambda>m. is_media (ms_type m)) ms) \<and>
    chain_from (cs_last s) (snd (feed s (encode_msgs csid sid ms)))"
  using feed_msgs [OF assms(2,3,1) _ assms(4)] media_items_chain media_items_data by auto

definition fresh_chunk_state :: chunk_state where
  "fresh_chunk_state = \<lparr>cs_head = [], cs_in_body = False, cs_delta = 0, cs_size = 0, cs_type = RTMP_OTHER,
     cs_acc = [], cs_read = 0, cs_clock = 0, cs_last = 0\<rparr>"

definition sample_msgs :: "rtmp_msg list" where
  "sample_msgs = [\<lparr>ms_fmt = FMT0, ms_delta = 40, ms_type = RTMP_VIDEO, ms_data = [0x17, 1, 2]\<rparr>,
     \<lparr>ms_fmt = FMT3, ms_delta = 40, ms_type = RTMP_VIDEO, ms_data = [0x27, 1, 5]\<rparr>]"

lemma sample_msgs_ok: "msgs_ok None sample_msgs"
  by (simp add: sample_msgs_def msg_ok_def)

theorem chunk_stream_round_trip_witness:
  "map it_data (snd (feed fresh_chunk_state (encode_msgs 4 [1, 0, 0, 0] sample_msgs))) =
     [[0x17, 1, 2], [0x27, 1, 5]]"
proof -
  have "idle fresh_chunk_state" by (simp add: idle_def fresh_chunk_state_def)
  from chunk_stream_round_trip [OF this _ _ sample_msgs_ok, of 4 "[1, 0, 0, 0]"] show ?thesis
    by (simp add: sample_msgs_def is_media_def)
qed

end
