(* ===== verification/FlvManager.thy ===== *)
theory FlvManager
  imports FlvCodec
begin

text \<open>
  \<^verbatim>\<open>utils/codec/FlvManager.{h,cpp}\<close>, the part the server uses: the script tag and the
  first video and audio tag of a stream, and the encoding of the stream's head (file
  header and these three tags) into a buffer. The specification is the chain of
  \<open>PreviousTagSize\<close> fields of a well-formed FLV stream. The last lemmas are about what
  the file parser relies on, \<^verbatim>\<open>GetPreviousTagSize\<close>.
\<close>

record flv_manager =
  script_tag :: flv_tag
  video_audio_tag0 :: flv_tag
  video_audio_tag1 :: flv_tag

definition FlvManager_new :: flv_manager where
  "FlvManager_new = \<lparr>script_tag = FlvTag_new, video_audio_tag0 = FlvTag_new, video_audio_tag1 = FlvTag_new\<rparr>"

definition GetScriptTag :: "flv_manager \<Rightarrow> flv_tag" where
  "GetScriptTag m = script_tag m"

definition GetVideoAudioTags :: "flv_manager \<Rightarrow> flv_tag list" where
  "GetVideoAudioTags m = [video_audio_tag0 m, video_audio_tag1 m]"

definition headers_length :: "flv_manager \<Rightarrow> u32" where
  "headers_length m = of_nat FLV_HEADER_LENGTH + GetCurrentTagSize (script_tag m) + 4
     + GetCurrentTagSize (video_audio_tag0 m) + 4 + GetCurrentTagSize (video_audio_tag1 m) + 4"

definition append_tag :: "flv_tag \<Rightarrow> buffer \<Rightarrow> buffer result" where
  "append_tag t b =
     ebind (AppendData (tag_header t) b) (\<lambda>b.
     ebind (AppendBuffer (tag_body t) b) (\<lambda>(_, b). Inr b))"

definition EncodeHeadersToBuffer :: "flv_manager \<Rightarrow> buffer \<Rightarrow> (int \<times> flv_manager \<times> buffer) result" where
  "EncodeHeadersToBuffer m b =
     (let data_length = headers_length m in
      if WritableLength b < unat data_length then Inr (0, m, b)
      else let (result, hdr) = FlvHeader_EncodeToBuffer (WritableLength b) in
        ebind (WriteBegin_put hdr b) (\<lambda>b.
        if \<not> result > 0 then Inl AssertFailed
        else
          ebind (append_tag (script_tag m) (AddWriteIndex (nat result) b)) (\<lambda>b.
          let v0 = SetPreviousTagSize (GetCurrentTagSize (script_tag m)) (video_audio_tag0 m);
              v1 = SetPreviousTagSize (GetCurrentTagSize v0) (video_audio_tag1 m);
              m = m\<lparr>video_audio_tag0 := v0, video_audio_tag1 := v1\<rparr> in
          ebind (append_tag v0 b) (\<lambda>b.
          ebind (append_tag v1 b) (\<lambda>b.
          Inr (int (unat data_length), m, b))))))"

section \<open>Sizes\<close>

lemma unat_GetDataSize_lt: "unat (GetDataSize t) < 2 ^ 24"
  unfolding GetDataSize_def by (rule unat_be24_lt)

lemma unat_GetCurrentTagSize: "unat (GetCurrentTagSize t) = 11 + unat (GetDataSize t)"
  using unat_GetDataSize_lt [of t]
  by (simp add: GetCurrentTagSize_def FLV_TAG_HEADER_LENGTH_def unat_word_ariths)

lemma unat_headers_length:
  "unat (headers_length m) = 54 + unat (GetDataSize (script_tag m)) +
     unat (GetDataSize (video_audio_tag0 m)) + unat (GetDataSize (video_audio_tag1 m))"
  using unat_GetDataSize_lt [of "script_tag m"] unat_GetDataSize_lt [of "video_audio_tag0 m"]
    unat_GetDataSize_lt [of "video_audio_tag1 m"]
  by (simp add: headers_length_def FLV_HEADER_LENGTH_def unat_word_ariths unat_GetCurrentTagSize)

lemma length_tag_bytes: "tag_complete t \<Longrightarrow> length (tag_bytes t) = 15 + unat (GetDataSize t)"
  by (simp add: tag_complete_def tag_bytes_def hdr_ok_def)

lemma tag_complete_new: "tag_complete FlvTag_new"
  by (simp add: tag_complete_def FlvTag_new_def hdr_ok_def GetDataSize_def flv_offsets unat_be24)

lemma tag_complete_prev [simp]: "tag_complete t \<Longrightarrow> tag_complete (SetPreviousTagSize n t)"
  by (simp add: tag_complete_def)

lemma tag_completeD: "tag_complete t \<Longrightarrow> hdr_ok t" "tag_complete t \<Longrightarrow> buf_ok (tag_body t)"
  by (simp_all add: tag_complete_def)

lemma append_tag_eq:
  "buf_ok (tag_body t) \<Longrightarrow> append_tag t b = append_all AppendData [tag_header t, readable (tag_body t)] b"
  by (cases "AppendData (tag_header t) b")
    (auto simp: append_tag_def AppendBuffer_eq ebind_def split: sum.splits)

lemma append_tag_ok:
  assumes "buf_ok b" "tag_complete t" "length (readable b) + 2 ^ 25 \<le> 2 ^ 62"
  shows "holds (\<lambda>b'. buf_ok b' \<and> readable b' = readable b @ tag_bytes t) (append_tag t b)"
proof -
  have "length (readable b) + length (concat [tag_header t, readable (tag_body t)]) \<le> 2 ^ 62"
    using length_tag_bytes [OF assms(2)] unat_GetDataSize_lt [of t] assms(3) by (simp add: tag_bytes_def)
  from bq.append_all_ok [OF assms(1) this] show ?thesis
    by (simp add: append_tag_eq tag_completeD(2) [OF assms(2)] tag_bytes_def)
qed

lemma append_tag_step:
  assumes "buf_ok b" "tag_complete t" "length (readable b) \<le> 2 ^ 61 + k" "k \<le> 2 ^ 28"
  obtains b' where "append_tag t b = Inr b'" "buf_ok b'" "readable b' = readable b @ tag_bytes t"
    "length (readable b') \<le> 2 ^ 61 + (k + 2 ^ 25)"
proof -
  have "holds (\<lambda>b'. buf_ok b' \<and> readable b' = readable b @ tag_bytes t) (append_tag t b)"
    by (rule append_tag_ok) (use assms in auto)
  then obtain b' where "append_tag t b = Inr b'" "buf_ok b'" "readable b' = readable b @ tag_bytes t"
    by (auto simp: holds_def)
  moreover have "length (tag_bytes t) \<le> 2 ^ 25"
    using length_tag_bytes [OF assms(2)] unat_GetDataSize_lt [of t] by simp
  ultimately show ?thesis using that assms(3) by simp
qed

section \<open>The head of a stream\<close>

text \<open>A chain of tags: each \<open>PreviousTagSize\<close> is the size of the tag before it.\<close>

fun chained :: "nat \<Rightarrow> flv_item list \<Rightarrow> bool" where
  "chained p [] = True"
| "chained p (it # its) \<longleftrightarrow> unat (it_prev it) = p \<and> chained (11 + length (it_data it)) its"

definition manager_ok :: "flv_manager \<Rightarrow> bool" where
  "manager_ok m \<longleftrightarrow> tag_complete (script_tag m) \<and> tag_complete (video_audio_tag0 m)
     \<and> tag_complete (video_audio_tag1 m) \<and> it_prev (tag_item (script_tag m)) = 0"

text \<open>The three tags with the sizes \<^verbatim>\<open>EncodeHeadersToBuffer\<close> writes into them.\<close>

definition head_tags :: "flv_manager \<Rightarrow> flv_tag list" where
  "head_tags m =
     [script_tag m,
      SetPreviousTagSize (GetCurrentTagSize (script_tag m)) (video_audio_tag0 m),
      SetPreviousTagSize (GetCurrentTagSize (video_audio_tag0 m)) (video_audio_tag1 m)]"

definition head_bytes :: "flv_manager \<Rightarrow> bytes" where
  "head_bytes m = DEFAULT_HEADER @ concat (map tag_bytes (head_tags m))"

lemma length_head_bytes:
  assumes "manager_ok m"
  shows "length (head_bytes m) = unat (headers_length m)"
  using assms length_tag_bytes tag_complete_prev tag_completeD(1)
  by (simp add: head_bytes_def head_tags_def manager_ok_def unat_headers_length DEFAULT_HEADER_def)

lemma length_data_item: "tag_complete t \<Longrightarrow> length (it_data (tag_item t)) = unat (GetDataSize t)"
  by (simp add: tag_item_def tag_complete_def Let_def)

lemma head_tags_chained:
  assumes "manager_ok m"
  shows "chained 0 (map tag_item (head_tags m))"
  using assms
  by (simp add: head_tags_def manager_ok_def tag_item_setters tag_completeD unat_GetCurrentTagSize
      length_data_item)

lemma SetPreviousTagSize_twice:
  "hdr_ok t \<Longrightarrow> SetPreviousTagSize a (SetPreviousTagSize b t) = SetPreviousTagSize a t"
  by (auto elim!: hdr_okE simp: flv_setters flv_offsets overwrite_def)

lemma EncodeHeadersToBuffer_room:
  assumes "manager_ok m" "buf_ok b" "length (buf_data b) \<le> 2 ^ 61"
    and room0: "unat (headers_length m) \<le> WritableLength b"
  shows "\<exists>m' b'. EncodeHeadersToBuffer m b = Inr (int (length (head_bytes m)), m', b') \<and>
      buf_ok b' \<and> manager_ok m' \<and> readable b' = readable b @ head_bytes m \<and>
      head_bytes m' = head_bytes m \<and> head_tags m' = head_tags m \<and> headers_length m' = headers_length m \<and>
      GetCurrentTagSize (video_audio_tag1 m') = GetCurrentTagSize (video_audio_tag1 m)"
proof -
  have c: "tag_complete (script_tag m)" "tag_complete (video_audio_tag0 m)" "tag_complete (video_audio_tag1 m)"
    using assms(1) by (simp_all add: manager_ok_def)
  have room: "54 \<le> WritableLength b" using room0 by (simp add: unat_headers_length)
  have enc: "FlvHeader_EncodeToBuffer (WritableLength b) = (9, DEFAULT_HEADER)"
    using room by (simp add: FlvHeader_EncodeToBuffer_def FLV_HEADER_LENGTH_def)
  have nine: "length DEFAULT_HEADER = 9" by (simp add: DEFAULT_HEADER_def)
  have fit: "write_idx b + length DEFAULT_HEADER \<le> length (buf_data b)"
    using room nine WritableLength_eq [OF assms(2)] buf_okD(3) [OF assms(2)] by simp
  obtain b1 where b1: "WriteBegin_put DEFAULT_HEADER b = Inr b1" "buf_ok (AddWriteIndex 9 b1)"
      "readable (AddWriteIndex 9 b1) = readable b @ DEFAULT_HEADER"
    by (rule put_then_advance [OF assms(2) fit]) (simp add: nine)
  have len: "length (readable b) \<le> 2 ^ 61"
    using assms(3) buf_okD [OF assms(2)] by (simp add: ReadableLength_eq assms(2))
  let ?v0 = "SetPreviousTagSize (GetCurrentTagSize (script_tag m)) (video_audio_tag0 m)"
  let ?v1 = "SetPreviousTagSize (GetCurrentTagSize ?v0) (video_audio_tag1 m)"
  have len1: "length (readable (AddWriteIndex 9 b1)) \<le> 2 ^ 61 + 9" using b1(3) len nine by simp
  obtain b2 where b2: "append_tag (script_tag m) (AddWriteIndex 9 b1) = Inr b2" "buf_ok b2"
      "readable b2 = readable (AddWriteIndex 9 b1) @ tag_bytes (script_tag m)"
      "length (readable b2) \<le> 2 ^ 61 + (9 + 2 ^ 25)"
    by (rule append_tag_step [OF b1(2) c(1) len1]) simp
  obtain b3 where b3: "append_tag ?v0 b2 = Inr b3" "buf_ok b3" "readable b3 = readable b2 @ tag_bytes ?v0"
      "length (readable b3) \<le> 2 ^ 61 + (9 + 2 ^ 25 + 2 ^ 25)"
    by (rule append_tag_step [OF b2(2) tag_complete_prev [OF c(2)] b2(4)]) simp
  obtain b4 where b4: "append_tag ?v1 b3 = Inr b4" "buf_ok b4" "readable b4 = readable b3 @ tag_bytes ?v1"
    by (rule append_tag_step [OF b3(2) tag_complete_prev [OF c(3)] b3(4)]) simp
  have run: "EncodeHeadersToBuffer m b = Inr (int (unat (headers_length m)),
      m\<lparr>video_audio_tag0 := ?v0, video_audio_tag1 := ?v1\<rparr>, b4)"
    using room0 b1 b2 b3 b4 by (simp add: EncodeHeadersToBuffer_def Let_def enc not_less)
  have ok': "manager_ok (m\<lparr>video_audio_tag0 := ?v0, video_audio_tag1 := ?v1\<rparr>)"
    using assms(1) c by (simp add: manager_ok_def)
  have bytes: "readable b4 = readable b @ head_bytes m"
    using b1(3) b2 b3 b4 c by (simp add: head_bytes_def head_tags_def tag_completeD)
  have same: "head_tags (m\<lparr>video_audio_tag0 := ?v0, video_audio_tag1 := ?v1\<rparr>) = head_tags m"
    "headers_length (m\<lparr>video_audio_tag0 := ?v0, video_audio_tag1 := ?v1\<rparr>) = headers_length m"
    "GetCurrentTagSize ?v1 = GetCurrentTagSize (video_audio_tag1 m)"
    using c by (simp_all add: head_tags_def headers_length_def SetPreviousTagSize_twice tag_completeD)
  show ?thesis
    using run ok' b4(2) bytes same unfolding length_head_bytes [OF assms(1)]
    by (intro exI [of _ "m\<lparr>video_audio_tag0 := ?v0, video_audio_tag1 := ?v1\<rparr>"] exI [of _ b4])
      (simp add: head_bytes_def)
qed

lemma decode_head:
  assumes "manager_ok m"
  shows "decode_all read_item (drop 9 (head_bytes m)) = (map tag_item (head_tags m), [])"
proof -
  have "\<forall>t \<in> set (head_tags m). tag_complete t"
    using assms by (simp add: head_tags_def manager_ok_def)
  from decode_tags [OF this] show ?thesis by (simp add: head_bytes_def DEFAULT_HEADER_def)
qed

text \<open>
  C9: when the buffer has room, \<^verbatim>\<open>EncodeHeadersToBuffer\<close> returns the number of bytes it
  appended, and these are the nine header bytes and the three tags, which a reader of
  FLV takes apart again into three tags whose \<open>PreviousTagSize\<close> chain is right; when the
  buffer has no room it returns 0 and changes nothing.
\<close>

theorem EncodeHeadersToBuffer_spec:
  assumes "manager_ok m" "buf_ok b" "length (buf_data b) \<le> 2 ^ 61"
  shows "if WritableLength b < unat (headers_length m) then EncodeHeadersToBuffer m b = Inr (0, m, b)
    else \<exists>m' b'. EncodeHeadersToBuffer m b = Inr (int (length (head_bytes m)), m', b') \<and>
      buf_ok b' \<and> manager_ok m' \<and> readable b' = readable b @ head_bytes m \<and>
      decode_all read_item (drop 9 (head_bytes m)) = (map tag_item (head_tags m), []) \<and>
      chained 0 (map tag_item (head_tags m))"
  using EncodeHeadersToBuffer_room [OF assms] decode_head [OF assms(1)] head_tags_chained [OF assms(1)]
  by (auto simp: EncodeHeadersToBuffer_def Let_def)

definition sample_manager :: flv_manager where
  "sample_manager = \<lparr>script_tag = sample_tag, video_audio_tag0 = sample_tag, video_audio_tag1 = sample_tag\<rparr>"

lemma sample_manager_ok: "manager_ok sample_manager"
proof -
  have "it_prev (tag_item sample_tag) = 0"
    by (simp add: tag_item_def sample_tag_def be32_def Let_def)
  then show ?thesis by (simp add: manager_ok_def sample_manager_def sample_tag_complete)
qed

theorem EncodeHeadersToBuffer_spec_witness:
  "\<exists>m' b'. EncodeHeadersToBuffer sample_manager Buffer_new = Inr (63, m', b') \<and>
    chained 0 (map tag_item (head_tags sample_manager))"
proof -
  have size: "unat (headers_length sample_manager) = 63"
    by (simp add: unat_headers_length) (simp add: sample_manager_def sample_tag_def GetDataSize_def flv_offsets unat_be24)
  have len: "length (head_bytes sample_manager) = 63"
    using length_head_bytes [OF sample_manager_ok] size by simp
  have new: "length (buf_data Buffer_new) \<le> 2 ^ 61" "\<not> WritableLength Buffer_new < 63"
    by (simp_all add: Buffer_new_def Buffer_sized_def DEFAULT_BUFFER_SIZE_def IDX_BEGIN_def WritableLength_def
      size_sub_def size_mod_def)
  have "buf_ok Buffer_new" by simp
  from EncodeHeadersToBuffer_spec [OF sample_manager_ok this new(1)] new(2) show ?thesis
    by (auto simp: size len)
qed

end
