(* ===== verification/RtmpManager.thy ===== *)
theory RtmpManager
  imports ChunkStream FlvManager Format
begin

text \<open>
  \<^verbatim>\<open>utils/codec/RtmpManager.{h,cpp}\<close>: the parser of one publisher's byte stream, the state
  machine of its handshake and of the RTMP chunks behind it. \<open>shared_ptr<FlvTag>\<close>s are
  references into \<open>flv_heap\<close>, since the manager and its connection keep pointers to the same
  tag and write through them. The callback is an argument acting on a state of its own.
\<close>

datatype parse_status = PARSE_FIRST_HEADER | PARSE_RTMP_HEADER | PARSE_RTMP_BODY

datatype shake_hand_pack_type = SHAKE_RTMP_C01 | SHAKE_RTMP_C2 | SHAKE_RTMP_SET_CHUNK_SIZE
  | SHAKE_RTMP_CONNECT | SHAKE_RTMP_RELEASE_STREAM | SHAKE_RTMP_FCPUBLISH
  | SHAKE_RTMP_CREATE_STREAM | SHAKE_RTMP_PUBLISH | SHAKE_SUCCESS | SHAKE_FAILED
  | SHAKE_DATA_NOT_ENOUGH

definition RTMP_START_PARSE_LENGTH :: nat where "RTMP_START_PARSE_LENGTH = 1000"
definition RTMP_CHUNK_SIZE :: u32 where "RTMP_CHUNK_SIZE = 4096"

type_synonym tag_ref = nat

record rtmp_manager =
  parsed_status :: parse_status
  shake_hand_status :: shake_hand_pack_type
  parsed_length :: nat
  rtmp_codec :: u32
  rm_flv_manager :: flv_manager
  current_rtmp_pack :: rtmp_pack
  read_chunk_size :: u32
  chunk_over :: bool
  last_flv_ptr :: "tag_ref option"
  connect_pack :: rtmp_pack
  release_pack :: rtmp_pack
  flv_heap :: "flv_tag list"

text \<open>The callback: the new tag's pointer and the tag behind it, and the callback's own state.\<close>

type_synonym 's tag_callback = "tag_ref \<Rightarrow> flv_tag \<Rightarrow> 's \<Rightarrow> 's result"

text \<open>\<open>junk\<close> holds the indeterminate fields of the default-initialised messages.\<close>

definition RtmpManager_new :: "rtmp_pack \<Rightarrow> rtmp_manager" where
  "RtmpManager_new junk =
     \<lparr>parsed_status = PARSE_FIRST_HEADER, shake_hand_status = SHAKE_RTMP_C01, parsed_length = 0,
      rtmp_codec = RtmpCodec_new, rm_flv_manager = FlvManager_new, current_rtmp_pack = RtmpPack_new junk,
      read_chunk_size = 0, chunk_over = True, last_flv_ptr = None, connect_pack = RtmpPack_new junk,
      release_pack = RtmpPack_new junk, flv_heap = []\<rparr>"

section \<open>Headers and bodies\<close>

definition ParseHeader :: "buffer \<Rightarrow> rtmp_pack \<Rightarrow> (int \<times> rtmp_pack) result" where
  "ParseHeader b p =
     ebind (ReadBegin_at b 0 (ReadableLength b)) (\<lambda>data.
     let (parsed, p) = RtmpCodec_DecodeHeader data p in
     Inr (if parsed < 0 then -1 else if parsed = 0 then 0 else parsed, p))"

text \<open>\<open>rtmp_pack->AppendData(buffer->ReadBegin(), n); buffer->AddReadIndex(n)\<close>.\<close>

definition move_bytes :: "nat \<Rightarrow> buffer \<Rightarrow> rtmp_pack \<Rightarrow> (buffer \<times> rtmp_pack) result" where
  "move_bytes n b p =
     ebind (ReadBegin_at b 0 n) (\<lambda>data.
     ebind (RtmpPack_AppendData data p) (\<lambda>p. Inr (AddReadIndex n b, p)))"

text \<open>The static \<open>ParseBody\<close>; its two last pointer arguments may be null.\<close>

definition ParseBody_static :: "buffer \<Rightarrow> rtmp_pack \<Rightarrow> bool \<Rightarrow> u32 option \<Rightarrow> parse_status option \<Rightarrow>
    (int \<times> buffer \<times> rtmp_pack \<times> u32 option \<times> parse_status option) result" where
  "ParseBody_static b p over rc status =
     (let rd = ReadableLength b; remain = unat (GetBodyRemainSize p) in
      if over then
        if rd < remain then
          ebind (move_bytes rd b p) (\<lambda>(b, p). Inr (0, b, p, rc, status))
        else
          ebind (move_bytes remain b p) (\<lambda>(b, p).
          Inr (int (unat (GetBodyDataSize p)), b, p, rc, map_option (\<lambda>_. PARSE_RTMP_HEADER) status))
      else
        case rc of None \<Rightarrow> Inl NullPointer
        | Some r \<Rightarrow>
            let current_chunk_remain = unat (RTMP_CHUNK_SIZE - r) in
            if rd < current_chunk_remain then
              ebind (move_bytes rd b p) (\<lambda>(b, p). Inr (0, b, p, Some (r + to_u32 rd), status))
            else
              ebind (move_bytes current_chunk_remain b p) (\<lambda>(b, p).
              case status of None \<Rightarrow> Inl NullPointer
              | Some _ \<Rightarrow> Inr (0, b, p, Some 0, Some PARSE_RTMP_HEADER)))"

definition ParseBody :: "rtmp_manager \<Rightarrow> buffer \<Rightarrow> (int \<times> rtmp_manager \<times> buffer) result" where
  "ParseBody m b =
     (let over = (GetBodyRemainSize (current_rtmp_pack m) \<le> RTMP_CHUNK_SIZE \<and> read_chunk_size m = 0);
          m = m\<lparr>chunk_over := over\<rparr> in
      ebind (ParseBody_static b (current_rtmp_pack m) (chunk_over m) (Some (read_chunk_size m))
               (Some (parsed_status m))) (\<lambda>(n, b, p, rc, status).
      Inr (n, m\<lparr>current_rtmp_pack := p, read_chunk_size := the rc, parsed_status := the status\<rparr>, b)))"

definition ParseHeaderAndBody :: "buffer \<Rightarrow> rtmp_pack \<Rightarrow> (int \<times> buffer \<times> rtmp_pack) result" where
  "ParseHeaderAndBody b p =
     ebind (ParseHeader b p) (\<lambda>(parse, p).
     if parse > 0 then
       let need_length = unat (GetBodyDataSize p) + nat parse in
       if need_length > ReadableLength b then Inr (0, b, p)
       else ebind (ParseBody_static (AddReadIndex (nat parse) b) p True None None) (\<lambda>(_, b, p, _, _).
            Inr (int need_length, b, p))
     else Inr (parse, b, p))"

section \<open>The first three messages\<close>

text \<open>\<open>AddReadIndex\<close> takes a \<open>size_t\<close>: what a negative \<open>ssize_t\<close> becomes.\<close>

definition as_size :: "int \<Rightarrow> nat" where
  "as_size i = nat (i mod 2 ^ 64)"

definition ParseScriptPack :: "buffer \<Rightarrow> rtmp_pack \<Rightarrow> (int \<times> buffer \<times> rtmp_pack) result" where
  "ParseScriptPack b p =
     ebind (ReadBegin_at b 0 (ReadableLength b)) (\<lambda>data.
     let (parsed, p) = RtmpCodec_DecodeHeader data p;
         b = AddReadIndex (as_size parsed) b in
     if parsed \<le> 0 then Inr (-1, b, p)
     else if pk_type p \<noteq> RTMP_SCRIPT then Inr (-1, b, p)
     else let n = unat (GetBodyDataSize p) in
       ebind (move_bytes n b p) (\<lambda>(b, p). Inr (parsed + int n, b, p)))"

text \<open>One round of the loop of \<open>ParseVideoAudio\<close>, and its two rounds.\<close>

definition ParseVideoAudio_round :: "buffer \<Rightarrow> rtmp_pack \<Rightarrow> (int \<times> buffer \<times> rtmp_pack) result" where
  "ParseVideoAudio_round b p =
     ebind (ReadBegin_at b 0 (ReadableLength b)) (\<lambda>data.
     let (parsed, p) = RtmpCodec_DecodeHeader data p;
         b = AddReadIndex (as_size parsed) b in
     if parsed \<le> 0 then Inr (-1, b, p)
     else if pk_type p = RTMP_AUDIO \<or> pk_type p = RTMP_VIDEO then
       let data_size = unat (GetBodyDataSize p) in
       ebind (move_bytes data_size b p) (\<lambda>(b, p). Inr (parsed + int data_size, b, p))
     else Inr (-1, b, p))"

definition ParseVideoAudio ::
    "buffer \<Rightarrow> rtmp_pack \<Rightarrow> rtmp_pack \<Rightarrow> (int \<times> buffer \<times> rtmp_pack \<times> rtmp_pack) result" where
  "ParseVideoAudio b p0 p1 =
     ebind (ParseVideoAudio_round b p0) (\<lambda>(n0, b, p0).
     if n0 < 0 then Inr (-1, b, p0, p1)
     else ebind (ParseVideoAudio_round b p1) (\<lambda>(n1, b, p1).
       if n1 < 0 then Inr (-1, b, p0, p1) else Inr (n0 + n1, b, p0, p1)))"

definition ParseFirstHeader :: "(nat \<Rightarrow> rtmp_pack) \<Rightarrow> rtmp_manager \<Rightarrow> buffer \<Rightarrow>
    (int \<times> rtmp_manager \<times> buffer) result" where
  "ParseFirstHeader junk m b =
     (if ReadableLength b < RTMP_START_PARSE_LENGTH then Inr (0, m, b)
      else
        ebind (ParseScriptPack b (RtmpPack_new (junk 0))) (\<lambda>(parsed_script, b, sp).
        if parsed_script < 0 then Inr (-1, m, b)
        else let (_, st, clock) = EncodeHeaderAndSwapBuffer sp (script_tag (rm_flv_manager m)) (rtmp_codec m);
                 m = m\<lparr>rtmp_codec := clock, rm_flv_manager := (rm_flv_manager m)\<lparr>script_tag := st\<rparr>\<rparr> in
          ebind (ParseVideoAudio b (RtmpPack_new (junk 1)) (RtmpPack_new (junk 2)))
            (\<lambda>(parsed_video_audio, b, p0, p1).
          if parsed_video_audio < 0 then Inr (-1, m, b)
          else let (_, t0, clock) =
                     EncodeHeaderAndSwapBuffer p0 (video_audio_tag0 (rm_flv_manager m)) (rtmp_codec m);
                   (_, t1, clock) =
                     EncodeHeaderAndSwapBuffer p1 (video_audio_tag1 (rm_flv_manager m)) clock in
            Inr (parsed_script + parsed_video_audio,
                 m\<lparr>rtmp_codec := clock, parsed_status := PARSE_RTMP_HEADER,
                   rm_flv_manager := (rm_flv_manager m)\<lparr>video_audio_tag0 := t0, video_audio_tag1 := t1\<rparr>\<rparr>,
                 b))))"

section \<open>The stream\<close>

definition ProcessNewFlvTag :: "'s tag_callback \<Rightarrow> tag_ref \<Rightarrow> rtmp_manager \<Rightarrow> 's \<Rightarrow>
    (rtmp_manager \<times> 's) result" where
  "ProcessNewFlvTag cb p m s =
     (let t = flv_heap m ! p in
      if GetTagType t = type_code RTMP_VIDEO \<or> GetTagType t = type_code RTMP_AUDIO then
        let prev = (case last_flv_ptr m of Some q \<Rightarrow> GetCurrentTagSize (flv_heap m ! q) | None \<Rightarrow> 0);
            t = SetPreviousTagSize prev t;
            m = m\<lparr>flv_heap := (flv_heap m)[p := t], last_flv_ptr := Some p\<rparr> in
        ebind (cb p t s) (\<lambda>s. Inr (m, s))
      else Inr (m, s))"

text \<open>What the loop does with a complete message: \<open>make_shared\<close>, encode, process.\<close>

definition new_tag :: "'s tag_callback \<Rightarrow> rtmp_manager \<Rightarrow> 's \<Rightarrow> (rtmp_manager \<times> 's) result" where
  "new_tag cb m s =
     (let p = length (flv_heap m);
          (pack, t, clock) = EncodeHeaderAndSwapBuffer (current_rtmp_pack m) FlvTag_new (rtmp_codec m);
          m = m\<lparr>current_rtmp_pack := pack, rtmp_codec := clock, flv_heap := flv_heap m @ [t]\<rparr> in
      ProcessNewFlvTag cb p m s)"

text \<open>One round of the loop of \<open>ParseData\<close>: the value of \<open>parsed\<close> and the new state.\<close>

definition ParseData_header :: "rtmp_manager \<Rightarrow> buffer \<Rightarrow> (int \<times> rtmp_manager \<times> buffer) result" where
  "ParseData_header m b =
     (if parsed_status m = PARSE_RTMP_HEADER then
        ebind (ParseHeader b (current_rtmp_pack m)) (\<lambda>(parsed, p).
        let m = m\<lparr>current_rtmp_pack := p\<rparr> in
        if parsed > 0 then Inr (parsed, m\<lparr>parsed_status := PARSE_RTMP_BODY\<rparr>, AddReadIndex (nat parsed) b)
        else Inr (parsed, m, b))
      else Inr (0, m, b))"

definition ParseData_round :: "'s tag_callback \<Rightarrow> (nat \<Rightarrow> rtmp_pack) \<Rightarrow> rtmp_manager \<Rightarrow> buffer \<Rightarrow> 's \<Rightarrow>
    (int \<times> rtmp_manager \<times> buffer \<times> 's) result" where
  "ParseData_round cb junk m b s =
     ebind (ParseData_header m b) (\<lambda>(parsed, m, b).
     if parsed_status m = PARSE_RTMP_BODY then
       ebind (ParseBody m b) (\<lambda>(parsed, m, b).
       if parsed > 0 then ebind (new_tag cb m s) (\<lambda>(m, s). Inr (parsed, m, b, s))
       else Inr (parsed, m, b, s))
     else if parsed_status m = PARSE_FIRST_HEADER then
       ebind (ParseFirstHeader junk m b) (\<lambda>(parsed, m, b). Inr (parsed, m, b, s))
     else Inr (parsed, m, b, s))"

text \<open>
  The loop, with the sum of what was parsed so far. Every round that goes on takes at
  least one byte from the buffer, so its length is enough fuel (\<open>ParseData_loop_total\<close>).
\<close>

fun ParseData_loop :: "nat \<Rightarrow> 's tag_callback \<Rightarrow> (nat \<Rightarrow> rtmp_pack) \<Rightarrow> int \<Rightarrow> rtmp_manager \<Rightarrow> buffer \<Rightarrow> 's \<Rightarrow>
    (int \<times> rtmp_manager \<times> buffer \<times> 's) result" where
  "ParseData_loop 0 cb junk acc m b s = Inl Diverges"
| "ParseData_loop (Suc fuel) cb junk acc m b s =
     ebind (ParseData_round cb junk m b s) (\<lambda>(parsed, m, b, s).
     if parsed > 0 then ParseData_loop fuel cb junk (acc + parsed) m b s
     else if parsed = 0 then
       Inr (acc, m\<lparr>parsed_length := size_add (parsed_length m) (nat acc)\<rparr>, b, s)
     else Inr (-1, m, b, s))"

definition ParseData :: "'s tag_callback \<Rightarrow> (nat \<Rightarrow> rtmp_pack) \<Rightarrow> rtmp_manager \<Rightarrow> buffer \<Rightarrow> 's \<Rightarrow>
    (int \<times> rtmp_manager \<times> buffer \<times> 's) result" where
  "ParseData cb junk m b s =
     (if ReadableLength b = 0 then Inr (0, m, b, s)
      else ParseData_loop (ReadableLength b + 1) cb junk 0 m b s)"

definition ParseData_ptr :: "'s tag_callback \<Rightarrow> (nat \<Rightarrow> rtmp_pack) \<Rightarrow> rtmp_manager \<Rightarrow> buffer option \<Rightarrow> 's \<Rightarrow>
    (int \<times> rtmp_manager \<times> buffer option \<times> 's) result" where
  "ParseData_ptr cb junk m bp s =
     (case bp of None \<Rightarrow> Inr (-1, m, None, s)
      | Some b \<Rightarrow> ebind (ParseData cb junk m b s) (\<lambda>(n, m, b, s). Inr (n, m, Some b, s)))"

definition GetParsedLength :: "rtmp_manager \<Rightarrow> nat" where
  "GetParsedLength m = parsed_length m"

section \<open>The handshake\<close>

definition shake_result :: "int \<Rightarrow> rtmp_manager \<Rightarrow> buffer \<Rightarrow> (shake_hand_pack_type \<times> rtmp_manager \<times> buffer)" where
  "shake_result parse m b =
     (if parse = 0 then (SHAKE_DATA_NOT_ENOUGH, m, b)
      else (SHAKE_FAILED, m\<lparr>shake_hand_status := SHAKE_FAILED\<rparr>, b))"

definition ParseShakeHand :: "rtmp_pack \<Rightarrow> rtmp_manager \<Rightarrow> buffer \<Rightarrow>
    (shake_hand_pack_type \<times> rtmp_manager \<times> buffer) result" where
  "ParseShakeHand junk m b =
     (case shake_hand_status m of
        SHAKE_RTMP_C01 \<Rightarrow>
          if ReadableLength b < 1537 then Inr (SHAKE_DATA_NOT_ENOUGH, m, b)
          else Inr (SHAKE_RTMP_C01, m\<lparr>shake_hand_status := SHAKE_RTMP_C2\<rparr>, AddReadIndex 1537 b)
      | SHAKE_RTMP_C2 \<Rightarrow>
          if ReadableLength b < 1536 then Inr (SHAKE_DATA_NOT_ENOUGH, m, b)
          else Inr (SHAKE_RTMP_C2, m\<lparr>shake_hand_status := SHAKE_RTMP_SET_CHUNK_SIZE\<rparr>, AddReadIndex 1536 b)
      | SHAKE_RTMP_SET_CHUNK_SIZE \<Rightarrow>
          ebind (ParseHeaderAndBody b (RtmpPack_new junk)) (\<lambda>(parse, b, _).
          if parse > 0 then
            Inr (SHAKE_RTMP_SET_CHUNK_SIZE, m\<lparr>shake_hand_status := SHAKE_RTMP_CONNECT\<rparr>, b)
          else Inr (shake_result parse m b))
      | SHAKE_RTMP_CONNECT \<Rightarrow>
          ebind (ParseHeaderAndBody b (connect_pack m)) (\<lambda>(parse, b, p).
          let m = m\<lparr>connect_pack := p\<rparr> in
          if parse > 0 then
            Inr (SHAKE_RTMP_CONNECT, m\<lparr>shake_hand_status := SHAKE_RTMP_RELEASE_STREAM\<rparr>, b)
          else Inr (shake_result parse m b))
      | SHAKE_RTMP_RELEASE_STREAM \<Rightarrow>
          ebind (ParseHeaderAndBody b (release_pack m)) (\<lambda>(parse, b, p).
          let m = m\<lparr>release_pack := p\<rparr> in
          if parse > 0 then
            Inr (SHAKE_RTMP_RELEASE_STREAM, m\<lparr>shake_hand_status := SHAKE_RTMP_FCPUBLISH\<rparr>, b)
          else Inr (shake_result parse m b))
      | SHAKE_RTMP_FCPUBLISH \<Rightarrow>
          ebind (ParseHeaderAndBody b (RtmpPack_new junk)) (\<lambda>(parse, b, _).
          if parse > 0 then
            Inr (SHAKE_RTMP_FCPUBLISH, m\<lparr>shake_hand_status := SHAKE_RTMP_CREATE_STREAM\<rparr>, b)
          else Inr (shake_result parse m b))
      | SHAKE_RTMP_CREATE_STREAM \<Rightarrow>
          if ReadableLength b > 0 then
            ebind (ReadBegin_at b 0 1) (\<lambda>first.
            if first = [0xc3] then
              Inr (SHAKE_RTMP_CREATE_STREAM, m\<lparr>shake_hand_status := SHAKE_RTMP_PUBLISH\<rparr>, AddReadIndex 26 b)
            else
              ebind (ParseHeaderAndBody b (RtmpPack_new junk)) (\<lambda>(parse, b, _).
              if parse > 0 then
                Inr (SHAKE_RTMP_CREATE_STREAM, m\<lparr>shake_hand_status := SHAKE_RTMP_PUBLISH\<rparr>, b)
              else Inr (shake_result parse m b)))
          else Inr (shake_result 0 m b)
      | SHAKE_RTMP_PUBLISH \<Rightarrow>
          ebind (ParseHeaderAndBody b (RtmpPack_new junk)) (\<lambda>(parse, b, _).
          if parse > 0 then
            Inr (SHAKE_RTMP_PUBLISH, m\<lparr>shake_hand_status := SHAKE_SUCCESS\<rparr>, b)
          else Inr (shake_result parse m b))
      | SHAKE_FAILED \<Rightarrow> Inr (SHAKE_FAILED, m, b)
      | SHAKE_SUCCESS \<Rightarrow> Inr (SHAKE_SUCCESS, m, b)
      | SHAKE_DATA_NOT_ENOUGH \<Rightarrow> Inr (SHAKE_DATA_NOT_ENOUGH, m, b))"

definition GetUrlFromConnectPack :: "rtmp_manager \<Rightarrow> bytes result" where
  "GetUrlFromConnectPack m =
     ebind (ReadAllAsString (pk_buffer (connect_pack m))) (\<lambda>(body_str, _).
     let begin_idx = str_find_str (lit ''rtmp'') body_str in
     ebind (str_len_at body_str begin_idx) (\<lambda>len.
     str_substr body_str begin_idx len))"

text \<open>
  The length byte is a signed \<open>char\<close>; \<open>std::string(ptr, len)\<close> with a negative \<open>len\<close> asks
  for more than \<open>max_size()\<close> and throws.
\<close>

definition GetPasswordFromReleasePack :: "rtmp_manager \<Rightarrow> bytes result" where
  "GetPasswordFromReleasePack m =
     ebind (ReadBegin_at (pk_buffer (release_pack m)) 28 1) (\<lambda>c.
     let len = sint (c ! 0) in
     if len < 0 then Inl LengthError
     else ReadBegin_at (pk_buffer (release_pack m)) 29 (nat len))"

end
