(* ===== verification/RtmpRefinement.thy ===== *)
theory RtmpRefinement
  imports RtmpManager
begin

text \<open>
  \<^verbatim>\<open>RtmpManager::ParseData\<close> refines the byte machine of \<open>ChunkStream\<close>: whatever part of
  the buffer a call consumes, it does to the manager what feeding these bytes does to the
  machine, and the tags it hands to the callback are the machine's items. The callback is
  any consumer with the contract \<open>tag_sink\<close>.
\<close>

section \<open>The consumer of the tags\<close>

locale tag_sink =
  fixes cb :: "'s tag_callback"
    and sink_ok :: "'s \<Rightarrow> bool"
    and received :: "'s \<Rightarrow> flv_item list"
    and may_fail :: bool
  assumes sink: "sink_ok s \<Longrightarrow> tag_complete t \<Longrightarrow>
    safe may_fail (\<lambda>s'. sink_ok s' \<and> received s' = received s @ [tag_item t]) (cb p t s)"

text \<open>The consumer that keeps what it is given.\<close>

definition record_tag :: "flv_tag list tag_callback" where
  "record_tag p t ts = Inr (ts @ [t])"

interpretation recorder: tag_sink record_tag "\<lambda>ts. \<forall>t \<in> set ts. tag_complete t" "map tag_item" False
  by unfold_locales (auto simp: record_tag_def)

section \<open>Invariant and abstraction\<close>

definition last_size :: "rtmp_manager \<Rightarrow> u32" where
  "last_size m = (case last_flv_ptr m of Some q \<Rightarrow> GetCurrentTagSize (flv_heap m ! q) | None \<Rightarrow> 0)"

definition heap_ok :: "rtmp_manager \<Rightarrow> bool" where
  "heap_ok m \<longleftrightarrow> (case last_flv_ptr m of Some q \<Rightarrow> q < length (flv_heap m) | None \<Rightarrow> True)"

abbreviation acc_bytes :: "rtmp_manager \<Rightarrow> bytes" where
  "acc_bytes m \<equiv> readable (pk_buffer (current_rtmp_pack m))"

definition chunk_state_of :: "rtmp_manager \<Rightarrow> chunk_state" where
  "chunk_state_of m = (let p = current_rtmp_pack m; ts = pk_timestamp p in
     \<lparr>cs_head = [], cs_in_body = (parsed_status m = PARSE_RTMP_BODY),
      cs_delta = be24 (ts ! 0) (ts ! 1) (ts ! 2), cs_size = GetBodyDataSize p, cs_type = pk_type p,
      cs_acc = acc_bytes m, cs_read = read_chunk_size m, cs_clock = rtmp_codec m,
      cs_last = last_size m\<rparr>)"

text \<open>Before the body of a chunk is read the chunk may be complete already (\<open>base_ok\<close>).\<close>

definition base_ok :: "rtmp_manager \<Rightarrow> bool" where
  "base_ok m \<longleftrightarrow> pack_ok (current_rtmp_pack m) \<and> heap_ok m \<and> unat (read_chunk_size m) < 4096 \<and>
     parsed_status m \<noteq> PARSE_FIRST_HEADER \<and>
     (parsed_status m = PARSE_RTMP_HEADER \<longrightarrow> read_chunk_size m = 0) \<and>
     (read_chunk_size m = 0 \<or>
        4096 < unat (GetBodyRemainSize (current_rtmp_pack m)) + unat (read_chunk_size m))"

definition stream_ok :: "rtmp_manager \<Rightarrow> bool" where
  "stream_ok m \<longleftrightarrow> base_ok m \<and>
     (parsed_status m = PARSE_RTMP_BODY \<longrightarrow> GetBodyRemainSize (current_rtmp_pack m) \<noteq> 0)"

text \<open>What is collected and what is pending stay below 4 GiB.\<close>

definition small :: "rtmp_manager \<Rightarrow> buffer \<Rightarrow> bool" where
  "small m b \<longleftrightarrow> length (acc_bytes m) + ReadableLength b < 2 ^ 32"

lemma cs_of_simps [simp]:
  "cs_head (chunk_state_of m) = []"
  "cs_in_body (chunk_state_of m) \<longleftrightarrow> parsed_status m = PARSE_RTMP_BODY"
  "cs_size (chunk_state_of m) = GetBodyDataSize (current_rtmp_pack m)"
  "cs_acc (chunk_state_of m) = acc_bytes m"
  "cs_read (chunk_state_of m) = read_chunk_size m"
  "cs_type (chunk_state_of m) = pk_type (current_rtmp_pack m)"
  "cs_clock (chunk_state_of m) = rtmp_codec m"
  "cs_last (chunk_state_of m) = last_size m"
  by (simp_all add: chunk_state_of_def Let_def)

lemma cs_remain_of:
  "pack_ok (current_rtmp_pack m) \<Longrightarrow>
   cs_remain (chunk_state_of m) = GetBodyRemainSize (current_rtmp_pack m)"
  by (simp add: cs_remain_def GetBodyRemainSize_def GetBodyCurrentSize_def pack_ok_def)

section \<open>Moving bytes and making a tag\<close>

lemma move_bytes_ok:
  assumes "buf_ok b" "pack_ok p" "n \<le> ReadableLength b"
    "length (readable (pk_buffer p)) + n < 2 ^ 32"
  obtains B where "move_bytes n b p = Inr (AddReadIndex n b, p\<lparr>pk_buffer := B\<rparr>)" "buf_ok B"
    "readable B = readable (pk_buffer p) @ take n (readable b)"
proof -
  have "fits (length (take n (readable b))) (pk_buffer p)"
    using assms by (simp add: fits_def max_size_def)
  then have "holds (\<lambda>b'. buf_ok b' \<and> readable b' = readable (pk_buffer p) @ take n (readable b))
      (AppendData (take n (readable b)) (pk_buffer p))"
    using assms(2) by (intro AppendData_ok) (simp_all add: pack_ok_def)
  then obtain B where "AppendData (take n (readable b)) (pk_buffer p) = Inr B" "buf_ok B"
      "readable B = readable (pk_buffer p) @ take n (readable b)"
    by (auto simp: holds_def)
  then show ?thesis
    using that assms by (simp add: move_bytes_def readable_prefix RtmpPack_AppendData_def)
qed

lemma type_code_inj: "type_code a = type_code b \<longleftrightarrow> a = b"
  by (cases a; cases b) simp_all

lemma pack_size: "pack_ok p \<Longrightarrow> pk_data_size p = [pk_data_size p ! 0, pk_data_size p ! 1, pk_data_size p ! 2]"
  using take_nth_3 [of "pk_data_size p"] by (simp add: pack_ok_def)

text \<open>The FLV tag made of a complete message.\<close>

definition tag_of :: "rtmp_pack \<Rightarrow> u32 \<Rightarrow> flv_tag" where
  "tag_of p clock = (FlvTag_new
     \<lparr>tag_header := [0, 0, 0, 0, type_code (pk_type p), pk_data_size p ! 0, pk_data_size p ! 1,
        pk_data_size p ! 2, u32_byte clock 2, u32_byte clock 1, u32_byte clock 0, 0, 0, 0, 0],
      tag_body := pk_buffer p\<rparr>)"

lemma EncodeHeaderAndSwapBuffer_new:
  assumes "pack_ok p"
  shows "EncodeHeaderAndSwapBuffer p FlvTag_new clock =
    (p\<lparr>pk_buffer := Buffer_new\<rparr>, tag_of p (AddTimeStamp (pk_timestamp p) clock),
     AddTimeStamp (pk_timestamp p) clock)"
proof -
  obtain a b c where "pk_data_size p = [a, b, c]" using pack_size [OF assms] by metis
  then show ?thesis
    by (simp add: EncodeHeaderAndSwapBuffer_def EncodeHeaderToFlvTag_def RtmpCodec_SwapBuffer_def
        SwapBuffer_eq tag_of_def flv_setters flv_offsets FlvTag_new_def overwrite_def Let_def
        eval_nat_numeral)
qed

lemma tag_of_simps:
  "hdr_ok (tag_of p c)" "tag_body (tag_of p c) = pk_buffer p"
  "GetTagType (tag_of p c) = type_code (pk_type p)"
  "FlvCodec.GetDataSize (tag_of p c) = GetBodyDataSize p"
  by (simp_all add: tag_of_def hdr_ok_def GetTagType_def FlvCodec.GetDataSize_def GetBodyDataSize_def
    flv_offsets)

lemma tag_item_tag_of:
  "tag_item (tag_of p c) = \<lparr>it_prev = 0, it_type = type_code (pk_type p), it_ts = take_bit 24 c,
     it_tail = [0, 0, 0, 0], it_data = readable (pk_buffer p)\<rparr>"
  using be24_u32_byte [of c] by (simp add: tag_item_def tag_of_def be32_def Let_def)

lemma AddTimeStamp_eq: "AddTimeStamp ts clock = clock + be24 (ts ! 0) (ts ! 1) (ts ! 2)"
  by (simp add: AddTimeStamp_def be24_def)

section \<open>ParseBody\<close>

lemma chunk_state_move:
  "chunk_state_of (m\<lparr>chunk_over := v, current_rtmp_pack := (current_rtmp_pack m)\<lparr>pk_buffer := B\<rparr>,
     read_chunk_size := r, parsed_status := st\<rparr>) =
   (chunk_state_of m)\<lparr>cs_in_body := (st = PARSE_RTMP_BODY), cs_acc := readable B, cs_read := r\<rparr>"
  by (simp add: chunk_state_of_def last_size_def GetBodyDataSize_def Let_def split: option.splits)

lemma unat_RemainSize:
  assumes "pack_ok p" "length (readable (pk_buffer p)) < 2 ^ 32"
    "length (readable (pk_buffer p)) + unat (GetBodyRemainSize p) < 2 ^ 32"
  shows "unat (GetBodyDataSize p) = length (readable (pk_buffer p)) + unat (GetBodyRemainSize p)"
proof -
  have "GetBodyDataSize p = GetBodyRemainSize p + to_u32 (length (readable (pk_buffer p)))"
    using assms(1) by (simp add: GetBodyRemainSize_def GetBodyCurrentSize_def pack_ok_def)
  then have "unat (GetBodyDataSize p) =
      unat (GetBodyRemainSize p) + unat (to_u32 (length (readable (pk_buffer p))))"
    using assms by (simp add: unat_word_ariths)
  then show ?thesis using assms(2) by simp
qed

text \<open>
  What \<open>ParseBody\<close> does to the manager, in the four cases of the code: \<open>over\<close> says that it
  took the last chunk of a message to its end.
\<close>

definition body_step :: "rtmp_manager \<Rightarrow> bytes \<Rightarrow> bool \<Rightarrow> rtmp_manager \<Rightarrow> bool" where
  "body_step m xs over m' \<longleftrightarrow>
     pack_ok (current_rtmp_pack m') \<and> flv_heap m' = flv_heap m \<and> last_flv_ptr m' = last_flv_ptr m \<and>
     acc_bytes m' = acc_bytes m @ xs \<and>
     GetBodyDataSize (current_rtmp_pack m') = GetBodyDataSize (current_rtmp_pack m) \<and>
     (if over then
        parsed_status m' = PARSE_RTMP_HEADER \<and> read_chunk_size m' = 0 \<and>
        feed_from (chunk_state_of m) xs = finish (chunk_state_of m') \<and>
        length (acc_bytes m') = unat (GetBodyDataSize (current_rtmp_pack m'))
      else stream_ok m' \<and> feed_from (chunk_state_of m) xs = (chunk_state_of m', []))"

text \<open>The manager after \<open>n\<close> bytes were moved, with its status and chunk position.\<close>

definition moved :: "rtmp_manager \<Rightarrow> buffer \<Rightarrow> bool \<Rightarrow> u32 \<Rightarrow> parse_status \<Rightarrow> rtmp_manager" where
  "moved m B v r st = m\<lparr>chunk_over := v, current_rtmp_pack := (current_rtmp_pack m)\<lparr>pk_buffer := B\<rparr>,
     read_chunk_size := r, parsed_status := st\<rparr>"

lemma moved_simps [simp]:
  "current_rtmp_pack (moved m B v r st) = (current_rtmp_pack m)\<lparr>pk_buffer := B\<rparr>"
  "flv_heap (moved m B v r st) = flv_heap m" "last_flv_ptr (moved m B v r st) = last_flv_ptr m"
  "parsed_status (moved m B v r st) = st" "read_chunk_size (moved m B v r st) = r"
  "GetBodyDataSize ((current_rtmp_pack m)\<lparr>pk_buffer := B\<rparr>) = GetBodyDataSize (current_rtmp_pack m)"
  "heap_ok (moved m B v r st) = heap_ok m"
  by (simp_all add: moved_def GetBodyDataSize_def heap_ok_def split: option.splits)

lemma pack_ok_buffer [simp]: "pack_ok p \<Longrightarrow> pack_ok (p\<lparr>pk_buffer := B\<rparr>) = buf_ok B"
  by (simp add: pack_ok_def)

lemma body_move:
  assumes "pack_ok (current_rtmp_pack m)" "buf_ok b" "small m b" "n \<le> ReadableLength b"
  obtains B where "move_bytes n b (current_rtmp_pack m) =
      Inr (AddReadIndex n b, (current_rtmp_pack m)\<lparr>pk_buffer := B\<rparr>)"
    "buf_ok B" "readable B = acc_bytes m @ take n (readable b)"
    "readable b = take n (readable b) @ readable (AddReadIndex n b)" "length (take n (readable b)) = n"
    "\<forall>v r st. chunk_state_of (moved m B v r st) = (chunk_state_of m)
        \<lparr>cs_acc := cs_acc (chunk_state_of m) @ take n (readable b), cs_in_body := (st = PARSE_RTMP_BODY), cs_read := r\<rparr>"
proof -
  have "length (acc_bytes m) + n < 2 ^ 32" using assms(3,4) by (simp add: small_def)
  from move_bytes_ok [OF assms(2,1,4) this] obtain B where B: "move_bytes n b (current_rtmp_pack m) =
      Inr (AddReadIndex n b, (current_rtmp_pack m)\<lparr>pk_buffer := B\<rparr>)"
    "buf_ok B" "readable B = acc_bytes m @ take n (readable b)" by blast
  show ?thesis
    using that [OF B] assms(2,4) B(3) by (simp add: moved_def chunk_state_move min_def)
qed

lemma remain_of_state:
  "pack_ok (current_rtmp_pack m) \<Longrightarrow>
   GetBodyRemainSize (current_rtmp_pack m) = cs_remain (chunk_state_of m)"
  by (simp add: cs_remain_of)

text \<open>The message's last chunk.\<close>

lemma ParseBody_last:
  assumes "base_ok m" "parsed_status m = PARSE_RTMP_BODY" "buf_ok b" "small m b"
    and last: "last_chunk (chunk_state_of m)"
  defines "remain \<equiv> unat (GetBodyRemainSize (current_rtmp_pack m))"
  defines "n \<equiv> min remain (ReadableLength b)"
  shows "\<exists>m'. ParseBody m b = Inr ((if remain \<le> ReadableLength b
        then int (unat (GetBodyDataSize (current_rtmp_pack m))) else 0), m', AddReadIndex n b) \<and>
      body_step m (take n (readable b)) (remain \<le> ReadableLength b) m'"
proof -
  let ?p = "current_rtmp_pack m"
  have p: "pack_ok ?p" and rc: "read_chunk_size m = 0"
    using assms(1) last by (simp_all add: base_ok_def last_chunk_def)
  have rem: "remain = unat (cs_remain (chunk_state_of m))"
    using p by (simp add: remain_def cs_remain_of)
  have over: "GetBodyRemainSize ?p \<le> RTMP_CHUNK_SIZE"
    using last p by (simp add: last_chunk_def cs_remain_of RTMP_CHUNK_SIZE_def)
  have le: "n \<le> ReadableLength b" by (simp add: n_def)
  obtain B where
    B: "move_bytes n b ?p = Inr (AddReadIndex n b, ?p\<lparr>pk_buffer := B\<rparr>)" "buf_ok B"
      "readable B = acc_bytes m @ take n (readable b)"
      "readable b = take n (readable b) @ readable (AddReadIndex n b)" "length (take n (readable b)) = n"
      "\<forall>v r st. chunk_state_of (moved m B v r st) = (chunk_state_of m)
        \<lparr>cs_acc := cs_acc (chunk_state_of m) @ take n (readable b), cs_in_body := (st = PARSE_RTMP_BODY), cs_read := r\<rparr>"
    by (rule body_move [OF p assms(3,4) le]) blast
  show ?thesis
  proof (cases "remain \<le> ReadableLength b")
    case True
    then have n: "n = remain" by (simp add: n_def)
    define m' where "m' = moved m B True 0 PARSE_RTMP_HEADER"
    have "ParseBody m b = Inr (int (unat (GetBodyDataSize ?p)), m', AddReadIndex n b)"
      using True over rc B(1)
      by (simp add: ParseBody_def ParseBody_static_def m'_def n flip: remain_def) (simp add: moved_def)
    moreover have "chunk_state_of m' = (chunk_state_of m)
        \<lparr>cs_acc := cs_acc (chunk_state_of m) @ take n (readable b)\<rparr>\<lparr>cs_in_body := False\<rparr>"
      using rc B(6) by (simp add: m'_def)
    then have "feed_from (chunk_state_of m) (take n (readable b)) = finish (chunk_state_of m')"
      using feed_from_last [OF _ last, of "take n (readable b)"] B(5) rem n assms(2) by simp
    moreover have "length (acc_bytes m') = unat (GetBodyDataSize ?p)"
      using unat_RemainSize [OF p] True n B assms(4) by (simp add: m'_def small_def flip: remain_def)
    ultimately show ?thesis
      using True B p by (auto simp: body_step_def m'_def)
  next
    case False
    then have n: "n = ReadableLength b" by (simp add: n_def)
    define m' where "m' = moved m B True 0 PARSE_RTMP_BODY"
    have lt: "length (take n (readable b)) < unat (cs_remain (chunk_state_of m))"
      using False n B(5) rem by simp
    note part = feed_from_part [OF _ last lt]
    have st: "chunk_state_of m' = (chunk_state_of m)\<lparr>cs_acc := cs_acc (chunk_state_of m) @ take n (readable b)\<rparr>"
      using assms(2) rc B(6) by (simp add: m'_def)
    have run: "ParseBody m b = Inr (0, m', AddReadIndex n b)"
      using False over rc B(1) assms(2)
      by (simp add: ParseBody_def ParseBody_static_def m'_def n flip: remain_def) (simp add: moved_def)
    have p': "pack_ok (current_rtmp_pack m')" using p B(2) by (simp add: m'_def)
    have "GetBodyRemainSize (current_rtmp_pack m') \<noteq> 0"
      using part(2) assms(2) by (simp add: remain_of_state [OF p'] st)
    moreover have "base_ok m'"
      using assms(1) p' by (simp add: base_ok_def m'_def)
    ultimately have "stream_ok m'" by (simp add: stream_ok_def)
    with part(1) run p' B(3) False st assms(2) show ?thesis
      by (auto simp: body_step_def m'_def)
  qed
qed

text \<open>A chunk that is not the message's last: 0 is returned, at its end as well.\<close>

lemma ParseBody_mid:
  assumes "base_ok m" "parsed_status m = PARSE_RTMP_BODY" "buf_ok b" "small m b"
    and mid: "\<not> last_chunk (chunk_state_of m)"
  defines "n \<equiv> min (4096 - unat (read_chunk_size m)) (ReadableLength b)"
  shows "\<exists>m'. ParseBody m b = Inr (0, m', AddReadIndex n b) \<and> body_step m (take n (readable b)) False m'"
proof -
  let ?p = "current_rtmp_pack m"
  let ?s = "chunk_state_of m"
  let ?r = "read_chunk_size m"
  let ?x = "take n (readable b)"
  have p: "pack_ok ?p" and rc: "unat ?r < 4096" using assms(1) by (simp_all add: base_ok_def)
  have over: "\<not> (GetBodyRemainSize ?p \<le> RTMP_CHUNK_SIZE \<and> ?r = 0)"
    using mid p by (simp add: last_chunk_def cs_remain_of RTMP_CHUNK_SIZE_def)
  have left: "unat (RTMP_CHUNK_SIZE - ?r) = 4096 - unat ?r"
    using rc by (simp add: RTMP_CHUNK_SIZE_def unat_sub word_le_nat_alt)
  have big: "4096 < unat (cs_remain ?s) + unat ?r"
    using assms(1) over p
    by (auto simp: base_ok_def cs_remain_of RTMP_CHUNK_SIZE_def word_le_nat_alt not_le)
  then have open0: "cs_remain ?s \<noteq> 0" using rc by auto
  have le: "n \<le> ReadableLength b" by (simp add: n_def)
  obtain B where
    B: "move_bytes n b ?p = Inr (AddReadIndex n b, ?p\<lparr>pk_buffer := B\<rparr>)" "buf_ok B"
      "readable B = acc_bytes m @ ?x" "readable b = ?x @ readable (AddReadIndex n b)" "length ?x = n"
      "\<forall>v r st. chunk_state_of (moved m B v r st) = ?s
        \<lparr>cs_acc := cs_acc ?s @ ?x, cs_in_body := (st = PARSE_RTMP_BODY), cs_read := r\<rparr>"
    by (rule body_move [OF p assms(3,4) le]) blast
  have pB: "pack_ok (?p\<lparr>pk_buffer := B\<rparr>)" using p B(2) by simp
  have feed: "feed_from ?s ?x = (if unat ?r + n = 4096
     then (?s\<lparr>cs_acc := cs_acc ?s @ ?x, cs_read := 0, cs_in_body := False\<rparr>, [])
     else (?s\<lparr>cs_acc := cs_acc ?s @ ?x, cs_read := ?r + to_u32 n\<rparr>, []))"
    using feed_mid_chunk [OF _ mid, of ?x] B(5) rc assms(2)
    by (simp add: feed_from_open [OF open0] n_def)
  show ?thesis
  proof (cases "ReadableLength b < 4096 - unat ?r")
    case False
    then have n: "n = 4096 - unat ?r" by (simp add: n_def)
    define m' where "m' = moved m B False 0 PARSE_RTMP_HEADER"
    have "ParseBody m b = Inr (0, m', AddReadIndex n b)"
      using False B(1)
      by (simp add: ParseBody_def ParseBody_static_def over left m'_def n Let_def) (simp add: moved_def)
    moreover have "stream_ok m'"
      using assms(1) pB by (simp add: stream_ok_def base_ok_def m'_def)
    moreover have "chunk_state_of m' = ?s\<lparr>cs_acc := cs_acc ?s @ ?x, cs_read := 0, cs_in_body := False\<rparr>"
      using B(6) by (simp add: m'_def)
    ultimately show ?thesis
      using feed n rc B(3) pB by (intro exI [of _ m']) (simp add: body_step_def m'_def)
  next
    case True
    then have n: "n = ReadableLength b" by (simp add: n_def)
    define m' where "m' = moved m B False (?r + to_u32 n) PARSE_RTMP_BODY"
    have run: "ParseBody m b = Inr (0, m', AddReadIndex n b)"
      using True B(1) assms(2)
      by (simp add: ParseBody_def ParseBody_static_def over left m'_def n Let_def) (simp add: moved_def)
    have r': "unat (?r + to_u32 n) = unat ?r + n"
      using True n by (simp add: unat_word_ariths)
    have st: "chunk_state_of m' = ?s\<lparr>cs_acc := cs_acc ?s @ ?x, cs_read := ?r + to_u32 n\<rparr>"
      using B(6) assms(2) by (simp add: m'_def)
    have "unat (cs_remain (chunk_state_of m')) = unat (cs_remain ?s) - n"
    proof -
      have "cs_remain (chunk_state_of m') = cs_remain ?s - to_u32 n"
        using B(5) by (simp add: st cs_remain_def to_u32_def)
      moreover have "n \<le> unat (cs_remain ?s)" "n < 2 ^ 32" using big True n by auto
      ultimately show ?thesis by (simp add: unat_sub word_le_nat_alt)
    qed
    moreover have "pack_ok (current_rtmp_pack m')" using pB by (simp add: m'_def)
    ultimately have rem: "unat (GetBodyRemainSize (current_rtmp_pack m')) = unat (cs_remain ?s) - n"
      by (simp add: remain_of_state)
    then have "GetBodyRemainSize (current_rtmp_pack m') \<noteq> 0" using big True n by auto
    moreover have "4096 < unat (GetBodyRemainSize (current_rtmp_pack m')) + unat (read_chunk_size m')"
      using rem big True n r' by (simp add: m'_def)
    moreover have "unat (read_chunk_size m') < 4096" using r' True n by (simp add: m'_def)
    ultimately have "stream_ok m'"
      using assms(1) pB by (simp add: stream_ok_def base_ok_def m'_def)
    with run st feed True n B(3) pB show ?thesis
      by (intro exI [of _ m']) (simp add: body_step_def m'_def)
  qed
qed

text \<open>Both cases: \<open>xs\<close> are the bytes taken, \<open>over\<close> that the message is complete.\<close>

lemma ParseBody_step:
  assumes "base_ok m" "parsed_status m = PARSE_RTMP_BODY" "buf_ok b" "small m b"
  obtains n over m' where "ParseBody m b = Inr ((if over
        then int (unat (GetBodyDataSize (current_rtmp_pack m))) else 0), m', AddReadIndex n b)"
    "body_step m (take n (readable b)) over m'"
    "over \<longrightarrow> n = unat (GetBodyRemainSize (current_rtmp_pack m)) \<and> n \<le> ReadableLength b"
    "GetBodyRemainSize (current_rtmp_pack m) \<noteq> 0 \<and> ReadableLength b \<noteq> 0 \<longrightarrow> n \<noteq> 0"
proof (cases "last_chunk (chunk_state_of m)")
  case True
  let ?over = "unat (GetBodyRemainSize (current_rtmp_pack m)) \<le> ReadableLength b"
  obtain m' where *: "ParseBody m b = Inr ((if ?over then int (unat (GetBodyDataSize (current_rtmp_pack m))) else 0),
      m', AddReadIndex (min (unat (GetBodyRemainSize (current_rtmp_pack m))) (ReadableLength b)) b)"
    "body_step m (take (min (unat (GetBodyRemainSize (current_rtmp_pack m))) (ReadableLength b)) (readable b)) ?over m'"
    using ParseBody_last [OF assms True] by blast
  show ?thesis by (rule that [OF *]) (simp_all add: min_def unat_gt_0)
next
  case False
  let ?n = "min (4096 - unat (read_chunk_size m)) (ReadableLength b)"
  from ParseBody_mid [OF assms False] obtain m' where
    *: "ParseBody m b = Inr (0, m', AddReadIndex ?n b)" "body_step m (take ?n (readable b)) False m'" by blast
  show ?thesis by (rule that [where over = False and n = ?n]) (use * assms(1) in \<open>auto simp: base_ok_def\<close>)
qed

lemma body_step_small:
  assumes "body_step m (take n (readable b)) over m'" "small m b" "buf_ok b"
  shows "small m' (AddReadIndex n b)"
  using assms by (auto simp: small_def body_step_def)

section \<open>ParseHeader\<close>

lemma ParseHeader_short:
  assumes "buf_ok b" "readable b = [] \<or> ReadableLength b < header_len (readable b ! 0)"
  shows "\<exists>f c. ParseHeader b p = Inr (0, p\<lparr>pk_fmt := f, pk_csid := c\<rparr>)"
proof -
  have "readable b = [] \<or> length (readable b) < header_len (readable b ! 0)" using assms by simp
  from DecodeHeader_short [OF this] obtain f c where
    "RtmpCodec_DecodeHeader (readable b) p = (0, p\<lparr>pk_fmt := f, pk_csid := c\<rparr>)" by blast
  then have "ParseHeader b p = Inr (0, p\<lparr>pk_fmt := f, pk_csid := c\<rparr>)"
    using assms(1) by (simp add: ParseHeader_def ReadBegin_all)
  then show ?thesis by blast
qed

lemma ParseHeader_full:
  assumes "buf_ok b" "readable b \<noteq> []" "header_len (readable b ! 0) \<le> ReadableLength b"
  shows "\<exists>p'. ParseHeader b p = Inr (int (header_len (readable b ! 0)), p') \<and> decoded (readable b) p p'"
  using DecodeHeader_full [of "readable b" p] assms header_len_bounds [of "readable b ! 0"]
  by (auto simp: ParseHeader_def ReadBegin_all)

lemma chunk_state_fmt [simp]:
  "chunk_state_of (m\<lparr>current_rtmp_pack := (current_rtmp_pack m)\<lparr>pk_fmt := f, pk_csid := c\<rparr>\<rparr>) = chunk_state_of m"
  "stream_ok (m\<lparr>current_rtmp_pack := (current_rtmp_pack m)\<lparr>pk_fmt := f, pk_csid := c\<rparr>\<rparr>) = stream_ok m"
  "small (m\<lparr>current_rtmp_pack := (current_rtmp_pack m)\<lparr>pk_fmt := f, pk_csid := c\<rparr>\<rparr>) b = small m b"
  by (simp_all add: chunk_state_of_def last_size_def GetBodyDataSize_def stream_ok_def base_ok_def pack_ok_def
      heap_ok_def GetBodyRemainSize_def GetBodyCurrentSize_def small_def Let_def split: option.splits)

text \<open>The manager whose current message has the fields of the header \<open>h\<close>.\<close>

lemma chunk_state_decoded:
  assumes "decoded h (current_rtmp_pack m) p'"
  shows "chunk_state_of (m\<lparr>current_rtmp_pack := p', parsed_status := PARSE_RTMP_BODY\<rparr>) =
    (head_fields h (chunk_state_of m))\<lparr>cs_in_body := True\<rparr>"
  using assms
  by (auto simp: chunk_state_of_def head_fields_def decoded_def last_size_def GetBodyDataSize_def Let_def
      split: RtmpPackFmt.splits option.splits)

text \<open>
  What one round or one call does: the bytes \<open>xs\<close> are gone from the buffer, the manager
  is where feeding them brings the machine, and the sink got the machine's items.
\<close>

definition advance :: "('s \<Rightarrow> bool) \<Rightarrow> ('s \<Rightarrow> flv_item list) \<Rightarrow> rtmp_manager \<Rightarrow> buffer \<Rightarrow> 's \<Rightarrow> (bytes \<Rightarrow> chunk_state \<times> flv_item list) \<Rightarrow>
    rtmp_manager \<Rightarrow> buffer \<Rightarrow> 's \<Rightarrow> bytes \<Rightarrow> bool" where
  "advance sink_ok received m b s f m' b' s' xs \<longleftrightarrow> readable b = xs @ readable b' \<and> buf_ok b' \<and> stream_ok m' \<and> small m' b' \<and>
     sink_ok s' \<and> (\<exists>items. f xs = (chunk_state_of m', items) \<and> received s' = received s @ items)"

text \<open>A call takes something unless the buffer holds less than a header that is due.\<close>

definition waiting :: "rtmp_manager \<Rightarrow> buffer \<Rightarrow> bool" where
  "waiting m b \<longleftrightarrow> readable b = [] \<or>
     (parsed_status m = PARSE_RTMP_HEADER \<and> length (readable b) < header_len (readable b ! 0))"

text \<open>Deliveries: each is appended to the connection's input buffer and parsed.\<close>

definition deliver :: "'s tag_callback \<Rightarrow> (nat \<Rightarrow> rtmp_pack) \<Rightarrow> bytes \<Rightarrow> rtmp_manager \<times> buffer \<times> 's \<Rightarrow>
    (rtmp_manager \<times> buffer \<times> 's) result" where
  "deliver cb junk xs = (\<lambda>(m, b, s). ebind (AppendData xs b) (\<lambda>b.
     ebind (ParseData cb junk m b s) (\<lambda>(_, m, b, s). Inr (m, b, s))))"

fun deliver_all :: "'s tag_callback \<Rightarrow> (nat \<Rightarrow> rtmp_pack) \<Rightarrow> bytes list \<Rightarrow> rtmp_manager \<times> buffer \<times> 's \<Rightarrow>
    (rtmp_manager \<times> buffer \<times> 's) result" where
  "deliver_all cb junk [] st = Inr st"
| "deliver_all cb junk (xs # xss) st = ebind (deliver cb junk xs st) (deliver_all cb junk xss)"

text \<open>\<open>followed\<close>: the bytes \<open>xs\<close> were received; part of them is still in the buffer.\<close>

definition followed :: "('s \<Rightarrow> bool) \<Rightarrow> ('s \<Rightarrow> flv_item list) \<Rightarrow> rtmp_manager \<Rightarrow> buffer \<Rightarrow> 's \<Rightarrow> bytes \<Rightarrow>
    rtmp_manager \<Rightarrow> buffer \<Rightarrow> 's \<Rightarrow> bool" where
  "followed sink_ok received m b s xs m' b' s' \<longleftrightarrow> stream_ok m' \<and> buf_ok b' \<and> sink_ok s' \<and>
     length (acc_bytes m') + ReadableLength b' \<le> length (acc_bytes m) + ReadableLength b + length xs \<and>
     (\<exists>ys items. readable b @ xs = ys @ readable b' \<and> feed (chunk_state_of m) ys = (chunk_state_of m', items) \<and>
        received s' = received s @ items)"

lemma followed_trans:
  assumes "followed sink_ok received m b s xs m1 b1 s1" "followed sink_ok received m1 b1 s1 ys m2 b2 s2"
  shows "followed sink_ok received m b s (xs @ ys) m2 b2 s2"
proof -
  obtain us is1 where 1: "readable b @ xs = us @ readable b1" "feed (chunk_state_of m) us = (chunk_state_of m1, is1)"
    "received s1 = received s @ is1" using assms(1) by (auto simp: followed_def)
  obtain vs is2 where 2: "readable b1 @ ys = vs @ readable b2" "feed (chunk_state_of m1) vs = (chunk_state_of m2, is2)"
    "received s2 = received s1 @ is2" using assms(2) by (auto simp: followed_def)
  have "readable b @ xs @ ys = (us @ vs) @ readable b2" using 1(1) 2(1) by (metis append_assoc)
  moreover have "feed (chunk_state_of m) (us @ vs) = (chunk_state_of m2, is1 @ is2)"
    using 1(2) 2(2) by (simp add: feed_append)
  ultimately show ?thesis
    using assms 1(3) 2(3)
    by (auto simp: followed_def intro!: exI [of _ "us @ vs"] exI [of _ "is1 @ is2"])
qed

text \<open>Feeding the rest of the buffer gives what feeding everything at once gives.\<close>

lemma followed_rest:
  assumes "followed sink_ok received m b s xs m' b' s'" "received s = []"
  shows "received s' @ snd (feed (chunk_state_of m') (readable b')) =
    snd (feed (chunk_state_of m) (readable b @ xs))"
proof -
  obtain ys where "readable b @ xs = ys @ readable b'"
    "feed (chunk_state_of m) ys = (chunk_state_of m', received s')"
    using assms by (auto simp: followed_def)
  then show ?thesis by (simp add: feed_append split: prod.splits)
qed

context tag_sink
begin

text \<open>A complete message of nonzero size is the machine's \<open>finish\<close>.\<close>

lemma new_tag_finish:
  assumes "pack_ok (current_rtmp_pack m)" "heap_ok m" "sink_ok s"
    and full: "length (acc_bytes m) = unat (GetBodyDataSize (current_rtmp_pack m))"
    and size: "GetBodyDataSize (current_rtmp_pack m) \<noteq> 0" and st: "parsed_status m = PARSE_RTMP_HEADER"
  shows "safe may_fail (\<lambda>(m', s'). \<exists>items. finish (chunk_state_of m) = (chunk_state_of m', items) \<and>
      sink_ok s' \<and> received s' = received s @ items \<and> pack_ok (current_rtmp_pack m') \<and> heap_ok m' \<and>
      acc_bytes m' = [] \<and> parsed_status m' = PARSE_RTMP_HEADER \<and>
      read_chunk_size m' = read_chunk_size m) (new_tag cb m s)"
proof -
  define p where "p = current_rtmp_pack m"
  define clock where "clock = AddTimeStamp (pk_timestamp p) (rtmp_codec m)"
  define m1 where "m1 = m\<lparr>current_rtmp_pack := p\<lparr>pk_buffer := Buffer_new\<rparr>, rtmp_codec := clock,
    flv_heap := flv_heap m @ [tag_of p clock]\<rparr>"
  define t where "t = SetPreviousTagSize (last_size m) (tag_of p clock)"
  define m2 where "m2 = m1\<lparr>flv_heap := flv_heap m @ [t], last_flv_ptr := Some (length (flv_heap m))\<rparr>"
  have p: "pack_ok p" using assms(1) by (simp add: p_def)
  have buf: "pack_ok (p\<lparr>pk_buffer := Buffer_new\<rparr>)" using p by (simp add: pack_ok_def)
  have complete: "tag_complete t"
    using full assms(1) by (simp add: t_def tag_complete_def tag_of_simps p_def pack_ok_def)
  have item: "tag_item t = cs_item ((chunk_state_of m)\<lparr>cs_clock := clock\<rparr>)"
    by (simp add: t_def tag_item_setters tag_of_simps tag_item_tag_of cs_item_def p_def)
  have csz: "GetCurrentTagSize t = 11 + GetBodyDataSize p"
    by (simp add: t_def GetCurrentTagSize_def tag_of_simps FLV_TAG_HEADER_LENGTH_def)
  have new: "new_tag cb m s = ProcessNewFlvTag cb (length (flv_heap m)) m1 s"
    by (simp add: new_tag_def EncodeHeaderAndSwapBuffer_new [OF p] p_def [symmetric] m1_def clock_def)
  have clk: "rtmp_codec m + cs_delta (chunk_state_of m) = clock"
    by (simp add: clock_def AddTimeStamp_eq chunk_state_of_def p_def Let_def)
  have m1: "flv_heap m1 = flv_heap m @ [tag_of p clock]" "last_flv_ptr m1 = last_flv_ptr m"
    by (simp_all add: m1_def)
  have prev: "(case last_flv_ptr m of Some q \<Rightarrow> GetCurrentTagSize (flv_heap m1 ! q) | None \<Rightarrow> 0) = last_size m"
    using assms(2) by (simp add: last_size_def m1 heap_ok_def nth_append split: option.splits)
  show ?thesis
  proof (cases "is_media (pk_type p)")
    case True
    have run: "new_tag cb m s = ebind (cb (length (flv_heap m)) t s) (\<lambda>s. Inr (m2, s))"
      using True
      by (simp add: prev new ProcessNewFlvTag_def m1 tag_of_simps is_media_def type_code_inj Let_def
          m2_def flip: t_def del: type_code.simps)
    have "finish (chunk_state_of m) = (chunk_state_of m2, [tag_item t])"
      using True size
      by (simp add: finish_def item clk p_def)
        (simp add: chunk_state_of_def m2_def m1_def p_def st last_size_def csz Let_def GetBodyDataSize_def)
    moreover have "heap_ok m2" by (simp add: m2_def heap_ok_def)
    ultimately show ?thesis
      unfolding run using buf st
      by (intro safe_ebind [OF sink [OF assms(3) complete]]) (simp add: m2_def m1_def)
  next
    case False
    have run: "new_tag cb m s = Inr (m1, s)"
      using False by (simp add: new ProcessNewFlvTag_def m1_def tag_of_simps is_media_def type_code_inj
          Let_def del: type_code.simps)
    have "finish (chunk_state_of m) = (chunk_state_of m1, [])"
      using False size assms(2)
      by (simp add: finish_def clk p_def)
        (simp add: chunk_state_of_def m1_def p_def st last_size_def heap_ok_def nth_append Let_def
          GetBodyDataSize_def split: option.splits)
    moreover have "heap_ok m1"
      using assms(2) by (simp add: m1_def heap_ok_def split: option.splits)
    ultimately show ?thesis unfolding run using buf st assms(3) by (simp add: m1_def)
  qed
qed

lemma body_round:
  assumes "base_ok m" "parsed_status m = PARSE_RTMP_BODY" "buf_ok b" "small m b" "sink_ok s"
  shows "safe may_fail (\<lambda>(n, m', b', s'). \<exists>xs. advance sink_ok received m b s (feed_from (chunk_state_of m)) m' b' s' xs \<and> 0 \<le> n \<and>
      (0 < n \<longrightarrow> length xs = unat (GetBodyRemainSize (current_rtmp_pack m))) \<and>
      (GetBodyRemainSize (current_rtmp_pack m) \<noteq> 0 \<and> readable b \<noteq> [] \<longrightarrow> xs \<noteq> []))
    (ebind (ParseBody m b) (\<lambda>(parsed, m, b).
       if parsed > 0 then ebind (new_tag cb m s) (\<lambda>(m, s). Inr (parsed, m, b, s))
       else Inr (parsed, m, b, s)))"
proof -
  obtain n over m1 where step: "ParseBody m b = Inr ((if over
        then int (unat (GetBodyDataSize (current_rtmp_pack m))) else 0), m1, AddReadIndex n b)"
    "body_step m (take n (readable b)) over m1"
    "over \<longrightarrow> n = unat (GetBodyRemainSize (current_rtmp_pack m)) \<and> n \<le> ReadableLength b"
    "GetBodyRemainSize (current_rtmp_pack m) \<noteq> 0 \<and> ReadableLength b \<noteq> 0 \<longrightarrow> n \<noteq> 0"
    by (rule ParseBody_step [OF assms(1-4)]) blast
  let ?xs = "take n (readable b)"
  have rd: "readable b = ?xs @ readable (AddReadIndex n b)" using assms(3) by simp
  have sm: "small m1 (AddReadIndex n b)" by (rule body_step_small [OF step(2) assms(4,3)])
  have some: "GetBodyRemainSize (current_rtmp_pack m) \<noteq> 0 \<and> readable b \<noteq> [] \<longrightarrow> ?xs \<noteq> []"
    using step(4) length_readable [OF assms(3)] by (cases "readable b") auto
  have heap: "heap_ok m1" using step(2) assms(1)
    by (cases "last_flv_ptr m") (simp_all add: body_step_def base_ok_def heap_ok_def)
  show ?thesis
  proof (cases over)
    case False
    with step assms(3,5) rd sm some show ?thesis
      by (auto simp: advance_def body_step_def intro!: exI [of _ ?xs])
  next
    case True
    note st = step(2) [unfolded body_step_def if_P [OF True]]
    have len: "length ?xs = unat (GetBodyRemainSize (current_rtmp_pack m))"
      using step(3) True assms(3) by simp
    show ?thesis
    proof (cases "GetBodyDataSize (current_rtmp_pack m1) = 0")
      case True
      have "length (acc_bytes m1) = unat (GetBodyDataSize (current_rtmp_pack m1))" using st by blast
      then have "length (acc_bytes m1) = 0" unfolding True by simp
      then have "acc_bytes m1 = []" by blast
      then have "finish (chunk_state_of m1) = (chunk_state_of m1, [])"
        using True st by (simp add: finish_def)
      moreover have "stream_ok m1"
        using st heap by (simp add: stream_ok_def base_ok_def)
      ultimately show ?thesis
        using True st step(1) rd sm assms(3,5) len some
        by (auto simp: advance_def intro!: exI [of _ ?xs])
    next
      case False
      have "pack_ok (current_rtmp_pack m1)" using st by simp
      note tag = new_tag_finish [OF this heap assms(5) _ False]
      have pos: "0 < int (unat (GetBodyDataSize (current_rtmp_pack m)))"
        using False st by (simp only: of_nat_0_less_iff unat_gt_0 not_False_eq_True)
      have adv: "advance sink_ok received m b s (feed_from (chunk_state_of m)) m' (AddReadIndex n b) s' ?xs"
        if "\<exists>items. finish (chunk_state_of m1) = (chunk_state_of m', items) \<and>
          sink_ok s' \<and> received s' = received s @ items \<and> pack_ok (current_rtmp_pack m') \<and> heap_ok m' \<and>
          acc_bytes m' = [] \<and> parsed_status m' = PARSE_RTMP_HEADER \<and>
          read_chunk_size m' = read_chunk_size m1" for m' s'
        using that st rd sm assms(3)
        by (auto simp: advance_def stream_ok_def base_ok_def small_def)
      have "safe may_fail (\<lambda>(m', s'). advance sink_ok received m b s (feed_from (chunk_state_of m)) m' (AddReadIndex n b) s' ?xs)
          (new_tag cb m1 s)"
        by (rule safe_mono [OF tag]) (use st adv in auto)
      note adv_tag = this
      have "safe may_fail (\<lambda>(n', m', b', s'). \<exists>xs. advance sink_ok received m b s (feed_from (chunk_state_of m)) m' b' s' xs \<and>
          0 \<le> n' \<and> (0 < n' \<longrightarrow> length xs = unat (GetBodyRemainSize (current_rtmp_pack m))) \<and>
          (GetBodyRemainSize (current_rtmp_pack m) \<noteq> 0 \<and> readable b \<noteq> [] \<longrightarrow> xs \<noteq> []))
        (ebind (new_tag cb m1 s) (\<lambda>(m', s'). Inr (int (unat (GetBodyDataSize (current_rtmp_pack m))), m', AddReadIndex n b, s')))"
        by (rule safe_ebind [OF adv_tag]) (simp only: split_beta safe_Inr fst_conv snd_conv,
          intro exI [of _ ?xs], simp add: len some del: length_take take_eq_Nil)
      then show ?thesis using step(1) \<open>over\<close> pos by simp
    qed
  qed
qed

text \<open>One round of the loop in the streaming state.\<close>

lemma stream_round:
  assumes "stream_ok m" "buf_ok b" "small m b" "sink_ok s"
  shows "safe may_fail (\<lambda>(n, m', b', s'). \<exists>xs. advance sink_ok received m b s (feed (chunk_state_of m)) m' b' s' xs \<and>
      0 \<le> n \<and> (0 < n \<or> \<not> waiting m b \<longrightarrow> xs \<noteq> []))
    (ParseData_round cb junk m b s)"
proof (cases "parsed_status m")
  case PARSE_FIRST_HEADER
  with assms(1) show ?thesis by (simp add: stream_ok_def base_ok_def)
next
  case PARSE_RTMP_BODY
  let ?r = "GetBodyRemainSize (current_rtmp_pack m)"
  have base: "base_ok m" and rem: "?r \<noteq> 0" and p: "pack_ok (current_rtmp_pack m)"
    using assms(1) PARSE_RTMP_BODY by (simp_all add: stream_ok_def base_ok_def)
  have feed: "feed_from (chunk_state_of m) = feed (chunk_state_of m)"
    using rem p by (intro ext feed_from_open) (simp add: cs_remain_of)
  have "unat ?r \<noteq> 0" using rem by (simp add: unat_eq_0)
  with PARSE_RTMP_BODY show ?thesis
    unfolding ParseData_round_def ParseData_header_def feed [symmetric]
    using rem
    by (auto simp: waiting_def intro!: safe_mono [OF body_round [OF base PARSE_RTMP_BODY assms(2-4)]])
next
  case PARSE_RTMP_HEADER
  show ?thesis
  proof (cases "readable b = [] \<or> ReadableLength b < header_len (readable b ! 0)")
    case True
    from ParseHeader_short [OF assms(2) this, of "current_rtmp_pack m"] obtain f c where
      "ParseHeader b (current_rtmp_pack m) = Inr (0, (current_rtmp_pack m)\<lparr>pk_fmt := f, pk_csid := c\<rparr>)" by blast
    then have "ParseData_round cb junk m b s =
        Inr (0, m\<lparr>current_rtmp_pack := (current_rtmp_pack m)\<lparr>pk_fmt := f, pk_csid := c\<rparr>\<rparr>, b, s)"
      using PARSE_RTMP_HEADER by (simp add: ParseData_round_def ParseData_header_def)
    moreover have "waiting m b"
      using True assms(2) PARSE_RTMP_HEADER by (simp add: waiting_def)
    ultimately show ?thesis using assms by (simp add: advance_def)
  next
    case False
    let ?k = "header_len (readable b ! 0)"
    let ?h = "take ?k (readable b)"
    from False have ne: "readable b \<noteq> []" and le: "?k \<le> ReadableLength b" by auto
    obtain p' where p': "ParseHeader b (current_rtmp_pack m) = Inr (int ?k, p')"
        "decoded (readable b) (current_rtmp_pack m) p'"
      using ParseHeader_full [OF assms(2) ne le] by blast
    define m1 where "m1 = m\<lparr>current_rtmp_pack := p', parsed_status := PARSE_RTMP_BODY\<rparr>"
    let ?b1 = "AddReadIndex ?k b"
    have k: "1 \<le> ?k" by (rule header_len_bounds)
    have dec: "decoded ?h (current_rtmp_pack m) p'"
      using p'(2) k by (simp add: decoded_take)
    have acc: "acc_bytes m1 = acc_bytes m" using p'(2) by (simp add: m1_def decoded_def)
    have base: "base_ok m1"
      using assms(1) PARSE_RTMP_HEADER decoded_ok [OF p'(2)]
      by (auto simp: m1_def stream_ok_def base_ok_def heap_ok_def split: option.splits)
    have sm: "small m1 ?b1" using assms(2,3) acc by (simp add: small_def)
    have rd: "readable b = ?h @ readable ?b1" using assms(2) by simp
    have hk: "length ?h = header_len (?h ! 0)" "?h \<noteq> []"
      using le k ne assms(2) by (auto simp: min_def)
    have feed: "feed (chunk_state_of m) (?h @ xs) = feed_from (chunk_state_of m1) xs" for xs
      using feed_head_then [OF _ _ hk(2,1)] PARSE_RTMP_HEADER
      by (simp add: m1_def chunk_state_decoded [OF dec])
    have run: "ParseData_round cb junk m b s =
      ebind (ParseBody m1 ?b1) (\<lambda>(parsed, m, b).
        if parsed > 0 then ebind (new_tag cb m s) (\<lambda>(m, s). Inr (parsed, m, b, s))
        else Inr (parsed, m, b, s))"
      using PARSE_RTMP_HEADER p'(1) k by (simp add: ParseData_round_def ParseData_header_def m1_def)
    have adv: "advance sink_ok received m b s (feed (chunk_state_of m)) m' b' s' (?h @ xs)"
      if "advance sink_ok received m1 ?b1 s (feed_from (chunk_state_of m1)) m' b' s' xs" for m' b' s' xs
      using that rd feed by (auto simp: advance_def)
    have "parsed_status m1 = PARSE_RTMP_BODY" by (simp add: m1_def)
    note round = body_round [OF base this _ sm assms(4)]
    show ?thesis
      unfolding run using hk(2) assms(2)
      by (intro safe_mono [OF round]) (auto intro!: adv)
  qed
qed

lemma advance_trans:
  assumes "advance sink_ok received m b s (feed (chunk_state_of m)) m1 b1 s1 xs"
    and "advance sink_ok received m1 b1 s1 (feed (chunk_state_of m1)) m2 b2 s2 ys"
  shows "advance sink_ok received m b s (feed (chunk_state_of m)) m2 b2 s2 (xs @ ys)"
  using assms by (auto simp: advance_def feed_append)

lemma advance_counted:
  assumes "advance sink_ok received m b s f m' b' s' xs"
  shows "advance sink_ok received m b s f (m'\<lparr>parsed_length := n\<rparr>) b' s' xs"
proof -
  have "last_size (m'\<lparr>parsed_length := n\<rparr>) = last_size m'" "heap_ok (m'\<lparr>parsed_length := n\<rparr>) = heap_ok m'"
    by (simp_all add: last_size_def heap_ok_def split: option.splits)
  with assms show ?thesis
    by (simp add: advance_def chunk_state_of_def stream_ok_def base_ok_def small_def)
qed

text \<open>The loop, with enough fuel: it ends, and what it consumed is fed to the machine.\<close>

lemma ParseData_loop_total:
  "stream_ok m \<Longrightarrow> buf_ok b \<Longrightarrow> small m b \<Longrightarrow> sink_ok s \<Longrightarrow> ReadableLength b < fuel \<Longrightarrow> 0 \<le> acc \<Longrightarrow>
   safe may_fail (\<lambda>(n, m', b', s'). \<exists>xs. advance sink_ok received m b s (feed (chunk_state_of m)) m' b' s' xs \<and>
      acc \<le> n \<and> (\<not> waiting m b \<longrightarrow> xs \<noteq> []))
     (ParseData_loop fuel cb junk acc m b s)"
proof (induction fuel arbitrary: acc m b s)
  case 0
  then show ?case by simp
next
  case (Suc fuel)
  show ?case unfolding ParseData_loop.simps
  proof (rule safe_ebind [OF stream_round [OF Suc.prems(1-4)]])
    fix r :: "int \<times> rtmp_manager \<times> buffer \<times> 's"
    assume "case r of (n, m', b', s') \<Rightarrow> \<exists>xs. advance sink_ok received m b s (feed (chunk_state_of m)) m' b' s' xs \<and>
      0 \<le> n \<and> (0 < n \<or> \<not> waiting m b \<longrightarrow> xs \<noteq> [])"
    then obtain n m1 b1 s1 xs where r: "r = (n, m1, b1, s1)"
      and adv: "advance sink_ok received m b s (feed (chunk_state_of m)) m1 b1 s1 xs" and "0 \<le> n"
      and some: "0 < n \<or> \<not> waiting m b \<longrightarrow> xs \<noteq> []" by (cases r) auto
    have ok: "stream_ok m1" "buf_ok b1" "small m1 b1" "sink_ok s1" "readable b = xs @ readable b1"
      using adv by (simp_all add: advance_def)
    then have len: "ReadableLength b = length xs + ReadableLength b1"
      using length_readable [OF Suc.prems(2)] length_readable [OF ok(2)] by simp
    show "safe may_fail (\<lambda>(n, m', b', s'). \<exists>xs. advance sink_ok received m b s (feed (chunk_state_of m)) m' b' s' xs \<and>
        acc \<le> n \<and> (\<not> waiting m b \<longrightarrow> xs \<noteq> []))
      (case r of (parsed, m, b, s) \<Rightarrow>
        if parsed > 0 then ParseData_loop fuel cb junk (acc + parsed) m b s
        else if parsed = 0 then Inr (acc, m\<lparr>parsed_length := size_add (parsed_length m) (nat acc)\<rparr>, b, s)
        else Inr (-1, m, b, s))"
    proof (cases "0 < n")
      case True
      then have "ReadableLength b1 < fuel" using Suc.prems(5) len some by (cases xs) auto
      from Suc.IH [OF ok(1-4) this, of "acc + n"] True Suc.prems(6) r some adv show ?thesis
        by (auto elim!: safe_mono intro: advance_trans)
    next
      case False
      then have "n = 0" using \<open>0 \<le> n\<close> by simp
      with r some adv show ?thesis
        by (auto intro: advance_counted)
    qed
  qed
qed

lemma ParseData_advance:
  assumes "stream_ok m" "buf_ok b" "small m b" "sink_ok s"
  shows "safe may_fail (\<lambda>(n, m', b', s'). \<exists>xs. advance sink_ok received m b s (feed (chunk_state_of m)) m' b' s' xs \<and>
      0 \<le> n \<and> (\<not> waiting m b \<longrightarrow> xs \<noteq> [])) (ParseData cb junk m b s)"
proof (cases "ReadableLength b = 0")
  case True
  then have "readable b = []" using length_readable [OF assms(2)] by (cases "readable b") auto
  then show ?thesis using assms True by (auto simp: ParseData_def advance_def waiting_def)
next
  case False
  then show ?thesis using ParseData_loop_total [OF assms, of "ReadableLength b + 1" 0 junk]
    by (simp add: ParseData_def)
qed

text \<open>
  A call on bytes that were appended to the buffer \<open>b\<close>: what is left is less than what there
  was, or less than a header.
\<close>

lemma ParseData_followed:
  assumes "stream_ok m" "buf_ok b" "buf_ok c" "readable c = readable b @ xs" "sink_ok s"
    and "length (acc_bytes m) + ReadableLength b + length xs < 2 ^ 32"
  shows "safe may_fail (\<lambda>(n, m', b', s'). followed sink_ok received m b s xs m' b' s' \<and>
      (ReadableLength b' < 12 \<or> ReadableLength b' < ReadableLength c)) (ParseData cb junk m c s)"
proof -
  have rl: "ReadableLength c = ReadableLength b + length xs"
    using length_readable [OF assms(3)] length_readable [OF assms(2)] assms(4) by simp
  then have sm: "small m c" using assms(6) by (simp add: small_def)
  have foll: "followed sink_ok received m b s xs m' b' s' \<and> (ReadableLength b' < 12 \<or> ReadableLength b' < ReadableLength c)"
    if adv: "advance sink_ok received m c s (feed (chunk_state_of m)) m' b' s' ys" and some: "\<not> waiting m c \<longrightarrow> ys \<noteq> []"
    for m' b' s' ys
  proof -
    have acc: "length (acc_bytes m') \<le> length (acc_bytes m) + length ys"
      using adv feed_acc [of "chunk_state_of m" ys] by (auto simp: advance_def)
    have len: "ReadableLength c = length ys + ReadableLength b'"
      using adv length_readable [OF assms(3)] length_readable [of b'] by (simp add: advance_def)
    have "ReadableLength c < 12" if "waiting m c"
      using that header_len_bounds(2) [of "readable c ! 0"] length_readable [OF assms(3)] by (auto simp: waiting_def)
    then have "ReadableLength b' < 12 \<or> ReadableLength b' < ReadableLength c" using some len by (cases ys) auto
    then show ?thesis using acc len adv rl assms(4) by (auto simp: advance_def followed_def)
  qed
  show ?thesis
    by (rule safe_mono [OF ParseData_advance [OF assms(1,3) sm assms(5)]]) (auto dest: foll)
qed

lemma deliver_followed:
  assumes "stream_ok m" "buf_ok b" "sink_ok s" "length (acc_bytes m) + ReadableLength b + length xs < 2 ^ 32"
  shows "safe may_fail (\<lambda>(m', b', s'). followed sink_ok received m b s xs m' b' s')
    (deliver cb junk xs (m, b, s))"
proof -
  have "fits (length xs) b" using assms by (simp add: fits_def max_size_def)
  from AppendData_ok [OF assms(2) this] obtain c where c: "AppendData xs b = Inr c" "buf_ok c"
      "readable c = readable b @ xs" by (auto simp: holds_def)
  show ?thesis
    unfolding deliver_def prod.case c(1) ebind_simps
    by (rule safe_ebind [OF ParseData_followed [OF assms(1,2) c(2,3) assms(3,4)]]) auto
qed

lemma deliver_all_followed:
  "stream_ok m \<Longrightarrow> buf_ok b \<Longrightarrow> sink_ok s \<Longrightarrow>
   length (acc_bytes m) + ReadableLength b + length (concat xss) < 2 ^ 32 \<Longrightarrow>
   safe may_fail (\<lambda>(m', b', s'). followed sink_ok received m b s (concat xss) m' b' s')
    (deliver_all cb junk xss (m, b, s))"
proof (induction xss arbitrary: m b s)
  case Nil
  then show ?case by (simp add: followed_def)
next
  case (Cons xs xss)
  have len: "length (acc_bytes m) + ReadableLength b + length xs < 2 ^ 32" using Cons.prems(4) by simp
  show ?case unfolding deliver_all.simps
  proof (rule safe_ebind [OF deliver_followed [OF Cons.prems(1-3) len]], clarify)
    fix m1 b1 s1
    assume f: "followed sink_ok received m b s xs m1 b1 s1"
    then have "length (acc_bytes m1) + ReadableLength b1 + length (concat xss) < 2 ^ 32"
      using Cons.prems(4) by (simp add: followed_def)
    with f Cons.IH [of m1 b1 s1]
    have "safe may_fail (\<lambda>(m', b', s'). followed sink_ok received m1 b1 s1 (concat xss) m' b' s')
        (deliver_all cb junk xss (m1, b1, s1))" by (simp add: followed_def)
    then show "safe may_fail (\<lambda>(m', b', s'). followed sink_ok received m b s (concat (xs # xss)) m' b' s')
        (deliver_all cb junk xss (m1, b1, s1))"
      by (rule safe_mono) (use followed_trans [OF f] in auto)
  qed
qed

end

section \<open>The parser refines the byte machine\<close>

text \<open>
  C3: one call of \<^verbatim>\<open>ParseData\<close> on any bytes, in the streaming state, ends without a fault;
  what it takes from the buffer it does to the parser as the byte machine does, one byte
  at a time, and the tags it announces are the machine's items, each complete. It takes
  something unless less than a chunk header is there and due.
\<close>

theorem ParseData_refines:
  assumes "stream_ok m" "buf_ok b" "small m b"
  shows "\<exists>n m' b' ts xs. ParseData record_tag junk m b [] = Inr (n, m', b', ts) \<and> 0 \<le> n \<and>
    readable b = xs @ readable b' \<and> feed (chunk_state_of m) xs = (chunk_state_of m', map tag_item ts) \<and>
    (\<forall>t \<in> set ts. tag_complete t) \<and> stream_ok m' \<and> buf_ok b' \<and> (waiting m b \<or> xs \<noteq> [])"
  using recorder.ParseData_advance [OF assms, of "[]" junk]
  by (fastforce simp: safe_False holds_def advance_def)

text \<open>
  The cutting of the stream into deliveries does not matter: whatever pieces the
  bytes arrive in, the tags announced so far and those still to come from what is left in
  the buffer are together the items of the whole stream.
\<close>

lemma deliveries_independent:
  assumes "stream_ok m" "buf_ok b" "length (acc_bytes m) + ReadableLength b + length (concat pieces) < 2 ^ 32"
  shows "\<exists>m' b' ts. deliver_all record_tag junk pieces (m, b, []) = Inr (m', b', ts) \<and>
    stream_ok m' \<and> buf_ok b' \<and>
    map tag_item ts @ snd (feed (chunk_state_of m') (readable b')) =
      snd (feed (chunk_state_of m) (readable b @ concat pieces))"
proof -
  have "holds (\<lambda>(m', b', ts). followed (\<lambda>ts. \<forall>t\<in>set ts. tag_complete t) (map tag_item) m b []
      (concat pieces) m' b' ts) (deliver_all record_tag junk pieces (m, b, []))"
    using recorder.deliver_all_followed [OF assms(1,2) _ assms(3), of "[]" junk] by (simp add: safe_False)
  then obtain m' b' ts where run: "deliver_all record_tag junk pieces (m, b, []) = Inr (m', b', ts)"
    and f: "followed (\<lambda>ts. \<forall>t\<in>set ts. tag_complete t) (map tag_item) m b [] (concat pieces) m' b' ts"
    by (auto simp: holds_def)
  from f followed_rest [OF f] run show ?thesis by (simp add: followed_def)
qed

text \<open>A parser behind the first three messages, for the witnesses.\<close>

definition sample_pack :: rtmp_pack where
  "sample_pack = \<lparr>pk_fmt = FMT0, pk_csid = 4, pk_timestamp = [0, 0, 0], pk_data_size = [0, 0, 0],
     pk_type = RTMP_OTHER, pk_stream_id = 0, pk_buffer = Buffer_new\<rparr>"

definition sample_parser :: rtmp_manager where
  "sample_parser = (RtmpManager_new sample_pack)\<lparr>parsed_status := PARSE_RTMP_HEADER\<rparr>"

lemma sample_parser_ok: "stream_ok sample_parser" "idle (chunk_state_of sample_parser)"
  by (simp_all add: sample_parser_def RtmpManager_new_def sample_pack_def stream_ok_def base_ok_def pack_ok_def
      heap_ok_def RtmpPack_new_def idle_def)

lemma sample_parser_acc: "acc_bytes sample_parser = []"
  using sample_parser_ok(2) by (simp add: idle_def)

definition sample_stream :: bytes where
  "sample_stream = encode_msgs 4 [1, 0, 0, 0] sample_msgs"

lemma length_sample_stream: "length sample_stream = 19"
  by (simp add: sample_stream_def encode_msgs_def encode_msg_def sample_msgs_def u24_def
      body_chunks.simps CHUNK_SIZE_def)

definition sample_input :: buffer where
  "sample_input = \<lparr>buf_data = replicate 8 0 @ sample_stream, read_idx = 8, write_idx = 27,
     sum_read = 0, sum_write = 19\<rparr>"

lemma sample_input_ok: "buf_ok sample_input" "readable sample_input = sample_stream"
  by (simp_all add: sample_input_def buf_ok_def readable_def length_sample_stream max_size_def)

lemma sample_input_small: "small sample_parser sample_input"
  using length_readable [OF sample_input_ok(1)]
  by (simp add: small_def sample_parser_acc sample_input_ok length_sample_stream)

theorem ParseData_refines_witness:
  "\<exists>n m' b' ts xs. ParseData record_tag (\<lambda>_. sample_pack) sample_parser sample_input [] = Inr (n, m', b', ts) \<and>
     sample_stream = xs @ readable b' \<and> xs \<noteq> []"
proof -
  have "\<not> waiting sample_parser sample_input"
  proof -
    have "sample_stream ! 0 = basic_header 4 FMT0"
      by (simp add: sample_stream_def encode_msgs_def encode_msg_def sample_msgs_def)
    then show ?thesis using length_sample_stream by (auto simp: waiting_def sample_input_ok header_len_basic)
  qed
  with ParseData_refines [OF sample_parser_ok(1) sample_input_ok(1) sample_input_small, of "\<lambda>_. sample_pack"]
  show ?thesis by (fastforce simp: sample_input_ok)
qed

end
