(* ===== verification/StreamHead.thy ===== *)
theory StreamHead
  imports RtmpRefinement
begin

text \<open>
  The head of a stream: the first three messages of a publisher, which \<^verbatim>\<open>ParseFirstHeader\<close> parses
  in one go as soon as 1000 bytes have arrived, and the stream behind them.
\<close>

section \<open>What is left alone behind the head\<close>

lemma new_tag_manager: "new_tag cb m s = Inr (m', s') \<Longrightarrow> rm_flv_manager m' = rm_flv_manager m \<and> parsed_status m' = parsed_status m"
  by (auto simp: new_tag_def ProcessNewFlvTag_def Let_def result_simps split: prod.splits if_split_asm)

lemma ParseBody_static_status:
  "ParseBody_static b p over rc (Some st) = Inr (n, b', p', rc', st') \<Longrightarrow> st' = Some st \<or> st' = Some PARSE_RTMP_HEADER"
  by (auto simp: ParseBody_static_def Let_def result_simps split: if_splits option.splits)

lemma ParseBody_manager:
  "ParseBody m b = Inr (n, m', b') \<Longrightarrow> rm_flv_manager m' = rm_flv_manager m \<and>
     (parsed_status m' = parsed_status m \<or> parsed_status m' = PARSE_RTMP_HEADER)"
  by (auto simp: ParseBody_def Let_def result_simps dest!: ParseBody_static_status)

lemma ParseData_header_manager:
  "ParseData_header m b = Inr (n, m', b') \<Longrightarrow> rm_flv_manager m' = rm_flv_manager m \<and>
     (parsed_status m' = parsed_status m \<or> parsed_status m' = PARSE_RTMP_BODY)"
  by (auto simp: ParseData_header_def Let_def result_simps split: if_split_asm)

lemma ParseData_round_manager:
  assumes "ParseData_round cb junk m b s = Inr (n, m', b', s')" "parsed_status m \<noteq> PARSE_FIRST_HEADER"
  shows "rm_flv_manager m' = rm_flv_manager m \<and> parsed_status m' \<noteq> PARSE_FIRST_HEADER"
  using assms
  by (auto simp: ParseData_round_def result_simps split: if_split_asm prod.split_asm
      dest!: ParseData_header_manager ParseBody_manager new_tag_manager)

lemma ParseData_loop_manager:
  "ParseData_loop fuel cb junk acc m b s = Inr (n, m', b', s') \<Longrightarrow> parsed_status m \<noteq> PARSE_FIRST_HEADER \<Longrightarrow>
   rm_flv_manager m' = rm_flv_manager m \<and> parsed_status m' \<noteq> PARSE_FIRST_HEADER"
proof (induction fuel arbitrary: acc m b s)
  case (Suc fuel)
  then obtain k m1 b1 s1 where r: "ParseData_round cb junk m b s = Inr (k, m1, b1, s1)"
    "(if k > 0 then ParseData_loop fuel cb junk (acc + k) m1 b1 s1
      else if k = 0 then Inr (acc, m1\<lparr>parsed_length := size_add (parsed_length m1) (nat acc)\<rparr>, b1, s1)
      else Inr (-1, m1, b1, s1)) = Inr (n, m', b', s')"
    by (auto simp: ebind_case4)
  from r(2) Suc.IH ParseData_round_manager [OF r(1) Suc.prems(2)] show ?case by (auto split: if_splits)
qed simp

lemma ParseData_manager:
  "ParseData cb junk m b s = Inr (n, m', b', s') \<Longrightarrow> parsed_status m \<noteq> PARSE_FIRST_HEADER \<Longrightarrow>
   rm_flv_manager m' = rm_flv_manager m \<and> parsed_status m' \<noteq> PARSE_FIRST_HEADER"
  by (auto simp: ParseData_def simp del: ParseData_loop.simps dest: ParseData_loop_manager split: if_splits)

lemma deliver_manager:
  "deliver cb junk xs (m, b, s) = Inr (m', b', s') \<Longrightarrow> parsed_status m \<noteq> PARSE_FIRST_HEADER \<Longrightarrow>
   rm_flv_manager m' = rm_flv_manager m \<and> parsed_status m' \<noteq> PARSE_FIRST_HEADER"
  by (auto simp: deliver_def result_simps dest: ParseData_manager)

lemma deliver_all_manager:
  "deliver_all cb junk xss (m, b, s) = Inr (m', b', s') \<Longrightarrow> parsed_status m \<noteq> PARSE_FIRST_HEADER \<Longrightarrow>
   rm_flv_manager m' = rm_flv_manager m"
proof (induction xss arbitrary: m b s)
  case (Cons xs xss)
  obtain r where d: "deliver cb junk xs (m, b, s) = Inr r" "deliver_all cb junk xss r = Inr (m', b', s')"
    using Cons.prems(1) by (cases "deliver cb junk xs (m, b, s)") auto
  obtain m1 b1 s1 where r: "r = (m1, b1, s1)" by (cases r)
  show ?case using Cons.IH [OF d(2) [unfolded r]] deliver_manager [OF d(1) [unfolded r] Cons.prems(2)] by simp
qed simp

section \<open>One message of the head\<close>

text \<open>A message of the head has all its fields in its header and comes in one chunk.\<close>

definition head_msg :: "rtmp_msg \<Rightarrow> bool" where
  "head_msg x \<longleftrightarrow> msg_ok x \<and> ms_fmt x \<in> {FMT0, FMT1} \<and> length (ms_data x) \<le> CHUNK_SIZE"

definition pack_of :: "rtmp_msg \<Rightarrow> rtmp_pack \<Rightarrow> bool" where
  "pack_of x p \<longleftrightarrow> pack_ok p \<and> pk_timestamp p = u24 (ms_delta x) \<and> pk_data_size p = u24 (msg_size x) \<and>
     pk_type p = ms_type x \<and> readable (pk_buffer p) = ms_data x"

lemma head_msg_size: "head_msg x \<Longrightarrow> unat (msg_size x) = length (ms_data x)"
  by (simp add: head_msg_def CHUNK_SIZE_def msg_size_def)

lemma encode_head_msg: "head_msg x \<Longrightarrow> encode_msg csid sid x = msg_header csid sid x @ ms_data x"
  by (simp add: head_msg_def encode_msg_def body_chunks.simps)

lemma msg_header_first: "msg_header csid sid x \<noteq> []" "(msg_header csid sid x @ rest) ! 0 = basic_header csid (ms_fmt x)"
  by simp_all

lemma length_msg_header:
  "ms_fmt x \<in> {FMT0, FMT1} \<Longrightarrow> length sid = 4 \<Longrightarrow> length (msg_header csid sid x) = (if ms_fmt x = FMT0 then 12 else 8)"
  by (auto simp: u24_def)

declare msg_header.simps [simp del]

lemma decode_head_msg:
  assumes "head_msg x" "csid < 64" "length sid = 4"
  obtains p' where "RtmpCodec_DecodeHeader (msg_header csid sid x @ rest) p = (int (length (msg_header csid sid x)), p')"
    "pk_buffer p' = pk_buffer p" "pk_timestamp p' = u24 (ms_delta x)" "pk_data_size p' = u24 (msg_size x)" "pk_type p' = ms_type x"
proof -
  let ?h = "msg_header csid sid x @ rest"
  have f: "ms_fmt x = FMT0 \<or> ms_fmt x = FMT1" using assms(1) by (simp add: head_msg_def)
  note h0 = msg_header_first(2) [of csid sid x rest]
  have len: "header_len (?h ! 0) = length (msg_header csid sid x)"
    unfolding h0 header_len_basic [OF assms(2)] using f length_msg_header [OF _ assms(3), of x csid] by auto
  then obtain p' where p: "RtmpCodec_DecodeHeader ?h p = (int (length (msg_header csid sid x)), p')" "decoded ?h p p'"
    using DecodeHeader_full [of ?h p] msg_header_first(1) [of csid sid x] by auto
  have "fmt_of (drop_bit 6 (?h ! 0)) = ms_fmt x" unfolding h0 by (rule fmt_of_basic [OF assms(2)])
  then have "pk_timestamp p' = [?h ! 1, ?h ! 2, ?h ! 3] \<and> pk_data_size p' = [?h ! 4, ?h ! 5, ?h ! 6] \<and> pk_type p' = pack_type_of (?h ! 7)"
    using p(2) f by (auto simp: decoded_def)
  moreover have "[?h ! 1, ?h ! 2, ?h ! 3] = u24 (ms_delta x) \<and> [?h ! 4, ?h ! 5, ?h ! 6] = u24 (msg_size x) \<and> ?h ! 7 = type_code (ms_type x)"
    using f by (auto simp: msg_header.simps u24_def)
  ultimately show ?thesis using p by (intro that [OF p(1)]) (simp_all add: decoded_def)
qed

text \<open>The header, with the size of the body it announces.\<close>

lemma header_pack:
  assumes "head_msg x" "csid < 64" "length sid = 4"
  obtains k p1 where "RtmpCodec_DecodeHeader (msg_header csid sid x @ rest) (RtmpPack_new junk) = (k, p1)" "0 < k"
    "k = int (length (msg_header csid sid x))" "as_size k = length (msg_header csid sid x)" "pk_type p1 = ms_type x"
    "unat (GetBodyDataSize p1) = length (ms_data x)" "pk_buffer p1 = Buffer_new"
    "\<And>B. buf_ok B \<Longrightarrow> readable B = ms_data x \<Longrightarrow> pack_of x (p1\<lparr>pk_buffer := B\<rparr>)" "pack_ok p1"
proof -
  let ?h = "msg_header csid sid x"
  obtain p1 where p: "RtmpCodec_DecodeHeader (?h @ rest) (RtmpPack_new junk) = (int (length ?h), p1)"
    "pk_buffer p1 = Buffer_new" "pk_timestamp p1 = u24 (ms_delta x)" "pk_data_size p1 = u24 (msg_size x)" "pk_type p1 = ms_type x"
    using decode_head_msg [OF assms, of rest "RtmpPack_new junk"] by (auto simp: RtmpPack_new_def)
  have "unat (msg_size x) < 2 ^ 24" using assms(1) head_msg_size [OF assms(1)] by (simp add: head_msg_def msg_ok_def)
  then have "GetBodyDataSize p1 = msg_size x" using p(4) u24_read [of "msg_size x"] by (simp add: GetBodyDataSize_def u24_def)
  then have sz: "unat (GetBodyDataSize p1) = length (ms_data x)" using head_msg_size [OF assms(1)] by simp
  have hl: "as_size (int (length ?h)) = length ?h" "0 < length ?h"
    using assms(1) length_msg_header [OF _ assms(3), of x csid] by (auto simp: as_size_def head_msg_def)
  have "pack_ok p1" using p by (simp add: pack_ok_def u24_def)
  then show ?thesis by (intro that [OF p(1) _ refl hl(1) p(5) sz p(2)]) (use hl p in \<open>simp_all add: pack_of_def\<close>)
qed

text \<open>What both parsers of the head do with a message that is all there.\<close>

lemma take_message:
  assumes "head_msg x" "csid < 64" "length sid = 4" "buf_ok b" "readable b = encode_msg csid sid x @ rest"
  obtains k p1 b' p' where "RtmpCodec_DecodeHeader (readable b) (RtmpPack_new junk) = (k, p1)" "0 < k" "pk_type p1 = ms_type x"
    "move_bytes (unat (GetBodyDataSize p1)) (AddReadIndex (as_size k) b) p1 = Inr (b', p')"
    "k + int (unat (GetBodyDataSize p1)) = int (length (encode_msg csid sid x))"
    "buf_ok b'" "readable b' = rest" "pack_of x p'"
proof -
  let ?h = "msg_header csid sid x"
  have rd: "readable b = ?h @ ms_data x @ rest" using assms(5) encode_head_msg [OF assms(1)] by simp
  obtain k p1 where p: "RtmpCodec_DecodeHeader (?h @ ms_data x @ rest) (RtmpPack_new junk) = (k, p1)" "0 < k"
    "k = int (length ?h)" "as_size k = length ?h" "pk_type p1 = ms_type x"
    "unat (GetBodyDataSize p1) = length (ms_data x)" "pk_buffer p1 = Buffer_new"
    "\<And>B. buf_ok B \<Longrightarrow> readable B = ms_data x \<Longrightarrow> pack_of x (p1\<lparr>pk_buffer := B\<rparr>)" "pack_ok p1"
    by (rule header_pack [OF assms(1-3)]) blast
  let ?b = "AddReadIndex (length ?h) b"
  have b: "buf_ok ?b" "readable ?b = ms_data x @ rest" using assms(4) rd by simp_all
  have le: "length (ms_data x) \<le> ReadableLength ?b" using length_readable [OF b(1)] b(2) by simp
  have "length (readable (pk_buffer p1)) + length (ms_data x) < 2 ^ 32"
    using assms(1) p(7) by (simp add: head_msg_def CHUNK_SIZE_def)
  from move_bytes_ok [OF b(1) p(9) le this] obtain B where
    B: "move_bytes (length (ms_data x)) ?b p1 = Inr (AddReadIndex (length (ms_data x)) ?b, p1\<lparr>pk_buffer := B\<rparr>)" "buf_ok B"
    "readable B = readable (pk_buffer p1) @ take (length (ms_data x)) (readable ?b)" by blast
  show ?thesis
    by (rule that [OF p(1) [folded rd] p(2,5), of "AddReadIndex (length (ms_data x)) ?b" "p1\<lparr>pk_buffer := B\<rparr>"])
      (use p(3,4,6,7) B b p(8) [OF B(2)] encode_head_msg [OF assms(1), of csid sid] in simp_all)
qed

lemma ParseScriptPack_message:
  assumes "head_msg x" "csid < 64" "length sid = 4" "buf_ok b" "readable b = encode_msg csid sid x @ rest" "ms_type x = RTMP_SCRIPT"
  obtains b' p' where "ParseScriptPack b (RtmpPack_new junk) = Inr (int (length (encode_msg csid sid x)), b', p')"
    "buf_ok b'" "readable b' = rest" "pack_of x p'"
proof -
  obtain k p1 b' p' where t: "RtmpCodec_DecodeHeader (readable b) (RtmpPack_new junk) = (k, p1)" "0 < k" "pk_type p1 = ms_type x"
    "move_bytes (unat (GetBodyDataSize p1)) (AddReadIndex (as_size k) b) p1 = Inr (b', p')"
    "k + int (unat (GetBodyDataSize p1)) = int (length (encode_msg csid sid x))"
    "buf_ok b'" "readable b' = rest" "pack_of x p'" by (rule take_message [OF assms(1-5)])
  show ?thesis by (rule that [OF _ t(6-8)]) (use t(1-5) assms(4,6) in \<open>simp add: ParseScriptPack_def ReadBegin_all\<close>)
qed

lemma ParseVideoAudio_round_message:
  assumes "head_msg x" "csid < 64" "length sid = 4" "buf_ok b" "readable b = encode_msg csid sid x @ rest" "is_media (ms_type x)"
  obtains b' p' where "ParseVideoAudio_round b (RtmpPack_new junk) = Inr (int (length (encode_msg csid sid x)), b', p')"
    "buf_ok b'" "readable b' = rest" "pack_of x p'"
proof -
  obtain k p1 b' p' where t: "RtmpCodec_DecodeHeader (readable b) (RtmpPack_new junk) = (k, p1)" "0 < k" "pk_type p1 = ms_type x"
    "move_bytes (unat (GetBodyDataSize p1)) (AddReadIndex (as_size k) b) p1 = Inr (b', p')"
    "k + int (unat (GetBodyDataSize p1)) = int (length (encode_msg csid sid x))"
    "buf_ok b'" "readable b' = rest" "pack_of x p'" by (rule take_message [OF assms(1-5)])
  show ?thesis
    by (rule that [OF _ t(6-8)])
      (use t(1-5) assms(4,6) in \<open>auto simp: ParseVideoAudio_round_def ReadBegin_all is_media_def Let_def\<close>)
qed

text \<open>The FLV tag that a message of the head becomes.\<close>

lemma pack_of_tag:
  assumes "pack_of x p" "head_msg x"
  shows "tag_complete (tag_of p c)"
    "tag_item (tag_of p c) = \<lparr>it_prev = 0, it_type = type_code (ms_type x), it_ts = take_bit 24 c, it_tail = [0, 0, 0, 0],
      it_data = ms_data x\<rparr>"
proof -
  have "unat (msg_size x) < 2 ^ 24" using assms(2) head_msg_size [OF assms(2)] by (simp add: head_msg_def msg_ok_def)
  then have "GetBodyDataSize p = msg_size x"
    using assms(1) u24_read [of "msg_size x"] by (simp add: GetBodyDataSize_def u24_def pack_of_def)
  then show "tag_complete (tag_of p c)"
    using assms head_msg_size [OF assms(2)] length_readable [of "pk_buffer p"]
    by (simp add: tag_complete_def tag_of_simps pack_of_def pack_ok_def)
  show "tag_item (tag_of p c) = \<lparr>it_prev = 0, it_type = type_code (ms_type x), it_ts = take_bit 24 c, it_tail = [0, 0, 0, 0],
      it_data = ms_data x\<rparr>" using assms(1) by (simp add: tag_item_tag_of pack_of_def)
qed

lemma pack_of_clock: "pack_of x p \<Longrightarrow> head_msg x \<Longrightarrow> AddTimeStamp (pk_timestamp p) c = c + ms_delta x"
  using u24_read [of "ms_delta x"] by (simp add: AddTimeStamp_eq pack_of_def u24_def head_msg_def msg_ok_def)

section \<open>The three messages\<close>

definition stream_head :: "rtmp_msg list \<Rightarrow> bool" where
  "stream_head xs \<longleftrightarrow> length xs = 3 \<and> (\<forall>x \<in> set xs. head_msg x) \<and> ms_type (xs ! 0) = RTMP_SCRIPT \<and>
     is_media (ms_type (xs ! 1)) \<and> is_media (ms_type (xs ! 2))"

lemma stream_headE:
  assumes "stream_head xs"
  obtains s a v where "xs = [s, a, v]" "head_msg s" "head_msg a" "head_msg v" "ms_type s = RTMP_SCRIPT"
    "is_media (ms_type a)" "is_media (ms_type v)"
  using assms by (auto simp: stream_head_def length_Suc_conv eval_nat_numeral)

text \<open>What the head of the stream is to hold, and the stream's clock behind it.\<close>

fun head_items :: "u32 \<Rightarrow> rtmp_msg list \<Rightarrow> flv_item list" where
  "head_items clock [] = []"
| "head_items clock (x # xs) =
     \<lparr>it_prev = 0, it_type = type_code (ms_type x), it_ts = take_bit 24 (clock + ms_delta x), it_tail = [0, 0, 0, 0],
       it_data = ms_data x\<rparr> # head_items (clock + ms_delta x) xs"

definition clock_after :: "u32 \<Rightarrow> rtmp_msg list \<Rightarrow> u32" where
  "clock_after clock xs = foldl (\<lambda>c x. c + ms_delta x) clock xs"

definition holds_head :: "u32 \<Rightarrow> rtmp_msg list \<Rightarrow> flv_manager \<Rightarrow> bool" where
  "holds_head clock xs fm \<longleftrightarrow> manager_ok fm \<and>
     map tag_item [script_tag fm, video_audio_tag0 fm, video_audio_tag1 fm] = head_items clock xs"

text \<open>A parser that has seen nothing of the stream.\<close>

definition before_head :: "rtmp_manager \<Rightarrow> bool" where
  "before_head m \<longleftrightarrow> parsed_status m = PARSE_FIRST_HEADER \<and> pack_ok (current_rtmp_pack m) \<and> acc_bytes m = [] \<and>
     read_chunk_size m = 0 \<and> last_flv_ptr m = None \<and> rm_flv_manager m = FlvManager_new"

definition behind_head :: "rtmp_manager \<Rightarrow> rtmp_msg list \<Rightarrow> rtmp_manager \<Rightarrow> bool" where
  "behind_head m xs m' \<longleftrightarrow> stream_ok m' \<and> idle (chunk_state_of m') \<and> rtmp_codec m' = clock_after (rtmp_codec m) xs \<and>
     last_size m' = 0 \<and> holds_head (rtmp_codec m) xs (rm_flv_manager m')"

lemma ParseFirstHeader_head:
  assumes "before_head m" "stream_head xs" "csid < 64" "length sid = 4" "buf_ok b"
    and "readable b = encode_msgs csid sid xs @ rest" "RTMP_START_PARSE_LENGTH \<le> ReadableLength b"
  obtains m' b' where "ParseFirstHeader junk m b = Inr (int (length (encode_msgs csid sid xs)), m', b')"
    "buf_ok b'" "readable b' = rest" "behind_head m xs m'"
proof -
  obtain s a v where xs: "xs = [s, a, v]" "head_msg s" "head_msg a" "head_msg v" "ms_type s = RTMP_SCRIPT"
    "is_media (ms_type a)" "is_media (ms_type v)" by (rule stream_headE [OF assms(2)])
  let ?e = "encode_msg csid sid"
  have enc: "encode_msgs csid sid xs = ?e s @ ?e a @ ?e v" by (simp add: encode_msgs_def xs(1))
  have rd: "readable b = ?e s @ (?e a @ ?e v @ rest)" using assms(6) enc by simp
  obtain b1 p1 where s: "ParseScriptPack b (RtmpPack_new (junk 0)) = Inr (int (length (?e s)), b1, p1)"
    "buf_ok b1" "readable b1 = ?e a @ (?e v @ rest)" "pack_of s p1"
    by (rule ParseScriptPack_message [OF xs(2) assms(3-5) rd xs(5)])
  obtain b2 p2 where a: "ParseVideoAudio_round b1 (RtmpPack_new (junk 1)) = Inr (int (length (?e a)), b2, p2)"
    "buf_ok b2" "readable b2 = ?e v @ rest" "pack_of a p2"
    by (rule ParseVideoAudio_round_message [OF xs(3) assms(3,4) s(2,3) xs(6)])
  obtain b3 p3 where v: "ParseVideoAudio_round b2 (RtmpPack_new (junk 2)) = Inr (int (length (?e v)), b3, p3)"
    "buf_ok b3" "readable b3 = rest" "pack_of v p3"
    by (rule ParseVideoAudio_round_message [OF xs(4) assms(3,4) a(2,3) xs(7)])
  have ok: "pack_ok p1" "pack_ok p2" "pack_ok p3" using s(4) a(4) v(4) by (simp_all add: pack_of_def)
  let ?c1 = "rtmp_codec m + ms_delta s"
  let ?c2 = "?c1 + ms_delta a"
  let ?c3 = "?c2 + ms_delta v"
  let ?fm = "\<lparr>script_tag = tag_of p1 ?c1, video_audio_tag0 = tag_of p2 ?c2, video_audio_tag1 = tag_of p3 ?c3\<rparr>"
  let ?m = "m\<lparr>rtmp_codec := ?c3, parsed_status := PARSE_RTMP_HEADER, rm_flv_manager := ?fm\<rparr>"
  have fm: "rm_flv_manager m = FlvManager_new" using assms(1) by (simp add: before_head_def)
  note encoded = EncodeHeaderAndSwapBuffer_new [OF ok(1)] EncodeHeaderAndSwapBuffer_new [OF ok(2)] EncodeHeaderAndSwapBuffer_new [OF ok(3)]
  note clocks = pack_of_clock [OF s(4) xs(2)] pack_of_clock [OF a(4) xs(3)] pack_of_clock [OF v(4) xs(4)]
  note tags = pack_of_tag [OF s(4) xs(2)] pack_of_tag [OF a(4) xs(3)] pack_of_tag [OF v(4) xs(4)]
  have run: "ParseFirstHeader junk m b = Inr (int (length (encode_msgs csid sid xs)), ?m, b3)"
    using assms(7) by (simp add: ParseFirstHeader_def ParseVideoAudio_def not_less s(1) a(1) [unfolded One_nat_def] v(1) fm FlvManager_new_def encoded clocks enc Let_def)
  have "holds_head (rtmp_codec m) xs ?fm"
    by (simp add: holds_head_def manager_ok_def xs(1) tags)
  moreover have "stream_ok ?m" "idle (chunk_state_of ?m)" "last_size ?m = 0"
    using assms(1) by (simp_all add: before_head_def stream_ok_def base_ok_def heap_ok_def idle_def last_size_def)
  ultimately have "behind_head m xs ?m" by (simp add: behind_head_def clock_after_def xs(1))
  then show ?thesis by (rule that [OF run v(2,3)])
qed

section \<open>From the first byte on\<close>

text \<open>With fewer than 1000 bytes the parser waits.\<close>

lemma before_head_waits:
  assumes "before_head m" "ReadableLength b < RTMP_START_PARSE_LENGTH"
  shows "\<exists>n. ParseData cb junk m b s = Inr (0, m\<lparr>parsed_length := n\<rparr>, b, s)"
proof (cases "ReadableLength b = 0")
  case True
  then show ?thesis by (intro exI [of _ "parsed_length m"]) (simp add: ParseData_def)
next
  case False
  have "ParseData_round cb junk m b s = Inr (0, m, b, s)"
    using assms by (simp add: ParseData_round_def ParseData_header_def before_head_def ParseFirstHeader_def)
  then show ?thesis using False by (auto simp: ParseData_def)
qed

lemma before_head_counted [simp]: "before_head (m\<lparr>parsed_length := n\<rparr>) = before_head m"
  by (simp add: before_head_def)

text \<open>The head was found, and behind it \<open>rest\<close> was received.\<close>

definition started :: "('s \<Rightarrow> bool) \<Rightarrow> ('s \<Rightarrow> flv_item list) \<Rightarrow> rtmp_manager \<Rightarrow> rtmp_msg list \<Rightarrow> bytes \<Rightarrow> 's \<Rightarrow>
    rtmp_manager \<times> buffer \<times> 's \<Rightarrow> bool" where
  "started sink_ok received m xs rest s = (\<lambda>(m', b', s'). \<exists>m1. behind_head m xs m1 \<and> rm_flv_manager m' = rm_flv_manager m1 \<and>
     followed sink_ok received m1 Buffer_new s rest m' b' s')"

context tag_sink
begin

text \<open>The call that finds the head goes on with the stream behind it.\<close>

lemma ParseData_head:
  assumes "before_head m" "stream_head xs" "csid < 64" "length sid = 4" "buf_ok b"
    and "readable b = encode_msgs csid sid xs @ rest" "RTMP_START_PARSE_LENGTH \<le> ReadableLength b"
    and "sink_ok s" "length rest < 2 ^ 32"
  shows "safe may_fail (\<lambda>(n, m', b', s'). \<exists>m1. behind_head m xs m1 \<and> rm_flv_manager m' = rm_flv_manager m1 \<and>
      followed sink_ok received m1 Buffer_new s rest m' b' s') (ParseData cb junk m b s)"
proof -
  let ?n = "length (encode_msgs csid sid xs)"
  obtain m1 b1 where h: "ParseFirstHeader junk m b = Inr (int ?n, m1, b1)" "buf_ok b1" "readable b1 = rest" "behind_head m xs m1"
    by (rule ParseFirstHeader_head [OF assms(1-7)])
  have ok: "stream_ok m1" "acc_bytes m1 = []" "parsed_status m1 \<noteq> PARSE_FIRST_HEADER"
    using h(4) by (simp_all add: behind_head_def idle_def stream_ok_def base_ok_def)
  have rl: "ReadableLength b1 = length rest" "ReadableLength b = ?n + length rest"
    using length_readable [OF h(2)] length_readable [OF assms(5)] h(3) assms(6) by simp_all
  have n: "0 < ?n"
  proof -
    obtain x where "x \<in> set xs" "head_msg x" using assms(2) by (elim stream_headE) auto
    then have "encode_msg csid sid x \<noteq> []" by (simp add: encode_head_msg head_msg_def msg_ok_def)
    then show ?thesis using \<open>x \<in> set xs\<close> by (auto simp: encode_msgs_def)
  qed
  have "ParseData_round cb junk m b s = Inr (int ?n, m1, b1, s)"
    using assms(1) h(1) by (simp add: ParseData_round_def ParseData_header_def before_head_def)
  then have run: "ParseData cb junk m b s = ParseData_loop (ReadableLength b) cb junk (int ?n) m1 b1 s"
    using n rl(2) by (simp add: ParseData_def)
  have sm: "small m1 b1" using ok(2) rl(1) assms(9) by (simp add: small_def)
  have "ReadableLength b1 < ReadableLength b" using rl n by simp
  note loop = ParseData_loop_total [OF ok(1) h(2) sm assms(8) this, of "int ?n" junk]
  show ?thesis unfolding run
  proof (rule safe_result [OF loop], simp)
    fix r
    assume res: "ParseData_loop (ReadableLength b) cb junk (int ?n) m1 b1 s = Inr r"
      and p: "case r of (k, m', b', s') \<Rightarrow> \<exists>ys. advance sink_ok received m1 b1 s (feed (chunk_state_of m1)) m' b' s' ys \<and>
        int ?n \<le> k \<and> (\<not> waiting m1 b1 \<longrightarrow> ys \<noteq> [])"
    obtain k m' b' s' where r: "r = (k, m', b', s')" by (cases r)
    obtain ys where adv: "advance sink_ok received m1 b1 s (feed (chunk_state_of m1)) m' b' s' ys" using p by (auto simp: r)
    have "length (acc_bytes m') \<le> length ys"
      using adv feed_acc [of "chunk_state_of m1" ys] ok(2) by (auto simp: advance_def)
    moreover have "length rest = length ys + ReadableLength b'"
      using adv h(3) length_readable [of b'] by (simp add: advance_def)
    ultimately have "followed sink_ok received m1 Buffer_new s rest m' b' s'"
      using adv h(3) ok(2) by (auto simp: advance_def followed_def)
    then show "case r of (n, m', b', s') \<Rightarrow> \<exists>m1. behind_head m xs m1 \<and> rm_flv_manager m' = rm_flv_manager m1 \<and>
        followed sink_ok received m1 Buffer_new s rest m' b' s'"
      using ParseData_loop_manager [OF res [unfolded r] ok(3)] h(4) by (auto simp: r)
  qed
qed

text \<open>The deliveries before the head is there, and those behind it.\<close>

lemma deliver_all_head:
  assumes "stream_head xs" "csid < 64" "length sid = 4" "length (encode_msgs csid sid xs) \<le> RTMP_START_PARSE_LENGTH"
    and "length rest < 2 ^ 32" "sink_ok s"
  shows "before_head m \<Longrightarrow> buf_ok b \<Longrightarrow> ReadableLength b < RTMP_START_PARSE_LENGTH \<Longrightarrow>
    readable b @ concat xss = encode_msgs csid sid xs @ rest \<Longrightarrow>
    RTMP_START_PARSE_LENGTH \<le> ReadableLength b + length (concat xss) \<Longrightarrow>
    safe may_fail (started sink_ok received m xs rest s) (deliver_all cb junk xss (m, b, s))"
proof (induction xss arbitrary: m b)
  case Nil
  then show ?case by simp
next
  case (Cons ys yss)
  let ?head = "encode_msgs csid sid xs"
  have "fits (length ys) b"
    using Cons.prems(3) arg_cong [OF Cons.prems(4), of length] assms(4,5) length_readable [OF Cons.prems(2)]
    by (simp add: fits_def max_size_def RTMP_START_PARSE_LENGTH_def)
  from AppendData_ok [OF Cons.prems(2) this] obtain c where c: "AppendData ys b = Inr c" "buf_ok c" "readable c = readable b @ ys"
    by (auto simp: holds_def)
  have rl: "ReadableLength c = ReadableLength b + length ys"
    using length_readable [OF c(2)] length_readable [OF Cons.prems(2)] c(3) by simp
  have rd: "readable c @ concat yss = ?head @ rest" using c(3) Cons.prems(4) by simp
  show ?case
  proof (cases "ReadableLength c < RTMP_START_PARSE_LENGTH")
    case True
    obtain n where "ParseData cb junk m c s = Inr (0, m\<lparr>parsed_length := n\<rparr>, c, s)"
      using before_head_waits [OF Cons.prems(1) True, where cb = cb and junk = junk and s = s] by auto
    then have "deliver cb junk ys (m, b, s) = Inr (m\<lparr>parsed_length := n\<rparr>, c, s)" by (simp add: deliver_def c(1))
    moreover have "started sink_ok received (m\<lparr>parsed_length := n\<rparr>) xs rest s = started sink_ok received m xs rest s"
      by (simp add: started_def behind_head_def)
    ultimately show ?thesis using Cons.IH [of "m\<lparr>parsed_length := n\<rparr>" c] Cons.prems(1,5) True c(2) rd rl by simp
  next
    case False
    then have enough: "RTMP_START_PARSE_LENGTH \<le> ReadableLength c" by simp
    then have le: "length ?head \<le> length (readable c)" using assms(4) length_readable [OF c(2)] by simp
    define rest1 where "rest1 = drop (length ?head) (readable c)"
    have "take (length ?head) (readable c @ concat yss) = ?head" using rd by simp
    then have r1: "readable c = ?head @ rest1"
      using append_take_drop_id [of "length ?head" "readable c"] le by (simp add: rest1_def)
    then have r2: "rest = rest1 @ concat yss" using rd by simp
    have len: "length rest1 < 2 ^ 32" using assms(5) r2 by simp
    note head = ParseData_head [OF Cons.prems(1) assms(1-3) c(2) r1 enough assms(6) len]
    have run: "deliver_all cb junk (ys # yss) (m, b, s) =
        ebind (ParseData cb junk m c s) (\<lambda>(_, m, b, s). deliver_all cb junk yss (m, b, s))"
      by (simp add: deliver_def c(1) ebind_assoc) (rule ebind_cong, simp split: prod.split)
    show ?thesis unfolding run
    proof (rule safe_ebind [OF head], clarify)
      fix n m' b' s' m1
      assume h: "behind_head m xs m1" "rm_flv_manager m' = rm_flv_manager m1" and f: "followed sink_ok received m1 Buffer_new s rest1 m' b' s'"
      have a: "acc_bytes m1 = []" using h(1) by (simp add: behind_head_def idle_def)
      have st: "stream_ok m'" "buf_ok b'" "sink_ok s'" "length (acc_bytes m') + ReadableLength b' + length (concat yss) < 2 ^ 32"
        using f assms(5) r2 a by (simp_all add: followed_def)
      then have "parsed_status m' \<noteq> PARSE_FIRST_HEADER" by (simp add: stream_ok_def base_ok_def)
      then show "safe may_fail (started sink_ok received m xs rest s) (deliver_all cb junk yss (m', b', s'))"
        by (intro safe_result [OF deliver_all_followed [OF st]])
          (use h followed_trans [OF f] r2 in \<open>fastforce simp: started_def dest: deliver_all_manager\<close>)
    qed
  qed
qed

end

section \<open>Publishing\<close>

text \<open>
  C2: publishing, from the first byte behind the handshake. A publisher sends the head of its
  stream, the script message and two audio or video messages, of at most 1000 bytes together, and
  then any messages, all in the RTMP encoding on one chunk stream; they arrive in any pieces. Once 1000 bytes have
  come the head of the stream is kept, with the contents, types and times of the three
  messages, and the parser announces FLV tags whose contents, timestamps and size chain are those of
  the audio and video messages behind them, in order; what has not been announced yet is exactly
  what is left in the buffer.
\<close>

theorem published_stream:
  assumes "before_head m" "stream_head xs" "csid < 64" "length sid = 4" "msgs_ok None ms"
    and "length (encode_msgs csid sid xs) \<le> RTMP_START_PARSE_LENGTH"
    and "concat pieces = encode_msgs csid sid (xs @ ms)" "RTMP_START_PARSE_LENGTH \<le> length (concat pieces)"
    and "length (concat pieces) < 2 ^ 32"
  shows "\<exists>m' b' ts. deliver_all record_tag junk pieces (m, Buffer_new, []) = Inr (m', b', ts) \<and>
    holds_head (rtmp_codec m) xs (rm_flv_manager m') \<and> (\<forall>t \<in> set ts. tag_complete t) \<and>
    map tag_item ts @ snd (feed (chunk_state_of m') (readable b')) = media_items (clock_after (rtmp_codec m) xs) 0 ms"
proof -
  let ?rest = "encode_msgs csid sid ms"
  have all: "concat pieces = encode_msgs csid sid xs @ ?rest" using assms(7) by (simp add: encode_msgs_def)
  then have len: "length ?rest < 2 ^ 32" using assms(9) by simp
  have "holds (started (\<lambda>ts. \<forall>t\<in>set ts. tag_complete t) (map tag_item) m xs ?rest [])
      (deliver_all record_tag junk pieces (m, Buffer_new, []))"
    using recorder.deliver_all_head [OF assms(2-4,6) len _ assms(1) Buffer_new_ok, of "[]" pieces junk] all assms(8)
    by (simp add: safe_False RTMP_START_PARSE_LENGTH_def)
  then obtain m' b' ts m1 where run: "deliver_all record_tag junk pieces (m, Buffer_new, []) = Inr (m', b', ts)"
    and h: "behind_head m xs m1" "rm_flv_manager m' = rm_flv_manager m1"
    and f: "followed (\<lambda>ts. \<forall>t\<in>set ts. tag_complete t) (map tag_item) m1 Buffer_new [] ?rest m' b' ts"
    by (auto simp: holds_def started_def)
  have "idle (chunk_state_of m1)" using h(1) by (simp add: behind_head_def)
  from feed_msgs [OF assms(3,4) this _ assms(5)] h(1)
  have "snd (feed (chunk_state_of m1) ?rest) = media_items (clock_after (rtmp_codec m) xs) 0 ms"
    by (auto simp: behind_head_def)
  with f followed_rest [OF f] run h show ?thesis by (simp add: followed_def behind_head_def)
qed

section \<open>A head that is cut\<close>

text \<open>
  The part of a message behind its header that has arrived: a body of the declared size is
  copied, which goes on into the memory behind it.
\<close>

lemma take_part:
  assumes "head_msg x" "csid < 64" "length sid = 4" "buf_ok b" "readable b @ todo = encode_msg csid sid x"
    and "length (msg_header csid sid x) \<le> ReadableLength b"
    and "read_idx b + length (encode_msg csid sid x) \<le> length (buf_data b)"
  obtains k p1 b' p' where "RtmpCodec_DecodeHeader (readable b) (RtmpPack_new junk) = (k, p1)" "0 < k" "pk_type p1 = ms_type x"
    "move_bytes (unat (GetBodyDataSize p1)) (AddReadIndex (as_size k) b) p1 = Inr (b', p')"
    "buf_ok b'" "readable b' = []" "pack_ok p'"
    "readable (pk_buffer p') = drop (length (msg_header csid sid x)) (readable b) @ take (length todo) (drop (write_idx b) (buf_data b))"
proof -
  let ?h = "msg_header csid sid x"
  have enc: "encode_msg csid sid x = ?h @ ms_data x" by (rule encode_head_msg [OF assms(1)])
  have rl: "ReadableLength b = length (readable b)" using length_readable [OF assms(4)] by simp
  define part where "part = drop (length ?h) (readable b)"
  have "take (length ?h) (readable b @ todo) = ?h" using assms(5) enc by simp
  then have rd: "readable b = ?h @ part"
    using append_take_drop_id [of "length ?h" "readable b"] assms(6) rl by (simp add: part_def)
  then have data: "ms_data x = part @ todo" using assms(5) enc by simp
  obtain k p1 where p: "RtmpCodec_DecodeHeader (?h @ part) (RtmpPack_new junk) = (k, p1)" "0 < k"
    "k = int (length ?h)" "as_size k = length ?h" "pk_type p1 = ms_type x"
    "unat (GetBodyDataSize p1) = length (ms_data x)" "pk_buffer p1 = Buffer_new" "pack_ok p1"
    by (rule header_pack [OF assms(1-3)]) blast
  let ?b = "AddReadIndex (length ?h) b" and ?n = "length (ms_data x)"
  let ?stale = "take (length todo) (drop (write_idx b) (buf_data b))"
  have w: "write_idx b = read_idx b + length (?h @ part)"
    using assms(4) rl [symmetric] rd by (simp add: ReadableLength_eq buf_ok_def)
  have ri: "read_idx ?b = read_idx b + length ?h" using assms(4,6) by (simp add: read_idx_AddReadIndex)
  have "take ?n (drop (read_idx ?b) (buf_data b)) = part @ ?stale"
  proof -
    have "part = take (length part) (drop (read_idx ?b) (buf_data b))"
      using assms(4) w ri part_def [folded readable_AddReadIndex [OF assms(4)]] by (simp add: readable_def)
    moreover have "drop (length part) (drop (read_idx ?b) (buf_data b)) = drop (write_idx b) (buf_data b)"
      by (simp add: w ri add.commute add.left_commute)
    ultimately show ?thesis using data take_add [of "length part" "length todo" "drop (read_idx ?b) (buf_data b)"] by simp
  qed
  then have bytes: "ReadBegin_at ?b 0 ?n = Inr (part @ ?stale)"
    using assms(7) ri enc by (simp add: ReadBegin_at_def)
  have "fits (length (part @ ?stale)) Buffer_new"
    using assms(1) data by (simp add: fits_def max_size_def head_msg_def CHUNK_SIZE_def min_def)
  from AppendData_ok [OF Buffer_new_ok this] obtain B where B: "AppendData (part @ ?stale) Buffer_new = Inr B" "buf_ok B"
    "readable B = part @ ?stale" by (auto simp: holds_def)
  show ?thesis
  proof (rule that [OF p(1) [folded rd] p(2,5)])
    show "move_bytes (unat (GetBodyDataSize p1)) (AddReadIndex (as_size k) b) p1 = Inr (AddReadIndex ?n ?b, p1\<lparr>pk_buffer := B\<rparr>)"
      by (simp add: p(4,6,7) move_bytes_def bytes RtmpPack_AppendData_def B(1))
    show "readable (pk_buffer (p1\<lparr>pk_buffer := B\<rparr>)) = drop (length ?h) (readable b) @ ?stale" using B(3) by (simp add: part_def)
  qed (use assms(4) rd data p(8) B(2) in simp_all)
qed

text \<open>
  C16: a head that is cut. The parser starts as soon as 1000 bytes have come; when they are
  the script message or a part of it only, it copies as many bytes as the message declares: what has not
  arrived yet is taken from the memory of the buffer behind what has, which is whatever was
  there before. Then it finds no message behind it and gives up: the bytes are gone, the rest of the
  script message is going to be read as a new head, and nothing but the result \<open>-1\<close>, which
  the caller ignores, tells of it.
\<close>

theorem head_cut_is_lost:
  assumes "before_head m" "head_msg x" "ms_type x = RTMP_SCRIPT" "csid < 64" "length sid = 4" "buf_ok b"
    and "readable b @ todo = encode_msg csid sid x" "RTMP_START_PARSE_LENGTH \<le> ReadableLength b"
    and "read_idx b + length (encode_msg csid sid x) \<le> length (buf_data b)"
  shows "\<exists>m' b'. ParseData cb junk m b s = Inr (-1, m', b', s) \<and> readable b' = [] \<and> parsed_status m' = PARSE_FIRST_HEADER \<and>
    readable (tag_body (script_tag (rm_flv_manager m'))) =
      drop (length (msg_header csid sid x)) (readable b) @ take (length todo) (drop (write_idx b) (buf_data b))"
proof -
  have "length (msg_header csid sid x) \<le> 12"
    using length_msg_header [OF _ assms(5), of x csid] assms(2) by (simp add: head_msg_def)
  then have hl: "length (msg_header csid sid x) \<le> ReadableLength b" using assms(8) by (simp add: RTMP_START_PARSE_LENGTH_def)
  obtain k p1 b1 p2 where t: "RtmpCodec_DecodeHeader (readable b) (RtmpPack_new (junk 0)) = (k, p1)" "0 < k" "pk_type p1 = ms_type x"
    "move_bytes (unat (GetBodyDataSize p1)) (AddReadIndex (as_size k) b) p1 = Inr (b1, p2)"
    "buf_ok b1" "readable b1 = []" "pack_ok p2"
    "readable (pk_buffer p2) = drop (length (msg_header csid sid x)) (readable b) @ take (length todo) (drop (write_idx b) (buf_data b))"
    by (rule take_part [OF assms(2,4-7) hl assms(9)])
  let ?clock = "AddTimeStamp (pk_timestamp p2) (rtmp_codec m)"
  let ?m = "m\<lparr>rtmp_codec := ?clock, rm_flv_manager := (rm_flv_manager m)\<lparr>script_tag := tag_of p2 ?clock\<rparr>\<rparr>"
  have s: "ParseScriptPack b (RtmpPack_new (junk 0)) = Inr (k + int (unat (GetBodyDataSize p1)), b1, p2)"
    using t assms(3,6) by (simp add: ParseScriptPack_def ReadBegin_all)
  have v: "ParseVideoAudio b1 p q = Inr (-1, AddReadIndex 0 b1, p, q)" for p q
    using t(5,6) by (simp add: ParseVideoAudio_def ParseVideoAudio_round_def ReadBegin_all RtmpCodec_DecodeHeader_def as_size_def)
  have new: "script_tag (rm_flv_manager m) = FlvTag_new" using assms(1) by (simp add: before_head_def FlvManager_new_def)
  have pos: "\<not> k + int (unat (GetBodyDataSize p1)) < 0"
    using t(2) of_nat_0_le_iff [of "unat (GetBodyDataSize p1)"] by linarith
  have "ParseFirstHeader junk m b = Inr (-1, ?m, AddReadIndex 0 b1)"
    using assms(8) pos by (simp add: ParseFirstHeader_def not_less s v new EncodeHeaderAndSwapBuffer_new [OF t(7)] Let_def)
  then have "ParseData_round cb junk m b s = Inr (-1, ?m, AddReadIndex 0 b1, s)"
    using assms(1) by (simp add: ParseData_round_def ParseData_header_def before_head_def)
  moreover have "ReadableLength b \<noteq> 0" using assms(8) by (simp add: RTMP_START_PARSE_LENGTH_def)
  ultimately have "ParseData cb junk m b s = Inr (-1, ?m, AddReadIndex 0 b1, s)" by (simp add: ParseData_def)
  then show ?thesis using t(5,6,8) assms(1) by (simp add: before_head_def tag_of_simps)
qed

section \<open>Inputs for the witnesses\<close>

lemma before_head_new: "pack_ok (RtmpPack_new junk) \<Longrightarrow> before_head (RtmpManager_new junk)"
  by (simp add: before_head_def RtmpManager_new_def) (simp add: RtmpPack_new_def)

lemma sample_before_head: "before_head (RtmpManager_new sample_pack)"
  by (rule before_head_new) (simp add: pack_ok_def RtmpPack_new_def sample_pack_def)

definition sample_head :: "rtmp_msg list" where
  "sample_head = [\<lparr>ms_fmt = FMT0, ms_delta = 0, ms_type = RTMP_SCRIPT, ms_data = [2, 0, 10]\<rparr>,
     \<lparr>ms_fmt = FMT0, ms_delta = 0, ms_type = RTMP_VIDEO, ms_data = [0x17, 0]\<rparr>,
     \<lparr>ms_fmt = FMT1, ms_delta = 40, ms_type = RTMP_AUDIO, ms_data = [0xaf, 0]\<rparr>]"

definition sample_long_msg :: "rtmp_msg" where
  "sample_long_msg = \<lparr>ms_fmt = FMT1, ms_delta = 23, ms_type = RTMP_VIDEO, ms_data = replicate 1000 7\<rparr>"

lemma sample_head_ok: "stream_head sample_head" "msgs_ok None [sample_long_msg]"
  by (simp_all add: stream_head_def sample_head_def head_msg_def msg_ok_def is_media_def CHUNK_SIZE_def sample_long_msg_def)

lemma length_encode_head:
  "head_msg x \<Longrightarrow> length sid = 4 \<Longrightarrow> length (encode_msg csid sid x) = (if ms_fmt x = FMT0 then 12 else 8) + length (ms_data x)"
  using length_msg_header [of x sid csid] by (simp add: encode_head_msg head_msg_def)

lemma length_sample_head:
  "length (encode_msgs 4 [1, 0, 0, 0] sample_head) = 39"
  "length (encode_msgs 4 [1, 0, 0, 0] (sample_head @ [sample_long_msg])) = 1047"
proof -
  have "\<forall>x \<in> set (sample_head @ [sample_long_msg]). head_msg x"
    by (simp add: sample_head_def sample_long_msg_def head_msg_def msg_ok_def CHUNK_SIZE_def)
  then show "length (encode_msgs 4 [1, 0, 0, 0] sample_head) = 39"
    "length (encode_msgs 4 [1, 0, 0, 0] (sample_head @ [sample_long_msg])) = 1047"
    by (simp_all add: encode_msgs_def length_encode_head sample_head_def sample_long_msg_def)
qed

theorem published_stream_witness:
  "\<exists>m' b' ts. deliver_all record_tag (\<lambda>_. sample_pack)
      [take 500 (encode_msgs 4 [1, 0, 0, 0] (sample_head @ [sample_long_msg])),
       drop 500 (encode_msgs 4 [1, 0, 0, 0] (sample_head @ [sample_long_msg]))]
      (RtmpManager_new sample_pack, Buffer_new, []) = Inr (m', b', ts) \<and>
    it_data (tag_item (script_tag (rm_flv_manager m'))) = [2, 0, 10] \<and>
    map it_ts (map tag_item ts @ snd (feed (chunk_state_of m') (readable b'))) = [63]"
proof -
  let ?all = "encode_msgs 4 [1, 0, 0, 0] (sample_head @ [sample_long_msg])" and ?m = "RtmpManager_new sample_pack"
  have cat: "concat [take 500 ?all, drop 500 ?all] = ?all" by simp
  have clk: "rtmp_codec ?m = 0" by (simp add: RtmpManager_new_def RtmpCodec_new_def)
  have "length (encode_msgs 4 [1, 0, 0, 0] sample_head) \<le> RTMP_START_PARSE_LENGTH" "RTMP_START_PARSE_LENGTH \<le> length ?all"
    "length ?all < 2 ^ 32" by (simp_all only: length_sample_head RTMP_START_PARSE_LENGTH_def) simp_all
  then obtain m' b' ts where r: "deliver_all record_tag (\<lambda>_. sample_pack) [take 500 ?all, drop 500 ?all] (?m, Buffer_new, []) = Inr (m', b', ts)"
    "holds_head 0 sample_head (rm_flv_manager m')"
    "map tag_item ts @ snd (feed (chunk_state_of m') (readable b')) = media_items (clock_after 0 sample_head) 0 [sample_long_msg]"
    using published_stream [OF sample_before_head sample_head_ok(1) _ _ sample_head_ok(2), of 4 "[1, 0, 0, 0]" "[take 500 ?all, drop 500 ?all]" "\<lambda>_. sample_pack"]
    unfolding cat clk by auto
  have "it_data (tag_item (script_tag (rm_flv_manager m'))) = [2, 0, 10]"
    using r(2) by (simp add: holds_head_def sample_head_def)
  moreover have "map it_ts (map tag_item ts @ snd (feed (chunk_state_of m') (readable b'))) = [63]"
    by (simp only: r(3)) (simp add: sample_long_msg_def sample_head_def clock_after_def is_media_def)
  ultimately show ?thesis by (intro exI conjI) (rule r(1))
qed

text \<open>A script message of 1500 bytes, 988 of them in a buffer that held something else before.\<close>

definition sample_script :: rtmp_msg where
  "sample_script = \<lparr>ms_fmt = FMT0, ms_delta = 0, ms_type = RTMP_SCRIPT, ms_data = replicate 1500 3\<rparr>"

definition sample_used :: buffer where
  "sample_used = \<lparr>buf_data = replicate 8 0 @ msg_header 4 [1, 0, 0, 0] sample_script @ replicate 988 3 @ replicate 3096 9,
     read_idx = 8, write_idx = 1008, sum_read = 0, sum_write = 1000\<rparr>"

lemma sample_used_ok:
  "length (msg_header 4 [1, 0, 0, 0] sample_script) = 12" "length (buf_data sample_used) = 4104" "buf_ok sample_used"
  "readable sample_used = msg_header 4 [1, 0, 0, 0] sample_script @ replicate 988 3"
  "drop (write_idx sample_used) (buf_data sample_used) = replicate 3096 9"
proof -
  show l: "length (msg_header 4 [1, 0, 0, 0] sample_script) = 12" by (simp add: length_msg_header sample_script_def)
  then show d: "length (buf_data sample_used) = 4104" by (simp add: sample_used_def)
  then show "buf_ok sample_used" by (simp add: buf_ok_def) (simp add: sample_used_def max_size_def)
  show "readable sample_used = msg_header 4 [1, 0, 0, 0] sample_script @ replicate 988 3"
    "drop (write_idx sample_used) (buf_data sample_used) = replicate 3096 9"
    using l by (simp_all add: readable_def sample_used_def)
qed

theorem head_cut_is_lost_witness:
  "\<exists>m' b'. ParseData record_tag (\<lambda>_. sample_pack) (RtmpManager_new sample_pack) sample_used [] = Inr (-1, m', b', []) \<and>
    readable b' = [] \<and> readable (tag_body (script_tag (rm_flv_manager m'))) = replicate 988 3 @ replicate 512 9"
proof -
  have h: "head_msg sample_script" by (simp add: head_msg_def msg_ok_def sample_script_def CHUNK_SIZE_def)
  have "replicate 988 3 @ replicate 512 (3 :: byte) = replicate 1500 3" by (simp flip: replicate_add)
  then have e: "readable sample_used @ replicate 512 3 = encode_msg 4 [1, 0, 0, 0] sample_script"
    by (simp add: sample_used_ok encode_head_msg [OF h]) (simp add: sample_script_def)
  have "RTMP_START_PARSE_LENGTH \<le> ReadableLength sample_used"
    using length_readable [OF sample_used_ok(3)] by (simp add: sample_used_ok RTMP_START_PARSE_LENGTH_def)
  moreover have "read_idx sample_used + length (encode_msg 4 [1, 0, 0, 0] sample_script) \<le> length (buf_data sample_used)"
    by (simp add: length_encode_head [OF h] sample_used_ok) (simp add: sample_used_def sample_script_def)
  moreover have "ms_type sample_script = RTMP_SCRIPT" by (simp add: sample_script_def)
  ultimately show ?thesis
    using head_cut_is_lost [OF sample_before_head h _ _ _ sample_used_ok(3) e, of record_tag "\<lambda>_. sample_pack" "[]"]
    by (auto simp: sample_used_ok min_def)
qed

end
