(* ===== verification/StdMap.thy ===== *)
theory StdMap
  imports Prelude "HOL-Library.List_Lexorder"
begin

text \<open>
  \<open>std::map\<close> as the sorted association list it is iterated as: \<open>operator[]\<close> (insert or
  assign), \<open>erase\<close> and \<open>find\<close>. Strings are compared as \<open>std::string\<close> compares them, byte by
  byte as unsigned characters. The contract is the locale \<open>ordered_map\<close>: what a lookup
  returns after each operation; the program's registries (streams by path, viewers and
  connections by name, channels by descriptor) rest on it.
\<close>

fun map_set :: "'k::linorder \<Rightarrow> 'v \<Rightarrow> ('k \<times> 'v) list \<Rightarrow> ('k \<times> 'v) list" where
  "map_set k v [] = [(k, v)]"
| "map_set k v ((k', v') # m) =
     (if k < k' then (k, v) # (k', v') # m else if k = k' then (k, v) # m else (k', v') # map_set k v m)"

fun map_erase :: "'k \<Rightarrow> ('k \<times> 'v) list \<Rightarrow> ('k \<times> 'v) list" where
  "map_erase k [] = []"
| "map_erase k ((k', v') # m) = (if k = k' then m else (k', v') # map_erase k m)"

definition map_find :: "'k \<Rightarrow> ('k \<times> 'v) list \<Rightarrow> 'v option" where
  "map_find k m = map_of m k"

definition map_sorted :: "('k::linorder \<times> 'v) list \<Rightarrow> bool" where
  "map_sorted m \<longleftrightarrow> sorted_wrt (<) (map fst m)"

text \<open>\<open>m[k]\<close> as the code reads it: a missing key is inserted with the default value.\<close>

definition map_index :: "'v \<Rightarrow> 'k::linorder \<Rightarrow> ('k \<times> 'v) list \<Rightarrow> 'v \<times> ('k \<times> 'v) list" where
  "map_index d k m =
     (case map_find k m of Some v \<Rightarrow> (v, m) | None \<Rightarrow> (d, map_set k d m))"

locale ordered_map =
  fixes ok :: "'m \<Rightarrow> bool"
    and find :: "'k \<Rightarrow> 'm \<Rightarrow> 'v option"
    and set :: "'k \<Rightarrow> 'v \<Rightarrow> 'm \<Rightarrow> 'm"
    and erase :: "'k \<Rightarrow> 'm \<Rightarrow> 'm"
    and entries :: "'m \<Rightarrow> ('k \<times> 'v) list"
  assumes ok_set: "ok m \<Longrightarrow> ok (set k v m)"
    and ok_erase: "ok m \<Longrightarrow> ok (erase k m)"
    and find_set: "ok m \<Longrightarrow> find k' (set k v m) = (if k' = k then Some v else find k' m)"
    and find_erase: "ok m \<Longrightarrow> find k' (erase k m) = (if k' = k then None else find k' m)"
    and find_entries: "ok m \<Longrightarrow> find k m = map_of (entries m) k"
    and entries_distinct: "ok m \<Longrightarrow> distinct (map fst (entries m))"
begin

lemma entries_iff: "ok m \<Longrightarrow> (k, v) \<in> List.set (entries m) \<longleftrightarrow> find k m = Some v"
  by (simp add: find_entries entries_distinct)

lemma entries_set_iff:
  "ok m \<Longrightarrow> (k', v') \<in> List.set (entries (set k v m)) \<longleftrightarrow>
     (if k' = k then v' = v else (k', v') \<in> List.set (entries m))"
  by (auto simp: entries_iff ok_set find_set)

lemma entries_erase_iff:
  "ok m \<Longrightarrow> (k', v') \<in> List.set (entries (erase k m)) \<longleftrightarrow> k' \<noteq> k \<and> (k', v') \<in> List.set (entries m)"
  by (auto simp: entries_iff ok_erase find_erase)

end

definition keys :: "('k \<times> 'v) list \<Rightarrow> 'k set" where
  "keys m = fst ` set m"

lemma keys_simps [simp]: "keys [] = {}" "keys ((k, v) # m) = insert k (keys m)"
  by (simp_all add: keys_def)

lemma map_sorted_Cons [simp]: "map_sorted ((k, v) # m) \<longleftrightarrow> (\<forall>x \<in> keys m. k < x) \<and> map_sorted m"
  by (simp add: map_sorted_def keys_def)

lemma map_find_Cons: "map_find k ((a, v) # m) = (if k = a then Some v else map_find k m)"
  by (simp add: map_find_def)

lemma map_find_None: "k \<notin> keys m \<Longrightarrow> map_find k m = None"
  by (simp add: map_find_def keys_def map_of_eq_None_iff)

lemma map_set_keys: "keys (map_set k v m) = insert k (keys m)"
  by (induction k v m rule: map_set.induct) auto

lemma map_erase_keys: "x \<in> keys (map_erase k m) \<Longrightarrow> x \<in> keys m"
  by (induction k m rule: map_erase.induct) (auto split: if_splits)

lemma map_set_sorted: "map_sorted m \<Longrightarrow> map_sorted (map_set k v m)"
proof (induction k v m rule: map_set.induct)
  case (1 k v)
  then show ?case by (simp add: map_sorted_def)
next
  case (2 k v k' v' m)
  then show ?case by (auto simp: map_set_keys)
qed

lemma map_erase_sorted: "map_sorted m \<Longrightarrow> map_sorted (map_erase k m)"
  by (induction k m rule: map_erase.induct) (auto dest: map_erase_keys)

lemma map_find_set: "map_sorted m \<Longrightarrow> map_find k' (map_set k v m) = (if k' = k then Some v else map_find k' m)"
  by (induction k v m rule: map_set.induct) (auto simp: map_find_Cons map_find_def [of _ "[]"])

lemma map_find_erase: "map_sorted m \<Longrightarrow> map_find k' (map_erase k m) = (if k' = k then None else map_find k' m)"
  by (induction k m rule: map_erase.induct) (auto simp: map_find_Cons map_find_def [of _ "[]"] intro: map_find_None)

lemma map_find_set_same [simp]: "map_find k (map_set k v m) = Some v"
  by (induction k v m rule: map_set.induct) (auto simp: map_find_Cons)

lemma map_set_same: "map_sorted m \<Longrightarrow> map_find k m = Some v \<Longrightarrow> map_set k v m = m"
proof (induction k v m rule: map_set.induct)
  case (1 k v)
  then show ?case by (simp add: map_find_def)
next
  case (2 k v k' v' m)
  have "k < k' \<Longrightarrow> k \<notin> keys m" using 2(2) by auto
  then show ?case using 2 by (auto simp: map_find_Cons map_find_None)
qed

lemma map_sorted_distinct: "map_sorted m \<Longrightarrow> distinct (map fst m)"
  by (simp add: map_sorted_def strict_sorted_iff)

interpretation std_map: ordered_map map_sorted map_find map_set map_erase "\<lambda>m. m"
  by unfold_locales
    (simp_all add: map_set_sorted map_erase_sorted map_find_set map_find_erase map_sorted_distinct,
      simp add: map_find_def)

lemma map_sorted_Nil [simp]: "map_sorted []"
  by (simp add: map_sorted_def)

lemma map_find_Nil [simp]: "map_find k [] = None"
  by (simp add: map_find_def)

lemma map_index_value: "fst (map_index d k m) = (case map_find k m of Some v \<Rightarrow> v | None \<Rightarrow> d)"
  by (simp add: map_index_def split: option.splits)

lemma map_index_sorted: "map_sorted m \<Longrightarrow> map_sorted (snd (map_index d k m))"
  by (simp add: map_index_def map_set_sorted split: option.splits)

lemma map_index_find:
  "map_sorted m \<Longrightarrow> map_find k' (snd (map_index d k m)) =
     (if k' = k \<and> map_find k m = None then Some d else map_find k' m)"
  by (auto simp: map_index_def map_find_set split: option.splits)

end
