(* ===== verification/Channel.thy ===== *)
theory Channel
  imports StdMap
begin

text \<open>
  \<^verbatim>\<open>network/Channel.{h,cpp}\<close> and the two multiplexers \<^verbatim>\<open>network/multiplexing/Epoll.cpp\<close> and
  \<^verbatim>\<open>Select.cpp\<close>: a channel holds the events a descriptor is registered for and those last
  reported for it. The kernel's side of epoll is the list of \<open>epoll_ctl\<close> calls made; the
  specification \<open>interest\<close> reads that list as \<^verbatim>\<open>epoll_ctl(2)\<close> documents it, and the lemmas show
  that what the kernel watches is what the channel asks for. Select does not have this
  property, which is proved too.
\<close>

unbundle bit_operations_syntax

section \<open>Channel\<close>

datatype channel_status = CHANNEL_STATUS_NEW | CHANNEL_STATUS_ADDED | CHANNEL_STATUS_DEL

definition EPOLLIN :: u32 where "EPOLLIN = 1"
definition EPOLLOUT :: u32 where "EPOLLOUT = 4"

record channel =
  ch_name :: bytes
  ch_fd :: int
  ch_status :: channel_status
  ch_event :: u32
  ch_ep_event :: u32
  ch_tied :: bool

definition Channel_new :: "bytes \<Rightarrow> int \<Rightarrow> channel" where
  "Channel_new name fd = \<lparr>ch_name = name, ch_fd = fd, ch_status = CHANNEL_STATUS_NEW, ch_event = 0,
     ch_ep_event = 0, ch_tied = False\<rparr>"

definition Channel_new_default :: "int \<Rightarrow> channel" where
  "Channel_new_default fd = Channel_new (lit ''default-connection-name'') fd"

definition SetEvent :: "u32 \<Rightarrow> channel \<Rightarrow> channel" where
  "SetEvent ev c = c\<lparr>ch_event := ev\<rparr>"

definition GetEpollEvent :: "channel \<Rightarrow> u32" where
  "GetEpollEvent c = ch_ep_event c"

definition GetChannelStatus :: "channel \<Rightarrow> channel_status" where
  "GetChannelStatus c = ch_status c"

definition SetChannelStatus :: "channel_status \<Rightarrow> channel \<Rightarrow> channel" where
  "SetChannelStatus st c = c\<lparr>ch_status := st\<rparr>"

definition Channel_GetSockFd :: "channel \<Rightarrow> int" where
  "Channel_GetSockFd c = ch_fd c"

definition IsWriting :: "channel \<Rightarrow> bool" where
  "IsWriting c \<longleftrightarrow> ch_event c AND EPOLLOUT \<noteq> 0"

definition TieConnection :: "channel \<Rightarrow> channel" where
  "TieConnection c = c\<lparr>ch_tied := True\<rparr>"

text \<open>
  The callbacks act on the state of their owner. \<open>event_\<close> is read again before the second
  one, from the channel inside that state.
\<close>

definition HandleEvent :: "('s \<Rightarrow> channel) \<Rightarrow> ('s \<Rightarrow> 's result) option \<Rightarrow> ('s \<Rightarrow> 's result) option \<Rightarrow> 's \<Rightarrow> 's result" where
  "HandleEvent chan readable_cb writable_cb s =
     ebind (if ch_event (chan s) AND EPOLLIN \<noteq> 0
            then case readable_cb of Some f \<Rightarrow> f s | None \<Rightarrow> Inr s else Inr s) (\<lambda>s.
     if ch_event (chan s) AND EPOLLOUT \<noteq> 0
     then case writable_cb of Some f \<Rightarrow> f s | None \<Rightarrow> Inr s else Inr s)"

text \<open>\<open>alive\<close>: whether \<open>tie_.lock()\<close> gets the connection.\<close>

definition HandleEventWithGuard :: "bool \<Rightarrow> ('s \<Rightarrow> channel) \<Rightarrow> ('s \<Rightarrow> 's result) option \<Rightarrow>
    ('s \<Rightarrow> 's result) option \<Rightarrow> 's \<Rightarrow> 's result" where
  "HandleEventWithGuard alive chan readable_cb writable_cb s =
     (if ch_tied (chan s) then
        if \<not> alive then Inr s else HandleEvent chan readable_cb writable_cb s
      else HandleEvent chan readable_cb writable_cb s)"

section \<open>Epoll\<close>

datatype epoll_op = EPOLL_CTL_ADD | EPOLL_CTL_MOD | EPOLL_CTL_DEL

type_synonym epoll_call = "epoll_op \<times> int \<times> u32"

definition UpdateChannelInternal :: "epoll_op \<Rightarrow> channel \<Rightarrow> epoll_call list \<Rightarrow> channel \<times> epoll_call list" where
  "UpdateChannelInternal ctl c calls =
     (let events = GetEpollEvent c; fd = ch_fd c;
          c = (if ctl = EPOLL_CTL_ADD then SetChannelStatus CHANNEL_STATUS_ADDED c else c) in
      (c, calls @ [(ctl, fd, events)]))"

definition RemoveChannel :: "channel \<Rightarrow> epoll_call list \<Rightarrow> channel \<times> epoll_call list" where
  "RemoveChannel c calls =
     (SetChannelStatus CHANNEL_STATUS_NEW c, calls @ [(EPOLL_CTL_DEL, ch_fd c, 0)])"

definition UpdateChannel :: "channel \<Rightarrow> epoll_call list \<Rightarrow> channel \<times> epoll_call list" where
  "UpdateChannel c calls = (case GetChannelStatus c of
       CHANNEL_STATUS_NEW \<Rightarrow> UpdateChannelInternal EPOLL_CTL_ADD c calls
     | CHANNEL_STATUS_ADDED \<Rightarrow> UpdateChannelInternal EPOLL_CTL_MOD c calls
     | CHANNEL_STATUS_DEL \<Rightarrow> RemoveChannel c calls)"

text \<open>
  \<open>epoll_wait\<close> reports pairs of the registered pointer and the events; a pointer is a
  reference into the store of channels.
\<close>

fun FillActiveSocketVector :: "(nat option \<times> u32) list \<Rightarrow> channel list \<Rightarrow> nat list \<Rightarrow> channel list \<times> nat list" where
  "FillActiveSocketVector [] chans active = (chans, active)"
| "FillActiveSocketVector ((None, ev) # evs) chans active = FillActiveSocketVector evs chans active"
| "FillActiveSocketVector ((Some p, ev) # evs) chans active =
     FillActiveSocketVector evs (chans[p := SetEvent ev (chans ! p)]) (active @ [p])"

text \<open>What a channel asks its loop for: \<open>Update\<close> goes to the multiplexer.\<close>

definition EnableReadable :: "channel \<Rightarrow> epoll_call list \<Rightarrow> channel \<times> epoll_call list" where
  "EnableReadable c = UpdateChannel (c\<lparr>ch_ep_event := ch_ep_event c OR EPOLLIN\<rparr>)"

definition EnableWritable :: "channel \<Rightarrow> epoll_call list \<Rightarrow> channel \<times> epoll_call list" where
  "EnableWritable c = UpdateChannel (c\<lparr>ch_ep_event := ch_ep_event c OR EPOLLOUT\<rparr>)"

definition DisableWritable :: "channel \<Rightarrow> epoll_call list \<Rightarrow> channel \<times> epoll_call list" where
  "DisableWritable c = UpdateChannel (c\<lparr>ch_ep_event := ch_ep_event c AND NOT EPOLLOUT\<rparr>)"

definition DisableAll :: "channel \<Rightarrow> epoll_call list \<Rightarrow> channel \<times> epoll_call list" where
  "DisableAll c = UpdateChannel (c\<lparr>ch_ep_event := 0, ch_status := CHANNEL_STATUS_DEL\<rparr>)"

section \<open>What the kernel watches\<close>

text \<open>
  \<^verbatim>\<open>epoll_ctl(2)\<close>: adding a descriptor that is there, changing or removing one that is not
  there, are errors that change nothing.
\<close>

fun epoll_apply :: "epoll_call \<Rightarrow> (int \<Rightarrow> u32 option) \<Rightarrow> int \<Rightarrow> u32 option" where
  "epoll_apply (EPOLL_CTL_ADD, fd, ev) k = (if k fd = None then k(fd := Some ev) else k)"
| "epoll_apply (EPOLL_CTL_MOD, fd, ev) k = (if k fd = None then k else k(fd := Some ev))"
| "epoll_apply (EPOLL_CTL_DEL, fd, ev) k = k(fd := None)"

definition interest :: "epoll_call list \<Rightarrow> int \<Rightarrow> u32 option" where
  "interest calls = fold epoll_apply calls (\<lambda>_. None)"

lemma interest_Nil [simp]: "interest [] fd = None"
  by (simp add: interest_def)

lemma interest_snoc [simp]: "interest (calls @ [x]) = epoll_apply x (interest calls)"
  by (simp add: interest_def)

definition registered :: "channel \<Rightarrow> epoll_call list \<Rightarrow> bool" where
  "registered c calls \<longleftrightarrow> interest calls (ch_fd c) =
     (case ch_status c of CHANNEL_STATUS_ADDED \<Rightarrow> Some (ch_ep_event c) | _ \<Rightarrow> None)"

lemma registered_new: "registered (Channel_new name fd) []"
  by (simp add: registered_def Channel_new_def)

lemmas channel_ops = EnableReadable_def EnableWritable_def DisableWritable_def DisableAll_def
  UpdateChannel_def UpdateChannelInternal_def RemoveChannel_def GetChannelStatus_def
  SetChannelStatus_def GetEpollEvent_def

text \<open>The operations a connection performs on its channel.\<close>

datatype channel_op = ReadOn | WriteOn | WriteOff | AllOff

fun channel_do :: "channel_op \<Rightarrow> channel \<Rightarrow> epoll_call list \<Rightarrow> channel \<times> epoll_call list" where
  "channel_do ReadOn c calls = EnableReadable c calls"
| "channel_do WriteOn c calls = EnableWritable c calls"
| "channel_do WriteOff c calls = DisableWritable c calls"
| "channel_do AllOff c calls = DisableAll c calls"

definition wanted :: "channel_op \<Rightarrow> u32 \<Rightarrow> u32" where
  "wanted op ev = (case op of ReadOn \<Rightarrow> ev OR EPOLLIN | WriteOn \<Rightarrow> ev OR EPOLLOUT
     | WriteOff \<Rightarrow> ev AND NOT EPOLLOUT | AllOff \<Rightarrow> 0)"

lemma channel_do_registered:
  assumes "registered c calls" "ch_status c \<noteq> CHANNEL_STATUS_DEL" "channel_do op c calls = (c', calls')"
  shows "registered c' calls' \<and> ch_status c' \<noteq> CHANNEL_STATUS_DEL \<and> ch_fd c' = ch_fd c \<and>
    ch_ep_event c' = wanted op (ch_ep_event c) \<and> ch_event c' = ch_event c \<and>
    interest calls' (ch_fd c) = (if op = AllOff then None else Some (wanted op (ch_ep_event c))) \<and>
    (\<forall>fd. fd \<noteq> ch_fd c \<longrightarrow> interest calls' fd = interest calls fd)"
  using assms
  by (cases op; cases "ch_status c") (auto simp: registered_def channel_ops wanted_def Let_def)

text \<open>A run of operations on one channel.\<close>

fun channel_run :: "channel_op list \<Rightarrow> channel \<Rightarrow> epoll_call list \<Rightarrow> channel \<times> epoll_call list" where
  "channel_run [] c calls = (c, calls)"
| "channel_run (op # ops) c calls = (let (c, calls) = channel_do op c calls in channel_run ops c calls)"

lemma channel_run_registered:
  "registered c calls \<Longrightarrow> ch_status c \<noteq> CHANNEL_STATUS_DEL \<Longrightarrow> channel_run ops c calls = (c', calls') \<Longrightarrow>
   registered c' calls' \<and> ch_fd c' = ch_fd c \<and> ch_ep_event c' = fold wanted ops (ch_ep_event c) \<and>
   interest calls' (ch_fd c) =
     (if ops = [] then interest calls (ch_fd c) else if last ops = AllOff then None
      else Some (fold wanted ops (ch_ep_event c)))"
proof (induction ops arbitrary: c calls)
  case Nil
  then show ?case by simp
next
  case (Cons op ops)
  obtain d ds where d: "channel_do op c calls = (d, ds)" by fastforce
  note step = channel_do_registered [OF Cons.prems(1,2) d]
  with Cons.IH [of d ds] Cons.prems(3) d show ?case by auto
qed

text \<open>
  C11: with epoll, after any sequence of enabling and disabling a channel, the kernel
  watches its descriptor for exactly the events the channel asks for, and not at all after
  \<^verbatim>\<open>DisableAll\<close>, also when the channel is used again behind it.
\<close>

theorem epoll_interest:
  assumes "ops \<noteq> []"
  shows "interest (snd (channel_run ops (Channel_new name fd) [])) fd =
    (if last ops = AllOff then None else Some (fold wanted ops 0)) \<and>
    ch_ep_event (fst (channel_run ops (Channel_new name fd) [])) = fold wanted ops 0"
proof -
  obtain c' calls' where r: "channel_run ops (Channel_new name fd) [] = (c', calls')" by fastforce
  have "ch_status (Channel_new name fd) \<noteq> CHANNEL_STATUS_DEL" "ch_fd (Channel_new name fd) = fd"
    "ch_ep_event (Channel_new name fd) = 0" by (simp_all add: Channel_new_def)
  with channel_run_registered [OF registered_new _ r] assms r show ?thesis by simp
qed

theorem epoll_interest_witness:
  "interest (snd (channel_run [ReadOn, WriteOn, WriteOff] (Channel_new [] 7) [])) 7 = Some 1"
  using epoll_interest [of "[ReadOn, WriteOn, WriteOff]" "[]" 7]
  by (simp add: wanted_def EPOLLIN_def EPOLLOUT_def)

section \<open>Select\<close>

text \<open>The two descriptor sets and the channels by descriptor; references as above.\<close>

record select_state =
  readset :: "int set"
  writeset :: "int set"
  channel_map :: "(int \<times> nat) list"

definition Select_new :: select_state where
  "Select_new = \<lparr>readset = {}, writeset = {}, channel_map = []\<rparr>"

definition FdSet :: "nat \<Rightarrow> channel \<Rightarrow> select_state \<Rightarrow> select_state" where
  "FdSet p c s =
     (let event = GetEpollEvent c; fd = ch_fd c;
          s = s\<lparr>channel_map := map_set fd p (channel_map s)\<rparr>;
          s = (if event AND EPOLLIN \<noteq> 0 then s\<lparr>readset := insert fd (readset s)\<rparr> else s) in
      if event AND EPOLLOUT \<noteq> 0 then s\<lparr>writeset := insert fd (writeset s)\<rparr> else s)"

definition FdClear :: "channel \<Rightarrow> select_state \<Rightarrow> select_state" where
  "FdClear c s =
     (let fd = ch_fd c; s = s\<lparr>channel_map := map_erase fd (channel_map s)\<rparr>;
          s = (if fd \<in> readset s then s\<lparr>readset := readset s - {fd}\<rparr> else s) in
      if fd \<in> writeset s then s\<lparr>writeset := writeset s - {fd}\<rparr> else s)"

definition FdMod :: "channel \<Rightarrow> select_state \<Rightarrow> select_state" where
  "FdMod c s =
     (let event = GetEpollEvent c; fd = ch_fd c;
          s = (if event AND EPOLLIN = 0 then s\<lparr>readset := readset s - {fd}\<rparr> else s) in
      if event AND EPOLLOUT = 0 then s\<lparr>writeset := writeset s - {fd}\<rparr> else s)"

definition Select_UpdateChannel :: "nat \<Rightarrow> channel \<Rightarrow> select_state \<Rightarrow> channel \<times> select_state" where
  "Select_UpdateChannel p c s = (case GetChannelStatus c of
       CHANNEL_STATUS_NEW \<Rightarrow> (SetChannelStatus CHANNEL_STATUS_ADDED c, FdSet p c s)
     | CHANNEL_STATUS_ADDED \<Rightarrow> (c, FdMod c s)
     | CHANNEL_STATUS_DEL \<Rightarrow> (SetChannelStatus CHANNEL_STATUS_NEW c, FdClear c s))"

text \<open>
  \<open>ready_r\<close> and \<open>ready_w\<close> are the sets \<open>select\<close> left, \<open>num\<close> its return value. Every channel of
  the map is reported, ready or not.
\<close>

fun Select_Fill :: "int set \<Rightarrow> int set \<Rightarrow> (int \<times> nat) list \<Rightarrow> int \<Rightarrow> channel list \<Rightarrow> nat list \<Rightarrow>
    int \<times> channel list \<times> nat list" where
  "Select_Fill ready_r ready_w [] n chans active = (n, chans, active)"
| "Select_Fill ready_r ready_w ((fd, p) # m) n chans active =
     (let event = (if fd \<in> ready_r then EPOLLIN else 0);
          n = (if fd \<in> ready_r then n + 1 else n);
          event = (if fd \<in> ready_w then event OR EPOLLOUT else event);
          n = (if fd \<in> ready_w then n + 1 else n) in
      Select_Fill ready_r ready_w m n (chans[p := SetEvent event (chans ! p)]) (active @ [p]))"

definition Select_FillActiveSocketVector :: "int set \<Rightarrow> int set \<Rightarrow> int \<Rightarrow> select_state \<Rightarrow> channel list \<Rightarrow>
    nat list \<Rightarrow> (channel list \<times> nat list) result" where
  "Select_FillActiveSocketVector ready_r ready_w num s chans active =
     (let (n, chans, active) = Select_Fill ready_r ready_w (channel_map s) 0 chans active in
      if num = n then Inr (chans, active) else Inl AssertFailed)"

text \<open>
  With select, enabling writing on a channel that is registered has no effect: the
  descriptor never enters the write set, since \<^verbatim>\<open>FdMod\<close> only clears bits. A connection with
  unsent data would wait for ever.
\<close>

lemma select_EnableWritable_lost:
  assumes "ch_status c = CHANNEL_STATUS_ADDED" "ch_fd c \<notin> writeset s"
  shows "ch_fd c \<notin> writeset (snd (Select_UpdateChannel p (c\<lparr>ch_ep_event := ch_ep_event c OR EPOLLOUT\<rparr>) s))"
  using assms by (simp add: Select_UpdateChannel_def GetChannelStatus_def FdMod_def Let_def)

end
