(* ===== verification/TcpConnection.thy ===== *)
theory TcpConnection
  imports Channel Buffer
begin

text \<open>
  \<^verbatim>\<open>network/TcpConnection.{h,cpp}\<close>: one connection, its two buffers and its channel. What
  leaves the process is part of the state: \<open>wire\<close> holds the bytes the kernel took, \<open>wr_shut\<close>
  that the write side was shut, \<open>ep_calls\<close> the channel's \<open>epoll_ctl\<close> calls. \<open>send(2)\<close> and
  \<open>read(2)\<close> are arguments. Callbacks act on the connection and on a state of their owner.
  The lemmas show that no byte given to \<^verbatim>\<open>Send\<close> is lost, doubled or overtaken, and two
  things the code gets wrong: a connection that once had to wait for the socket never sends
  again, and one that is closed while it waits is never shut.
\<close>

section \<open>State\<close>

datatype conn_status = DISCONNECTING | DISCONNECTED | CONNECTING | CONNECTED

datatype errno = EWOULDBLOCK | EPIPE | ECONNRESET | OTHER_ERRNO

record tcp_connection =
  conn_status :: conn_status
  conn_name :: bytes
  conn_channel :: channel
  recv_buffer :: buffer
  send_buffer :: buffer
  wire :: bytes
  wr_shut :: bool
  ep_calls :: "epoll_call list"

text \<open>\<open>send(fd, data, |data|)\<close>: its return value and \<open>errno\<close>.\<close>

type_synonym sys_send = "bytes \<Rightarrow> int \<times> errno"

type_synonym 's conn_callback = "tcp_connection \<Rightarrow> 's \<Rightarrow> (tcp_connection \<times> 's) result"

definition TcpConnection_new :: "bytes \<Rightarrow> int \<Rightarrow> tcp_connection" where
  "TcpConnection_new name fd =
     \<lparr>conn_status = CONNECTING, conn_name = name, conn_channel = Channel_new name fd,
      recv_buffer = Buffer_new, send_buffer = Buffer_new, wire = [], wr_shut = False, ep_calls = []\<rparr>"

text \<open>A callback that may be empty.\<close>

definition call :: "'s conn_callback option \<Rightarrow> tcp_connection \<Rightarrow> 's \<Rightarrow> (tcp_connection \<times> 's) result" where
  "call cb c s = (case cb of Some f \<Rightarrow> f c s | None \<Rightarrow> Inr (c, s))"

text \<open>An operation of the channel, with its effect on the kernel.\<close>

definition on_channel :: "(channel \<Rightarrow> epoll_call list \<Rightarrow> channel \<times> epoll_call list) \<Rightarrow> tcp_connection \<Rightarrow> tcp_connection" where
  "on_channel f c = (let (ch, calls) = f (conn_channel c) (ep_calls c) in
     c\<lparr>conn_channel := ch, ep_calls := calls\<rparr>)"

text \<open>\<open>sockfd_.Send(data, |data|)\<close>: what the kernel took is on the wire.\<close>

definition Socket_Send :: "sys_send \<Rightarrow> bytes \<Rightarrow> tcp_connection \<Rightarrow> int \<times> errno \<times> tcp_connection" where
  "Socket_Send sys data c = (let (n, e) = sys data in (n, e, c\<lparr>wire := wire c @ take (nat n) data\<rparr>))"

definition Socket_ShutdownWrite :: "tcp_connection \<Rightarrow> tcp_connection" where
  "Socket_ShutdownWrite c = c\<lparr>wr_shut := True\<rparr>"

section \<open>Operations\<close>

definition Established :: "'s conn_callback option \<Rightarrow> tcp_connection \<Rightarrow> 's \<Rightarrow> (tcp_connection \<times> 's) result" where
  "Established connection_callback c s =
     (let c = c\<lparr>conn_status := CONNECTED\<rparr>;
          c = c\<lparr>conn_channel := TieConnection (conn_channel c)\<rparr>;
          c = on_channel EnableReadable c in
      call connection_callback c s)"

definition GetConnectionName :: "tcp_connection \<Rightarrow> bytes" where
  "GetConnectionName c = conn_name c"

definition Connected :: "tcp_connection \<Rightarrow> bool" where
  "Connected c \<longleftrightarrow> conn_status c = CONNECTED"

definition HasRemainData :: "tcp_connection \<Rightarrow> bool" where
  "HasRemainData c \<longleftrightarrow> ReadableLength (send_buffer c) \<noteq> 0"

definition Shutdown :: "tcp_connection \<Rightarrow> tcp_connection" where
  "Shutdown c =
     (if conn_status c = CONNECTED then
        let c = c\<lparr>conn_status := DISCONNECTING\<rparr> in
        if \<not> IsWriting (conn_channel c) then Socket_ShutdownWrite c else c
      else c)"

definition OnClose :: "'s conn_callback option \<Rightarrow> 's conn_callback option \<Rightarrow> tcp_connection \<Rightarrow> 's \<Rightarrow>
    (tcp_connection \<times> 's) result" where
  "OnClose connection_callback close_callback c s =
     (let c = on_channel DisableAll (c\<lparr>conn_status := DISCONNECTED\<rparr>) in
      ebind (call connection_callback c s) (\<lambda>(c, s). call close_callback c s))"

definition ConnectDestroyed :: "'s conn_callback option \<Rightarrow> tcp_connection \<Rightarrow> 's \<Rightarrow> (tcp_connection \<times> 's) result" where
  "ConnectDestroyed connection_callback c s =
     (if conn_status c = CONNECTED then
        call connection_callback (on_channel DisableAll (c\<lparr>conn_status := DISCONNECTED\<rparr>)) s
      else Inr (c, s))"

definition OnReadable :: "(nat \<Rightarrow> bytes option) \<Rightarrow> 's conn_callback option \<Rightarrow> 's conn_callback option \<Rightarrow>
    's conn_callback option \<Rightarrow> tcp_connection \<Rightarrow> 's \<Rightarrow> (tcp_connection \<times> 's) result" where
  "OnReadable sys_read newmessage_callback connection_callback close_callback c s =
     ebind (ReadFromSockfd sys_read (recv_buffer c)) (\<lambda>(result, b).
     let c = c\<lparr>recv_buffer := b\<rparr> in
     if result > 0 then call newmessage_callback c s
     else if result = 0 then OnClose connection_callback close_callback c s
     else Inr (c, s))"

definition OnWritable :: "sys_send \<Rightarrow> 's conn_callback option \<Rightarrow> tcp_connection \<Rightarrow> 's \<Rightarrow> (tcp_connection \<times> 's) result" where
  "OnWritable sys write_complete_callback c s =
     (if IsWriting (conn_channel c) then
        ebind (ReadBegin_at (send_buffer c) 0 (ReadableLength (send_buffer c))) (\<lambda>data.
        let (send_size, _, c) = Socket_Send sys data c in
        if send_size > 0 then
          let c = c\<lparr>send_buffer := AddReadIndex (nat send_size) (send_buffer c)\<rparr> in
          if ReadableLength (send_buffer c) = 0 then
            ebind (call write_complete_callback (on_channel DisableWritable c) s) (\<lambda>(c, s).
            if conn_status c = DISCONNECTING then Inr (Shutdown c, s) else Inr (c, s))
          else Inr (c, s)
        else Inr (c, s))
      else Inr (c, s))"

text \<open>
  \<open>SendInLoop\<close> in its two halves: the attempt to send at once, which gives the bytes sent,
  and whether it failed for good; and the buffering of the rest.
\<close>

definition send_now :: "sys_send \<Rightarrow> 's conn_callback option \<Rightarrow> bytes \<Rightarrow> tcp_connection \<Rightarrow> 's \<Rightarrow>
    (nat \<times> bool \<times> tcp_connection \<times> 's) result" where
  "send_now sys write_complete_callback data c s =
     (if \<not> IsWriting (conn_channel c) \<and> ReadableLength (send_buffer c) = 0 then
        let (send_size, err, c) = Socket_Send sys data c in
        if send_size > 0 then
          let remain = size_sub (length data) (nat send_size) in
          if remain = 0 then
            ebind (call write_complete_callback c s) (\<lambda>(c, s). Inr (nat send_size, False, c, s))
          else Inr (nat send_size, False, c, s)
        else if err \<noteq> EWOULDBLOCK \<and> (err = EPIPE \<or> err = ECONNRESET) then Inr (0, True, Shutdown c, s)
        else Inr (0, False, c, s)
      else Inr (0, False, c, s))"

definition SendInLoop :: "sys_send \<Rightarrow> 's conn_callback option \<Rightarrow> bytes \<Rightarrow> tcp_connection \<Rightarrow> 's \<Rightarrow>
    (tcp_connection \<times> 's) result" where
  "SendInLoop sys write_complete_callback data c s =
     (if conn_status c = DISCONNECTED \<or> conn_status c = DISCONNECTING then Inr (c, s)
      else
        ebind (send_now sys write_complete_callback data c s) (\<lambda>(send_size, send_fatal_error, c, s).
        let remain = size_sub (length data) send_size in
        if \<not> remain \<le> length data then Inl AssertFailed
        else if \<not> send_fatal_error \<and> remain > 0 then
          ebind (AppendData (drop send_size data) (send_buffer c)) (\<lambda>b.
          let c = c\<lparr>send_buffer := b\<rparr> in
          Inr (if \<not> IsWriting (conn_channel c) then on_channel EnableWritable c else c, s))
        else Inr (c, s)))"

text \<open>
  \<open>Send\<close>: in the loop's own thread the data is sent, from another thread a copy of it is
  queued on the loop (\<open>Some data\<close>) and sent later by \<open>SendInLoop\<close>.
\<close>

definition Send :: "bool \<Rightarrow> sys_send \<Rightarrow> 's conn_callback option \<Rightarrow> bytes \<Rightarrow> tcp_connection \<Rightarrow> 's \<Rightarrow>
    (bytes option \<times> tcp_connection \<times> 's) result" where
  "Send in_loop_thread sys write_complete_callback data c s =
     (if conn_status c = CONNECTED then
        if in_loop_thread then
          ebind (SendInLoop sys write_complete_callback data c s) (\<lambda>(c, s). Inr (None, c, s))
        else Inr (Some data, c, s)
      else Inr (None, c, s))"

definition Send_buffer :: "bool \<Rightarrow> sys_send \<Rightarrow> 's conn_callback option \<Rightarrow> buffer \<Rightarrow> tcp_connection \<Rightarrow> 's \<Rightarrow>
    (bytes option \<times> tcp_connection \<times> 's) result" where
  "Send_buffer in_loop_thread sys write_complete_callback buffer c s =
     ebind (ReadBegin_at buffer 0 (ReadableLength buffer)) (\<lambda>data.
     Send in_loop_thread sys write_complete_callback data c s)"

definition Send_string :: "bool \<Rightarrow> sys_send \<Rightarrow> 's conn_callback option \<Rightarrow> bytes \<Rightarrow> tcp_connection \<Rightarrow> 's \<Rightarrow>
    (bytes option \<times> tcp_connection \<times> 's) result" where
  "Send_string in_loop_thread sys write_complete_callback data c s = Send in_loop_thread sys write_complete_callback data c s"

definition GetSockfd :: "tcp_connection \<Rightarrow> int" where
  "GetSockfd c = Channel_GetSockFd (conn_channel c)"

text \<open>
  What the event loop calls for a channel that was reported: the guard, then \<open>OnReadable\<close>
  and \<open>OnWritable\<close> as its two callbacks.
\<close>

definition Connection_HandleEvent :: "bool \<Rightarrow> (nat \<Rightarrow> bytes option) \<Rightarrow> sys_send \<Rightarrow> 's conn_callback option \<Rightarrow>
    's conn_callback option \<Rightarrow> 's conn_callback option \<Rightarrow> 's conn_callback option \<Rightarrow>
    tcp_connection \<times> 's \<Rightarrow> (tcp_connection \<times> 's) result" where
  "Connection_HandleEvent alive sys_read sys newmessage connection close write_complete =
     HandleEventWithGuard alive (\<lambda>(c, s). conn_channel c)
       (Some (\<lambda>(c, s). OnReadable sys_read newmessage connection close c s))
       (Some (\<lambda>(c, s). OnWritable sys write_complete c s))"

section \<open>Runs of the sending side\<close>

text \<open>
  Everything that happens to a connection: it is established, data is sent in the loop's thread or through its queue, the
  kernel reports events, takes data, or says that the peer has closed, it is shut, it is destroyed. The callbacks are left out: the servers set no
  write-complete callback, and the others are arguments of their own theorems.
\<close>

datatype conn_event = Establish | Submit bytes sys_send | Give bytes sys_send | Flush sys_send | Report u32 | Close_write
  | Peer_closed | Destroy

fun conn_step :: "conn_event \<Rightarrow> tcp_connection \<Rightarrow> tcp_connection result" where
  "conn_step Establish c = ebind (Established None c ()) (\<lambda>(c, _). Inr c)"
| "conn_step (Submit data sys) c = ebind (Send True sys None data c ()) (\<lambda>(_, c, _). Inr c)"
| "conn_step (Give data sys) c = ebind (SendInLoop sys None data c ()) (\<lambda>(c, _). Inr c)"
| "conn_step (Flush sys) c = ebind (OnWritable sys None c ()) (\<lambda>(c, _). Inr c)"
| "conn_step (Report ev) c = Inr (c\<lparr>conn_channel := SetEvent ev (conn_channel c)\<rparr>)"
| "conn_step Close_write c = Inr (Shutdown c)"
| "conn_step Peer_closed c = ebind (OnClose None None c ()) (\<lambda>(c, _). Inr c)"
| "conn_step Destroy c = ebind (ConnectDestroyed None c ()) (\<lambda>(c, _). Inr c)"

text \<open>The bytes a connection takes charge of: none once it is closing or broken.\<close>

definition direct :: "tcp_connection \<Rightarrow> bool" where
  "direct c \<longleftrightarrow> \<not> IsWriting (conn_channel c) \<and> ReadableLength (send_buffer c) = 0"

definition fatal :: "int \<times> errno \<Rightarrow> bool" where
  "fatal r \<longleftrightarrow> fst r \<le> 0 \<and> (snd r = EPIPE \<or> snd r = ECONNRESET)"

fun taken :: "conn_event \<Rightarrow> tcp_connection \<Rightarrow> bytes" where
  "taken (Give data sys) c =
     (if conn_status c = DISCONNECTED \<or> conn_status c = DISCONNECTING \<or> (direct c \<and> fatal (sys data))
      then [] else data)"
| "taken (Submit data sys) c = (if conn_status c \<noteq> CONNECTED \<or> (direct c \<and> fatal (sys data)) then [] else data)"
| "taken _ c = []"

fun conn_run :: "conn_event list \<Rightarrow> tcp_connection \<Rightarrow> (bytes \<times> tcp_connection) result" where
  "conn_run [] c = Inr ([], c)"
| "conn_run (e # es) c = ebind (conn_step e c) (\<lambda>c'.
     ebind (conn_run es c') (\<lambda>(out, c''). Inr (taken e c @ out, c'')))"

definition outgoing :: "tcp_connection \<Rightarrow> bytes" where
  "outgoing c = wire c @ readable (send_buffer c)"

text \<open>The kernel never takes more than it is given.\<close>

definition send_contract :: "sys_send \<Rightarrow> bool" where
  "send_contract sys \<longleftrightarrow> (\<forall>data. fst (sys data) \<le> int (length data))"

fun event_ok :: "conn_event \<Rightarrow> bool" where
  "event_ok (Give data sys) \<longleftrightarrow> send_contract sys"
| "event_ok (Submit data sys) \<longleftrightarrow> send_contract sys"
| "event_ok (Flush sys) \<longleftrightarrow> send_contract sys"
| "event_ok _ \<longleftrightarrow> True"

fun given :: "conn_event list \<Rightarrow> bytes" where
  "given [] = []"
| "given (Give data sys # es) = data @ given es"
| "given (Submit data sys # es) = data @ given es"
| "given (e # es) = given es"

lemma on_channel_fields [simp]:
  "send_buffer (on_channel f c) = send_buffer c" "wire (on_channel f c) = wire c"
  "conn_status (on_channel f c) = conn_status c" "wr_shut (on_channel f c) = wr_shut c"
  "recv_buffer (on_channel f c) = recv_buffer c" "conn_name (on_channel f c) = conn_name c"
  by (simp_all add: on_channel_def split: prod.splits)

lemma Shutdown_fields [simp]:
  "send_buffer (Shutdown c) = send_buffer c" "wire (Shutdown c) = wire c"
  "conn_channel (Shutdown c) = conn_channel c"
  by (simp_all add: Shutdown_def Socket_ShutdownWrite_def Let_def)

lemma Socket_Send_simps [simp]:
  "Socket_Send sys data c = (fst (sys data), snd (sys data), c\<lparr>wire := wire c @ take (nat (fst (sys data))) data\<rparr>)"
  by (simp add: Socket_Send_def split: prod.splits)

lemma call_None [simp]: "call None c s = Inr (c, s)"
  by (simp add: call_def)

lemma Submit_step: "conn_step (Submit data sys) c = (if conn_status c = CONNECTED then conn_step (Give data sys) c else Inr c)"
  by (cases "SendInLoop sys None data c ()") (auto simp: Send_def)

text \<open>The attempt to send at once.\<close>

lemma send_now_outgoing:
  assumes "buf_ok (send_buffer c)" "send_contract sys"
  shows "\<exists>n c'. send_now sys None data c s = Inr (n, direct c \<and> fatal (sys data), c', s) \<and> n \<le> length data \<and>
    wire c' = wire c @ take n data \<and> send_buffer c' = send_buffer c \<and> (0 < n \<longrightarrow> ReadableLength (send_buffer c) = 0)
    \<and> (direct c \<and> fatal (sys data) \<longrightarrow> n = 0) \<and> conn_channel c' = conn_channel c \<and> ep_calls c' = ep_calls c
    \<and> (direct c \<and> fatal (sys data) \<or> conn_status c' = conn_status c)"
proof -
  have "fst (sys data) \<le> int (length data)" using assms(2) by (simp add: send_contract_def)
  then have "nat (fst (sys data)) \<le> length data" by simp
  then show ?thesis
    by (auto simp: send_now_def direct_def fatal_def Let_def Shutdown_def Socket_ShutdownWrite_def)
qed

text \<open>With the buffer nearly full the append may fail for lack of memory, and only then.\<close>

lemma AppendData_safe:
  assumes "buf_ok b" "length xs \<le> 2 ^ 62"
  shows "safe (2 ^ 62 < length (readable b) + length xs) (\<lambda>b'. buf_ok b' \<and> readable b' = readable b @ xs)
    (AppendData xs b)"
proof (cases "2 ^ 62 < length (readable b) + length xs")
  case True
  with bq.append_safe [OF assms] show ?thesis by (simp only: safe_def) auto
next
  case False
  with bq.append_law [OF assms(1), of xs] show ?thesis by (intro safe_holds) simp
qed

lemma SendInLoop_safe:
  assumes "buf_ok (send_buffer c)" "send_contract sys" "length data \<le> 2 ^ 62"
  shows "safe (2 ^ 62 < length (readable (send_buffer c)) + length data)
    (\<lambda>(c', s'). s' = s \<and> buf_ok (send_buffer c') \<and> outgoing c' = outgoing c @ taken (Give data sys) c \<and>
      length (readable (send_buffer c')) \<le> length (readable (send_buffer c)) + length data \<and>
      (direct c \<and> fatal (sys data) \<or> conn_status c' = conn_status c))
    (SendInLoop sys None data c s)"
proof (cases "conn_status c = DISCONNECTED \<or> conn_status c = DISCONNECTING")
  case True
  then show ?thesis using assms by (auto simp: SendInLoop_def)
next
  case False
  obtain n c1 where now: "send_now sys None data c s = Inr (n, direct c \<and> fatal (sys data), c1, s)"
    "n \<le> length data" "wire c1 = wire c @ take n data" "send_buffer c1 = send_buffer c"
    "0 < n \<longrightarrow> ReadableLength (send_buffer c) = 0" "direct c \<and> fatal (sys data) \<longrightarrow> n = 0"
    "direct c \<and> fatal (sys data) \<or> conn_status c1 = conn_status c"
    using send_now_outgoing [OF assms(1,2)] by metis
  have "length data \<le> max_size" using assms(3) by (simp add: max_size_def)
  then have rem: "size_sub (length data) n = length data - n" using now(2) by (simp add: size_sub_le_max)
  have empty: "0 < n \<Longrightarrow> readable (send_buffer c) = []"
    using now(5) length_readable [OF assms(1)] by (metis length_0_conv)
  have out: "outgoing c1 @ drop n data = outgoing c @ data"
    using now(3,4) empty by (cases "n = 0") (simp_all add: outgoing_def)
  show ?thesis
  proof (cases "(direct c \<and> fatal (sys data)) \<or> length data = n")
    case True
    have "outgoing c1 = outgoing c @ taken (Give data sys) c"
    proof (cases "direct c \<and> fatal (sys data)")
      case True
      then show ?thesis using now(3,4,6) by (simp add: outgoing_def)
    next
      case nf: False
      with True have "length data = n" by blast
      then have "drop n data = []" by simp
      then show ?thesis using out nf False by auto
    qed
    then show ?thesis
      using False now(1,2,4,7) rem assms(1) True by (auto simp: SendInLoop_def)
  next
    case more: False
    let ?f = "2 ^ 62 < length (readable (send_buffer c)) + length data"
    have "length (drop n data) \<le> 2 ^ 62" using assms(3) by simp
    from AppendData_safe [OF assms(1) this]
    have "safe ?f (\<lambda>b. buf_ok b \<and> readable b = readable (send_buffer c) @ drop n data)
        (AppendData (drop n data) (send_buffer c))"
      by (auto simp: safe_def)
    then have "safe ?f (\<lambda>(c', s'). s' = s \<and> buf_ok (send_buffer c') \<and>
        outgoing c' = outgoing c @ taken (Give data sys) c \<and>
        length (readable (send_buffer c')) \<le> length (readable (send_buffer c)) + length data \<and>
        (direct c \<and> fatal (sys data) \<or> conn_status c' = conn_status c))
      (ebind (AppendData (drop n data) (send_buffer c)) (\<lambda>b.
          let c = c1\<lparr>send_buffer := b\<rparr> in
          Inr (if \<not> IsWriting (conn_channel c) then on_channel EnableWritable c else c, s)))"
    proof (rule safe_ebind)
      fix b
      assume b: "buf_ok b \<and> readable b = readable (send_buffer c) @ drop n data"
      have "ReadableLength b \<le> length (readable (send_buffer c)) + length data"
        unfolding length_readable [OF conjunct1 [OF b], symmetric] conjunct2 [OF b] by simp
      with b now False more out show "safe ?f (\<lambda>(c', s'). s' = s \<and> buf_ok (send_buffer c') \<and>
          outgoing c' = outgoing c @ taken (Give data sys) c \<and>
          length (readable (send_buffer c')) \<le> length (readable (send_buffer c)) + length data \<and>
          (direct c \<and> fatal (sys data) \<or> conn_status c' = conn_status c))
        (let c = c1\<lparr>send_buffer := b\<rparr> in
          Inr (if \<not> IsWriting (conn_channel c) then on_channel EnableWritable c else c, s))"
        by (auto simp: outgoing_def Let_def)
    qed
    moreover have "SendInLoop sys None data c s = ebind (AppendData (drop n data) (send_buffer c)) (\<lambda>b.
          let c = c1\<lparr>send_buffer := b\<rparr> in
          Inr (if \<not> IsWriting (conn_channel c) then on_channel EnableWritable c else c, s))"
      using False now more rem by (auto simp: SendInLoop_def Let_def)
    ultimately show ?thesis by simp
  qed
qed

lemma SendInLoop_outgoing:
  assumes "buf_ok (send_buffer c)" "send_contract sys" "length (readable (send_buffer c)) + length data \<le> 2 ^ 62"
  shows "\<exists>c'. SendInLoop sys None data c s = Inr (c', s) \<and> buf_ok (send_buffer c') \<and>
    outgoing c' = outgoing c @ taken (Give data sys) c \<and>
    length (readable (send_buffer c')) \<le> length (readable (send_buffer c)) + length data"
proof -
  have "length data \<le> 2 ^ 62" "\<not> 2 ^ 62 < length (readable (send_buffer c)) + length data" using assms(3) by simp_all
  with SendInLoop_safe [OF assms(1,2), of data s] show ?thesis by (auto simp: safe_False holds_def)
qed

lemma OnWritable_outgoing:
  assumes "buf_ok (send_buffer c)" "send_contract sys"
  shows "\<exists>c'. OnWritable sys None c s = Inr (c', s) \<and> buf_ok (send_buffer c') \<and> outgoing c' = outgoing c \<and>
    length (readable (send_buffer c')) \<le> length (readable (send_buffer c))"
  using assms(1) by (auto simp: OnWritable_def ReadBegin_all outgoing_def Let_def)

lemma Give_step_outgoing:
  assumes "buf_ok (send_buffer c)" "send_contract sys" "length (readable (send_buffer c)) + length data \<le> 2 ^ 62"
  shows "\<exists>c'. conn_step (Give data sys) c = Inr c' \<and> buf_ok (send_buffer c') \<and> outgoing c' = outgoing c @ taken (Give data sys) c \<and>
    length (readable (send_buffer c')) \<le> length (readable (send_buffer c)) + length data"
  using SendInLoop_outgoing [OF assms, of "()"] by fastforce

lemma conn_step_outgoing:
  assumes "buf_ok (send_buffer c)" "event_ok e" "length (readable (send_buffer c)) + length (given [e]) \<le> 2 ^ 62"
  shows "\<exists>c'. conn_step e c = Inr c' \<and> buf_ok (send_buffer c') \<and> outgoing c' = outgoing c @ taken e c \<and>
    length (readable (send_buffer c')) \<le> length (readable (send_buffer c)) + length (given [e])"
proof (cases e)
  case (Give data sys)
  with assms Give_step_outgoing [of c sys data] show ?thesis by simp
next
  case (Submit data sys)
  show ?thesis
  proof (cases "conn_status c = CONNECTED")
    case True
    with Submit assms Give_step_outgoing [of c sys data] show ?thesis by (simp add: Submit_step del: conn_step.simps)
  next
    case False
    with Submit assms(1) show ?thesis by (simp add: Submit_step del: conn_step.simps)
  qed
next
  case (Flush sys)
  with assms OnWritable_outgoing [of c sys "()"] show ?thesis by fastforce
qed (use assms(1) in \<open>simp_all add: outgoing_def Established_def OnClose_def ConnectDestroyed_def Let_def\<close>)

lemma given_Cons: "given (e # es) = given [e] @ given es"
  by (cases e) simp_all

lemma conn_run_outgoing:
  "buf_ok (send_buffer c) \<Longrightarrow> \<forall>e \<in> set es. event_ok e \<Longrightarrow>
   length (readable (send_buffer c)) + length (given es) \<le> 2 ^ 62 \<Longrightarrow>
   \<exists>out c'. conn_run es c = Inr (out, c') \<and> buf_ok (send_buffer c') \<and> outgoing c' = outgoing c @ out"
proof (induction es arbitrary: c)
  case Nil
  then show ?case by simp
next
  case (Cons e es)
  note g = given_Cons [of e es]
  obtain c1 where c1: "conn_step e c = Inr c1" "buf_ok (send_buffer c1)" "outgoing c1 = outgoing c @ taken e c"
    "length (readable (send_buffer c1)) \<le> length (readable (send_buffer c)) + length (given [e])"
    using conn_step_outgoing [of c e] Cons.prems g by auto
  then obtain out c2 where "conn_run es c1 = Inr (out, c2)" "buf_ok (send_buffer c2)" "outgoing c2 = outgoing c1 @ out"
    using Cons.IH [of c1] Cons.prems g by auto
  with c1 show ?case by simp
qed

text \<open>An event that makes no connection close, and no send fail for good.\<close>

fun lossless :: "conn_event \<Rightarrow> bool" where
  "lossless (Give data sys) \<longleftrightarrow> (\<forall>xs. \<not> fatal (sys xs))"
| "lossless (Submit data sys) \<longleftrightarrow> (\<forall>xs. \<not> fatal (sys xs))"
| "lossless (Flush sys) \<longleftrightarrow> True"
| "lossless (Report ev) \<longleftrightarrow> True"
| "lossless e \<longleftrightarrow> False"

lemma Give_step_status:
  assumes "buf_ok (send_buffer c)" "send_contract sys" "length data \<le> 2 ^ 62" "\<not> fatal (sys data)" "conn_step (Give data sys) c = Inr c'"
  shows "conn_status c' = conn_status c"
proof -
  obtain s' where "SendInLoop sys None data c () = Inr (c', s')" using assms(5) by (auto elim!: ebind_pairE)
  with SendInLoop_safe [OF assms(1-3), of "()"] assms(4) show ?thesis by (simp add: safe_def)
qed

lemma lossless_step:
  assumes "lossless e" "conn_status c = CONNECTED" "buf_ok (send_buffer c)" "event_ok e" "length (given [e]) \<le> 2 ^ 62" "conn_step e c = Inr c'"
  shows "conn_status c' = CONNECTED \<and> taken e c = given [e]"
proof (cases e)
  case (Give data sys)
  with assms Give_step_status [of c sys data c'] show ?thesis by auto
next
  case (Submit data sys)
  with assms(2,6) have "conn_step (Give data sys) c = Inr c'" by (simp add: Submit_step del: conn_step.simps)
  from Give_step_status [OF assms(3) _ _ _ this] assms Submit show ?thesis by auto
next
  case (Flush sys)
  then obtain s' where "OnWritable sys None c () = Inr (c', s')" using assms(6) by (auto elim!: ebind_pairE)
  then have "conn_status c' = CONNECTED"
    using assms(2,3) by (auto simp: OnWritable_def ReadBegin_all Let_def split: if_splits)
  with Flush show ?thesis by simp
qed (use assms in auto)

lemma lossless_run:
  "\<forall>e \<in> set es. lossless e \<and> event_ok e \<Longrightarrow> conn_status c = CONNECTED \<Longrightarrow> buf_ok (send_buffer c) \<Longrightarrow>
   length (readable (send_buffer c)) + length (given es) \<le> 2 ^ 62 \<Longrightarrow> conn_run es c = Inr (out, c') \<Longrightarrow> out = given es"
proof (induction es arbitrary: c out)
  case (Cons e es)
  note g = given_Cons [of e es]
  obtain c1 out' where c1: "conn_step e c = Inr c1" "conn_run es c1 = Inr (out', c')" "out = taken e c @ out'"
    using Cons.prems(5) by (auto elim!: ebind_pairE simp: ebind_Inr_iff)
  have b: "buf_ok (send_buffer c1)" "length (readable (send_buffer c1)) \<le> length (readable (send_buffer c)) + length (given [e])"
    using conn_step_outgoing [of c e] Cons.prems c1(1) g by auto
  have st: "conn_status c1 = CONNECTED" "taken e c = given [e]"
    using lossless_step [OF _ Cons.prems(2,3) _ _ c1(1)] Cons.prems g by auto
  have "out' = given es" by (rule Cons.IH [OF _ st(1) b(1) _ c1(2)]) (use Cons.prems b(2) g in auto)
  with c1(3) st(2) g show ?case by simp
qed simp

text \<open>
  C6: the sending side of a connection, from its construction over anything that can happen to it: being established,
  sends from its own thread and from others, flushes of any size, reported events, shutdowns, its end. It never faults, and the bytes the kernel
  took followed by the bytes still buffered are exactly the bytes the connection took charge
  of, in the order they were given: nothing is lost, repeated or overtaken. Once it is established it takes charge of
  everything it is given, as long as it is not closed and no send fails for good.
\<close>

theorem connection_conserves:
  assumes "\<forall>e \<in> set es. event_ok e" "length (given es) \<le> 2 ^ 62"
  shows "\<exists>out c. conn_run es (TcpConnection_new name fd) = Inr (out, c) \<and>
    wire c @ readable (send_buffer c) = out \<and> buf_ok (send_buffer c) \<and>
    (es \<noteq> [] \<and> hd es = Establish \<and> (\<forall>e \<in> set (tl es). lossless e) \<longrightarrow> out = given es)"
proof -
  let ?c = "TcpConnection_new name fd"
  obtain out c where r: "conn_run es ?c = Inr (out, c)" "buf_ok (send_buffer c)" "outgoing c = out"
    using conn_run_outgoing [of ?c es] assms by (auto simp: TcpConnection_new_def outgoing_def)
  moreover have "out = given es" if l: "es \<noteq> []" "hd es = Establish" "\<forall>e \<in> set (tl es). lossless e"
  proof -
    obtain es' where es: "es = Establish # es'" "\<forall>e \<in> set es'. lossless e" using l by (cases es) auto
    let ?d = "on_channel EnableReadable (?c\<lparr>conn_status := CONNECTED, conn_channel := TieConnection (conn_channel ?c)\<rparr>)"
    have "conn_step Establish ?c = Inr ?d" by (simp add: Established_def Let_def)
    then have "conn_run es' ?d = Inr (out, c)" using r(1) es(1) by (cases "conn_run es' ?d") auto
    then have "out = given es'" by (rule lossless_run [rotated 4]) (use assms es in \<open>auto simp: TcpConnection_new_def\<close>)
    with es(1) show ?thesis by simp
  qed
  ultimately show ?thesis unfolding outgoing_def by blast
qed

definition send_all :: sys_send where
  "send_all data = (int (length data), OTHER_ERRNO)"

definition send_two :: sys_send where
  "send_two data = (int (min 2 (length data)), OTHER_ERRNO)"

lemma send_contracts: "send_contract send_all" "send_contract send_two"
  by (simp_all add: send_contract_def send_all_def send_two_def)

lemma sends_not_fatal: "\<not> fatal (send_all xs)" "\<not> fatal (send_two xs)"
  by (simp_all add: fatal_def send_all_def send_two_def)

theorem connection_conserves_witness:
  "\<exists>out c. conn_run [Establish, Submit [1, 2, 3] send_two, Give [4] send_all, Report EPOLLOUT, Submit [5] send_all, Flush send_two]
      (TcpConnection_new [] 7) = Inr (out, c) \<and> wire c @ readable (send_buffer c) = [1, 2, 3, 4, 5]"
  using connection_conserves [of "[Establish, Submit [1, 2, 3] send_two, Give [4] send_all, Report EPOLLOUT, Submit [5] send_all,
    Flush send_two]" "[]" 7] send_contracts sends_not_fatal by fastforce

section \<open>A connection that had to wait\<close>

text \<open>
  \<^verbatim>\<open>IsWriting\<close> looks at the events last reported, not at those asked for. After a flush
  that empties the buffer the last report says writable, while writing is not watched any
  more.
\<close>

definition stalled :: "tcp_connection \<Rightarrow> bool" where
  "stalled c \<longleftrightarrow> IsWriting (conn_channel c) \<and> ch_ep_event (conn_channel c) AND EPOLLOUT = 0"

lemma stalled_give:
  assumes "stalled c" "conn_status c = CONNECTED" "buf_ok (send_buffer c)" "event_ok (Give data sys)"
    "length (readable (send_buffer c)) + length data \<le> 2 ^ 62"
  shows "\<exists>b. conn_step (Give data sys) c = Inr (c\<lparr>send_buffer := b\<rparr>) \<and> buf_ok b \<and>
    readable b = readable (send_buffer c) @ data"
proof (cases "data = []")
  case True
  have "size_sub 0 0 = 0" by (simp add: size_sub_def size_mod_def)
  then have "conn_step (Give data sys) c = Inr (c\<lparr>send_buffer := send_buffer c\<rparr>)"
    using assms(1,2) True by (simp add: SendInLoop_def send_now_def stalled_def)
  then show ?thesis using assms(3) True by (intro exI [of _ "send_buffer c"]) simp
next
  case False
  have "holds (\<lambda>b. buf_ok b \<and> readable b = readable (send_buffer c) @ data) (AppendData data (send_buffer c))"
    using assms by (intro bq.append_law) simp_all
  then obtain b where "AppendData data (send_buffer c) = Inr b" "buf_ok b" "readable b = readable (send_buffer c) @ data"
    by (auto simp: holds_def)
  moreover have "length data \<le> max_size" using assms(5) by (simp add: max_size_def)
  then have "size_sub (length data) 0 = length data" by (simp add: size_sub_le_max)
  ultimately have "conn_step (Give data sys) c = Inr (c\<lparr>send_buffer := b\<rparr>)"
    using assms(1,2) False by (simp add: SendInLoop_def send_now_def stalled_def Let_def)
  then show ?thesis using \<open>buf_ok b\<close> \<open>readable b = _\<close> by blast
qed

text \<open>Something is given to the connection.\<close>

definition hands_over :: "conn_event \<Rightarrow> bool" where
  "hands_over e \<longleftrightarrow> (\<exists>data sys. e = Give data sys \<or> e = Submit data sys)"

lemma hands_over_step:
  assumes "hands_over e" "conn_status c = CONNECTED" "event_ok e"
  obtains data sys where "conn_step e c = conn_step (Give data sys) c" "given [e] = data" "event_ok (Give data sys)"
  using assms by (auto simp: hands_over_def Submit_step simp del: conn_step.simps)

lemma stalled_run:
  "stalled c \<Longrightarrow> conn_status c = CONNECTED \<Longrightarrow> buf_ok (send_buffer c) \<Longrightarrow>
   \<forall>e \<in> set es. event_ok e \<and> hands_over e \<Longrightarrow>
   length (readable (send_buffer c)) + length (given es) \<le> 2 ^ 62 \<Longrightarrow>
   \<exists>b out. conn_run es c = Inr (out, c\<lparr>send_buffer := b\<rparr>) \<and> buf_ok b \<and> readable b = readable (send_buffer c) @ given es"
proof (induction es arbitrary: c)
  case Nil
  then show ?case by (intro exI [of _ "send_buffer c"]) simp
next
  case (Cons e es)
  note g = given_Cons [of e es]
  obtain data sys where e: "conn_step e c = conn_step (Give data sys) c" "given [e] = data" "event_ok (Give data sys)"
    by (rule hands_over_step [of e c]) (use Cons.prems in auto)
  obtain b where b: "conn_step e c = Inr (c\<lparr>send_buffer := b\<rparr>)" "buf_ok b"
      "readable b = readable (send_buffer c) @ data"
    using stalled_give [of c data sys] Cons.prems e g by auto
  have "\<exists>b' out. conn_run es (c\<lparr>send_buffer := b\<rparr>) = Inr (out, c\<lparr>send_buffer := b\<rparr>\<lparr>send_buffer := b'\<rparr>) \<and> buf_ok b' \<and>
      readable b' = readable (send_buffer (c\<lparr>send_buffer := b\<rparr>)) @ given es"
    by (rule Cons.IH) (use Cons.prems b e g in \<open>auto simp: stalled_def\<close>)
  with b e g show ?case by auto
qed

text \<open>What a flush of everything leaves.\<close>

lemma flush_all:
  assumes "IsWriting (conn_channel c)" "conn_status c = CONNECTED" "buf_ok (send_buffer c)"
    "registered (conn_channel c) (ep_calls c)" "ch_status (conn_channel c) = CHANNEL_STATUS_ADDED"
    "readable (send_buffer c) \<noteq> []" "conn_step (Flush send_all) c = Inr c1"
  shows "stalled c1" "conn_status c1 = CONNECTED" "buf_ok (send_buffer c1)" "readable (send_buffer c1) = []"
    "registered (conn_channel c1) (ep_calls c1)" "ch_status (conn_channel c1) = CHANNEL_STATUS_ADDED"
    "ch_ep_event (conn_channel c1) = ch_ep_event (conn_channel c) AND NOT EPOLLOUT" "ch_fd (conn_channel c1) = ch_fd (conn_channel c)"
proof -
  let ?d = "on_channel DisableWritable (c\<lparr>wire := wire c @ readable (send_buffer c),
      send_buffer := AddReadIndex (ReadableLength (send_buffer c)) (send_buffer c)\<rparr>)"
  have pos: "0 < ReadableLength (send_buffer c)"
    using assms(6) length_readable [OF assms(3)] by (cases "readable (send_buffer c)") auto
  have c1: "c1 = ?d"
    using assms(1,2,6,7) by (simp add: OnWritable_def ReadBegin_all assms(3) send_all_def Let_def)
  obtain ch calls where dw: "DisableWritable (conn_channel c) (ep_calls c) = (ch, calls)" by fastforce
  then have do: "channel_do WriteOff (conn_channel c) (ep_calls c) = (ch, calls)" by simp
  have ch: "ch_ep_event ch = ch_ep_event (conn_channel c) AND NOT EPOLLOUT" "ch_event ch = ch_event (conn_channel c)"
    "ch_fd ch = ch_fd (conn_channel c)" "registered ch calls"
    using channel_do_registered [OF assms(4) _ do] assms(5) by (simp_all add: wanted_def)
  have "ch_status ch = CHANNEL_STATUS_ADDED" using dw assms(5) by (auto simp: channel_ops Let_def)
  with assms(1-3) ch dw show "stalled c1" "conn_status c1 = CONNECTED" "buf_ok (send_buffer c1)" "readable (send_buffer c1) = []"
    "registered (conn_channel c1) (ep_calls c1)" "ch_status (conn_channel c1) = CHANNEL_STATUS_ADDED"
    "ch_ep_event (conn_channel c1) = ch_ep_event (conn_channel c) AND NOT EPOLLOUT" "ch_fd (conn_channel c1) = ch_fd (conn_channel c)"
    by (simp_all add: c1 on_channel_def stalled_def IsWriting_def and.assoc)
qed

text \<open>Another event than the old one ends the stall, but only the next data asks for writing again.\<close>

lemma woken_give:
  assumes "conn_status c = CONNECTED" "buf_ok (send_buffer c)" "registered (conn_channel c) (ep_calls c)"
    "ch_status (conn_channel c) = CHANNEL_STATUS_ADDED" "ev AND EPOLLOUT = 0" "readable (send_buffer c) \<noteq> []" "data \<noteq> []"
    "length (readable (send_buffer c)) + length data \<le> 2 ^ 62"
  shows "\<exists>out c'. conn_run [Report ev, Give data sys] c = Inr (out, c') \<and> wire c' = wire c \<and>
    readable (send_buffer c') = readable (send_buffer c) @ data \<and>
    interest (ep_calls c') (ch_fd (conn_channel c)) = Some (ch_ep_event (conn_channel c) OR EPOLLOUT)"
proof -
  have "holds (\<lambda>b. buf_ok b \<and> readable b = readable (send_buffer c) @ data) (AppendData data (send_buffer c))"
    using assms by (intro bq.append_law) simp_all
  then obtain b where b: "AppendData data (send_buffer c) = Inr b" "readable b = readable (send_buffer c) @ data"
    by (auto simp: holds_def)
  let ?ch = "SetEvent ev (conn_channel c)"
  let ?c = "c\<lparr>conn_channel := ?ch, send_buffer := b\<rparr>"
  have "length data \<le> max_size" using assms(8) by (simp add: max_size_def)
  then have rem: "size_sub (length data) 0 = length data" by (simp add: size_sub_le_max)
  have nw: "\<not> IsWriting ?ch" using assms(5) by (simp add: IsWriting_def SetEvent_def)
  have pos: "ReadableLength (send_buffer c) \<noteq> 0" using assms(6) length_readable [OF assms(2)] by (metis length_0_conv)
  obtain ch calls where ew: "EnableWritable ?ch (ep_calls c) = (ch, calls)" by fastforce
  then have do: "channel_do WriteOn ?ch (ep_calls c) = (ch, calls)" by simp
  have "registered ?ch (ep_calls c)" "ch_status ?ch \<noteq> CHANNEL_STATUS_DEL" using assms(3,4) by (simp_all add: registered_def SetEvent_def)
  from channel_do_registered [OF this do] have i: "interest calls (ch_fd (conn_channel c)) = Some (ch_ep_event (conn_channel c) OR EPOLLOUT)"
    by (simp add: wanted_def SetEvent_def)
  have "conn_step (Give data sys) (c\<lparr>conn_channel := ?ch\<rparr>) = Inr (on_channel EnableWritable ?c)"
    using assms(1,7) nw pos rem b(1) by (simp add: SendInLoop_def send_now_def Let_def)
  then have "\<exists>out. conn_run [Report ev, Give data sys] c = Inr (out, on_channel EnableWritable ?c)" by simp
  with b(2) i ew show ?thesis by (auto simp: on_channel_def)
qed

lemma conn_run_append: "conn_run (es @ fs) c = ebind (conn_run es c) (\<lambda>(out, c). ebind (conn_run fs c) (\<lambda>(out', c). Inr (out @ out', c)))"
proof (induction es arbitrary: c)
  case Nil
  then show ?case by (cases "conn_run fs c") auto
next
  case (Cons e es)
  then show ?case by (cases "conn_step e c") (simp_all add: ebind_assoc case_prod_unfold)
qed

text \<open>
  C12: a connection that has flushed its buffer sends nothing more until its peer is heard from. After \<^verbatim>\<open>OnWritable\<close> has sent the last buffered byte,
  everything given to it goes to the buffer, however much it is, the wire does not change and the kernel is not asked to watch for
  writing: \<^verbatim>\<open>IsWriting\<close> still sees the event reported last, so neither branch that would
  send is taken, and the kernel, which watches for reading only, has nothing to report. A report of another event ends this,
  but what is waiting is still not sent for it: only when something more is given then, that is buffered too and the kernel is asked to watch for writing.
\<close>

theorem flushed_connection_stalls:
  assumes "IsWriting (conn_channel c)" "conn_status c = CONNECTED" "buf_ok (send_buffer c)"
    "registered (conn_channel c) (ep_calls c)" "ch_status (conn_channel c) = CHANNEL_STATUS_ADDED"
    "readable (send_buffer c) \<noteq> []" "conn_step (Flush send_all) c = Inr c1"
    "\<forall>e \<in> set es. event_ok e \<and> hands_over e" "given es \<noteq> []"
    "ev AND EPOLLOUT = 0" "data \<noteq> []" "length (given es) + length data \<le> 2 ^ 62"
  shows "(\<exists>out c2. conn_run es c1 = Inr (out, c2) \<and> wire c2 = wire c1 \<and> readable (send_buffer c2) = given es \<and>
      interest (ep_calls c2) (ch_fd (conn_channel c)) = Some (ch_ep_event (conn_channel c) AND NOT EPOLLOUT)) \<and>
    (\<exists>out c3. conn_run (es @ [Report ev, Give data sys]) c1 = Inr (out, c3) \<and> wire c3 = wire c1 \<and>
      readable (send_buffer c3) = given es @ data \<and>
      interest (ep_calls c3) (ch_fd (conn_channel c)) = Some (ch_ep_event (conn_channel c) OR EPOLLOUT))"
proof -
  note c1 = flush_all [OF assms(1-7)]
  have out_bit: "(x AND NOT EPOLLOUT) OR EPOLLOUT = x OR EPOLLOUT" for x by (simp add: or.commute [of _ EPOLLOUT] bit.disj_conj_distrib)
  obtain b out where r: "conn_run es c1 = Inr (out, c1\<lparr>send_buffer := b\<rparr>)" "buf_ok b" "readable b = given es"
    using stalled_run [OF c1(1-3) assms(8)] c1(4) assms(12) by auto
  let ?c2 = "c1\<lparr>send_buffer := b\<rparr>"
  obtain out' c3 where w: "conn_run [Report ev, Give data sys] ?c2 = Inr (out', c3)" "wire c3 = wire ?c2"
    "readable (send_buffer c3) = readable (send_buffer ?c2) @ data"
    "interest (ep_calls c3) (ch_fd (conn_channel ?c2)) = Some (ch_ep_event (conn_channel ?c2) OR EPOLLOUT)"
    using woken_give [of ?c2 ev data sys] c1 r assms(9-12) by auto
  have "interest (ep_calls ?c2) (ch_fd (conn_channel c)) = Some (ch_ep_event (conn_channel c) AND NOT EPOLLOUT)"
    using c1(5-8) by (simp add: registered_def)
  moreover have "conn_run (es @ [Report ev, Give data sys]) c1 = Inr (out @ out', c3)"
    using r(1) w(1) unfolding conn_run_append by simp
  moreover have "interest (ep_calls c3) (ch_fd (conn_channel c)) = Some (ch_ep_event (conn_channel c) OR EPOLLOUT)"
    using w(4) c1(7,8) by (simp add: out_bit)
  ultimately show ?thesis using r w(2,3)
    by (intro conjI exI [of _ out] exI [of _ ?c2] exI [of _ "out @ out'"] exI [of _ c3]) simp_all
qed

text \<open>A connection with three bytes to send, reported writable.\<close>

definition waiting_connection :: tcp_connection where
  "waiting_connection = (TcpConnection_new [] 7)\<lparr>conn_status := CONNECTED,
     conn_channel := \<lparr>ch_name = [], ch_fd = 7, ch_status = CHANNEL_STATUS_ADDED, ch_event = EPOLLOUT,
       ch_ep_event = EPOLLIN OR EPOLLOUT, ch_tied = True\<rparr>,
     ep_calls := [(EPOLL_CTL_ADD, 7, EPOLLIN), (EPOLL_CTL_MOD, 7, EPOLLIN OR EPOLLOUT)],
     send_buffer := \<lparr>buf_data = [0, 0, 0, 0, 0, 0, 0, 0, 1, 2, 3], read_idx = 8, write_idx = 11,
       sum_read = 0, sum_write = 3\<rparr>\<rparr>"

lemma waiting_connection_ok:
  "IsWriting (conn_channel waiting_connection)" "conn_status waiting_connection = CONNECTED"
  "buf_ok (send_buffer waiting_connection)" "readable (send_buffer waiting_connection) = [1, 2, 3]"
  "registered (conn_channel waiting_connection) (ep_calls waiting_connection)"
  "ch_status (conn_channel waiting_connection) = CHANNEL_STATUS_ADDED"
  by (simp_all add: waiting_connection_def IsWriting_def EPOLLOUT_def buf_ok_def max_size_def readable_def
      registered_def interest_def)

theorem flushed_connection_stalls_witness:
  "\<exists>c1 c2 c3 out out'. conn_step (Flush send_all) waiting_connection = Inr c1 \<and>
     conn_run [Submit [9] send_all] c1 = Inr (out, c2) \<and> wire c2 = wire c1 \<and> readable (send_buffer c2) = [9] \<and>
     conn_run [Submit [9] send_all, Report EPOLLIN, Give [10] send_all] c1 = Inr (out', c3) \<and> wire c3 = wire c1 \<and>
     readable (send_buffer c3) = [9, 10] \<and> interest (ep_calls c3) 7 = Some 5"
proof -
  obtain c1 where c1: "conn_step (Flush send_all) waiting_connection = Inr c1"
    using conn_step_outgoing [of waiting_connection "Flush send_all"] waiting_connection_ok send_contracts
    by auto
  have "ch_fd (conn_channel waiting_connection) = 7" "ch_ep_event (conn_channel waiting_connection) OR EPOLLOUT = 5"
    "EPOLLIN AND EPOLLOUT = 0"
    by (simp_all add: waiting_connection_def EPOLLIN_def EPOLLOUT_def)
  with flushed_connection_stalls [OF waiting_connection_ok(1-3,5,6) _ c1, of "[Submit [9] send_all]" EPOLLIN "[10]" send_all] c1
    waiting_connection_ok(4) send_contracts show ?thesis by (simp add: hands_over_def del: conn_run.simps conn_step.simps) blast
qed

section \<open>Closing\<close>

definition closing :: "tcp_connection \<Rightarrow> bool" where
  "closing c \<longleftrightarrow> (conn_status c = DISCONNECTING \<or> conn_status c = DISCONNECTED) \<and> \<not> wr_shut c"

lemma not_shut_step:
  assumes "closing c" "e \<noteq> Establish" "conn_step e c = Inr c'"
  shows "closing c'"
  using assms
  by (cases e) (auto simp: closing_def SendInLoop_def Send_def OnWritable_def OnClose_def ConnectDestroyed_def Shutdown_def Let_def ebind_def
      split: sum.splits if_splits)

lemma not_shut_run:
  "closing c \<Longrightarrow> Establish \<notin> set es \<Longrightarrow> conn_run es c = Inr (out, c') \<Longrightarrow> closing c'"
proof (induction es arbitrary: c out)
  case (Cons e es)
  then obtain c1 out' where c1: "conn_step e c = Inr c1" "conn_run es c1 = Inr (out', c')"
    by (auto simp: result_simps)
  have "closing c1" using not_shut_step [OF Cons.prems(1) _ c1(1)] Cons.prems(2) by auto
  with Cons.IH [OF _ _ c1(2)] Cons.prems(2) show ?case by simp
qed simp

text \<open>
  \<^verbatim>\<open>Shutdown\<close> of a connection that is writing never shuts its write side: neither the
  flush of the last byte, which calls \<^verbatim>\<open>Shutdown\<close> again, nor anything else does, because a
  second \<^verbatim>\<open>Shutdown\<close> does nothing. The peer never sees the end of the stream.
\<close>

lemma shutdown_while_writing_is_lost:
  assumes "conn_status c = CONNECTED" "IsWriting (conn_channel c)" "\<not> wr_shut c" "Establish \<notin> set es"
    "conn_run (Close_write # es) c = Inr (out, c')"
  shows "\<not> wr_shut c'"
proof -
  have "closing (Shutdown c)" using assms(1-3) by (simp add: Shutdown_def closing_def)
  moreover obtain out' where "conn_run es (Shutdown c) = Inr (out', c')"
    using assms(5) by (auto simp: result_simps)
  ultimately have "closing c'" using assms(4) not_shut_run by blast
  then show ?thesis by (simp add: closing_def)
qed

end
