(* ===== verification/RtmpConnections.thy ===== *)
theory RtmpConnections
  imports RtmpRefinement TcpConnection
begin

text \<open>
  \<^verbatim>\<open>network/protocol/RtmpClientConnection.{h,cpp}\<close> and \<^verbatim>\<open>RtmpServerConnection.{h,cpp}\<close>: a
  viewer (HTTP-FLV over chunked coding) and a publisher (the RTMP handshake, then the
  stream). Connections are shared objects: \<open>net\<close> holds them by name, which is unique per
  server, and a connection pointer is its name. The closures that \<^verbatim>\<open>Send\<close> queues on another
  thread's loop are the pairs in \<open>net_queue\<close>. The handshake's answers are the constants of
  \<^verbatim>\<open>utils/codec/RtmpCodec.h\<close>.
\<close>

section \<open>Constants\<close>

definition RTMP_SERVER_S01 :: bytes where
  "RTMP_SERVER_S01 =
    [3] @ replicate 1536 0"

definition RTMP_SERVER_S2 :: bytes where
  "RTMP_SERVER_S2 =
    replicate 1536 0"

definition RTMP_SERVER_ACKNOWLEDGE_SIZE :: bytes where
  "RTMP_SERVER_ACKNOWLEDGE_SIZE =
    [2, 0, 0, 0, 0, 0, 4, 5, 0, 0, 0, 0, 0, 76, 75, 64]"

definition RTMP_SERVER_PEER_BANDWIDTH :: bytes where
  "RTMP_SERVER_PEER_BANDWIDTH =
    [2, 0, 0, 0, 0, 0, 5, 6, 0, 0, 0, 0, 0, 76, 75, 64, 2]"

definition RTMP_SERVER_SET_CHUNK_SIZE :: bytes where
  "RTMP_SERVER_SET_CHUNK_SIZE =
    [2, 0, 0, 0, 0, 0, 4, 1, 0, 0, 0, 0, 0, 0, 16, 0]"

definition RTMP_SERVER_CONNECT_RESULT :: bytes where
  "RTMP_SERVER_CONNECT_RESULT =
    [3, 0, 0, 0, 0, 0, 190, 20, 0, 0, 0, 0, 2, 0, 7, 95, 114, 101, 115, 117, 108, 116, 0, 63,
     240, 0, 0, 0, 0, 0, 0, 3, 0, 6, 102, 109, 115, 86, 101, 114, 2, 0, 13, 70, 77, 83, 47, 51,
     44, 48, 44, 49, 44, 49, 50, 51, 0, 12, 99, 97, 112, 97, 98, 105, 108, 105, 116, 105, 101, 115, 0, 64,
     63, 0, 0, 0, 0, 0, 0, 0, 0, 9, 3, 0, 5, 108, 101, 118, 101, 108, 2, 0, 6, 115, 116, 97,
     116, 117, 115, 0, 4, 99, 111, 100, 101, 2, 0, 29, 78, 101, 116, 67, 111, 110, 110, 101, 99, 116, 105, 111,
     110, 46, 67, 111, 110, 110, 101, 99, 116, 46, 83, 117, 99, 99, 101, 115, 115, 0, 11, 100, 101, 115, 99, 114,
     105, 112, 116, 105, 111, 110, 2, 0, 21, 67, 111, 110, 110, 101, 99, 116, 105, 111, 110, 32, 115, 117, 99, 99,
     101, 101, 100, 101, 100, 46, 0, 14, 111, 98, 106, 101, 99, 116, 69, 110, 99, 111, 100, 105, 110, 103, 0, 0,
     0, 0, 0, 0, 0, 0, 0, 0, 0, 9]"

definition RTMP_SERVER_RESULT :: bytes where
  "RTMP_SERVER_RESULT =
    [3, 0, 0, 0, 0, 0, 29, 20, 0, 0, 0, 0, 2, 0, 7, 95, 114, 101, 115, 117, 108, 116, 0, 64,
     16, 0, 0, 0, 0, 0, 0, 5, 0, 63, 240, 0, 0, 0, 0, 0, 0]"

definition RTMP_SERVER_START :: bytes where
  "RTMP_SERVER_START =
    [5, 0, 0, 0, 0, 0, 105, 20, 1, 0, 0, 0, 2, 0, 8, 111, 110, 83, 116, 97, 116, 117, 115, 0,
     0, 0, 0, 0, 0, 0, 0, 0, 5, 3, 0, 5, 108, 101, 118, 101, 108, 2, 0, 6, 115, 116, 97, 116,
     117, 115, 0, 4, 99, 111, 100, 101, 2, 0, 23, 78, 101, 116, 83, 116, 114, 101, 97, 109, 46, 80, 117, 98,
     108, 105, 115, 104, 46, 83, 116, 97, 114, 116, 0, 11, 100, 101, 115, 99, 114, 105, 112, 116, 105, 111, 110, 2,
     0, 16, 83, 116, 97, 114, 116, 32, 112, 117, 98, 108, 105, 115, 104, 105, 110, 103, 0, 0, 9]"

definition response_header :: bytes where
  "response_header = lit ''HTTP/1.1 200 OK'' @ [13, 10] @ lit ''Server: FISH_LIVE'' @ [13, 10] @
     lit ''Date: Sun, 29 Nov 2020 15:30:42 GMT'' @ [13, 10] @ lit ''Content-Type: video/x-flv'' @ [13, 10] @
     lit ''Transfer-Encoding: chunked'' @ [13, 10] @ lit ''Connection: keep-alive'' @ [13, 10] @
     lit ''Access-Control-Allow-Origin: *'' @ [13, 10, 13, 10]"

section \<open>The connections\<close>

record net =
  net_conns :: "(bytes \<times> tcp_connection) list"
  net_queue :: "(bytes \<times> bytes) list"

text \<open>Which connections run on the calling thread's loop, and what \<open>send(2)\<close> does on each.\<close>

record env =
  env_in_loop :: "bytes \<Rightarrow> bool"
  env_send :: "bytes \<Rightarrow> sys_send"

definition net_update :: "bytes \<Rightarrow> (tcp_connection \<Rightarrow> tcp_connection result) \<Rightarrow> net \<Rightarrow> net result" where
  "net_update name f n = (case map_find name (net_conns n) of
       None \<Rightarrow> Inl NullPointer
     | Some c \<Rightarrow> ebind (f c) (\<lambda>c. Inr (n\<lparr>net_conns := map_set name c (net_conns n)\<rparr>)))"

text \<open>\<open>connection_ptr_->Send(data, |data|)\<close>; the servers set no write-complete callback.\<close>

definition net_send :: "env \<Rightarrow> bytes \<Rightarrow> bytes \<Rightarrow> net \<Rightarrow> net result" where
  "net_send e name data n = (case map_find name (net_conns n) of
       None \<Rightarrow> Inl NullPointer
     | Some c \<Rightarrow>
         ebind (Send (env_in_loop e name) (env_send e name) None data c ()) (\<lambda>(task, c, _).
         Inr (n\<lparr>net_conns := map_set name c (net_conns n),
                net_queue := net_queue n @ (case task of Some d \<Rightarrow> [(name, d)] | None \<Rightarrow> [])\<rparr>)))"

definition net_send_buffer :: "env \<Rightarrow> bytes \<Rightarrow> buffer \<Rightarrow> net \<Rightarrow> net result" where
  "net_send_buffer e name b n = ebind (ReadBegin_at b 0 (ReadableLength b)) (\<lambda>data. net_send e name data n)"

definition net_shutdown :: "bytes \<Rightarrow> net \<Rightarrow> net result" where
  "net_shutdown name = net_update name (\<lambda>c. Inr (Shutdown c))"

section \<open>FlvTagBuffer and RtmpClientConnection\<close>

definition FlvTagBuffer_new :: "flv_tag \<Rightarrow> buffer result" where
  "FlvTagBuffer_new t =
     (let buffer_size = size_add FLV_TAG_HEADER_LENGTH (ReadableLength (tag_body t));
          length_rn = ToHexStringWithCrlf buffer_size in
      ebind (AppendData length_rn (Buffer_sized buffer_size)) (\<lambda>b.
      ebind (AppendData (take FLV_TAG_HEADER_LENGTH (tag_header t)) b) (\<lambda>b.
      ebind (AppendBuffer (tag_body t) b) (\<lambda>(_, b).
      ebind (AppendData [13, 10] b) (\<lambda>b.
      if size_sub (size_sub (ReadableLength b) (length length_rn)) 2 = buffer_size then Inr b
      else Inl AssertFailed)))))"

record rtmp_client =
  cl_conn :: bytes

definition RtmpClientConnection_new :: "bytes \<Rightarrow> rtmp_client" where
  "RtmpClientConnection_new conn = \<lparr>cl_conn = conn\<rparr>"

definition SendHeader :: "env \<Rightarrow> rtmp_client \<Rightarrow> buffer \<Rightarrow> net \<Rightarrow> net result" where
  "SendHeader e cl b n = net_send_buffer e (cl_conn cl) b n"

definition AddNewTag :: "env \<Rightarrow> rtmp_client \<Rightarrow> buffer \<Rightarrow> net \<Rightarrow> net result" where
  "AddNewTag e cl tag_buffer n = net_send_buffer e (cl_conn cl) tag_buffer n"

text \<open>The connection callback of a viewer: \<open>close\<close> is \<open>close_connection_callback_\<close>.\<close>

definition Client_OnConnection :: "(bytes \<Rightarrow> 's \<Rightarrow> 's) option \<Rightarrow> rtmp_client \<Rightarrow> 's conn_callback" where
  "Client_OnConnection close cl c s =
     (if \<not> Connected c then
        if GetConnectionName c \<noteq> cl_conn cl then Inl AssertFailed
        else Inr (c, case close of Some f \<Rightarrow> f (GetConnectionName c) s | None \<Rightarrow> s)
      else Inr (c, s))"

section \<open>RtmpServerConnection\<close>

datatype shake_hand_result = RESULT_AUTHENTICATE | RESULT_SUCCESS | RESULT_FAILED | RESULT_DATA_NOT_ENOUGH

record rtmp_server =
  srv_conn :: bytes
  client_map :: "(bytes \<times> rtmp_client) list"
  srv_rtmp :: rtmp_manager
  last_write_size :: nat
  last_flv_tag_ptr :: "tag_ref option"
  header_buffer :: buffer
  on_body_data :: bool

text \<open>\<open>on_body_data\<close>: the connection's message callback is \<open>OnBodyData\<close>, no more the handshake's.\<close>

definition RtmpServerConnection_new :: "rtmp_pack \<Rightarrow> bytes \<Rightarrow> rtmp_server" where
  "RtmpServerConnection_new junk conn =
     \<lparr>srv_conn = conn, client_map = [], srv_rtmp = RtmpManager_new junk, last_write_size = 0,
      last_flv_tag_ptr = None, header_buffer = Buffer_new, on_body_data = False\<rparr>"

text \<open>One reply of \<open>ShakeHand\<close>; \<open>None\<close> goes on with the loop.\<close>

definition shake_reply :: "env \<Rightarrow> bytes \<Rightarrow> shake_hand_pack_type \<Rightarrow> net \<Rightarrow> (shake_hand_result option \<times> net) result" where
  "shake_reply e conn status n =
     (let send = (\<lambda>xss. ebind (append_all (net_send e conn) xss n) (\<lambda>n. Inr (None, n))) in
      case status of
        SHAKE_RTMP_C01 \<Rightarrow> send [RTMP_SERVER_S01]
      | SHAKE_RTMP_C2 \<Rightarrow> send [RTMP_SERVER_S2]
      | SHAKE_RTMP_SET_CHUNK_SIZE \<Rightarrow> Inr (None, n)
      | SHAKE_RTMP_CONNECT \<Rightarrow>
          send [RTMP_SERVER_ACKNOWLEDGE_SIZE, RTMP_SERVER_PEER_BANDWIDTH, RTMP_SERVER_SET_CHUNK_SIZE,
                RTMP_SERVER_CONNECT_RESULT]
      | SHAKE_RTMP_RELEASE_STREAM \<Rightarrow> Inr (Some RESULT_AUTHENTICATE, n)
      | SHAKE_RTMP_FCPUBLISH \<Rightarrow> Inr (None, n)
      | SHAKE_RTMP_CREATE_STREAM \<Rightarrow> send [RTMP_SERVER_RESULT]
      | SHAKE_RTMP_PUBLISH \<Rightarrow> send [RTMP_SERVER_START]
      | SHAKE_SUCCESS \<Rightarrow> Inr (Some RESULT_SUCCESS, n)
      | SHAKE_FAILED \<Rightarrow> Inr (Some RESULT_FAILED, n)
      | SHAKE_DATA_NOT_ENOUGH \<Rightarrow> Inr (Some RESULT_DATA_NOT_ENOUGH, n))"

text \<open>The loop goes on at most once for each of the handshake's states (\<open>ShakeHand_returns\<close>).\<close>

fun ShakeHand_loop :: "nat \<Rightarrow> env \<Rightarrow> rtmp_pack \<Rightarrow> bytes \<Rightarrow> rtmp_manager \<Rightarrow> buffer \<Rightarrow> net \<Rightarrow>
    (shake_hand_result \<times> rtmp_manager \<times> buffer \<times> net) result" where
  "ShakeHand_loop 0 e junk conn m b n = Inl Diverges"
| "ShakeHand_loop (Suc fuel) e junk conn m b n =
     ebind (ParseShakeHand junk m b) (\<lambda>(status, m, b).
     ebind (shake_reply e conn status n) (\<lambda>(r, n).
     case r of Some result \<Rightarrow> Inr (result, m, b, n)
     | None \<Rightarrow> ShakeHand_loop fuel e junk conn m b n))"

definition ShakeHand :: "env \<Rightarrow> rtmp_pack \<Rightarrow> rtmp_server \<Rightarrow> buffer \<Rightarrow> net \<Rightarrow>
    (shake_hand_result \<times> rtmp_server \<times> buffer \<times> net) result" where
  "ShakeHand e junk srv b n =
     ebind (ShakeHand_loop 10 e junk (srv_conn srv) (srv_rtmp srv) b n) (\<lambda>(r, m, b, n).
     Inr (r, srv\<lparr>srv_rtmp := m\<rparr>, b, n))"

definition DebugParseSize :: "nat \<Rightarrow> rtmp_server \<Rightarrow> rtmp_server" where
  "DebugParseSize division srv =
     (let read_m = GetParsedLength (srv_rtmp srv) div division in
      if read_m \<noteq> last_write_size srv then srv\<lparr>last_write_size := read_m\<rparr> else srv)"

text \<open>\<open>for (auto& [name, ptr] : client_connection_map_) ptr->AddNewTag(buffer)\<close>.\<close>

fun send_to_clients :: "env \<Rightarrow> buffer \<Rightarrow> (bytes \<times> rtmp_client) list \<Rightarrow> net \<Rightarrow> net result" where
  "send_to_clients e b [] n = Inr n"
| "send_to_clients e b ((name, cl) # m) n = ebind (AddNewTag e cl b n) (send_to_clients e b m)"

definition OnNewFlvTag :: "env \<Rightarrow> (rtmp_server \<times> net) tag_callback" where
  "OnNewFlvTag e p t = (\<lambda>(srv, n).
     let srv = srv\<lparr>last_flv_tag_ptr := Some p\<rparr> in
     ebind (FlvTagBuffer_new t) (\<lambda>b.
     ebind (send_to_clients e b (client_map srv) n) (\<lambda>n. Inr (srv, n))))"

definition Server_ParseData :: "env \<Rightarrow> (nat \<Rightarrow> rtmp_pack) \<Rightarrow> rtmp_server \<Rightarrow> buffer \<Rightarrow> net \<Rightarrow>
    (int \<times> rtmp_server \<times> buffer \<times> net) result" where
  "Server_ParseData e junk srv b n =
     ebind (ParseData (OnNewFlvTag e) junk (srv_rtmp srv) b (srv, n)) (\<lambda>(result, m, b, srv, n).
     Inr (result, DebugParseSize (100 * 1000 * 1000) (srv\<lparr>srv_rtmp := m\<rparr>), b, n))"

definition OnBodyData :: "env \<Rightarrow> (nat \<Rightarrow> rtmp_pack) \<Rightarrow> rtmp_server \<Rightarrow> buffer \<Rightarrow> net \<Rightarrow>
    (rtmp_server \<times> buffer \<times> net) result" where
  "OnBodyData e junk srv b n = ebind (Server_ParseData e junk srv b n) (\<lambda>(_, srv, b, n). Inr (srv, b, n))"

definition GetHeaderDataBuffer :: "rtmp_server \<Rightarrow> (buffer \<times> rtmp_server) result" where
  "GetHeaderDataBuffer srv =
     (if ReadableLength (header_buffer srv) = 0 then
        ebind (EncodeHeadersToBuffer (rm_flv_manager (srv_rtmp srv)) Buffer_new) (\<lambda>(_, fm, temp).
        let srv = srv\<lparr>srv_rtmp := (srv_rtmp srv)\<lparr>rm_flv_manager := fm\<rparr>\<rparr>;
            length_rn = ToHexStringWithCrlf (ReadableLength temp) in
        ebind (AppendData response_header (header_buffer srv)) (\<lambda>b.
        ebind (AppendData length_rn b) (\<lambda>b.
        ebind (AppendBuffer temp b) (\<lambda>(_, b).
        ebind (AppendData [13, 10] b) (\<lambda>b.
        Inr (b, srv\<lparr>header_buffer := b\<rparr>))))))
      else Inr (header_buffer srv, srv))"

definition GetLastHeaderTagCurrentSize :: "rtmp_server \<Rightarrow> u32" where
  "GetLastHeaderTagCurrentSize srv = GetCurrentTagSize (video_audio_tag1 (rm_flv_manager (srv_rtmp srv)))"

text \<open>The last tag is written through a pointer that is null before the first tag.\<close>

definition SendHeaderToClientConnection :: "env \<Rightarrow> rtmp_client \<Rightarrow> rtmp_server \<Rightarrow> net \<Rightarrow> (rtmp_server \<times> net) result" where
  "SendHeaderToClientConnection e cl srv n =
     ebind (GetHeaderDataBuffer srv) (\<lambda>(hb, srv).
     ebind (SendHeader e cl hb n) (\<lambda>n.
     case last_flv_tag_ptr srv of None \<Rightarrow> Inl NullPointer
     | Some p \<Rightarrow>
         let m = srv_rtmp srv;
             t = SetPreviousTagSize (GetLastHeaderTagCurrentSize srv) (flv_heap m ! p);
             srv = srv\<lparr>srv_rtmp := m\<lparr>flv_heap := (flv_heap m)[p := t]\<rparr>\<rparr> in
         ebind (FlvTagBuffer_new t) (\<lambda>b.
         ebind (AddNewTag e cl b n) (\<lambda>n. Inr (srv, n)))))"

definition AddClientConnection :: "env \<Rightarrow> rtmp_client \<Rightarrow> rtmp_server \<Rightarrow> net \<Rightarrow> (rtmp_server \<times> net) result" where
  "AddClientConnection e cl srv n =
     SendHeaderToClientConnection e cl (srv\<lparr>client_map := map_set (cl_conn cl) cl (client_map srv)\<rparr>) n"

definition OnConnectionClose :: "bytes \<Rightarrow> rtmp_server \<Rightarrow> rtmp_server" where
  "OnConnectionClose name srv = srv\<lparr>client_map := map_erase name (client_map srv)\<rparr>"

definition GetRtmpUrl :: "rtmp_server \<Rightarrow> bytes result" where
  "GetRtmpUrl srv = GetUrlFromConnectPack (srv_rtmp srv)"

definition GetRtmpPath :: "rtmp_server \<Rightarrow> bytes result" where
  "GetRtmpPath srv = ebind (GetRtmpUrl srv) GetPathFromUrl"

definition Authenticate :: "(bytes \<Rightarrow> bytes \<Rightarrow> bool) option \<Rightarrow> rtmp_server \<Rightarrow> bool result" where
  "Authenticate authentication_callback srv =
     ebind (GetRtmpPath srv) (\<lambda>username.
     ebind (GetPasswordFromReleasePack (srv_rtmp srv)) (\<lambda>password.
     Inr (case authentication_callback of Some f \<Rightarrow> f username password | None \<Rightarrow> True)))"

text \<open>\<open>success\<close> is \<open>shake_hand_success_callback_\<close>, on the state of its owner.\<close>

definition OnConnectionShakeHand :: "env \<Rightarrow> rtmp_pack \<Rightarrow> (bytes \<Rightarrow> bytes \<Rightarrow> bool) option \<Rightarrow>
    (rtmp_server \<Rightarrow> 's \<Rightarrow> 's result) option \<Rightarrow> rtmp_server \<Rightarrow> buffer \<Rightarrow> net \<Rightarrow> 's \<Rightarrow>
    (rtmp_server \<times> buffer \<times> net \<times> 's) result" where
  "OnConnectionShakeHand e junk authentication success srv b n s =
     ebind (ShakeHand e junk srv b n) (\<lambda>(result, srv, b, n).
     case result of
       RESULT_AUTHENTICATE \<Rightarrow>
         ebind (Authenticate authentication srv) (\<lambda>ok.
         if \<not> ok then ebind (net_shutdown (srv_conn srv) n) (\<lambda>n. Inr (srv, b, n, s))
         else Inr (srv, b, n, s))
     | RESULT_SUCCESS \<Rightarrow>
         ebind (case success of Some f \<Rightarrow> f srv s | None \<Rightarrow> Inr s) (\<lambda>s.
         Inr (srv\<lparr>on_body_data := True\<rparr>, b, n, s))
     | RESULT_FAILED \<Rightarrow> ebind (net_shutdown (srv_conn srv) n) (\<lambda>n. Inr (srv, b, n, s))
     | RESULT_DATA_NOT_ENOUGH \<Rightarrow> Inr (srv, b, n, s))"

end
