(* ===== verification/RtmpViewer.thy ===== *)
theory RtmpViewer
  imports RtmpConnections
begin

text \<open>
  What a viewer receives: every tag is one HTTP chunk holding one FLV tag, a viewer that
  joins gets the response header, the head of the stream and the last tag, and from then
  on every tag the publisher's bytes complete. The connection of a viewer is the consumer
  of tags that \<open>ParseData\<close> needs (an instance of \<open>tag_sink\<close>), so the parser's refinement
  carries over to the bytes on the viewer's connection.
\<close>

section \<open>One tag, one chunk\<close>

lemma FlvTagBuffer_append:
  assumes "buf_ok (tag_body t)"
  shows "FlvTagBuffer_new t =
    (let buffer_size = size_add FLV_TAG_HEADER_LENGTH (ReadableLength (tag_body t));
         length_rn = ToHexStringWithCrlf buffer_size in
     ebind (append_all AppendData [length_rn, take FLV_TAG_HEADER_LENGTH (tag_header t), readable (tag_body t), [13, 10]]
       (Buffer_sized buffer_size)) (\<lambda>b.
     if size_sub (size_sub (ReadableLength b) (length length_rn)) 2 = buffer_size then Inr b else Inl AssertFailed))"
  unfolding FlvTagBuffer_new_def append_all.simps AppendBuffer_eq [OF assms] Let_def
  by (simp add: ebind_assoc)

lemma FlvTagBuffer_ok:
  assumes "hdr_ok t" "buf_ok (tag_body t)" "ReadableLength (tag_body t) < 2 ^ 32"
  shows "\<exists>b. FlvTagBuffer_new t = Inr b \<and> buf_ok b \<and> readable b = http_chunk (tag_bytes t) \<and>
    ReadableLength b \<le> 2 ^ 62"
proof -
  let ?n = "15 + ReadableLength (tag_body t)"
  have small: "?n + 8 \<le> max_size" "?n < size_mod" using assms(3) by (simp_all add: max_size_def size_mod_def)
  then have n: "size_add FLV_TAG_HEADER_LENGTH (ReadableLength (tag_body t)) = ?n"
    by (simp add: size_add_eq FLV_TAG_HEADER_LENGTH_def)
  have len: "length (tag_bytes t) = ?n"
    using assms(1,2) by (simp add: tag_bytes_def hdr_ok_def)
  have hd: "take FLV_TAG_HEADER_LENGTH (tag_header t) = tag_header t"
    using assms(1) by (simp add: hdr_ok_def FLV_TAG_HEADER_LENGTH_def)
  let ?rn = "ToHexStringWithCrlf ?n"
  have hex: "length ?rn \<le> 34"
    using ToHexString_length [of ?n 32] assms(3) by (simp add: ToHexStringWithCrlf_def)
  have "length (readable (Buffer_sized ?n)) + length (concat [?rn, tag_header t, readable (tag_body t), [13, 10]]) \<le> 2 ^ 62"
    using assms hex by (simp add: hdr_ok_def)
  from bq.append_all_ok [OF Buffer_sized_ok [OF small(1)] this]
  obtain b where b: "append_all AppendData [?rn, tag_header t, readable (tag_body t), [13, 10]] (Buffer_sized ?n) = Inr b"
      "buf_ok b" "readable b = ?rn @ tag_header t @ readable (tag_body t) @ [13, 10]"
    by (auto simp: holds_def simp del: append_all.simps)
  have rb: "readable b = http_chunk (tag_bytes t)"
    by (simp only: b(3) http_chunk_def len) (simp add: tag_bytes_def)
  have rl: "ReadableLength b = length ?rn + ?n + 2"
    using length_readable [OF b(2)] b(3) assms by (simp add: hdr_ok_def)
  have "length ?rn + ?n + 2 \<le> max_size" using hex assms(3) by (simp add: max_size_def)
  with rl have "size_sub (size_sub (ReadableLength b) (length ?rn)) 2 = ?n"
    by (simp add: size_sub_le_max)
  then have "FlvTagBuffer_new t = Inr b"
    unfolding FlvTagBuffer_append [OF assms(2)] Let_def n hd b(1) by simp
  moreover have "ReadableLength b \<le> 2 ^ 62" using rl hex assms(3) by simp
  ultimately show ?thesis using b(2) rb by blast
qed

lemma tag_complete_small: "tag_complete t \<Longrightarrow> ReadableLength (tag_body t) < 2 ^ 32"
  using unat_GetDataSize_lt [of t] by (simp add: tag_complete_def)

text \<open>
  C8: the buffer of a tag is one chunk of the HTTP chunked coding whose payload is the
  tag, and the assertion at the end of the constructor holds.
\<close>

theorem FlvTagBuffer_is_chunk:
  assumes "tag_complete t"
  shows "\<exists>b. FlvTagBuffer_new t = Inr b \<and> readable b = http_chunk (tag_bytes t) \<and>
    http_dechunk (readable b) = Some (tag_bytes t, []) \<and> read_item (tag_bytes t) = Some (tag_item t, [])"
proof -
  have ne: "tag_bytes t \<noteq> []" using length_tag_bytes [OF assms] by auto
  obtain b where "FlvTagBuffer_new t = Inr b" "readable b = http_chunk (tag_bytes t)"
    using FlvTagBuffer_ok [OF tag_completeD [OF assms] tag_complete_small [OF assms]] by blast
  moreover have "read_item (tag_bytes t) = Some (tag_item t, [])"
    using read_item_bytes [OF tag_item_ok(1) [OF assms], of "[]"] tag_item_ok(2) [OF assms] by simp
  ultimately show ?thesis using http_dechunk_chunk [OF ne, of "[]"] by simp
qed

theorem FlvTagBuffer_is_chunk_witness:
  "\<exists>b. FlvTagBuffer_new sample_tag = Inr b \<and> http_dechunk (readable b) = Some (tag_bytes sample_tag, [])"
  using FlvTagBuffer_is_chunk [OF sample_tag_complete] by blast

section \<open>Sending on a connection\<close>

definition queued :: "bytes \<Rightarrow> net \<Rightarrow> bytes" where
  "queued name n = concat (map snd (filter (\<lambda>t. fst t = name) (net_queue n)))"

text \<open>What a connection has sent, buffered and, from other threads, queued.\<close>

definition net_out :: "bytes \<Rightarrow> net \<Rightarrow> bytes" where
  "net_out name n = (case map_find name (net_conns n) of Some c \<Rightarrow> outgoing c | None \<Rightarrow> []) @ queued name n"

text \<open>An open connection whose socket works.\<close>

definition live :: "env \<Rightarrow> bytes \<Rightarrow> net \<Rightarrow> bool" where
  "live e name n \<longleftrightarrow> map_sorted (net_conns n) \<and>
     (\<exists>c. map_find name (net_conns n) = Some c \<and> conn_status c = CONNECTED \<and> buf_ok (send_buffer c)) \<and>
     send_contract (env_send e name) \<and> (\<forall>data. \<not> fatal (env_send e name data)) \<and>
     (env_in_loop e name \<longrightarrow> queued name n = [])"

lemma Send_live:
  assumes "conn_status c = CONNECTED" "buf_ok (send_buffer c)" "send_contract sys" "\<not> fatal (sys data)"
    "length data \<le> 2 ^ 62"
  shows "safe in_loop (\<lambda>(task, c', _). conn_status c' = CONNECTED \<and> buf_ok (send_buffer c') \<and>
      (if in_loop then task = None \<and> outgoing c' = outgoing c @ data else task = Some data \<and> c' = c))
    (Send in_loop sys None data c s)"
proof (cases in_loop)
  case False
  then show ?thesis using assms by (simp add: Send_def)
next
  case True
  have *: "safe True (\<lambda>(c', s'). conn_status c' = CONNECTED \<and> buf_ok (send_buffer c') \<and>
      outgoing c' = outgoing c @ data) (SendInLoop sys None data c s)"
    using SendInLoop_safe [OF assms(2,3,5), of s] assms(1,4) by (auto simp: safe_def holds_def)
  show ?thesis
    using True assms(1) * by (auto simp: Send_def intro!: safe_ebind [OF *])
qed

text \<open>Only a connection on the calling thread's loop can run out of memory: the others are queued.\<close>

definition may_fill :: "env \<Rightarrow> bool" where
  "may_fill e \<longleftrightarrow> (\<exists>x. env_in_loop e x)"

lemma may_fillI: "safe (env_in_loop e x) P r \<Longrightarrow> safe (may_fill e) P r"
  by (auto simp: safe_def may_fill_def)

lemma net_send_live:
  assumes "live e name n" "length data \<le> 2 ^ 62"
  shows "safe (may_fill e) (\<lambda>n'. live e name n' \<and> net_out name n' = net_out name n @ data \<and>
      (\<forall>x. x \<noteq> name \<longrightarrow> map_find x (net_conns n') = map_find x (net_conns n) \<and> queued x n' = queued x n))
    (net_send e name data n)"
proof -
  obtain c where c: "map_find name (net_conns n) = Some c" "conn_status c = CONNECTED" "buf_ok (send_buffer c)"
    and so: "map_sorted (net_conns n)" "send_contract (env_send e name)" "\<not> fatal (env_send e name data)"
    and lv: "\<forall>data. \<not> fatal (env_send e name data)" "env_in_loop e name \<longrightarrow> queued name n = []"
    using assms(1) by (auto simp: live_def)
  note send = Send_live [OF c(2,3) so(2,3) assms(2), of "env_in_loop e name" "()"]
  show ?thesis unfolding net_send_def c(1) option.case
  proof (rule safe_ebind [OF may_fillI [OF send]], clarify)
    fix task :: "bytes option" and d :: tcp_connection and u
    assume d: "conn_status d = CONNECTED" "buf_ok (send_buffer d)"
      and o: "if env_in_loop e name then task = None \<and> outgoing d = outgoing c @ data else task = Some data \<and> d = c"
    let ?n = "n\<lparr>net_conns := map_set name d (net_conns n),
      net_queue := net_queue n @ (case task of None \<Rightarrow> [] | Some d \<Rightarrow> [(name, d)])\<rparr>"
    have f: "map_find x (net_conns ?n) = (if x = name then Some d else map_find x (net_conns n))" for x
      using so(1) by (simp add: map_find_set)
    have q: "queued x ?n = queued x n @ (if x = name then case task of None \<Rightarrow> [] | Some d \<Rightarrow> d else [])" for x
      by (cases task) (simp_all add: queued_def)
    have "net_out name ?n = net_out name n @ data"
      using o lv(2) c(1) f q by (cases "env_in_loop e name") (simp_all add: net_out_def)
    moreover have "live e name ?n"
      using d o f q so lv by (cases "env_in_loop e name") (simp_all add: live_def map_set_sorted)
    ultimately show "safe (may_fill e) (\<lambda>n'. live e name n' \<and> net_out name n' = net_out name n @ data \<and>
      (\<forall>x. x \<noteq> name \<longrightarrow> map_find x (net_conns n') = map_find x (net_conns n) \<and> queued x n' = queued x n)) (Inr ?n)"
      using f q by simp
  qed
qed

text \<open>A connection of which only the presence is known: it may be closed, or its socket broken.\<close>

definition present :: "env \<Rightarrow> bytes \<Rightarrow> net \<Rightarrow> bool" where
  "present e name n \<longleftrightarrow> map_sorted (net_conns n) \<and> send_contract (env_send e name) \<and>
     (\<exists>c. map_find name (net_conns n) = Some c \<and> buf_ok (send_buffer c))"

lemma Send_present:
  assumes "buf_ok (send_buffer c)" "send_contract sys" "length data \<le> 2 ^ 62"
  shows "safe in_loop (\<lambda>(task, c', _). buf_ok (send_buffer c')) (Send in_loop sys None data c s)"
proof -
  have *: "safe True (\<lambda>(c', s'). buf_ok (send_buffer c')) (SendInLoop sys None data c s)"
    using SendInLoop_safe [OF assms, of s] by (auto simp: safe_def holds_def)
  show ?thesis using assms(1) by (auto simp: Send_def intro!: safe_ebind [OF *])
qed

lemma net_send_present:
  assumes "present e name n" "length data \<le> 2 ^ 62"
  shows "safe (may_fill e) (\<lambda>n'. present e name n' \<and>
      (\<forall>x. x \<noteq> name \<longrightarrow> map_find x (net_conns n') = map_find x (net_conns n) \<and> queued x n' = queued x n))
    (net_send e name data n)"
proof -
  obtain c where c: "map_find name (net_conns n) = Some c" "buf_ok (send_buffer c)"
    and so: "map_sorted (net_conns n)" "send_contract (env_send e name)"
    using assms(1) by (auto simp: present_def)
  note send = Send_present [OF c(2) so(2) assms(2), of "env_in_loop e name" "()"]
  show ?thesis unfolding net_send_def c(1) option.case
    by (rule safe_ebind [OF may_fillI [OF send]])
      (use so in \<open>auto simp: present_def map_find_set map_set_sorted queued_def split: option.splits\<close>)
qed

lemma live_present: "live e name n \<Longrightarrow> present e name n"
  by (auto simp: live_def present_def)

lemma present_other:
  "present e x n \<Longrightarrow> present e y n' \<Longrightarrow> map_find x (net_conns n') = map_find x (net_conns n) \<Longrightarrow> present e x n'"
  by (auto simp: present_def)

lemma live_other:
  "live e x n \<Longrightarrow> present e y n' \<Longrightarrow> map_find x (net_conns n') = map_find x (net_conns n) \<Longrightarrow>
   queued x n' = queued x n \<Longrightarrow> live e x n'"
  by (auto simp: live_def present_def)

lemma present_step:
  "present e y n' \<Longrightarrow> \<forall>x. x \<noteq> y \<longrightarrow> map_find x (net_conns n') = map_find x (net_conns n) \<and> q x \<Longrightarrow>
   present e x n \<Longrightarrow> present e x n'"
  by (cases "x = y") (auto intro: present_other)

definition clients_ok :: "env \<Rightarrow> (bytes \<times> rtmp_client) list \<Rightarrow> net \<Rightarrow> bool" where
  "clients_ok e m n \<longleftrightarrow> map_sorted m \<and> (\<forall>(x, cl) \<in> set m. cl_conn cl = x \<and> present e x n)"

text \<open>Every viewer in the map gets the buffer once; a viewer that is not in it gets nothing.\<close>

lemma send_to_clients_live:
  assumes "buf_ok b" "ReadableLength b \<le> 2 ^ 62"
  shows "clients_ok e m n \<Longrightarrow> live e v n \<Longrightarrow>
    safe (may_fill e) (\<lambda>n'. live e v n' \<and> net_out v n' = net_out v n @ (if v \<in> keys m then readable b else []) \<and>
      (\<forall>x. present e x n \<longrightarrow> present e x n')) (send_to_clients e b m n)"
proof (induction m arbitrary: n)
  case Nil
  then show ?case by simp
next
  case (Cons p m)
  obtain cl where p: "p = (cl_conn cl, cl)" using Cons.prems(1) by (cases p) (auto simp: clients_ok_def)
  let ?x = "cl_conn cl"
  have pr: "present e ?x n" and later: "\<forall>y \<in> keys m. ?x < y" "clients_ok e m n"
    using Cons.prems(1) p by (auto simp: clients_ok_def)
  have send: "AddNewTag e cl b n = net_send e ?x (readable b) n"
    by (simp add: AddNewTag_def net_send_buffer_def ReadBegin_all assms(1))
  have len: "length (readable b) \<le> 2 ^ 62" using assms by simp
  have one: "safe (may_fill e) (\<lambda>n'. live e v n' \<and> net_out v n' = net_out v n @ (if v = ?x then readable b else []) \<and>
      (\<forall>x. present e x n \<longrightarrow> present e x n')) (net_send e ?x (readable b) n)"
  proof (cases "v = ?x")
    case True
    with Cons.prems(2) have "live e ?x n" by simp
    from net_send_live [OF this len] show ?thesis
      by (rule safe_mono) (use True in \<open>auto intro: present_step [OF live_present]\<close>)
  next
    case False
    show ?thesis
      by (rule safe_mono [OF net_send_present [OF pr len]])
        (use False Cons.prems(2) in \<open>auto intro: present_step live_other simp: net_out_def\<close>)
  qed
  show ?case unfolding p send_to_clients.simps send
  proof (rule safe_ebind [OF one])
    fix n1
    assume n1: "live e v n1 \<and> net_out v n1 = net_out v n @ (if v = ?x then readable b else []) \<and>
      (\<forall>x. present e x n \<longrightarrow> present e x n1)"
    then have "clients_ok e m n1" using later(2) by (auto simp: clients_ok_def)
    from Cons.IH [OF this] n1 have "safe (may_fill e) (\<lambda>n'. live e v n' \<and>
        net_out v n' = net_out v n1 @ (if v \<in> keys m then readable b else []) \<and>
        (\<forall>x. present e x n1 \<longrightarrow> present e x n')) (send_to_clients e b m n1)" by simp
    then show "safe (may_fill e) (\<lambda>n'. live e v n' \<and>
        net_out v n' = net_out v n @ (if v \<in> keys ((?x, cl) # m) then readable b else []) \<and>
        (\<forall>x. present e x n \<longrightarrow> present e x n')) (send_to_clients e b m n1)"
      by (rule safe_mono) (use n1 later(1) in auto)
  qed
qed

section \<open>A viewer is a consumer of tags\<close>

text \<open>\<open>base\<close> is what the viewer had been sent before; behind it come the chunks of tags.\<close>

definition viewer_ok :: "env \<Rightarrow> bytes \<Rightarrow> bytes \<Rightarrow> rtmp_server \<times> net \<Rightarrow> bool" where
  "viewer_ok e v base = (\<lambda>(srv, n). clients_ok e (client_map srv) n \<and> v \<in> keys (client_map srv) \<and> live e v n \<and>
     (\<exists>ts. (\<forall>t \<in> set ts. tag_complete t) \<and> net_out v n = base @ concat (map (\<lambda>t. http_chunk (tag_bytes t)) ts)))"

text \<open>The FLV items a reader finds in the chunks behind \<open>base\<close>.\<close>

definition chunk_items :: "bytes \<Rightarrow> flv_item list" where
  "chunk_items bs = concat (map (\<lambda>p. fst (decode_all read_item p)) (fst (decode_all http_dechunk bs)))"

definition viewer_items :: "bytes \<Rightarrow> bytes \<Rightarrow> rtmp_server \<times> net \<Rightarrow> flv_item list" where
  "viewer_items v base = (\<lambda>(srv, n). chunk_items (drop (length base) (net_out v n)))"

lemma decode_chunks:
  assumes "\<forall>p \<in> set ps. p \<noteq> []"
  shows "decode_all http_dechunk (concat (map http_chunk ps)) = (ps, [])"
  using chunk.decode_all_items [OF assms chunk.dec_Nil] by simp

lemma chunk_items_tags:
  assumes "\<forall>t \<in> set ts. tag_complete t"
  shows "chunk_items (concat (map (\<lambda>t. http_chunk (tag_bytes t)) ts)) = map tag_item ts"
proof -
  have ne: "\<forall>p \<in> set (map tag_bytes ts). p \<noteq> []"
    using assms length_tag_bytes by fastforce
  have "fst (decode_all read_item (tag_bytes t)) = [tag_item t]" if "t \<in> set ts" for t
    using decode_tags [of "[t]"] assms that by simp
  then have eq: "map (\<lambda>p. fst (decode_all read_item p)) (map tag_bytes ts) = map (\<lambda>t. [tag_item t]) ts"
    by simp
  have "concat (map (\<lambda>t. http_chunk (tag_bytes t)) ts) = concat (map http_chunk (map tag_bytes ts))"
    by (simp add: comp_def)
  then show ?thesis
    unfolding chunk_items_def by (simp only: decode_chunks [OF ne] fst_conv eq concat_map_singleton)
qed

interpretation viewer: tag_sink "OnNewFlvTag e" "viewer_ok e v base" "viewer_items v base" "may_fill e" for e v base
proof
  fix st :: "rtmp_server \<times> net" and t p
  assume ok: "viewer_ok e v base st" and t: "tag_complete t"
  obtain srv n where st: "st = (srv, n)" by (cases st)
  from ok obtain ts where c: "clients_ok e (client_map srv) n" "v \<in> keys (client_map srv)" "live e v n"
    and ts: "\<forall>t \<in> set ts. tag_complete t" "net_out v n = base @ concat (map (\<lambda>t. http_chunk (tag_bytes t)) ts)"
    by (auto simp: viewer_ok_def st)
  obtain b where b: "FlvTagBuffer_new t = Inr b" "buf_ok b" "readable b = http_chunk (tag_bytes t)"
      "ReadableLength b \<le> 2 ^ 62"
    using FlvTagBuffer_ok [OF tag_completeD [OF t] tag_complete_small [OF t]] by blast
  have items: "chunk_items (concat (map (\<lambda>t. http_chunk (tag_bytes t)) (ts @ [t]))) =
      chunk_items (concat (map (\<lambda>t. http_chunk (tag_bytes t)) ts)) @ [tag_item t]"
    using chunk_items_tags [of ts] chunk_items_tags [of "ts @ [t]"] ts(1) t by simp
  have run: "OnNewFlvTag e p t st = ebind (send_to_clients e b (client_map srv) n)
      (\<lambda>n. Inr (srv\<lparr>last_flv_tag_ptr := Some p\<rparr>, n))"
    by (simp add: OnNewFlvTag_def st b(1))
  show "safe (may_fill e) (\<lambda>s'. viewer_ok e v base s' \<and> viewer_items v base s' = viewer_items v base st @ [tag_item t])
      (OnNewFlvTag e p t st)"
    unfolding run
  proof (rule safe_ebind [OF send_to_clients_live [OF b(2,4) c(1,3)]])
    fix n'
    assume n': "live e v n' \<and> net_out v n' = net_out v n @ (if v \<in> keys (client_map srv) then readable b else []) \<and>
      (\<forall>x. present e x n \<longrightarrow> present e x n')"
    then have out: "net_out v n' = base @ concat (map (\<lambda>t. http_chunk (tag_bytes t)) (ts @ [t]))"
      using c(2) ts(2) b(3) by simp
    have "clients_ok e (client_map srv) n'" using c(1) n' by (auto simp: clients_ok_def)
    moreover have "\<forall>t \<in> set (ts @ [t]). tag_complete t" using ts(1) t by simp
    ultimately have "viewer_ok e v base (srv\<lparr>last_flv_tag_ptr := Some p\<rparr>, n')"
      using n' c(2) out by (simp only: viewer_ok_def prod.case) (intro conjI exI [of _ "ts @ [t]"], auto)
    moreover have "viewer_items v base (srv\<lparr>last_flv_tag_ptr := Some p\<rparr>, n') = viewer_items v base st @ [tag_item t]"
      using items by (simp add: viewer_items_def out ts(2) st)
    ultimately show "safe (may_fill e) (\<lambda>s'. viewer_ok e v base s' \<and>
        viewer_items v base s' = viewer_items v base st @ [tag_item t])
      (Inr (srv\<lparr>last_flv_tag_ptr := Some p\<rparr>, n'))" by simp
  qed
qed

section \<open>Joining a stream\<close>

definition header_ok :: "rtmp_server \<Rightarrow> bool" where
  "header_ok srv \<longleftrightarrow> manager_ok (rm_flv_manager (srv_rtmp srv)) \<and> buf_ok (header_buffer srv) \<and>
     (readable (header_buffer srv) = [] \<or>
      readable (header_buffer srv) = response_header @ http_chunk (head_bytes (rm_flv_manager (srv_rtmp srv))))"

lemma length_response_header: "length response_header = 186"
  by (simp add: response_header_def)

lemma http_chunk_length: "length p < 2 ^ 32 \<Longrightarrow> length (http_chunk p) \<le> length p + 36"
  using ToHexString_length [of "length p" 32] by (simp add: http_chunk_def ToHexStringWithCrlf_def)

lemma Buffer_new_room: "WritableLength Buffer_new = 4096" "length (buf_data Buffer_new) \<le> 2 ^ 61"
  by (simp_all add: Buffer_new_def Buffer_sized_def DEFAULT_BUFFER_SIZE_def WritableLength_def
    size_sub_def size_mod_def)

text \<open>The header buffer is filled on first use and keeps the same bytes from then on.\<close>

lemma GetHeaderDataBuffer_ok:
  assumes "header_ok srv" "unat (headers_length (rm_flv_manager (srv_rtmp srv))) \<le> 4096"
  obtains hb fm where "GetHeaderDataBuffer srv =
      Inr (hb, srv\<lparr>srv_rtmp := (srv_rtmp srv)\<lparr>rm_flv_manager := fm\<rparr>, header_buffer := hb\<rparr>)"
    "buf_ok hb" "readable hb = response_header @ http_chunk (head_bytes (rm_flv_manager (srv_rtmp srv)))"
    "ReadableLength hb \<le> 2 ^ 62" "manager_ok fm" "head_tags fm = head_tags (rm_flv_manager (srv_rtmp srv))"
    "GetCurrentTagSize (video_audio_tag1 fm) = GetCurrentTagSize (video_audio_tag1 (rm_flv_manager (srv_rtmp srv)))"
proof -
  let ?fm = "rm_flv_manager (srv_rtmp srv)"
  let ?hb = "header_buffer srv"
  have ok: "manager_ok ?fm" "buf_ok ?hb" using assms(1) by (simp_all add: header_ok_def)
  have hl: "length (head_bytes ?fm) \<le> 4096" using length_head_bytes [OF ok(1)] assms(2) by simp
  then have cl: "length (response_header @ http_chunk (head_bytes ?fm)) \<le> 2 ^ 62"
    using http_chunk_length [of "head_bytes ?fm"] by (simp add: length_response_header)
  show ?thesis
  proof (cases "ReadableLength ?hb = 0")
    case False
    then have "readable ?hb \<noteq> []" using length_readable [OF ok(2)] by auto
    then have "readable ?hb = response_header @ http_chunk (head_bytes ?fm)"
      using assms(1) by (simp add: header_ok_def)
    with that [of ?hb ?fm] False ok cl length_readable [OF ok(2)] show ?thesis
      by (simp add: GetHeaderDataBuffer_def)
  next
    case True
    then have empty: "readable ?hb = []" using length_readable [OF ok(2)] by (cases "readable ?hb") auto
    have "unat (headers_length ?fm) \<le> WritableLength Buffer_new" using assms(2) by (simp add: Buffer_new_room)
    from EncodeHeadersToBuffer_room [OF ok(1) Buffer_new_ok Buffer_new_room(2) this]
    obtain fm temp where t: "EncodeHeadersToBuffer ?fm Buffer_new = Inr (int (length (head_bytes ?fm)), fm, temp)"
      "buf_ok temp" "manager_ok fm" "readable temp = head_bytes ?fm" "head_tags fm = head_tags ?fm"
      "GetCurrentTagSize (video_audio_tag1 fm) = GetCurrentTagSize (video_audio_tag1 ?fm)"
      by auto
    let ?rn = "ToHexStringWithCrlf (ReadableLength temp)"
    have rl: "ReadableLength temp = length (head_bytes ?fm)" using length_readable [OF t(2)] t(4) by simp
    have chunk: "concat [response_header, ?rn, readable temp, [13, 10]] =
        response_header @ http_chunk (head_bytes ?fm)"
      by (simp add: http_chunk_def rl t(4))
    have "length (readable ?hb) + length (concat [response_header, ?rn, readable temp, [13, 10]]) \<le> 2 ^ 62"
      using cl by (simp only: chunk empty) simp
    from bq.append_all_ok [OF ok(2) this] obtain b where
      b: "append_all AppendData [response_header, ?rn, readable temp, [13, 10]] ?hb = Inr b" "buf_ok b"
        "readable b = response_header @ http_chunk (head_bytes ?fm)"
      unfolding chunk empty by (auto simp: holds_def simp del: append_all.simps)
    have "GetHeaderDataBuffer srv = Inr (b, srv\<lparr>srv_rtmp := (srv_rtmp srv)\<lparr>rm_flv_manager := fm\<rparr>, header_buffer := b\<rparr>)"
    proof -
      obtain b1 b2 b3 where "AppendData response_header ?hb = Inr b1" "AppendData ?rn b1 = Inr b2"
        "AppendData (readable temp) b2 = Inr b3" "AppendData [13, 10] b3 = Inr b"
        using b(1) by (auto simp: result_simps)
      then show ?thesis using True t(1) by (simp add: GetHeaderDataBuffer_def Let_def AppendBuffer_eq t(2))
    qed
    moreover have "ReadableLength b \<le> 2 ^ 62" using cl b(3) length_readable [OF b(2)] by simp
    ultimately show ?thesis using that [of b fm] b t by simp
  qed
qed

text \<open>
  The two pointers to the last tag, the parser's and the server's, are set together and
  point to the same object.
\<close>

definition tags_ok :: "rtmp_server \<Rightarrow> tag_ref \<Rightarrow> bool" where
  "tags_ok srv p \<longleftrightarrow> last_flv_tag_ptr srv = Some p \<and> last_flv_ptr (srv_rtmp srv) = Some p \<and>
     p < length (flv_heap (srv_rtmp srv)) \<and> tag_complete (flv_heap (srv_rtmp srv) ! p)"

text \<open>The first tag a new viewer gets: the last one, behind the head of the stream.\<close>

definition first_tag :: "rtmp_server \<Rightarrow> flv_tag" where
  "first_tag srv = SetPreviousTagSize (GetLastHeaderTagCurrentSize srv)
     (flv_heap (srv_rtmp srv) ! the (last_flv_tag_ptr srv))"

definition join_bytes :: "rtmp_server \<Rightarrow> bytes" where
  "join_bytes srv = response_header @ http_chunk (head_bytes (rm_flv_manager (srv_rtmp srv)))"

lemma last_size_heap_update:
  "p < length (flv_heap m) \<Longrightarrow> GetCurrentTagSize t = GetCurrentTagSize (flv_heap m ! p) \<Longrightarrow>
   last_size (m\<lparr>flv_heap := (flv_heap m)[p := t]\<rparr>) = last_size m"
  by (auto simp: last_size_def nth_list_update split: option.splits)

lemma chunk_state_shared:
  assumes "last_flv_ptr m = Some p" "p < length (flv_heap m)" "GetCurrentTagSize t = GetCurrentTagSize (flv_heap m ! p)"
  shows "chunk_state_of (m\<lparr>rm_flv_manager := fm, flv_heap := (flv_heap m)[p := t]\<rparr>) = chunk_state_of m"
    "stream_ok (m\<lparr>rm_flv_manager := fm, flv_heap := (flv_heap m)[p := t]\<rparr>) = stream_ok m"
  using assms by (simp_all add: chunk_state_of_def last_size_def stream_ok_def base_ok_def heap_ok_def Let_def)

lemma clients_ok_join:
  assumes "\<And>x. present e x n \<Longrightarrow> present e x n'" "present e v n'" "clients_ok e m n"
  shows "clients_ok e (map_set v (RtmpClientConnection_new v) m) n'"
proof -
  have so: "map_sorted m" using assms(3) by (simp add: clients_ok_def)
  have "cl_conn cl = x \<and> present e x n'" if "(x, cl) \<in> set (map_set v (RtmpClientConnection_new v) m)" for x cl
  proof (cases "x = v")
    case True
    with that so assms(2) show ?thesis
      by (simp add: std_map.entries_set_iff [OF so] RtmpClientConnection_new_def)
  next
    case False
    with that so have "(x, cl) \<in> set m" by (simp add: std_map.entries_set_iff [OF so])
    with assms(1,3) show ?thesis by (auto simp: clients_ok_def)
  qed
  then show ?thesis using so by (auto simp: clients_ok_def map_set_sorted)
qed

text \<open>
  What \<open>AddClientConnection\<close> does: the viewer is in the map, its connection has got the
  response header, the head and the last tag, and the parser is where it was.
\<close>

lemma AddClientConnection_ok:
  assumes "header_ok srv" "unat (headers_length (rm_flv_manager (srv_rtmp srv))) \<le> 4096" "tags_ok srv p"
    "clients_ok e (client_map srv) n" "live e v n"
  shows "safe (may_fill e) (\<lambda>(srv', n'). viewer_ok e v (net_out v n @ join_bytes srv) (srv', n') \<and>
      net_out v n' = net_out v n @ join_bytes srv @ http_chunk (tag_bytes (first_tag srv)) \<and>
      chunk_state_of (srv_rtmp srv') = chunk_state_of (srv_rtmp srv) \<and>
      (stream_ok (srv_rtmp srv) \<longrightarrow> stream_ok (srv_rtmp srv')))
    (AddClientConnection e (RtmpClientConnection_new v) srv n)"
proof -
  let ?cl = "RtmpClientConnection_new v"
  let ?m = "map_set v ?cl (client_map srv)"
  let ?srv = "srv\<lparr>client_map := ?m\<rparr>"
  have "header_ok ?srv" "unat (headers_length (rm_flv_manager (srv_rtmp ?srv))) \<le> 4096"
    using assms(1,2) by (simp_all add: header_ok_def)
  then obtain hb fm where hb: "GetHeaderDataBuffer ?srv =
      Inr (hb, ?srv\<lparr>srv_rtmp := (srv_rtmp ?srv)\<lparr>rm_flv_manager := fm\<rparr>, header_buffer := hb\<rparr>)"
    "buf_ok hb" "readable hb = response_header @ http_chunk (head_bytes (rm_flv_manager (srv_rtmp ?srv)))"
    "ReadableLength hb \<le> 2 ^ 62" "manager_ok fm"
    "GetCurrentTagSize (video_audio_tag1 fm) = GetCurrentTagSize (video_audio_tag1 (rm_flv_manager (srv_rtmp ?srv)))"
    by (rule GetHeaderDataBuffer_ok) blast
  let ?t = "first_tag srv"
  let ?heap = "flv_heap (srv_rtmp srv)"
  let ?m1 = "(srv_rtmp srv)\<lparr>rm_flv_manager := fm, flv_heap := ?heap[p := ?t]\<rparr>"
  let ?srv1 = "?srv\<lparr>header_buffer := hb, srv_rtmp := ?m1\<rparr>"
  have t: "tag_complete ?t" "GetCurrentTagSize ?t = GetCurrentTagSize (?heap ! p)"
    using assms(3) by (simp_all add: first_tag_def tags_ok_def tag_completeD)
  obtain tb where tb: "FlvTagBuffer_new ?t = Inr tb" "buf_ok tb" "readable tb = http_chunk (tag_bytes ?t)"
      "ReadableLength tb \<le> 2 ^ 62"
    using FlvTagBuffer_ok [OF tag_completeD [OF t(1)] tag_complete_small [OF t(1)]] by blast
  have run: "AddClientConnection e ?cl srv n =
      ebind (net_send e v (readable hb) n) (\<lambda>n. ebind (net_send e v (readable tb) n) (\<lambda>n. Inr (?srv1, n)))"
    using assms(3) tb(1,2) hb(1,2,6)
    by (simp add: AddClientConnection_def SendHeaderToClientConnection_def RtmpClientConnection_new_def
        SendHeader_def AddNewTag_def net_send_buffer_def ReadBegin_all tags_ok_def Let_def
        GetLastHeaderTagCurrentSize_def first_tag_def)
  show ?thesis unfolding run
  proof (rule safe_ebind [OF net_send_live [OF assms(5)]])
    show "length (readable hb) \<le> 2 ^ 62" using hb(2,4) by simp
    fix n1
    assume n1: "live e v n1 \<and> net_out v n1 = net_out v n @ readable hb \<and>
      (\<forall>x. x \<noteq> v \<longrightarrow> map_find x (net_conns n1) = map_find x (net_conns n) \<and> queued x n1 = queued x n)"
    show "safe (may_fill e) (\<lambda>(srv', n'). viewer_ok e v (net_out v n @ join_bytes srv) (srv', n') \<and>
        net_out v n' = net_out v n @ join_bytes srv @ http_chunk (tag_bytes ?t) \<and>
        chunk_state_of (srv_rtmp srv') = chunk_state_of (srv_rtmp srv) \<and>
        (stream_ok (srv_rtmp srv) \<longrightarrow> stream_ok (srv_rtmp srv')))
      (ebind (net_send e v (readable tb) n1) (\<lambda>n. Inr (?srv1, n)))"
    proof (rule safe_ebind [OF net_send_live [OF conjunct1 [OF n1]]])
      show "length (readable tb) \<le> 2 ^ 62" using tb(2,4) by simp
      fix n2
      assume n2: "live e v n2 \<and> net_out v n2 = net_out v n1 @ readable tb \<and>
        (\<forall>x. x \<noteq> v \<longrightarrow> map_find x (net_conns n2) = map_find x (net_conns n1) \<and> queued x n2 = queued x n1)"
      have out: "net_out v n2 = net_out v n @ join_bytes srv @ http_chunk (tag_bytes ?t)"
        using n1 n2 hb(3) tb(3) by (simp add: join_bytes_def)
      have p1: "present e v n1" using n1 by (simp add: live_present)
      have p2: "present e v n2" using n2 by (simp add: live_present)
      have "present e x n2" if "present e x n" for x
        using present_step [OF p2 conjunct2 [OF conjunct2 [OF n2]]]
          present_step [OF p1 conjunct2 [OF conjunct2 [OF n1]] that] by simp
      then have cl: "clients_ok e ?m n2" using p2 assms(4) by (rule clients_ok_join)
      moreover have "v \<in> keys ?m" by (simp add: map_set_keys)
      ultimately have "viewer_ok e v (net_out v n @ join_bytes srv) (?srv1, n2)"
        using n2 out t(1) cl by (simp add: viewer_ok_def) (rule exI [of _ "[?t]"], simp)
      then show "safe (may_fill e) (\<lambda>(srv', n'). viewer_ok e v (net_out v n @ join_bytes srv) (srv', n') \<and>
          net_out v n' = net_out v n @ join_bytes srv @ http_chunk (tag_bytes ?t) \<and>
          chunk_state_of (srv_rtmp srv') = chunk_state_of (srv_rtmp srv) \<and>
          (stream_ok (srv_rtmp srv) \<longrightarrow> stream_ok (srv_rtmp srv'))) (Inr (?srv1, n2))"
        using out chunk_state_shared [OF _ _ t(2)] assms(3) by (simp add: tags_ok_def)
    qed
  qed
qed

end
