(* ===== verification/RtmpStream.thy ===== *)
theory RtmpStream
  imports RtmpViewer
begin

text \<open>
  What one call of a streaming publisher's message callback does for its viewers
  (\<^verbatim>\<open>RtmpServerConnection::OnBodyData\<close>), and the first tag a viewer gets.
\<close>

section \<open>The callback of a streaming publisher\<close>

lemma DebugParseSize_simps [simp]:
  "srv_rtmp (DebugParseSize k srv) = srv_rtmp srv" "client_map (DebugParseSize k srv) = client_map srv"
  by (simp_all add: DebugParseSize_def Let_def)

lemma viewer_ok_parser:
  "client_map srv' = client_map srv \<Longrightarrow> viewer_ok e v base (srv', n) = viewer_ok e v base (srv, n)"
  "viewer_items v base (srv', n) = viewer_items v base (srv, n)"
  by (simp_all add: viewer_ok_def viewer_items_def)

text \<open>One call of the callback, on bytes \<open>xs\<close> that were appended to the buffer \<open>b\<close>.\<close>

lemma OnBodyData_followed:
  assumes "stream_ok (srv_rtmp srv)" "buf_ok b" "buf_ok c" "readable c = readable b @ xs" "viewer_ok e v base (srv, n)"
    and "length (acc_bytes (srv_rtmp srv)) + ReadableLength b + length xs < 2 ^ 32"
  shows "safe (may_fill e) (\<lambda>(srv', b', n').
      followed (viewer_ok e v base) (viewer_items v base) (srv_rtmp srv) b (srv, n) xs (srv_rtmp srv') b' (srv', n') \<and>
      (ReadableLength b' < 12 \<or> ReadableLength b' < ReadableLength c))
    (OnBodyData e junk srv c n)"
proof -
  have run: "OnBodyData e junk srv c n = ebind (ParseData (OnNewFlvTag e) junk (srv_rtmp srv) c (srv, n))
      (\<lambda>(_, m, b, srv, n). Inr (DebugParseSize (100 * 1000 * 1000) (srv\<lparr>srv_rtmp := m\<rparr>), b, n))"
    by (simp add: OnBodyData_def Server_ParseData_def ebind_assoc case_prod_unfold)
  show ?thesis unfolding run
    by (rule safe_ebind [OF viewer.ParseData_followed [OF assms]], clarify)
      (simp add: followed_def viewer_ok_parser viewer_items_def viewer_ok_def)
qed

section \<open>The first tag of a viewer\<close>

lemma first_tag_item:
  assumes "tags_ok srv p"
  shows "tag_complete (first_tag srv)" "it_prev (tag_item (first_tag srv)) = GetLastHeaderTagCurrentSize srv"
    "11 + to_u32 (length (it_data (tag_item (first_tag srv)))) = last_size (srv_rtmp srv)"
proof -
  have ok: "tag_complete (flv_heap (srv_rtmp srv) ! p)" "hdr_ok (flv_heap (srv_rtmp srv) ! p)"
    and p: "last_flv_tag_ptr srv = Some p" "last_flv_ptr (srv_rtmp srv) = Some p"
    using assms by (simp_all add: tags_ok_def tag_completeD)
  show "tag_complete (first_tag srv)" using ok p by (simp add: first_tag_def)
  show "it_prev (tag_item (first_tag srv)) = GetLastHeaderTagCurrentSize srv"
    using ok p by (simp add: first_tag_def tag_item_setters)
  have "GetCurrentTagSize (flv_heap (srv_rtmp srv) ! p) = 11 + GetDataSize (flv_heap (srv_rtmp srv) ! p)"
    by (simp add: GetCurrentTagSize_def FLV_TAG_HEADER_LENGTH_def)
  then show "11 + to_u32 (length (it_data (tag_item (first_tag srv)))) = last_size (srv_rtmp srv)"
    using ok p by (simp add: first_tag_def tag_item_setters length_data_item last_size_def)
qed

lemma viewer_stream_tail:
  assumes "tags_ok srv p" "snd (feed (chunk_state_of (srv_rtmp srv)) xs) = items"
  shows "chain_from (GetLastHeaderTagCurrentSize srv) (tag_item (first_tag srv) # items)"
  using first_tag_item [OF assms(1)] assms(2) feed_chain [of "chunk_state_of (srv_rtmp srv)" xs]
  by (cases "feed (chunk_state_of (srv_rtmp srv)) xs") simp

section \<open>A running stream, for the witnesses\<close>

definition sample_env :: env where
  "sample_env = \<lparr>env_in_loop = (\<lambda>_. False), env_send = (\<lambda>_ data. (int (length data), OTHER_ERRNO))\<rparr>"

definition sample_net :: net where
  "sample_net = \<lparr>net_conns = [(lit ''p'', (TcpConnection_new (lit ''p'') 8)\<lparr>conn_status := CONNECTED\<rparr>),
     (lit ''v'', (TcpConnection_new (lit ''v'') 9)\<lparr>conn_status := CONNECTED\<rparr>)], net_queue = []\<rparr>"

definition sample_server :: rtmp_server where
  "sample_server = (RtmpServerConnection_new sample_pack (lit ''p''))\<lparr>
     srv_rtmp := sample_parser\<lparr>rm_flv_manager := sample_manager, last_flv_ptr := Some 0, flv_heap := [sample_tag]\<rparr>,
     last_flv_tag_ptr := Some 0, on_body_data := True\<rparr>"

lemma sample_server_ok: "header_ok sample_server" "tags_ok sample_server 0" "stream_ok (srv_rtmp sample_server)"
  "unat (headers_length (rm_flv_manager (srv_rtmp sample_server))) \<le> 4096"
proof -
  show "header_ok sample_server"
    by (simp add: header_ok_def sample_server_def RtmpServerConnection_new_def sample_manager_ok)
  show "tags_ok sample_server 0" by (simp add: tags_ok_def sample_server_def sample_tag_complete)
  have "stream_ok sample_parser" by (rule sample_parser_ok)
  then show "stream_ok (srv_rtmp sample_server)"
    by (simp add: sample_server_def stream_ok_def base_ok_def heap_ok_def)
  have "unat (headers_length sample_manager) = 63"
    by (simp add: unat_headers_length) (simp add: sample_manager_def sample_tag_def GetDataSize_def flv_offsets unat_be24)
  then show "unat (headers_length (rm_flv_manager (srv_rtmp sample_server))) \<le> 4096"
    by (simp add: sample_server_def)
qed

lemma sample_net_ok: "live sample_env (lit ''v'') sample_net" "clients_ok sample_env [] sample_net"
  by (simp_all add: live_def sample_env_def sample_net_def TcpConnection_new_def map_sorted_def send_contract_def
      map_find_Cons fatal_def queued_def clients_ok_def lit_def)

end
