(* ===== verification/RtmpHandshake.thy ===== *)
theory RtmpHandshake
  imports RtmpStream
begin

text \<open>
  The RTMP handshake of a publisher: \<open>ParseShakeHand\<close> and \<open>ShakeHand\<close>. The specification is
  the function \<open>handshake\<close>, which goes over the input message by message and gives what the server answers, where it
  stops and what it leaves; \<open>complete\<close> says when a whole message is in the input buffer.
\<close>

section \<open>One message\<close>

text \<open>The body size of the message at the front; compressed headers take over the last one's.\<close>

definition body_size :: "rtmp_pack \<Rightarrow> bytes \<Rightarrow> nat" where
  "body_size p bs = (case fmt_of (drop_bit 6 (bs ! 0)) of
       FMT0 \<Rightarrow> unat (be24 (bs ! 4) (bs ! 5) (bs ! 6))
     | FMT1 \<Rightarrow> unat (be24 (bs ! 4) (bs ! 5) (bs ! 6))
     | _ \<Rightarrow> unat (GetBodyDataSize p))"

definition message_len :: "rtmp_pack \<Rightarrow> bytes \<Rightarrow> nat" where
  "message_len p bs = header_len (bs ! 0) + body_size p bs"

definition complete :: "rtmp_pack \<Rightarrow> bytes \<Rightarrow> bool" where
  "complete p bs \<longleftrightarrow> bs \<noteq> [] \<and> header_len (bs ! 0) \<le> length bs \<and> message_len p bs \<le> length bs"

definition message_body :: "rtmp_pack \<Rightarrow> bytes \<Rightarrow> bytes" where
  "message_body p bs = take (body_size p bs) (drop (header_len (bs ! 0)) bs)"

lemma decoded_size: "decoded bs p p' \<Longrightarrow> unat (GetBodyDataSize p') = body_size p bs"
  by (auto simp: decoded_def body_size_def GetBodyDataSize_def split: RtmpPackFmt.splits)

lemma body_size_fmt [simp]: "body_size (p\<lparr>pk_fmt := f, pk_csid := c\<rparr>) bs = body_size p bs"
  by (simp add: body_size_def GetBodyDataSize_def split: RtmpPackFmt.splits)

definition pack_empty :: "rtmp_pack \<Rightarrow> bool" where
  "pack_empty p \<longleftrightarrow> pack_ok p \<and> readable (pk_buffer p) = []"

lemma ParseHeaderAndBody_ok:
  assumes "buf_ok b" "pack_empty p"
  shows "\<exists>p'. pack_ok p' \<and> (if complete p (readable b) then
      ParseHeaderAndBody b p = Inr (int (message_len p (readable b)),
        AddReadIndex (body_size p (readable b)) (AddReadIndex (header_len (readable b ! 0)) b), p') \<and>
      readable (pk_buffer p') = message_body p (readable b)
    else ParseHeaderAndBody b p = Inr (0, b, p') \<and> pack_empty p' \<and> body_size p' (readable b) = body_size p (readable b))"
proof (cases "readable b = [] \<or> ReadableLength b < header_len (readable b ! 0)")
  case True
  from ParseHeader_short [OF assms(1) this] obtain f c where
    "ParseHeader b p = Inr (0, p\<lparr>pk_fmt := f, pk_csid := c\<rparr>)" by blast
  moreover have "\<not> complete p (readable b)" using True length_readable [OF assms(1)] by (auto simp: complete_def)
  ultimately show ?thesis using assms(2)
    by (intro exI [of _ "p\<lparr>pk_fmt := f, pk_csid := c\<rparr>"])
      (auto simp: ParseHeaderAndBody_def pack_empty_def pack_ok_def)
next
  case False
  let ?h = "header_len (readable b ! 0)"
  let ?n = "body_size p (readable b)"
  have "readable b \<noteq> []" "?h \<le> ReadableLength b" using False by auto
  from ParseHeader_full [OF assms(1) this] obtain p1 where
    p1: "ParseHeader b p = Inr (int ?h, p1)" "decoded (readable b) p p1" by blast
  have size: "unat (GetBodyDataSize p1) = ?n" by (rule decoded_size [OF p1(2)])
  have ok: "pack_ok p1" "pk_buffer p1 = pk_buffer p"
    using decoded_ok [OF p1(2)] assms(2) p1(2) by (auto simp: pack_empty_def decoded_def)
  have h: "0 < ?h" using header_len_bounds [of "readable b ! 0"] by simp
  show ?thesis
  proof (cases "complete p (readable b)")
    case True
    let ?b = "AddReadIndex ?h b"
    have len: "?n \<le> ReadableLength ?b"
      using True length_readable [OF assms(1)] assms(1) by (auto simp: complete_def message_len_def)
    have lt: "length (readable (pk_buffer p1)) + ?n < 2 ^ 32"
      using ok(2) assms(2) unat_u32_lt [of "GetBodyDataSize p1"] size by (simp add: pack_empty_def)
    obtain B where B: "move_bytes ?n ?b p1 = Inr (AddReadIndex ?n ?b, p1\<lparr>pk_buffer := B\<rparr>)" "buf_ok B"
      "readable B = readable (pk_buffer p1) @ take ?n (readable ?b)"
      using move_bytes_ok [OF AddReadIndex_ok [OF assms(1)] ok(1) len lt] by blast
    have rem: "unat (GetBodyRemainSize p1) = ?n"
      using ok assms(2) length_readable [of "pk_buffer p"] size
      by (simp add: GetBodyRemainSize_def GetBodyCurrentSize_def pack_empty_def pack_ok_def to_u32_def)
    have need: "\<not> ReadableLength b < ?n + ?h"
      using True length_readable [OF assms(1)] by (simp add: complete_def message_len_def)
    have "ParseHeaderAndBody b p = Inr (int (?h + ?n), AddReadIndex ?n ?b, p1\<lparr>pk_buffer := B\<rparr>)"
      using h need len by (simp add: ParseHeaderAndBody_def p1(1) size ParseBody_static_def rem B(1) Let_def add.commute)
    moreover have "readable B = message_body p (readable b)"
      using B(3) ok(2) assms by (simp add: message_body_def pack_empty_def)
    moreover have "pack_ok (p1\<lparr>pk_buffer := B\<rparr>)" using ok(1) B(2) by (simp add: pack_ok_def)
    ultimately show ?thesis using True by (intro exI [of _ "p1\<lparr>pk_buffer := B\<rparr>"]) (simp add: message_len_def)
  next
    case inc: False
    then have need: "ReadableLength b < ?n + ?h" using False length_readable [OF assms(1)] by (auto simp: complete_def message_len_def)
    have "body_size p1 (readable b) = ?n"
      using p1(2) by (auto simp: decoded_def body_size_def GetBodyDataSize_def split: RtmpPackFmt.splits)
    then show ?thesis using inc h need ok assms(2) size
      by (intro exI [of _ p1]) (simp add: ParseHeaderAndBody_def p1(1) pack_empty_def Let_def)
  qed
qed

section \<open>The states\<close>

fun hs_next :: "shake_hand_pack_type \<Rightarrow> shake_hand_pack_type option" where
  "hs_next SHAKE_RTMP_C01 = Some SHAKE_RTMP_C2"
| "hs_next SHAKE_RTMP_C2 = Some SHAKE_RTMP_SET_CHUNK_SIZE"
| "hs_next SHAKE_RTMP_SET_CHUNK_SIZE = Some SHAKE_RTMP_CONNECT"
| "hs_next SHAKE_RTMP_CONNECT = Some SHAKE_RTMP_RELEASE_STREAM"
| "hs_next SHAKE_RTMP_RELEASE_STREAM = Some SHAKE_RTMP_FCPUBLISH"
| "hs_next SHAKE_RTMP_FCPUBLISH = Some SHAKE_RTMP_CREATE_STREAM"
| "hs_next SHAKE_RTMP_CREATE_STREAM = Some SHAKE_RTMP_PUBLISH"
| "hs_next SHAKE_RTMP_PUBLISH = Some SHAKE_SUCCESS"
| "hs_next _ = None"

text \<open>How many messages are still expected.\<close>

fun hs_left :: "shake_hand_pack_type \<Rightarrow> nat" where
  "hs_left SHAKE_RTMP_C01 = 8"
| "hs_left SHAKE_RTMP_C2 = 7"
| "hs_left SHAKE_RTMP_SET_CHUNK_SIZE = 6"
| "hs_left SHAKE_RTMP_CONNECT = 5"
| "hs_left SHAKE_RTMP_RELEASE_STREAM = 4"
| "hs_left SHAKE_RTMP_FCPUBLISH = 3"
| "hs_left SHAKE_RTMP_CREATE_STREAM = 2"
| "hs_left SHAKE_RTMP_PUBLISH = 1"
| "hs_left _ = 0"

fun hs_reply :: "shake_hand_pack_type \<Rightarrow> bytes list" where
  "hs_reply SHAKE_RTMP_C01 = [RTMP_SERVER_S01]"
| "hs_reply SHAKE_RTMP_C2 = [RTMP_SERVER_S2]"
| "hs_reply SHAKE_RTMP_CONNECT = [RTMP_SERVER_ACKNOWLEDGE_SIZE, RTMP_SERVER_PEER_BANDWIDTH,
     RTMP_SERVER_SET_CHUNK_SIZE, RTMP_SERVER_CONNECT_RESULT]"
| "hs_reply SHAKE_RTMP_CREATE_STREAM = [RTMP_SERVER_RESULT]"
| "hs_reply SHAKE_RTMP_PUBLISH = [RTMP_SERVER_START]"
| "hs_reply _ = []"

text \<open>What a state waits for is in the buffer.\<close>

definition hs_ready :: "rtmp_pack \<Rightarrow> rtmp_manager \<Rightarrow> bytes \<Rightarrow> bool" where
  "hs_ready junk m bs = (case shake_hand_status m of
       SHAKE_RTMP_C01 \<Rightarrow> 1537 \<le> length bs
     | SHAKE_RTMP_C2 \<Rightarrow> 1536 \<le> length bs
     | SHAKE_RTMP_CONNECT \<Rightarrow> complete (connect_pack m) bs
     | SHAKE_RTMP_RELEASE_STREAM \<Rightarrow> complete (release_pack m) bs
     | SHAKE_RTMP_CREATE_STREAM \<Rightarrow> bs \<noteq> [] \<and> (bs ! 0 = 0xc3 \<or> complete (RtmpPack_new junk) bs)
     | s \<Rightarrow> hs_left s \<noteq> 0 \<and> complete (RtmpPack_new junk) bs)"

text \<open>How much of it the state takes; \<open>0xc3\<close> stands for a message of 26 bytes.\<close>

definition hs_take :: "rtmp_pack \<Rightarrow> rtmp_manager \<Rightarrow> bytes \<Rightarrow> nat" where
  "hs_take junk m bs = (case shake_hand_status m of
       SHAKE_RTMP_C01 \<Rightarrow> 1537
     | SHAKE_RTMP_C2 \<Rightarrow> 1536
     | SHAKE_RTMP_CONNECT \<Rightarrow> message_len (connect_pack m) bs
     | SHAKE_RTMP_RELEASE_STREAM \<Rightarrow> message_len (release_pack m) bs
     | SHAKE_RTMP_CREATE_STREAM \<Rightarrow> if bs ! 0 = 0xc3 then 26 else message_len (RtmpPack_new junk) bs
     | _ \<Rightarrow> message_len (RtmpPack_new junk) bs)"

text \<open>The states still to come, the present one first.\<close>

definition hs_states :: "shake_hand_pack_type list" where
  "hs_states = [SHAKE_RTMP_C01, SHAKE_RTMP_C2, SHAKE_RTMP_SET_CHUNK_SIZE, SHAKE_RTMP_CONNECT, SHAKE_RTMP_RELEASE_STREAM,
     SHAKE_RTMP_FCPUBLISH, SHAKE_RTMP_CREATE_STREAM, SHAKE_RTMP_PUBLISH]"

definition to_come :: "shake_hand_pack_type \<Rightarrow> shake_hand_pack_type list" where
  "to_come s = drop (8 - hs_left s) hs_states"

lemma to_come_next: "hs_next s = Some s' \<Longrightarrow> to_come s = s # to_come s'"
  by (cases s) (auto simp: to_come_def hs_states_def)

lemma to_come_success [simp]: "to_come SHAKE_SUCCESS = []"
  by (simp add: to_come_def hs_states_def)

text \<open>
  The handshake: as long as the message the state waits for is there, it is taken out and answered; behind
  the release message the server stops for the authentication.
\<close>

fun handshake :: "rtmp_pack \<Rightarrow> rtmp_manager \<Rightarrow> shake_hand_pack_type list \<Rightarrow> bytes \<Rightarrow>
    shake_hand_result \<times> bytes \<times> shake_hand_pack_type \<times> bytes" where
  "handshake junk m [] bs = (RESULT_SUCCESS, [], SHAKE_SUCCESS, bs)"
| "handshake junk m (s # ss) bs =
     (if \<not> hs_ready junk (m\<lparr>shake_hand_status := s\<rparr>) bs then (RESULT_DATA_NOT_ENOUGH, [], s, bs)
      else let rest = drop (hs_take junk (m\<lparr>shake_hand_status := s\<rparr>) bs) bs in
        if s = SHAKE_RTMP_RELEASE_STREAM then (RESULT_AUTHENTICATE, [], SHAKE_RTMP_FCPUBLISH, rest)
        else let (r, out, t, bs') = handshake junk m ss rest in (r, concat (hs_reply s) @ out, t, bs'))"

text \<open>The message objects of the connect and of the release message are those of the start until their messages have come.\<close>

definition hs_fresh :: "rtmp_manager \<Rightarrow> rtmp_manager \<Rightarrow> bool" where
  "hs_fresh m0 m \<longleftrightarrow> (5 \<le> hs_left (shake_hand_status m) \<longrightarrow> connect_pack m = connect_pack m0) \<and>
     (4 \<le> hs_left (shake_hand_status m) \<longrightarrow> release_pack m = release_pack m0)"

lemma hs_fresh_same:
  assumes "hs_fresh m0 m"
  shows "hs_ready junk (m0\<lparr>shake_hand_status := shake_hand_status m\<rparr>) bs = hs_ready junk m bs"
    "hs_take junk (m0\<lparr>shake_hand_status := shake_hand_status m\<rparr>) bs = hs_take junk m bs"
  using assms by (cases "shake_hand_status m"; simp add: hs_fresh_def hs_ready_def hs_take_def)+

definition hs_ok :: "rtmp_pack \<Rightarrow> rtmp_manager \<Rightarrow> bool" where
  "hs_ok junk m \<longleftrightarrow> pack_empty (RtmpPack_new junk) \<and> pack_ok (connect_pack m) \<and> pack_ok (release_pack m) \<and>
     (5 \<le> hs_left (shake_hand_status m) \<longrightarrow> pack_empty (connect_pack m)) \<and>
     (4 \<le> hs_left (shake_hand_status m) \<longrightarrow> pack_empty (release_pack m)) \<and>
     (hs_left (shake_hand_status m) = 0 \<longrightarrow> shake_hand_status m = SHAKE_SUCCESS)"

text \<open>What a call leaves of the manager.\<close>

definition hs_same :: "rtmp_manager \<Rightarrow> rtmp_manager \<Rightarrow> bool" where
  "hs_same m m' \<longleftrightarrow> m'\<lparr>shake_hand_status := shake_hand_status m, connect_pack := connect_pack m,
     release_pack := release_pack m\<rparr> = m"

lemma hs_same_trans: "hs_same m m1 \<Longrightarrow> hs_same m1 m2 \<Longrightarrow> hs_same m m2"
  by (cases m, cases m1, cases m2) (simp add: hs_same_def)

lemma hs_sameI [simp]:
  "hs_same m m" "hs_same m (m\<lparr>shake_hand_status := s\<rparr>)" "hs_same m (m\<lparr>connect_pack := p\<rparr>)"
  "hs_same m (m\<lparr>release_pack := p\<rparr>)" "hs_same m (m\<lparr>connect_pack := p, shake_hand_status := s\<rparr>)"
  "hs_same m (m\<lparr>release_pack := p, shake_hand_status := s\<rparr>)"
  "hs_same m (m\<lparr>shake_hand_status := s, connect_pack := p\<rparr>)" "hs_same m (m\<lparr>shake_hand_status := s, release_pack := p\<rparr>)"
  by (simp_all add: hs_same_def)

text \<open>The bodies of the connect and of the release message are kept, and nothing else touches their objects.\<close>

definition hs_kept :: "rtmp_pack \<Rightarrow> rtmp_manager \<Rightarrow> bytes \<Rightarrow> rtmp_manager \<Rightarrow> bool" where
  "hs_kept junk m bs m' \<longleftrightarrow>
     readable (pk_buffer (connect_pack m')) =
       (if shake_hand_status m = SHAKE_RTMP_CONNECT \<and> hs_ready junk m bs then message_body (connect_pack m) bs
        else readable (pk_buffer (connect_pack m))) \<and>
     readable (pk_buffer (release_pack m')) =
       (if shake_hand_status m = SHAKE_RTMP_RELEASE_STREAM \<and> hs_ready junk m bs then message_body (release_pack m) bs
        else readable (pk_buffer (release_pack m))) \<and>
     (shake_hand_status m \<noteq> SHAKE_RTMP_CONNECT \<longrightarrow> connect_pack m' = connect_pack m) \<and>
     (shake_hand_status m \<noteq> SHAKE_RTMP_RELEASE_STREAM \<longrightarrow> release_pack m' = release_pack m)"

text \<open>What one call does in each state.\<close>

definition shake_step :: "rtmp_pack \<Rightarrow> rtmp_manager \<Rightarrow> buffer \<Rightarrow> shake_hand_pack_type \<Rightarrow> rtmp_manager \<Rightarrow> buffer \<Rightarrow> bool" where
  "shake_step junk m b st m' b' \<longleftrightarrow> hs_ok junk m' \<and> buf_ok b' \<and> hs_same m m' \<and>
     hs_kept junk m (readable b) m' \<and>
     (if hs_ready junk m (readable b) then st = shake_hand_status m \<and> hs_next st = Some (shake_hand_status m') \<and>
        readable b' = drop (hs_take junk m (readable b)) (readable b)
      else b' = b \<and> shake_hand_status m' = shake_hand_status m \<and> \<not> hs_ready junk m' (readable b) \<and>
        hs_take junk m' (readable b) = hs_take junk m (readable b) \<and>
        st = (if shake_hand_status m = SHAKE_SUCCESS then SHAKE_SUCCESS else SHAKE_DATA_NOT_ENOUGH))"

text \<open>The states that wait for one message into a message object \<open>p\<close>, kept by \<open>upd\<close>.\<close>

lemma shake_message:
  assumes ok: "buf_ok b" "pack_empty p"
    and run: "ParseShakeHand junk m b = ebind (ParseHeaderAndBody b p) (\<lambda>(parse, b, p).
      if parse > 0 then Inr (cur, (upd p m)\<lparr>shake_hand_status := nx\<rparr>, b)
      else Inr (shake_result parse (upd p m) b))"
    and ready: "hs_ready junk m (readable b) = complete p (readable b)"
    and tk: "complete p (readable b) \<Longrightarrow> hs_take junk m (readable b) = message_len p (readable b)"
    and nx: "hs_next (shake_hand_status m) = Some nx" and cur: "shake_hand_status m = cur"
    and go: "\<And>p'. pack_ok p' \<Longrightarrow> hs_ok junk ((upd p' m)\<lparr>shake_hand_status := nx\<rparr>)"
    and stay: "\<And>p'. pack_empty p' \<Longrightarrow> hs_ok junk (upd p' m)"
    and wait: "\<And>p'. body_size p' (readable b) = body_size p (readable b) \<Longrightarrow>
      hs_ready junk (upd p' m) (readable b) = complete p (readable b)"
      "\<And>p'. body_size p' (readable b) = body_size p (readable b) \<Longrightarrow>
      hs_take junk (upd p' m) (readable b) = hs_take junk m (readable b)"
    and kept: "\<And>p'. complete p (readable b) \<Longrightarrow> readable (pk_buffer p') = message_body p (readable b) \<Longrightarrow>
      hs_kept junk m (readable b) ((upd p' m)\<lparr>shake_hand_status := nx\<rparr>)"
      "\<And>p'. \<not> complete p (readable b) \<Longrightarrow> pack_empty p' \<Longrightarrow> hs_kept junk m (readable b) (upd p' m)"
    and same: "\<And>p'. hs_same m (upd p' m)" "\<And>p'. hs_same m ((upd p' m)\<lparr>shake_hand_status := nx\<rparr>)"
    and status: "\<And>p'. shake_hand_status (upd p' m) = shake_hand_status m"
  shows "\<exists>st m' b'. ParseShakeHand junk m b = Inr (st, m', b') \<and> shake_step junk m b st m' b'"
proof -
  obtain p' where p': "pack_ok p'" "if complete p (readable b) then
      ParseHeaderAndBody b p = Inr (int (message_len p (readable b)),
        AddReadIndex (body_size p (readable b)) (AddReadIndex (header_len (readable b ! 0)) b), p') \<and>
      readable (pk_buffer p') = message_body p (readable b)
    else ParseHeaderAndBody b p = Inr (0, b, p') \<and> pack_empty p' \<and> body_size p' (readable b) = body_size p (readable b)"
    using ParseHeaderAndBody_ok [OF ok] by blast
  show ?thesis
  proof (cases "complete p (readable b)")
    case True
    let ?b = "AddReadIndex (body_size p (readable b)) (AddReadIndex (header_len (readable b ! 0)) b)"
    have "ParseShakeHand junk m b = Inr (shake_hand_status m, (upd p' m)\<lparr>shake_hand_status := nx\<rparr>, ?b)"
      using p'(2) True header_len_bounds [of "readable b ! 0"] by (simp add: run cur message_len_def)
    moreover have "shake_step junk m b (shake_hand_status m) ((upd p' m)\<lparr>shake_hand_status := nx\<rparr>) ?b"
      using True ok(1) ready nx go [OF p'(1)] same(2) tk kept(1) [OF True, of p'] p'(2) by (simp add: shake_step_def message_len_def add.commute)
    ultimately show ?thesis by blast
  next
    case False
    then have e: "pack_empty p'" "body_size p' (readable b) = body_size p (readable b)"
      "ParseHeaderAndBody b p = Inr (0, b, p')" using p'(2) by simp_all
    have "ParseShakeHand junk m b = Inr (SHAKE_DATA_NOT_ENOUGH, upd p' m, b)"
      by (simp add: run e(3) shake_result_def)
    moreover have "shake_step junk m b SHAKE_DATA_NOT_ENOUGH (upd p' m) b"
      using False ok(1) ready stay [OF e(1)] wait(1) [OF e(2)] wait(2) [OF e(2)] same(1) status nx kept(2) [OF False e(1)]
      by (simp add: shake_step_def) auto
    ultimately show ?thesis by blast
  qed
qed

text \<open>A fixed number of bytes taken, and nothing taken.\<close>

lemma shake_take:
  assumes "ParseShakeHand junk m b = Inr (shake_hand_status m, m\<lparr>shake_hand_status := nx\<rparr>, AddReadIndex k b)"
    and "hs_ok junk m" "buf_ok b" "hs_ready junk m (readable b)" "hs_next (shake_hand_status m) = Some nx"
    and "hs_ok junk (m\<lparr>shake_hand_status := nx\<rparr>)" "hs_take junk m (readable b) = k"
    and "shake_hand_status m \<noteq> SHAKE_RTMP_CONNECT" "shake_hand_status m \<noteq> SHAKE_RTMP_RELEASE_STREAM"
  shows "\<exists>st m' b'. ParseShakeHand junk m b = Inr (st, m', b') \<and> shake_step junk m b st m' b'"
proof -
  have "shake_step junk m b (shake_hand_status m) (m\<lparr>shake_hand_status := nx\<rparr>) (AddReadIndex k b)"
    using assms by (auto simp: shake_step_def hs_kept_def)
  then show ?thesis using assms(1) by simp
qed

lemma shake_wait:
  assumes "ParseShakeHand junk m b = Inr (if shake_hand_status m = SHAKE_SUCCESS then SHAKE_SUCCESS
      else SHAKE_DATA_NOT_ENOUGH, m, b)"
    and "hs_ok junk m" "buf_ok b" "\<not> hs_ready junk m (readable b)"
  shows "\<exists>st m' b'. ParseShakeHand junk m b = Inr (st, m', b') \<and> shake_step junk m b st m' b'"
proof -
  have "shake_step junk m b (if shake_hand_status m = SHAKE_SUCCESS then SHAKE_SUCCESS else SHAKE_DATA_NOT_ENOUGH) m b"
    using assms by (auto simp: shake_step_def hs_kept_def)
  then show ?thesis using assms(1) by simp
qed

lemma hs_ok_next:
  assumes "hs_ok junk m" "hs_next (shake_hand_status m) = Some nx" "pack_ok p"
  shows "hs_ok junk (m\<lparr>shake_hand_status := nx\<rparr>)"
    "shake_hand_status m = SHAKE_RTMP_CONNECT \<Longrightarrow> hs_ok junk (m\<lparr>connect_pack := p, shake_hand_status := nx\<rparr>)"
    "shake_hand_status m = SHAKE_RTMP_RELEASE_STREAM \<Longrightarrow> hs_ok junk (m\<lparr>release_pack := p, shake_hand_status := nx\<rparr>)"
  using assms by (cases "shake_hand_status m"; auto simp: hs_ok_def)+

lemma ParseShakeHand_step:
  assumes "hs_ok junk m" "buf_ok b"
  shows "\<exists>st m' b'. ParseShakeHand junk m b = Inr (st, m', b') \<and> shake_step junk m b st m' b'"
proof -
  let ?J = "RtmpPack_new junk"
  have len: "ReadableLength b = length (readable b)" using assms(2) by simp
  have J: "pack_empty ?J" using assms(1) by (simp add: hs_ok_def)
  note fresh = shake_message [OF assms(2) J, where upd = "\<lambda>_ m. m"]
  note nxt = hs_ok_next(1) [OF assms(1) _ conjunct1 [OF J [unfolded pack_empty_def]]]
  show ?thesis
  proof (cases "shake_hand_status m")
    case SHAKE_RTMP_C01
    show ?thesis
    proof (cases "1537 \<le> length (readable b)")
      case True
      show ?thesis by (rule shake_take [OF _ assms, where nx = SHAKE_RTMP_C2 and k = 1537])
          (use True SHAKE_RTMP_C01 nxt in \<open>simp_all add: ParseShakeHand_def hs_ready_def hs_take_def hs_kept_def len\<close>)
    qed (rule shake_wait [OF _ assms], use SHAKE_RTMP_C01 in \<open>simp_all add: ParseShakeHand_def hs_ready_def hs_take_def hs_kept_def len\<close>)
  next
    case SHAKE_RTMP_C2
    show ?thesis
    proof (cases "1536 \<le> length (readable b)")
      case True
      show ?thesis by (rule shake_take [OF _ assms, where nx = SHAKE_RTMP_SET_CHUNK_SIZE and k = 1536])
          (use True SHAKE_RTMP_C2 nxt in \<open>simp_all add: ParseShakeHand_def hs_ready_def hs_take_def hs_kept_def len\<close>)
    qed (rule shake_wait [OF _ assms], use SHAKE_RTMP_C2 in \<open>simp_all add: ParseShakeHand_def hs_ready_def hs_take_def hs_kept_def len\<close>)
  next
    case SHAKE_RTMP_SET_CHUNK_SIZE
    show ?thesis by (rule fresh [where cur = SHAKE_RTMP_SET_CHUNK_SIZE and nx = SHAKE_RTMP_CONNECT])
      (use assms(1) nxt SHAKE_RTMP_SET_CHUNK_SIZE in \<open>simp_all add: ParseShakeHand_def hs_ready_def hs_take_def hs_kept_def\<close>)
  next
    case SHAKE_RTMP_CONNECT
    then have e: "pack_empty (connect_pack m)" using assms(1) by (simp add: hs_ok_def)
    show ?thesis
      by (rule shake_message [OF assms(2) e, where upd = "\<lambda>p. connect_pack_update (\<lambda>_. p)" and cur = SHAKE_RTMP_CONNECT and nx = SHAKE_RTMP_RELEASE_STREAM])
        (use assms(1) hs_ok_next(2) [OF assms(1)] SHAKE_RTMP_CONNECT in
          \<open>auto simp: ParseShakeHand_def hs_ready_def hs_take_def complete_def message_len_def hs_ok_def hs_kept_def pack_empty_def Let_def\<close>)
  next
    case SHAKE_RTMP_RELEASE_STREAM
    then have e: "pack_empty (release_pack m)" using assms(1) by (simp add: hs_ok_def)
    show ?thesis
      by (rule shake_message [OF assms(2) e, where upd = "\<lambda>p. release_pack_update (\<lambda>_. p)" and cur = SHAKE_RTMP_RELEASE_STREAM and nx = SHAKE_RTMP_FCPUBLISH])
        (use assms(1) hs_ok_next(3) [OF assms(1)] SHAKE_RTMP_RELEASE_STREAM in
          \<open>auto simp: ParseShakeHand_def hs_ready_def hs_take_def complete_def message_len_def hs_ok_def hs_kept_def pack_empty_def Let_def\<close>)
  next
    case SHAKE_RTMP_FCPUBLISH
    show ?thesis by (rule fresh [where cur = SHAKE_RTMP_FCPUBLISH and nx = SHAKE_RTMP_CREATE_STREAM])
      (use assms(1) nxt SHAKE_RTMP_FCPUBLISH in \<open>simp_all add: ParseShakeHand_def hs_ready_def hs_take_def hs_kept_def\<close>)
  next
    case SHAKE_RTMP_PUBLISH
    show ?thesis by (rule fresh [where cur = SHAKE_RTMP_PUBLISH and nx = SHAKE_SUCCESS])
      (use assms(1) nxt SHAKE_RTMP_PUBLISH in \<open>simp_all add: ParseShakeHand_def hs_ready_def hs_take_def hs_kept_def\<close>)
  next
    case SHAKE_SUCCESS
    show ?thesis
      by (rule shake_wait [OF _ assms]) (use SHAKE_SUCCESS in \<open>simp_all add: ParseShakeHand_def hs_ready_def hs_take_def hs_kept_def\<close>)
  next
    case SHAKE_RTMP_CREATE_STREAM
    have first: "readable b \<noteq> [] \<Longrightarrow> ReadBegin_at b 0 1 = Inr [readable b ! 0]"
      using readable_prefix [OF assms(2), of 1] by (cases "readable b") (simp_all add: len)
    consider "readable b = []" | "readable b \<noteq> []" "readable b ! 0 = 0xc3" | "readable b \<noteq> []" "readable b ! 0 \<noteq> 0xc3"
      by blast
    then show ?thesis
    proof cases
      case 1
      then show ?thesis by (intro shake_wait [OF _ assms])
        (use SHAKE_RTMP_CREATE_STREAM in \<open>simp_all add: ParseShakeHand_def hs_ready_def hs_take_def len shake_result_def\<close>)
    next
      case 2
      show ?thesis by (rule shake_take [OF _ assms, where nx = SHAKE_RTMP_PUBLISH and k = 26])
          (use 2 first nxt SHAKE_RTMP_CREATE_STREAM in \<open>simp_all add: ParseShakeHand_def hs_ready_def hs_take_def hs_kept_def len\<close>)
    next
      case 3
      show ?thesis by (rule fresh [where cur = SHAKE_RTMP_CREATE_STREAM and nx = SHAKE_RTMP_PUBLISH])
        (use assms(1) nxt first 3 SHAKE_RTMP_CREATE_STREAM in \<open>simp_all add: ParseShakeHand_def hs_ready_def hs_take_def hs_kept_def len\<close>)
    qed
  qed (use assms in \<open>simp_all add: hs_ok_def\<close>)
qed

section \<open>The loop\<close>

text \<open>Nothing happens on the other connections.\<close>

definition others_same :: "bytes \<Rightarrow> net \<Rightarrow> net \<Rightarrow> bool" where
  "others_same c n n' \<longleftrightarrow> (\<forall>x. x \<noteq> c \<longrightarrow> map_find x (net_conns n') = map_find x (net_conns n) \<and> queued x n' = queued x n)"

definition sent :: "env \<Rightarrow> bytes \<Rightarrow> net \<Rightarrow> bytes \<Rightarrow> net \<Rightarrow> bool" where
  "sent e c n out n' \<longleftrightarrow> live e c n' \<and> net_out c n' = net_out c n @ out \<and> others_same c n n'"

lemma sent_trans: "sent e c n xs n1 \<Longrightarrow> sent e c n1 ys n2 \<Longrightarrow> sent e c n (xs @ ys) n2"
  by (simp add: sent_def others_same_def)

lemma sent_refl: "live e c n \<Longrightarrow> sent e c n [] n"
  by (simp add: sent_def others_same_def)

lemma net_send_sent: "live e c n \<Longrightarrow> length data \<le> 2 ^ 62 \<Longrightarrow> safe (may_fill e) (sent e c n data) (net_send e c data n)"
  by (rule safe_mono [OF net_send_live]) (simp_all add: sent_def others_same_def)

lemma send_all_sent:
  "live e c n \<Longrightarrow> \<forall>xs \<in> set xss. length xs \<le> 2 ^ 62 \<Longrightarrow>
   safe (may_fill e) (sent e c n (concat xss)) (append_all (net_send e c) xss n)"
proof (induction xss arbitrary: n)
  case Nil
  then show ?case by (simp add: sent_refl)
next
  case (Cons xs xss)
  have one: "safe (may_fill e) (sent e c n xs) (net_send e c xs n)" using Cons.prems by (simp add: net_send_sent)
  show ?case unfolding append_all.simps
  proof (rule safe_ebind [OF one])
    fix n1
    assume s: "sent e c n xs n1"
    then have "safe (may_fill e) (sent e c n1 (concat xss)) (append_all (net_send e c) xss n1)"
      using Cons.IH [of n1] Cons.prems(2) sent_def [of e c n xs n1] by simp
    then show "safe (may_fill e) (sent e c n (concat (xs # xss))) (append_all (net_send e c) xss n1)"
      by (rule safe_mono) (use sent_trans [OF s] in auto)
  qed
qed

lemma hs_reply_small: "\<forall>xs \<in> set (hs_reply s). length xs \<le> 2 ^ 62"
  by (cases s) (simp_all add: RTMP_SERVER_S01_def RTMP_SERVER_S2_def RTMP_SERVER_ACKNOWLEDGE_SIZE_def
    RTMP_SERVER_PEER_BANDWIDTH_def RTMP_SERVER_SET_CHUNK_SIZE_def RTMP_SERVER_CONNECT_RESULT_def
    RTMP_SERVER_RESULT_def RTMP_SERVER_START_def)

lemma shake_reply_sent:
  assumes "live e c n" "hs_next s = Some s'"
  shows "safe (may_fill e) (\<lambda>(r, n'). r = (if s = SHAKE_RTMP_RELEASE_STREAM then Some RESULT_AUTHENTICATE else None) \<and>
      sent e c n (concat (hs_reply s)) n') (shake_reply e c s n)"
proof -
  note one = send_all_sent [OF assms(1) hs_reply_small [of s]]
  show ?thesis
    using assms one sent_refl [OF assms(1)]
    by (cases s) (auto simp: shake_reply_def Let_def simp del: append_all.simps intro!: safe_ebind [where Q = "case_prod _"])
qed

lemma hs_left_next: "hs_next s = Some s' \<Longrightarrow> hs_left s = Suc (hs_left s')"
  by (cases s) auto

lemma hs_fresh_next:
  assumes "hs_fresh m0 m" "hs_kept junk m bs m'" "hs_next (shake_hand_status m) = Some (shake_hand_status m')"
  shows "hs_fresh m0 m'"
  using assms hs_left_next [OF assms(3)] by (cases "shake_hand_status m") (auto simp: hs_fresh_def hs_kept_def)

text \<open>Where a call of \<open>ShakeHand\<close> ends.\<close>

definition shake_end :: "rtmp_pack \<Rightarrow> rtmp_manager \<Rightarrow> buffer \<Rightarrow> shake_hand_result \<Rightarrow> bool" where
  "shake_end junk m b r \<longleftrightarrow> (case r of
       RESULT_AUTHENTICATE \<Rightarrow> shake_hand_status m = SHAKE_RTMP_FCPUBLISH
     | RESULT_SUCCESS \<Rightarrow> shake_hand_status m = SHAKE_SUCCESS
     | RESULT_DATA_NOT_ENOUGH \<Rightarrow> shake_hand_status m \<noteq> SHAKE_SUCCESS \<and> \<not> hs_ready junk m (readable b)
     | RESULT_FAILED \<Rightarrow> False)"

definition shaken :: "env \<Rightarrow> rtmp_pack \<Rightarrow> bytes \<Rightarrow> rtmp_manager \<Rightarrow> rtmp_manager \<Rightarrow> buffer \<Rightarrow> net \<Rightarrow>
    shake_hand_result \<times> rtmp_manager \<times> buffer \<times> net \<Rightarrow> bool" where
  "shaken e junk c m0 m b n = (\<lambda>(r, m', b', n'). hs_ok junk m' \<and> buf_ok b' \<and> hs_same m m' \<and> shake_end junk m' b' r \<and>
     (\<exists>out. handshake junk m0 (to_come (shake_hand_status m)) (readable b) = (r, out, shake_hand_status m', readable b') \<and>
        sent e c n out n'))"

lemma shaken_step:
  assumes "shake_step junk m b st m1 b1" "hs_ready junk m (readable b)" "sent e c n (concat (hs_reply st)) n1"
    and "hs_fresh m0 m" "st \<noteq> SHAKE_RTMP_RELEASE_STREAM" "shaken e junk c m0 m1 b1 n1 x"
  shows "shaken e junk c m0 m b n x"
proof -
  obtain r m' b' n' where x: "x = (r, m', b', n')" by (cases x)
  have st: "st = shake_hand_status m" "hs_next st = Some (shake_hand_status m1)" "hs_same m m1"
    "readable b1 = drop (hs_take junk m (readable b)) (readable b)"
    using assms(1,2) by (auto simp: shake_step_def)
  obtain out where o: "handshake junk m0 (to_come (shake_hand_status m1)) (readable b1) = (r, out, shake_hand_status m', readable b')"
    "sent e c n1 out n'" and rest: "hs_ok junk m'" "buf_ok b'" "hs_same m1 m'" "shake_end junk m' b' r"
    using assms(6) by (auto simp: shaken_def x)
  have "handshake junk m0 (to_come (shake_hand_status m)) (readable b) =
      (r, concat (hs_reply st) @ out, shake_hand_status m', readable b')"
    using o(1) assms(2,5) st hs_fresh_same [OF assms(4)] to_come_next [of "shake_hand_status m"] by simp
  moreover have "sent e c n (concat (hs_reply st) @ out) n'" by (rule sent_trans [OF assms(3) o(2)])
  ultimately show ?thesis using rest hs_same_trans [OF st(3)] unfolding shaken_def x prod.case by blast
qed

text \<open>The two ways to stop: for the authentication, and at a state whose message is not there.\<close>

lemma shaken_release:
  assumes "shake_step junk m b st m1 b1" "hs_ready junk m (readable b)" "sent e c n (concat (hs_reply st)) n1"
    and "hs_fresh m0 m" "st = SHAKE_RTMP_RELEASE_STREAM"
  shows "shaken e junk c m0 m b n (RESULT_AUTHENTICATE, m1, b1, n1)"
proof -
  have st: "st = shake_hand_status m" "hs_next st = Some (shake_hand_status m1)"
    "readable b1 = drop (hs_take junk m (readable b)) (readable b)"
    using assms(1,2) by (auto simp: shake_step_def)
  then have "handshake junk m0 (to_come (shake_hand_status m)) (readable b) = (RESULT_AUTHENTICATE, [], shake_hand_status m1, readable b1)"
    using assms(2,5) hs_fresh_same [OF assms(4)] to_come_next [of "shake_hand_status m"] by simp
  with assms(1,3,5) st show ?thesis by (auto simp: shaken_def shake_step_def shake_end_def)
qed

lemma shaken_stop:
  assumes "shake_step junk m b st m1 b1" "\<not> hs_ready junk m (readable b)" "live e c n" "hs_fresh m0 m" "hs_ok junk m"
  shows "shaken e junk c m0 m b n
    (if shake_hand_status m = SHAKE_SUCCESS then RESULT_SUCCESS else RESULT_DATA_NOT_ENOUGH, m1, b1, n)"
proof -
  have st: "b1 = b" "shake_hand_status m1 = shake_hand_status m" "\<not> hs_ready junk m1 (readable b)"
    "hs_ok junk m1" "buf_ok b" "hs_same m m1" using assms(1,2) by (auto simp: shake_step_def)
  have "handshake junk m0 (to_come (shake_hand_status m)) (readable b) =
      (if shake_hand_status m = SHAKE_SUCCESS then RESULT_SUCCESS else RESULT_DATA_NOT_ENOUGH, [], shake_hand_status m, readable b)"
  proof (cases "shake_hand_status m = SHAKE_SUCCESS")
    case False
    with assms(5) obtain s' where "hs_next (shake_hand_status m) = Some s'" by (cases "shake_hand_status m") (auto simp: hs_ok_def)
    with False assms(2) to_come_next hs_fresh_same [OF assms(4)] show ?thesis by simp
  qed simp
  then show ?thesis using st sent_refl [OF assms(3)] by (auto simp: shaken_def shake_end_def)
qed

lemma ShakeHand_loop_ok:
  "hs_ok junk m \<Longrightarrow> buf_ok b \<Longrightarrow> live e c n \<Longrightarrow> hs_fresh m0 m \<Longrightarrow> hs_left (shake_hand_status m) < fuel \<Longrightarrow>
   safe (may_fill e) (shaken e junk c m0 m b n) (ShakeHand_loop fuel e junk c m b n)"
proof (induction fuel arbitrary: m b n)
  case 0
  then show ?case by simp
next
  case (Suc fuel)
  obtain st m1 b1 where p: "ParseShakeHand junk m b = Inr (st, m1, b1)" "shake_step junk m b st m1 b1"
    using ParseShakeHand_step [OF Suc.prems(1,2)] by blast
  have ok: "hs_ok junk m1" "buf_ok b1" "hs_kept junk m (readable b) m1" using p(2) by (auto simp: shake_step_def)
  show ?case
  proof (cases "hs_ready junk m (readable b)")
    case True
    then have st: "st = shake_hand_status m" "hs_next st = Some (shake_hand_status m1)"
      using p(2) by (auto simp: shake_step_def)
    show ?thesis unfolding ShakeHand_loop.simps p(1) ebind_simps prod.case
    proof (rule safe_ebind [OF shake_reply_sent [OF Suc.prems(3) st(2)]], clarify)
      fix n1
      assume s: "sent e c n (concat (hs_reply st)) n1"
      then have lv: "live e c n1" by (simp add: sent_def)
      show "safe (may_fill e) (shaken e junk c m0 m b n)
        (case if st = SHAKE_RTMP_RELEASE_STREAM then Some RESULT_AUTHENTICATE else None of
           None \<Rightarrow> ShakeHand_loop fuel e junk c m1 b1 n1 | Some result \<Rightarrow> Inr (result, m1, b1, n1))"
      proof (cases "st = SHAKE_RTMP_RELEASE_STREAM")
        case rel: True
        with shaken_release [OF p(2) True s Suc.prems(4)] show ?thesis by simp
      next
        case other: False
        have "hs_left (shake_hand_status m1) < fuel" using Suc.prems(5) st hs_left_next [OF st(2)] by simp
        moreover have "hs_fresh m0 m1" by (rule hs_fresh_next [OF Suc.prems(4) ok(3)]) (use st in simp)
        ultimately show ?thesis using Suc.IH [OF ok(1,2) lv] other
          by (auto elim!: safe_mono intro: shaken_step [OF p(2) True s Suc.prems(4)])
      qed
    qed
  next
    case False
    then have "st = (if shake_hand_status m = SHAKE_SUCCESS then SHAKE_SUCCESS else SHAKE_DATA_NOT_ENOUGH)"
      using p(2) by (simp add: shake_step_def)
    with shaken_stop [OF p(2) False Suc.prems(3,4,1)] show ?thesis by (simp add: p(1) shake_reply_def split: if_splits)
  qed
qed

section \<open>The handshake as a whole\<close>

lemma ShakeHand_ok:
  assumes "hs_ok junk (srv_rtmp srv)" "buf_ok b" "live e (srv_conn srv) n"
  shows "safe (may_fill e) (\<lambda>(r, srv', b', n'). shaken e junk (srv_conn srv) (srv_rtmp srv) (srv_rtmp srv) b n (r, srv_rtmp srv', b', n') \<and>
      srv' = srv\<lparr>srv_rtmp := srv_rtmp srv'\<rparr>) (ShakeHand e junk srv b n)"
proof -
  have "hs_left (shake_hand_status (srv_rtmp srv)) < 10" by (cases "shake_hand_status (srv_rtmp srv)") simp_all
  moreover have "hs_fresh (srv_rtmp srv) (srv_rtmp srv)" by (simp add: hs_fresh_def)
  ultimately show ?thesis unfolding ShakeHand_def
    by (intro safe_ebind [OF ShakeHand_loop_ok [OF assms, of "srv_rtmp srv" 10]]) auto
qed

text \<open>
  C13: one call of \<^verbatim>\<open>ShakeHand\<close>, on any bytes and in any state of the handshake, does what the specification does. It
  returns after at most eight messages; of the bytes in the buffer it takes exactly the messages that its states wait for, one after the
  other, and the connection is sent exactly the answers to these, in that order, and no other connection anything.
  It stops behind the release message, for the authentication; when the handshake is
  over; or when what the state waits for is not completely there. It never reports a failure, whatever the bytes are.
\<close>

theorem ShakeHand_answers:
  assumes "hs_ok junk (srv_rtmp srv)" "buf_ok b" "live e (srv_conn srv) n"
  shows "safe (may_fill e) (\<lambda>(r, srv', b', n'). \<exists>out.
      handshake junk (srv_rtmp srv) (to_come (shake_hand_status (srv_rtmp srv))) (readable b) =
        (r, out, shake_hand_status (srv_rtmp srv'), readable b') \<and>
      net_out (srv_conn srv) n' = net_out (srv_conn srv) n @ out \<and> others_same (srv_conn srv) n n' \<and>
      shake_end junk (srv_rtmp srv') b' r \<and> r \<noteq> RESULT_FAILED \<and> hs_ok junk (srv_rtmp srv') \<and> buf_ok b')
    (ShakeHand e junk srv b n)"
  by (rule safe_mono [OF ShakeHand_ok [OF assms]]) (auto simp: shaken_def sent_def shake_end_def)

text \<open>The answers to a whole handshake.\<close>

definition handshake_answers :: bytes where
  "handshake_answers = RTMP_SERVER_S01 @ RTMP_SERVER_S2 @ RTMP_SERVER_ACKNOWLEDGE_SIZE @ RTMP_SERVER_PEER_BANDWIDTH @
     RTMP_SERVER_SET_CHUNK_SIZE @ RTMP_SERVER_CONNECT_RESULT @ RTMP_SERVER_RESULT @ RTMP_SERVER_START"

section \<open>Where the handshake goes wrong\<close>

text \<open>
  Behind the release message the handshake stands still. Whatever else the buffer
  holds, the answer to the release message is the authentication; when it accepts, the
  callback returns and leaves the messages behind it in the buffer, where they stay until
  the client happens to send more.
\<close>

lemma accepted_release_waits:
  assumes "hs_ok junk (srv_rtmp srv)" "buf_ok b" "shake_hand_status (srv_rtmp srv) = SHAKE_RTMP_RELEASE_STREAM"
    and "complete (release_pack (srv_rtmp srv)) (readable b)"
  shows "\<exists>srv' b'. shake_hand_status (srv_rtmp srv') = SHAKE_RTMP_FCPUBLISH \<and> srv_conn srv' = srv_conn srv \<and>
    hs_ok junk (srv_rtmp srv') \<and> buf_ok b' \<and> connect_pack (srv_rtmp srv') = connect_pack (srv_rtmp srv) \<and>
    readable (pk_buffer (connect_pack (srv_rtmp srv'))) = readable (pk_buffer (connect_pack (srv_rtmp srv))) \<and>
    readable (pk_buffer (release_pack (srv_rtmp srv'))) = message_body (release_pack (srv_rtmp srv)) (readable b) \<and>
    readable b' = drop (message_len (release_pack (srv_rtmp srv)) (readable b)) (readable b) \<and>
    OnConnectionShakeHand e junk authentication success srv b n s =
      ebind (Authenticate authentication srv') (\<lambda>ok.
        if ok then Inr (srv', b', n, s) else ebind (net_shutdown (srv_conn srv) n) (\<lambda>n. Inr (srv', b', n, s)))"
proof -
  let ?m = "srv_rtmp srv"
  have ready: "hs_ready junk ?m (readable b)" using assms(3,4) by (simp add: hs_ready_def)
  obtain st m1 b1 where p: "ParseShakeHand junk ?m b = Inr (st, m1, b1)" "shake_step junk ?m b st m1 b1"
    using ParseShakeHand_step [OF assms(1,2)] by blast
  then have m1: "st = SHAKE_RTMP_RELEASE_STREAM" "shake_hand_status m1 = SHAKE_RTMP_FCPUBLISH"
      "readable b1 = drop (message_len (release_pack ?m) (readable b)) (readable b)"
      "readable (pk_buffer (release_pack m1)) = message_body (release_pack ?m) (readable b)"
      "connect_pack m1 = connect_pack ?m" "hs_ok junk m1" "buf_ok b1"
    using ready assms(3) by (auto simp: shake_step_def hs_take_def hs_kept_def)
  have loop: "ShakeHand_loop (Suc k) e junk (srv_conn srv) ?m b n = Inr (RESULT_AUTHENTICATE, m1, b1, n)" for k
    by (simp add: p(1) m1(1) shake_reply_def)
  have "ShakeHand e junk srv b n = Inr (RESULT_AUTHENTICATE, srv\<lparr>srv_rtmp := m1\<rparr>, b1, n)"
    using loop [of 9] by (simp add: ShakeHand_def del: ShakeHand_loop.simps)
  with m1 show ?thesis
    by (intro exI [of _ "srv\<lparr>srv_rtmp := m1\<rparr>"] exI [of _ b1])
      (cases "Authenticate authentication (srv\<lparr>srv_rtmp := m1\<rparr>)"; simp add: OnConnectionShakeHand_def)
qed

text \<open>A state that waits for one whole message of its own.\<close>

definition is_message :: "rtmp_pack \<Rightarrow> bytes \<Rightarrow> bool" where
  "is_message p msg \<longleftrightarrow> complete p msg \<and> message_len p msg = length msg \<and> 7 \<le> length msg"

lemma is_message_append:
  assumes "is_message p msg"
  shows "complete p (msg @ rest)" "message_len p (msg @ rest) = length msg"
    "drop (message_len p (msg @ rest)) (msg @ rest) = rest" "(msg @ rest) ! 0 = msg ! 0"
    "message_body p (msg @ rest) = message_body p msg"
proof -
  have "msg ! i = (msg @ rest) ! i" if "i < 7" for i using assms that by (simp add: is_message_def nth_append)
  then have "body_size p (msg @ rest) = body_size p msg" "(msg @ rest) ! 0 = msg ! 0"
    by (simp_all add: body_size_def del: nth_append_length split: RtmpPackFmt.splits)
  with assms show "complete p (msg @ rest)" "message_len p (msg @ rest) = length msg"
    "drop (message_len p (msg @ rest)) (msg @ rest) = rest" "(msg @ rest) ! 0 = msg ! 0"
    "message_body p (msg @ rest) = message_body p msg"
    by (auto simp: is_message_def complete_def message_len_def message_body_def)
qed

section \<open>Inputs for the witnesses\<close>

definition buffer_of :: "bytes \<Rightarrow> buffer" where
  "buffer_of xs = \<lparr>buf_data = replicate 8 0 @ xs, read_idx = 8, write_idx = 8 + length xs, sum_read = 0, sum_write = 0\<rparr>"

lemma buffer_of [simp]: "length xs \<le> 2 ^ 62 \<Longrightarrow> buf_ok (buffer_of xs)" "readable (buffer_of xs) = xs"
  by (simp_all add: buffer_of_def buf_ok_def readable_def max_size_def IDX_BEGIN_def)

definition sample_message :: bytes where
  "sample_message = [basic_header 3 FMT0, 0, 0, 0, 0, 0, 1, 20, 0, 0, 0, 0, 9]"

lemma sample_message: "is_message p sample_message" "sample_message ! 0 \<noteq> 0xc3"
proof -
  have "unat (basic_header 3 FMT0) = 3" by (simp add: unat_basic_header)
  then show "sample_message ! 0 \<noteq> 0xc3" by (auto simp: sample_message_def)
  show "is_message p sample_message"
    by (simp add: is_message_def complete_def message_len_def body_size_def sample_message_def header_len_basic unat_be24)
qed

definition sample_manager_at :: "shake_hand_pack_type \<Rightarrow> rtmp_manager" where
  "sample_manager_at s = (RtmpManager_new sample_pack)\<lparr>shake_hand_status := s\<rparr>"

definition sample_publisher :: "shake_hand_pack_type \<Rightarrow> rtmp_server" where
  "sample_publisher s = (RtmpServerConnection_new sample_pack (lit ''p''))\<lparr>srv_rtmp := sample_manager_at s\<rparr>"

lemma sample_publisher_simps [simp]:
  "srv_rtmp (sample_publisher s) = sample_manager_at s" "srv_conn (sample_publisher s) = lit ''p''"
  "shake_hand_status (sample_manager_at s) = s"
  by (simp_all add: sample_publisher_def RtmpServerConnection_new_def sample_manager_at_def)

lemma sample_publisher_ok: "hs_left s \<noteq> 0 \<Longrightarrow> hs_ok sample_pack (sample_manager_at s)"
  by (simp add: sample_manager_at_def hs_ok_def RtmpManager_new_def pack_empty_def pack_ok_def RtmpPack_new_def sample_pack_def)

lemma sample_net_p: "live sample_env (lit ''p'') sample_net"
  by (simp add: live_def sample_env_def sample_net_def TcpConnection_new_def map_sorted_def send_contract_def
      map_find_Cons fatal_def queued_def lit_def)

theorem ShakeHand_answers_witness:
  "\<exists>srv' b' n'. ShakeHand sample_env sample_pack (sample_publisher SHAKE_RTMP_C01) (buffer_of (replicate 1537 3 @ [1, 2])) sample_net =
     Inr (RESULT_DATA_NOT_ENOUGH, srv', b', n') \<and> shake_hand_status (srv_rtmp srv') = SHAKE_RTMP_C2 \<and> readable b' = [1, 2] \<and>
     net_out (lit ''p'') n' = net_out (lit ''p'') sample_net @ RTMP_SERVER_S01"
proof -
  have nf: "may_fill sample_env = False" by (simp add: may_fill_def sample_env_def)
  have "to_come SHAKE_RTMP_C01 = SHAKE_RTMP_C01 # SHAKE_RTMP_C2 # to_come SHAKE_RTMP_SET_CHUNK_SIZE" by (simp add: to_come_next)
  then have "handshake sample_pack (sample_manager_at SHAKE_RTMP_C01) (to_come SHAKE_RTMP_C01) (replicate 1537 3 @ [1, 2]) =
      (RESULT_DATA_NOT_ENOUGH, RTMP_SERVER_S01, SHAKE_RTMP_C2, [1, 2])"
    by (simp add: hs_ready_def hs_take_def)
  with ShakeHand_answers [of sample_pack "sample_publisher SHAKE_RTMP_C01" "buffer_of (replicate 1537 3 @ [1, 2])" sample_env sample_net]
  show ?thesis using sample_publisher_ok [of SHAKE_RTMP_C01] sample_net_p unfolding nf safe_False by (auto elim!: holdsE)
qed

end
