(* ===== verification/RtmpJoin.thy ===== *)
theory RtmpJoin
  imports RtmpHandshake
begin

text \<open>
  The two ways a viewer can go wrong when it joins a publisher
  (\<^verbatim>\<open>RtmpServerConnection::AddClientConnection\<close>): there is no tag yet, and the head of the stream
  does not fit into the temporary buffer.
\<close>

section \<open>A stream without tags\<close>

text \<open>
  C21: a viewer that joins between the end of the handshake and the first tag brings the
  server down: once the head has been sent the last tag is written through a null pointer.
\<close>

theorem join_before_first_tag:
  assumes "header_ok srv" "unat (headers_length (rm_flv_manager (srv_rtmp srv))) \<le> 4096"
    and "last_flv_tag_ptr srv = None" "live e v n"
  shows "AddClientConnection e (RtmpClientConnection_new v) srv n = Inl NullPointer \<or>
    may_fill e \<and> AddClientConnection e (RtmpClientConnection_new v) srv n = Inl LengthError"
proof -
  let ?srv = "srv\<lparr>client_map := map_set v (RtmpClientConnection_new v) (client_map srv)\<rparr>"
  have "header_ok ?srv" "unat (headers_length (rm_flv_manager (srv_rtmp ?srv))) \<le> 4096"
    using assms(1,2) by (simp_all add: header_ok_def)
  then obtain hb fm where hb: "GetHeaderDataBuffer ?srv =
      Inr (hb, ?srv\<lparr>srv_rtmp := (srv_rtmp ?srv)\<lparr>rm_flv_manager := fm\<rparr>, header_buffer := hb\<rparr>)"
    "buf_ok hb" "ReadableLength hb \<le> 2 ^ 62"
    by (rule GetHeaderDataBuffer_ok) blast
  have run: "AddClientConnection e (RtmpClientConnection_new v) srv n =
      ebind (net_send e v (readable hb) n) (\<lambda>n. Inl NullPointer)"
    using assms(3) hb by (simp add: AddClientConnection_def SendHeaderToClientConnection_def RtmpClientConnection_new_def
        SendHeader_def net_send_buffer_def ReadBegin_all)
  have "length (readable hb) \<le> 2 ^ 62" using hb(2,3) by simp
  from net_send_live [OF assms(4) this] show ?thesis
    unfolding run by (cases "net_send e v (readable hb) n") (auto simp: safe_def)
qed

theorem join_before_first_tag_witness:
  "AddClientConnection sample_env (RtmpClientConnection_new (lit ''v'')) (sample_server\<lparr>last_flv_tag_ptr := None\<rparr>) sample_net
     = Inl NullPointer"
proof -
  have "header_ok (sample_server\<lparr>last_flv_tag_ptr := None\<rparr>)" using sample_server_ok(1) by (simp add: header_ok_def)
  moreover have "may_fill sample_env = False" by (simp add: may_fill_def sample_env_def)
  ultimately show ?thesis
    using join_before_first_tag [of "sample_server\<lparr>last_flv_tag_ptr := None\<rparr>" sample_env "lit ''v''" sample_net]
      sample_server_ok(4) sample_net_ok(1) by simp
qed

section \<open>A head that is too long\<close>

text \<open>The last chunk of a chunked body: a size of zero and an empty trailer.\<close>

definition last_chunk :: bytes where
  "last_chunk = lit ''0'' @ [CR, LF, CR, LF]"

text \<open>
  The head is encoded into a temporary buffer of 4096 bytes. When it is longer, nothing is
  encoded and nobody looks at the result: what every viewer gets behind the
  response header is a chunk of size zero, which ends the body of an HTTP response before
  the first tag. The buffer is kept, so all later viewers get the same.
\<close>

lemma oversize_head_ends_response:
  assumes "4096 < unat (headers_length (rm_flv_manager (srv_rtmp srv)))"
    and "buf_ok (header_buffer srv)" "readable (header_buffer srv) = []"
  shows "\<exists>hb. GetHeaderDataBuffer srv = Inr (hb, srv\<lparr>header_buffer := hb\<rparr>) \<and> buf_ok hb \<and>
    readable hb = response_header @ last_chunk \<and>
    GetHeaderDataBuffer (srv\<lparr>header_buffer := hb\<rparr>) = Inr (hb, srv\<lparr>header_buffer := hb\<rparr>)"
proof -
  let ?hb = "header_buffer srv"
  have "ReadableLength Buffer_new = 0" using length_readable [OF Buffer_new_ok] by simp
  moreover have "ToHexStringWithCrlf 0 = lit ''0'' @ [CR, LF]" by code_simp
  ultimately have rn: "ToHexStringWithCrlf (ReadableLength Buffer_new) = lit ''0'' @ [CR, LF]" by simp
  have empty: "ReadableLength ?hb = 0" using length_readable [OF assms(2)] assms(3) by simp
  have enc: "EncodeHeadersToBuffer (rm_flv_manager (srv_rtmp srv)) Buffer_new = Inr (0, rm_flv_manager (srv_rtmp srv), Buffer_new)"
    using assms(1) by (simp add: EncodeHeadersToBuffer_def Buffer_new_room)
  let ?parts = "[response_header, lit ''0'' @ [CR, LF], [], [13, 10]]"
  have "length (readable ?hb) + length (concat ?parts) \<le> 2 ^ 62"
    by (simp add: assms(3) length_response_header)
  from bq.append_all_ok [OF assms(2) this] obtain b where
    b: "append_all AppendData ?parts ?hb = Inr b" "buf_ok b" "readable b = response_header @ last_chunk"
    by (auto simp: holds_def assms(3) last_chunk_def simp del: append_all.simps)
  then obtain b1 b2 b3 where "AppendData response_header ?hb = Inr b1" "AppendData (lit ''0'' @ [CR, LF]) b1 = Inr b2"
      "AppendData [] b2 = Inr b3" "AppendData [13, 10] b3 = Inr b"
    by (auto simp: result_simps)
  then have "GetHeaderDataBuffer srv = Inr (b, srv\<lparr>header_buffer := b\<rparr>)"
    using empty by (simp add: GetHeaderDataBuffer_def enc rn [simplified] AppendBuffer_eq Let_def)
  moreover have "ReadableLength b \<noteq> 0"
    using length_readable [OF b(2)] b(3) by (simp add: length_response_header)
  ultimately show ?thesis using b by (intro exI [of _ b]) (simp add: GetHeaderDataBuffer_def)
qed

end
