(* ===== verification/LiveServer.thy ===== *)
theory LiveServer
  imports RtmpJoin
begin

text \<open>
  \<^verbatim>\<open>main.cpp\<close>: the two servers' callbacks over the registry of streams. Publishers are
  never deleted, so a pointer to one is its position in \<open>publishers\<close>; a registry entry may
  hold a null pointer, since \<open>map[key]\<close> inserts one. \<open>publisher_of\<close> and \<open>watching\<close> are the
  pointers captured by the callbacks of the connections.
\<close>

section \<open>State\<close>

type_synonym registry = "(bytes \<times> nat option) list"

record live_server =
  publishers :: "rtmp_server list"
  rtmp_connection_map :: registry
  live_net :: net
  publisher_of :: "(bytes \<times> nat) list"
  watching :: "(bytes \<times> nat) list"

definition live_server_new :: live_server where
  "live_server_new = \<lparr>publishers = [], rtmp_connection_map = [], live_net = \<lparr>net_conns = [], net_queue = []\<rparr>,
     publisher_of = [], watching = []\<rparr>"

section \<open>Publishers\<close>

definition OnAuthenticate :: "bytes \<Rightarrow> bytes \<Rightarrow> bool" where
  "OnAuthenticate user passwd = True"

definition OnShakeHandSuccess :: "nat \<Rightarrow> rtmp_server \<Rightarrow> registry \<Rightarrow> registry result" where
  "OnShakeHandSuccess i server_connection reg =
     ebind (GetRtmpPath server_connection) (\<lambda>path. Inr (map_set path (Some i) reg))"

text \<open>\<open>OnConnection\<close>: a new connection gets a publisher; a closed one is left as it is.\<close>

definition Main_OnConnection :: "rtmp_pack \<Rightarrow> bytes \<Rightarrow> live_server \<Rightarrow> live_server result" where
  "Main_OnConnection junk name L = (case map_find name (net_conns (live_net L)) of
       None \<Rightarrow> Inl NullPointer
     | Some c \<Rightarrow>
         Inr (if Connected c then
           L\<lparr>publishers := publishers L @ [RtmpServerConnection_new junk name],
             publisher_of := map_set name (length (publishers L)) (publisher_of L)\<rparr>
         else L))"

text \<open>The message callback of a publisher's connection: the handshake's, then \<open>OnBodyData\<close>.\<close>

definition Publisher_message :: "env \<Rightarrow> rtmp_pack \<Rightarrow> (nat \<Rightarrow> rtmp_pack) \<Rightarrow> nat \<Rightarrow> buffer \<Rightarrow> live_server \<Rightarrow>
    (buffer \<times> live_server) result" where
  "Publisher_message e junk junks i b L =
     (let srv = publishers L ! i in
      if on_body_data srv then
        ebind (OnBodyData e junks srv b (live_net L)) (\<lambda>(srv, b, n).
        Inr (b, L\<lparr>publishers := (publishers L)[i := srv], live_net := n\<rparr>))
      else
        ebind (OnConnectionShakeHand e junk (Some OnAuthenticate) (Some (OnShakeHandSuccess i)) srv b (live_net L)
                 (rtmp_connection_map L)) (\<lambda>(srv, b, n, reg).
        Inr (b, L\<lparr>publishers := (publishers L)[i := srv], live_net := n, rtmp_connection_map := reg\<rparr>)))"

section \<open>Viewers\<close>

definition OnClientMessage :: "env \<Rightarrow> bytes \<Rightarrow> buffer \<Rightarrow> live_server \<Rightarrow> (buffer \<times> live_server) result" where
  "OnClientMessage e name b L =
     ebind (ReadAllAsString b) (\<lambda>(connection_data, b).
     ebind (GetUrl connection_data) (\<lambda>url.
     let (server_connection, reg) = map_index None url (rtmp_connection_map L);
         L = L\<lparr>rtmp_connection_map := reg\<rparr> in
     case server_connection of
       Some i \<Rightarrow>
         ebind (AddClientConnection e (RtmpClientConnection_new name) (publishers L ! i) (live_net L)) (\<lambda>(srv, n).
         Inr (b, L\<lparr>publishers := (publishers L)[i := srv], live_net := n, watching := map_set name i (watching L)\<rparr>))
     | None \<Rightarrow> ebind (net_shutdown name (live_net L)) (\<lambda>n. Inr (b, L\<lparr>live_net := n\<rparr>))))"

text \<open>
  The connection callback that the constructor of \<^verbatim>\<open>RtmpClientConnection\<close> sets captures the plain pointer to its object. The
  object belongs to the map of the publisher it joined last, and lives as long as that map has it.
\<close>

definition Viewer_closed :: "bytes \<Rightarrow> tcp_connection \<Rightarrow> live_server \<Rightarrow> live_server result" where
  "Viewer_closed name c L = (case map_find name (watching L) of
       None \<Rightarrow> Inr L
     | Some i \<Rightarrow> (case map_find name (client_map (publishers L ! i)) of
           None \<Rightarrow> Inl UseAfterFree
         | Some cl \<Rightarrow> ebind (Client_OnConnection (Some OnConnectionClose) cl c (publishers L ! i)) (\<lambda>(_, srv).
             Inr (L\<lparr>publishers := (publishers L)[i := srv]\<rparr>))))"

text \<open>The end of a viewer's connection: \<^verbatim>\<open>TcpConnection::OnClose\<close> with this callback.\<close>

definition Viewer_OnClose :: "bytes \<Rightarrow> live_server \<Rightarrow> live_server result" where
  "Viewer_OnClose name L = (case map_find name (net_conns (live_net L)) of
       None \<Rightarrow> Inl NullPointer
     | Some c \<Rightarrow>
         ebind (OnClose (Some (\<lambda>c L. ebind (Viewer_closed name c (L\<lparr>live_net := (live_net L)\<lparr>net_conns :=
             map_set name c (net_conns (live_net L))\<rparr>\<rparr>)) (\<lambda>L. Inr (c, L)))) None c L) (\<lambda>(_, L). Inr L))"

section \<open>The registry\<close>

text \<open>The URL a connect message carries, and the path that the stream is registered under.\<close>

definition connect_url :: "bytes \<Rightarrow> bytes \<Rightarrow> bool" where
  "connect_url body url \<longleftrightarrow> (\<exists>pre post. body = pre @ url @ 0 # post \<and> 0 \<notin> set url \<and>
     find_sub (lit ''rtmp'') body = Some (length pre))"

lemma GetRtmpUrl_connect:
  assumes "buf_ok (pk_buffer (connect_pack (srv_rtmp srv)))"
    and "connect_url (readable (pk_buffer (connect_pack (srv_rtmp srv)))) url"
  shows "GetRtmpUrl srv = Inr url"
proof -
  obtain pre post where body: "readable (pk_buffer (connect_pack (srv_rtmp srv))) = pre @ url @ 0 # post"
    and url: "0 \<notin> set url" and f: "find_sub (lit ''rtmp'') (pre @ url @ 0 # post) = Some (length pre)"
    using assms(2) by (auto simp: connect_url_def)
  have "length (takeWhile (\<lambda>x. x \<noteq> 0) (url @ 0 # post)) = length url"
    using takeWhile_until [OF url, of post] by simp
  then show ?thesis
    using f by (simp add: GetRtmpUrl_def GetUrlFromConnectPack_def ReadAllAsString_def ReadBegin_all assms(1) body
      str_find_str_def str_len_at_def str_substr_def Let_def)
qed

lemma GetRtmpPath_connect:
  assumes "buf_ok (pk_buffer (connect_pack (srv_rtmp srv)))"
    and "connect_url (readable (pk_buffer (connect_pack (srv_rtmp srv)))) (lit ''rtmp:'' @ [SLASH, SLASH] @ host @ SLASH # p)"
    and "SLASH \<notin> set host" "length host + length p + 8 \<le> max_size"
  shows "GetRtmpPath srv = Inr (strip_slash p)"
proof -
  have "SLASH \<notin> set (lit ''rtmp:'')" by (simp add: lit_def of_char_def)
  from GetPathFromUrl_of_url [OF this assms(3), of p] assms(4)
  have "GetPathFromUrl (lit ''rtmp:'' @ [SLASH, SLASH] @ host @ SLASH # p) = Inr (strip_slash p)" by simp
  then show ?thesis by (simp add: GetRtmpPath_def GetRtmpUrl_connect [OF assms(1,2)])
qed

text \<open>A request line for a path, in a viewer's input buffer.\<close>

definition request_for :: "bytes \<Rightarrow> buffer \<Rightarrow> bool" where
  "request_for p b \<longleftrightarrow> buf_ok b \<and> p \<noteq> [] \<and> SPACE \<notin> set p \<and>
     (\<exists>m rest. readable b = m @ SPACE # SLASH # p @ SPACE # rest \<and> SPACE \<notin> set m)"

lemma OnClientMessage_request:
  assumes "request_for p b"
  shows "OnClientMessage e name b L =
    (let (server_connection, reg) = map_index None (strip_slash p) (rtmp_connection_map L);
         L = L\<lparr>rtmp_connection_map := reg\<rparr>; b = AddReadIndex (ReadableLength b) b in
     case server_connection of
       Some i \<Rightarrow>
         ebind (AddClientConnection e (RtmpClientConnection_new name) (publishers L ! i) (live_net L)) (\<lambda>(srv, n).
         Inr (b, L\<lparr>publishers := (publishers L)[i := srv], live_net := n, watching := map_set name i (watching L)\<rparr>))
     | None \<Rightarrow> ebind (net_shutdown name (live_net L)) (\<lambda>n. Inr (b, L\<lparr>live_net := n\<rparr>)))"
proof -
  obtain m rest where b: "buf_ok b" "readable b = m @ SPACE # SLASH # p @ SPACE # rest" "SPACE \<notin> set m"
    and p: "SPACE \<notin> set p" "p \<noteq> []" using assms by (auto simp: request_for_def)
  have "length (readable b) \<le> max_size" using buf_okD [OF b(1)] by (simp add: length_readable [OF b(1)] ReadableLength_eq [OF b(1)])
  then have "GetUrl (readable b) = Inr (strip_slash p)"
    unfolding b(2) by (intro GetUrl_of_request [OF b(3) p]) simp
  then show ?thesis by (simp add: OnClientMessage_def ReadAllAsString_def ReadBegin_all b(1) Let_def)
qed

text \<open>
  C18: the two sides agree on the name of a stream. When a publisher that connected with
  \<^verbatim>\<open>rtmp://host/path\<close> has finished its handshake, a viewer's request for \<^verbatim>\<open>/path\<close>, with or
  without a trailing slash on either side, makes it a viewer of this publisher, the last
  one that registered the path.
\<close>

theorem viewer_finds_publisher:
  assumes "buf_ok (pk_buffer (connect_pack (srv_rtmp srv)))"
    and "connect_url (readable (pk_buffer (connect_pack (srv_rtmp srv)))) (lit ''rtmp:'' @ [SLASH, SLASH] @ host @ SLASH # p)"
    and "SLASH \<notin> set host" "length host + length p + 8 \<le> max_size"
    and "map_sorted (rtmp_connection_map L)" "request_for q b" "strip_slash q = strip_slash p"
  shows "\<exists>reg. OnShakeHandSuccess i srv (rtmp_connection_map L) = Inr reg \<and>
    OnClientMessage e name b (L\<lparr>rtmp_connection_map := reg\<rparr>) =
      ebind (AddClientConnection e (RtmpClientConnection_new name) (publishers L ! i) (live_net L)) (\<lambda>(srv', n).
      Inr (AddReadIndex (ReadableLength b) b, L\<lparr>rtmp_connection_map := reg, publishers := (publishers L)[i := srv'],
        live_net := n, watching := map_set name i (watching L)\<rparr>))"
proof -
  let ?reg = "map_set (strip_slash p) (Some i) (rtmp_connection_map L)"
  have "OnShakeHandSuccess i srv (rtmp_connection_map L) = Inr ?reg"
    by (simp add: OnShakeHandSuccess_def GetRtmpPath_connect [OF assms(1-4)])
  moreover have "map_index None (strip_slash p) ?reg = (Some i, ?reg)"
    using assms(5) by (simp add: map_index_def map_find_set)
  ultimately show ?thesis
    using assms(7) by (simp add: OnClientMessage_request [OF assms(6)] Let_def)
qed

text \<open>
  A request for a path nobody publishes is answered by shutting the connection, but it
  is not forgotten: the registry gets an entry with a null pointer for every such path, and
  nothing ever removes one. All other entries are untouched.
\<close>

lemma unknown_path_is_registered:
  assumes "request_for p b" "map_sorted (rtmp_connection_map L)"
    and "map_find (strip_slash p) (rtmp_connection_map L) = None" "map_find name (net_conns (live_net L)) = Some c"
  shows "\<exists>L' b'. OnClientMessage e name b L = Inr (b', L') \<and>
    map_find name (net_conns (live_net L')) = Some (Shutdown c) \<and> publishers L' = publishers L \<and>
    map_find (strip_slash p) (rtmp_connection_map L') = Some None \<and>
    card (keys (rtmp_connection_map L')) = Suc (card (keys (rtmp_connection_map L))) \<and>
    (\<forall>k. k \<noteq> strip_slash p \<longrightarrow> map_find k (rtmp_connection_map L') = map_find k (rtmp_connection_map L))"
proof -
  let ?reg = "map_set (strip_slash p) None (rtmp_connection_map L)"
  let ?n = "(live_net L)\<lparr>net_conns := map_set name (Shutdown c) (net_conns (live_net L))\<rparr>"
  have "strip_slash p \<notin> keys (rtmp_connection_map L)"
    using assms(3) by (auto simp: map_find_def keys_def map_of_eq_None_iff)
  moreover have "finite (keys (rtmp_connection_map L))" by (simp add: keys_def)
  ultimately have "card (keys ?reg) = Suc (card (keys (rtmp_connection_map L)))" by (simp add: map_set_keys)
  moreover have "map_find name (map_set name (Shutdown c) (net_conns (live_net L))) = Some (Shutdown c)"
    by (rule map_find_set_same)
  moreover have "OnClientMessage e name b L =
      Inr (AddReadIndex (ReadableLength b) b, L\<lparr>rtmp_connection_map := ?reg, live_net := ?n\<rparr>)"
    using assms(3,4) by (simp add: OnClientMessage_request [OF assms(1)] map_index_def net_shutdown_def net_update_def)
  ultimately show ?thesis using assms(2) by (simp add: map_find_set)
qed

section \<open>What the operations keep\<close>

text \<open>What every operation leaves of a publisher's list of viewers.\<close>

lemma GetHeaderDataBuffer_fields:
  "GetHeaderDataBuffer srv = Inr (b, srv') \<Longrightarrow> client_map srv' = client_map srv \<and> srv_conn srv' = srv_conn srv \<and>
     last_flv_tag_ptr srv' = last_flv_tag_ptr srv"
  by (auto simp: GetHeaderDataBuffer_def result_simps Let_def split: if_splits)

lemma AddClientConnection_fields:
  assumes "AddClientConnection e cl srv n = Inr (srv', n')"
  shows "client_map srv' = map_set (cl_conn cl) cl (client_map srv)" "srv_conn srv' = srv_conn srv"
  using assms by (auto simp: AddClientConnection_def SendHeaderToClientConnection_def result_simps Let_def
      split: option.splits dest!: GetHeaderDataBuffer_fields)

lemma OnNewFlvTag_fields:
  "OnNewFlvTag e p t (srv, n) = Inr (srv', n') \<Longrightarrow> client_map srv' = client_map srv \<and> srv_conn srv' = srv_conn srv"
  by (auto simp: OnNewFlvTag_def result_simps Let_def)

text \<open>What the callback keeps of its own state, the parser keeps.\<close>

lemma new_tag_keeps:
  assumes "\<And>p t s s'. cb p t s = Inr s' \<Longrightarrow> P s \<Longrightarrow> P s'"
  shows "new_tag cb m s = Inr (m', s') \<Longrightarrow> P s \<Longrightarrow> P s'"
  unfolding new_tag_def ProcessNewFlvTag_def Let_def
  by (auto simp: result_simps split: if_splits prod.splits intro: assms)

lemma ParseData_round_keeps:
  assumes "\<And>p t s s'. cb p t s = Inr s' \<Longrightarrow> P s \<Longrightarrow> P s'"
  shows "ParseData_round cb junk m b s = Inr (n, m', b', s') \<Longrightarrow> P s \<Longrightarrow> P s'"
  unfolding ParseData_round_def
  by (auto simp: ebind_case3 result_simps split: if_splits dest: new_tag_keeps [where P = P, rotated] intro: assms)

lemma ParseData_loop_keeps:
  assumes "\<And>p t s s'. cb p t s = Inr s' \<Longrightarrow> P s \<Longrightarrow> P s'"
  shows "ParseData_loop fuel cb junk acc m b s = Inr (n, m', b', s') \<Longrightarrow> P s \<Longrightarrow> P s'"
proof (induction fuel arbitrary: acc m b s)
  case (Suc fuel)
  from Suc.prems(1) obtain k m1 b1 s1 where r: "ParseData_round cb junk m b s = Inr (k, m1, b1, s1)"
    "(if k > 0 then ParseData_loop fuel cb junk (acc + k) m1 b1 s1
      else if k = 0 then Inr (acc, m1\<lparr>parsed_length := size_add (parsed_length m1) (nat acc)\<rparr>, b1, s1)
      else Inr (-1, m1, b1, s1)) = Inr (n, m', b', s')"
    by (auto simp: ebind_case4)
  have "P s1" by (rule ParseData_round_keeps [where P = P, OF _ r(1) Suc.prems(2)]) (rule assms)
  with r(2) Suc.IH show ?case by (auto split: if_splits)
qed simp

lemma OnBodyData_fields:
  assumes "OnBodyData e junk srv b n = Inr (srv', b', n')"
  shows "client_map srv' = client_map srv" "srv_conn srv' = srv_conn srv"
proof -
  let ?P = "\<lambda>(s, n :: net). client_map s = client_map srv \<and> srv_conn s = srv_conn srv"
  obtain k m s1 where r: "ParseData (OnNewFlvTag e) junk (srv_rtmp srv) b (srv, n) = Inr (k, m, b', s1, n')"
    and s': "srv' = DebugParseSize (100 * 1000 * 1000) (s1\<lparr>srv_rtmp := m\<rparr>)"
    using assms by (auto simp: OnBodyData_def Server_ParseData_def ebind_case4 result_simps split: prod.splits)
  have "?P (s1, n')"
  proof (cases "ReadableLength b = 0")
    case True
    then show ?thesis using r by (simp add: ParseData_def)
  next
    case False
    then have run: "ParseData_loop (ReadableLength b + 1) (OnNewFlvTag e) junk 0 (srv_rtmp srv) b (srv, n) = Inr (k, m, b', s1, n')"
      using r by (simp add: ParseData_def)
    show ?thesis
      by (rule ParseData_loop_keeps [where P = ?P, OF _ run]) (auto dest: OnNewFlvTag_fields)
  qed
  then show "client_map srv' = client_map srv" "srv_conn srv' = srv_conn srv"
    by (auto simp: s' DebugParseSize_def Let_def)
qed

lemma ShakeHand_fields:
  "ShakeHand e junk srv b n = Inr (r, srv', b', n') \<Longrightarrow> client_map srv' = client_map srv \<and> srv_conn srv' = srv_conn srv"
  by (auto simp: ShakeHand_def ebind_case4 simp del: ShakeHand_loop.simps)

lemma OnConnectionShakeHand_fields:
  assumes "OnConnectionShakeHand e junk auth (Some (OnShakeHandSuccess i)) srv b n reg = Inr (srv', b', n', reg')"
  shows "client_map srv' = client_map srv" "srv_conn srv' = srv_conn srv" "reg' = reg \<or> (\<exists>path. reg' = map_set path (Some i) reg)"
proof -
  obtain r srv1 b1 n1 where r: "ShakeHand e junk srv b n = Inr (r, srv1, b1, n1)"
    using assms by (auto simp: OnConnectionShakeHand_def ebind_case4)
  note f = ShakeHand_fields [OF r]
  show "client_map srv' = client_map srv" "srv_conn srv' = srv_conn srv" "reg' = reg \<or> (\<exists>path. reg' = map_set path (Some i) reg)"
    using assms f by (cases r; auto simp: OnConnectionShakeHand_def r OnShakeHandSuccess_def result_simps split: if_splits)+
qed

section \<open>Inputs for the witnesses\<close>

text \<open>A publisher that sent \<open>connect\<close> for \<^verbatim>\<open>rtmp://h/live/\<close>, and a viewer's request for \<^verbatim>\<open>/live\<close>.\<close>

definition sample_connect :: bytes where
  "sample_connect = [2, 0, 5] @ (lit ''rtmp:'' @ [SLASH, SLASH] @ lit ''h'' @ SLASH # lit ''live'' @ [SLASH]) @ [0, 9]"

definition sample_announced :: rtmp_server where
  "sample_announced = sample_server\<lparr>srv_rtmp := (srv_rtmp sample_server)\<lparr>connect_pack :=
     (connect_pack (srv_rtmp sample_server))\<lparr>pk_buffer := buffer_of sample_connect\<rparr>\<rparr>\<rparr>"

definition sample_request :: "bytes \<Rightarrow> buffer" where
  "sample_request p = buffer_of (lit ''GET'' @ SPACE # SLASH # p @ SPACE # lit ''HTTP/1.1'')"

definition sample_live :: live_server where
  "sample_live = live_server_new\<lparr>publishers := [sample_server, sample_server], live_net := sample_net,
     rtmp_connection_map := [(lit ''a'', Some 0), (lit ''b'', Some 1)]\<rparr>"

lemma sample_request_for: "p \<noteq> [] \<Longrightarrow> SPACE \<notin> set p \<Longrightarrow> length p \<le> 100 \<Longrightarrow> request_for p (sample_request p)"
  unfolding request_for_def sample_request_def
  by (intro conjI exI [of _ "lit ''GET''"] exI [of _ "lit ''HTTP/1.1''"]) (simp_all add: lit_def of_char_def)

theorem viewer_finds_publisher_witness:
  "\<exists>reg. OnShakeHandSuccess 0 sample_announced [] = Inr reg \<and>
    OnClientMessage sample_env (lit ''v'') (sample_request (lit ''live'')) (sample_live\<lparr>rtmp_connection_map := reg\<rparr>) =
      ebind (AddClientConnection sample_env (RtmpClientConnection_new (lit ''v'')) sample_server sample_net) (\<lambda>(srv', n).
      Inr (AddReadIndex (ReadableLength (sample_request (lit ''live''))) (sample_request (lit ''live'')),
        sample_live\<lparr>rtmp_connection_map := reg, publishers := [srv', sample_server],
        live_net := n, watching := [(lit ''v'', 0)]\<rparr>))"
proof -
  have pk: "pk_buffer (connect_pack (srv_rtmp sample_announced)) = buffer_of sample_connect"
    by (simp add: sample_announced_def)
  have small: "length sample_connect \<le> 2 ^ 62" by (simp add: sample_connect_def)
  have url: "connect_url sample_connect (lit ''rtmp:'' @ [SLASH, SLASH] @ lit ''h'' @ SLASH # lit ''live'' @ [SLASH])"
    unfolding connect_url_def sample_connect_def
    by (intro exI [of _ "[2, 0, 5]"] exI [of _ "[9]"]) (simp add: lit_def of_char_def)
  show ?thesis
    using viewer_finds_publisher [of sample_announced "lit ''h''" "lit ''live'' @ [SLASH]"
      "sample_live\<lparr>rtmp_connection_map := []\<rparr>" "lit ''live''" "sample_request (lit ''live'')" 0 sample_env "lit ''v''"]
      small url sample_request_for [of "lit ''live''"]
    by (simp add: pk lit_def of_char_def max_size_def strip_slash_def sample_live_def live_server_new_def)
qed

text \<open>A viewer's join that succeeds, on one of the sample publishers.\<close>

lemma sample_join:
  assumes "live sample_env (lit ''v'') n"
  obtains srv n' where "AddClientConnection sample_env (RtmpClientConnection_new (lit ''v'')) sample_server n = Inr (srv, n')"
    "live sample_env (lit ''v'') n'"
proof -
  have cl: "clients_ok sample_env (client_map sample_server) n"
    by (simp add: clients_ok_def sample_server_def RtmpServerConnection_new_def)
  have nf: "may_fill sample_env = False" by (simp add: may_fill_def sample_env_def)
  from AddClientConnection_ok [OF sample_server_ok(1,4,2) cl assms]
  have "holds (\<lambda>(srv', n'). live sample_env (lit ''v'') n')
      (AddClientConnection sample_env (RtmpClientConnection_new (lit ''v'')) sample_server n)"
    unfolding nf safe_False by (rule holds_mono) (auto simp: viewer_ok_def)
  then show ?thesis by (rule holdsE) (auto intro: that)
qed

lemma sample_request_joins:
  assumes "request_for p (sample_request p)" "publishers L ! i = sample_server" "live sample_env (lit ''v'') (live_net L)"
    and "map_find (strip_slash p) (rtmp_connection_map L) = Some (Some i)"
  obtains b srv n where "OnClientMessage sample_env (lit ''v'') (sample_request p) L = Inr (b, L\<lparr>publishers := (publishers L)[i := srv],
      live_net := n, watching := map_set (lit ''v'') i (watching L)\<rparr>)" "live sample_env (lit ''v'') n"
proof -
  obtain srv n where r: "AddClientConnection sample_env (RtmpClientConnection_new (lit ''v'')) sample_server (live_net L) = Inr (srv, n)"
    and lv: "live sample_env (lit ''v'') n" by (rule sample_join [OF assms(3)])
  have "map_index None (strip_slash p) (rtmp_connection_map L) = (Some i, rtmp_connection_map L)"
    using assms(4) by (simp add: map_index_def)
  with r assms(2) have "OnClientMessage sample_env (lit ''v'') (sample_request p) L =
      Inr (AddReadIndex (ReadableLength (sample_request p)) (sample_request p), L\<lparr>publishers := (publishers L)[i := srv],
        live_net := n, watching := map_set (lit ''v'') i (watching L)\<rparr>)"
    by (simp add: OnClientMessage_request [OF assms(1)] Let_def)
  with lv show ?thesis by (rule that [rotated])
qed

end
