(* ===== verification/LiveRegistry.thy ===== *)
theory LiveRegistry
  imports LiveServer
begin

text \<open>
  The two servers of \<^verbatim>\<open>main.cpp\<close> as a step relation: who is registered, who watches whom, and which of the objects that the
  callbacks reach through plain pointers exist. A publisher is never deleted; the object of a viewer belongs
  to the map of the publisher it has joined, and its connection's callback uses it once, when the connection ends.
\<close>

section \<open>Connections that have ended\<close>

definition gone :: "bytes \<Rightarrow> net \<Rightarrow> bool" where
  "gone name n \<longleftrightarrow> (\<exists>c. map_find name (net_conns n) = Some c \<and> conn_status c = DISCONNECTED)"

text \<open>Every connection is filed under its name, and what has ended stays so: names are not used again.\<close>

definition filed :: "net \<Rightarrow> bool" where
  "filed n \<longleftrightarrow> map_sorted (net_conns n) \<and> (\<forall>name c. map_find name (net_conns n) = Some c \<longrightarrow> conn_name c = name)"

definition keeps_gone :: "net \<Rightarrow> net \<Rightarrow> bool" where
  "keeps_gone n n' \<longleftrightarrow> filed n' \<and> (\<forall>name. gone name n \<longrightarrow> gone name n')"

lemma keeps_gone_refl: "filed n \<Longrightarrow> keeps_gone n n"
  by (simp add: keeps_gone_def)

lemma keeps_gone_trans: "keeps_gone n n1 \<Longrightarrow> keeps_gone n1 n2 \<Longrightarrow> keeps_gone n n2"
  by (simp add: keeps_gone_def)

lemma keeps_gone_sorted: "keeps_gone n n' \<Longrightarrow> filed n'"
  by (simp add: keeps_gone_def)

lemma filed_sorted: "filed n \<Longrightarrow> map_sorted (net_conns n)"
  by (simp add: filed_def)

lemma keeps_gone_set:
  assumes "filed n" "map_find name (net_conns n) = Some c" "conn_status c = DISCONNECTED \<longrightarrow> conn_status c' = DISCONNECTED"
    and "conn_name c' = conn_name c"
  shows "keeps_gone n (n\<lparr>net_conns := map_set name c' (net_conns n), net_queue := q\<rparr>)"
  using assms by (auto simp: keeps_gone_def gone_def filed_def map_set_sorted map_find_set)

lemma net_shutdown_gone:
  assumes "filed n" "net_shutdown name n = Inr n'"
  shows "keeps_gone n n'"
proof -
  obtain c where c: "map_find name (net_conns n) = Some c" "n' = n\<lparr>net_conns := map_set name (Shutdown c) (net_conns n)\<rparr>"
    using assms(2) by (auto simp: net_shutdown_def net_update_def split: option.splits)
  have "keeps_gone n (n\<lparr>net_conns := map_set name (Shutdown c) (net_conns n), net_queue := net_queue n\<rparr>)"
    by (rule keeps_gone_set [OF assms(1) c(1)]) (simp_all add: Shutdown_def Socket_ShutdownWrite_def Let_def)
  with c(2) show ?thesis by simp
qed

lemma SendInLoop_name:
  assumes "SendInLoop sys None data c s = Inr (c', s')"
  shows "conn_name c' = conn_name c"
  using assms
  by (auto simp: SendInLoop_def send_now_def Shutdown_def Socket_ShutdownWrite_def Let_def ebind_Inr_iff split: if_splits)

lemma net_send_gone:
  assumes "filed n" "net_send e name data n = Inr n'"
  shows "keeps_gone n n'"
proof -
  obtain c where c: "map_find name (net_conns n) = Some c"
    using assms(2) by (auto simp: net_send_def split: option.splits)
  with assms(2) obtain task c' u where s: "Send (env_in_loop e name) (env_send e name) None data c () = Inr (task, c', u)"
    "n' = n\<lparr>net_conns := map_set name c' (net_conns n), net_queue := net_queue n @ (case task of Some d \<Rightarrow> [(name, d)] | None \<Rightarrow> [])\<rparr>"
    by (auto simp: net_send_def ebind_case3)
  have "conn_status c = DISCONNECTED \<longrightarrow> conn_status c' = DISCONNECTED" "conn_name c' = conn_name c"
    using s(1) SendInLoop_name by (auto simp: Send_def split: if_splits elim!: ebind_pairE)
  with keeps_gone_set [OF assms(1) c] s(2) show ?thesis by blast
qed

lemma net_send_buffer_gone:
  "filed n \<Longrightarrow> net_send_buffer e name b n = Inr n' \<Longrightarrow> keeps_gone n n'"
  by (auto simp: net_send_buffer_def result_simps intro: net_send_gone)

lemma send_all_gone:
  "filed n \<Longrightarrow> append_all (net_send e c) xss n = Inr n' \<Longrightarrow> keeps_gone n n'"
proof (induction xss arbitrary: n)
  case (Cons xs xss)
  then obtain n1 where n1: "net_send e c xs n = Inr n1" "append_all (net_send e c) xss n1 = Inr n'" by (auto simp: result_simps)
  have "keeps_gone n n1" by (rule net_send_gone [OF Cons.prems(1) n1(1)])
  with Cons.IH [OF _ n1(2)] show ?case by (blast intro: keeps_gone_trans keeps_gone_sorted)
qed (simp add: keeps_gone_refl)

lemma shake_reply_gone:
  "filed n \<Longrightarrow> shake_reply e c s n = Inr (r, n') \<Longrightarrow> keeps_gone n n'"
  by (cases s) (auto simp: shake_reply_def Let_def keeps_gone_refl simp del: append_all.simps elim!: ebindE ebind_pairE
      dest!: ebind_Inr_iff [THEN iffD1] intro: send_all_gone)

lemma ShakeHand_loop_gone:
  "filed n \<Longrightarrow> ShakeHand_loop fuel e junk c m b n = Inr (r, m', b', n') \<Longrightarrow> keeps_gone n n'"
proof (induction fuel arbitrary: m b n)
  case (Suc fuel)
  then obtain st m1 b1 r1 n1 where 1: "ParseShakeHand junk m b = Inr (st, m1, b1)" "shake_reply e c st n = Inr (r1, n1)"
    "(case r1 of Some result \<Rightarrow> Inr (result, m1, b1, n1) | None \<Rightarrow> ShakeHand_loop fuel e junk c m1 b1 n1) = Inr (r, m', b', n')"
    by (auto simp: ebind_Inr_iff split: prod.splits)
  have k: "keeps_gone n n1" by (rule shake_reply_gone [OF Suc.prems(1) 1(2)])
  show ?case
  proof (cases r1)
    case None
    with 1(3) Suc.IH [OF keeps_gone_sorted [OF k]] k show ?thesis by (auto intro: keeps_gone_trans)
  next
    case (Some x)
    with 1(3) k show ?thesis by simp
  qed
qed simp

lemma OnConnectionShakeHand_gone:
  assumes "filed n" "OnConnectionShakeHand e junk auth success srv b n s = Inr (srv', b', n', s')"
  shows "keeps_gone n n'"
proof -
  obtain r srv1 b1 n1 where r: "ShakeHand e junk srv b n = Inr (r, srv1, b1, n1)"
    using assms(2) by (auto simp: OnConnectionShakeHand_def ebind_case4)
  then obtain m1 where "ShakeHand_loop 10 e junk (srv_conn srv) (srv_rtmp srv) b n = Inr (r, m1, b1, n1)"
    by (auto simp: ShakeHand_def ebind_case4 simp del: ShakeHand_loop.simps)
  from ShakeHand_loop_gone [OF assms(1) this] have k: "keeps_gone n n1" .
  then have "net_shutdown x n1 = Inr n2 \<Longrightarrow> keeps_gone n n2" for x n2
    by (blast intro: keeps_gone_trans net_shutdown_gone keeps_gone_sorted)
  with assms(2) k r show ?thesis
    by (cases r) (auto simp: OnConnectionShakeHand_def result_simps split: if_splits)
qed

lemma send_to_clients_gone:
  "filed n \<Longrightarrow> send_to_clients e b m n = Inr n' \<Longrightarrow> keeps_gone n n'"
proof (induction e b m n rule: send_to_clients.induct)
  case (2 e b name cl m n)
  then obtain n1 where n1: "AddNewTag e cl b n = Inr n1" "send_to_clients e b m n1 = Inr n'" by (auto simp: result_simps)
  have "keeps_gone n n1" using net_send_buffer_gone [OF 2(2)] n1(1) by (simp add: AddNewTag_def)
  with 2(1) n1(2) show ?case by (blast intro: keeps_gone_trans keeps_gone_sorted)
qed (simp add: keeps_gone_refl)

lemma OnBodyData_gone:
  assumes "filed n" "OnBodyData e junk srv b n = Inr (srv', b', n')"
  shows "keeps_gone n n'"
proof -
  let ?P = "\<lambda>(s :: rtmp_server, n1). keeps_gone n n1"
  obtain k m s1 where r: "ParseData (OnNewFlvTag e) junk (srv_rtmp srv) b (srv, n) = Inr (k, m, b', s1, n')"
    using assms(2) by (auto simp: OnBodyData_def Server_ParseData_def ebind_case4 result_simps split: prod.splits)
  have start: "?P (srv, n)" by (simp add: keeps_gone_refl assms(1))
  have "?P (s1, n')"
  proof (cases "ReadableLength b = 0")
    case True
    then show ?thesis using r start by (simp add: ParseData_def)
  next
    case False
    then have run: "ParseData_loop (ReadableLength b + 1) (OnNewFlvTag e) junk 0 (srv_rtmp srv) b (srv, n) = Inr (k, m, b', s1, n')"
      using r by (simp add: ParseData_def)
    show ?thesis
    proof (rule ParseData_loop_keeps [where P = ?P, OF _ run start])
      fix p t s s'
      assume "OnNewFlvTag e p t s = Inr s'" "?P s"
      then show "?P s'"
        by (auto simp: OnNewFlvTag_def result_simps Let_def intro: keeps_gone_trans [OF _ send_to_clients_gone [OF keeps_gone_sorted]])
    qed
  qed
  then show ?thesis by simp
qed

lemma AddClientConnection_gone:
  assumes "filed n" "AddClientConnection e cl srv n = Inr (srv', n')"
  shows "keeps_gone n n'"
proof -
  obtain hb n1 b where 1: "net_send_buffer e (cl_conn cl) hb n = Inr n1" "net_send_buffer e (cl_conn cl) b n1 = Inr n'"
    using assms(2) by (auto simp: AddClientConnection_def SendHeaderToClientConnection_def SendHeader_def AddNewTag_def result_simps Let_def
        split: option.splits)
  have "keeps_gone n n1" by (rule net_send_buffer_gone [OF assms(1) 1(1)])
  with net_send_buffer_gone [OF _ 1(2)] show ?thesis by (blast intro: keeps_gone_trans keeps_gone_sorted)
qed

section \<open>Steps\<close>

text \<open>
  What can happen: a publisher connects, a publisher or a viewer sends something, the connection of a viewer ends, and the
  connections themselves change. A connection that has ended is not read any more, and ends once: \<^verbatim>\<open>OnClose\<close> has taken
  its channel out of the multiplexer.
\<close>

inductive live_step :: "env \<Rightarrow> rtmp_pack \<Rightarrow> (nat \<Rightarrow> rtmp_pack) \<Rightarrow> live_server \<Rightarrow> live_server \<Rightarrow> bool"
  for e junk junks where
  publisher_connects: "Main_OnConnection junk name L = Inr L' \<Longrightarrow> live_step e junk junks L L'"
| publisher_sends: "map_find name (publisher_of L) = Some i \<Longrightarrow> Publisher_message e junk junks i b L = Inr (b', L') \<Longrightarrow>
    live_step e junk junks L L'"
| viewer_requests: "\<not> gone name (live_net L) \<Longrightarrow> OnClientMessage e name b L = Inr (b', L') \<Longrightarrow> live_step e junk junks L L'"
| viewer_leaves: "\<not> gone name (live_net L) \<Longrightarrow> Viewer_OnClose name L = Inr L' \<Longrightarrow> live_step e junk junks L L'"
| network: "keeps_gone (live_net L) n \<Longrightarrow> live_step e junk junks L (L\<lparr>live_net := n\<rparr>)"

definition viewers_keyed :: "rtmp_server \<Rightarrow> bool" where
  "viewers_keyed srv \<longleftrightarrow> map_sorted (client_map srv) \<and> (\<forall>(x, cl) \<in> set (client_map srv). cl_conn cl = x)"

definition points_into :: "'v list \<Rightarrow> (bytes \<times> nat) list \<Rightarrow> bool" where
  "points_into ps m \<longleftrightarrow> map_sorted m \<and> (\<forall>k i. map_find k m = Some i \<longrightarrow> i < length ps)"

definition live_ok :: "live_server \<Rightarrow> bool" where
  "live_ok L \<longleftrightarrow> map_sorted (rtmp_connection_map L) \<and>
     (\<forall>k i. map_find k (rtmp_connection_map L) = Some (Some i) \<longrightarrow> i < length (publishers L)) \<and>
     points_into (publishers L) (publisher_of L) \<and> points_into (publishers L) (watching L) \<and>
     (\<forall>srv \<in> set (publishers L). viewers_keyed srv)"

lemma viewers_keyed_same: "client_map srv' = client_map srv \<Longrightarrow> viewers_keyed srv' = viewers_keyed srv"
  by (simp add: viewers_keyed_def)

lemma viewers_keyed_add:
  assumes "viewers_keyed srv" "client_map srv' = map_set name (RtmpClientConnection_new name) (client_map srv)"
  shows "viewers_keyed srv'"
proof -
  have so: "map_sorted (client_map srv)" using assms(1) by (simp add: viewers_keyed_def)
  show ?thesis using assms std_map.entries_set_iff [OF so]
    by (auto simp: viewers_keyed_def map_set_sorted RtmpClientConnection_new_def split: if_splits)
qed

lemma viewers_keyed_erase:
  assumes "viewers_keyed srv"
  shows "viewers_keyed (OnConnectionClose name srv)"
proof -
  have so: "map_sorted (client_map srv)" using assms by (simp add: viewers_keyed_def)
  show ?thesis using assms std_map.entries_erase_iff [OF so]
    by (auto simp: viewers_keyed_def OnConnectionClose_def map_erase_sorted)
qed

lemma points_into_set: "points_into ps m \<Longrightarrow> length ps \<le> length qs \<Longrightarrow> i < length qs \<Longrightarrow> points_into qs (map_set k i m)"
  using order.strict_trans2 by (fastforce simp: points_into_def map_set_sorted map_find_set split: if_splits)

lemma points_into_longer: "points_into ps m \<Longrightarrow> length ps \<le> length qs \<Longrightarrow> points_into qs m"
  by (auto simp: points_into_def intro: order.strict_trans2)

lemma live_ok_update:
  assumes "live_ok L" "i < length (publishers L)" "viewers_keyed srv"
  shows "live_ok (L\<lparr>publishers := (publishers L)[i := srv]\<rparr>)"
  using assms by (auto simp: live_ok_def points_into_def dest: set_update_subset_insert [THEN subsetD])

lemma live_ok_register:
  assumes "live_ok L" "v = None \<or> (\<exists>i. v = Some i \<and> i < length (publishers L))"
  shows "live_ok (L\<lparr>rtmp_connection_map := map_set path v (rtmp_connection_map L)\<rparr>)"
  using assms by (auto simp: live_ok_def map_set_sorted map_find_set split: if_splits)

text \<open>The object that the callback of an open connection points to is in the map of its publisher.\<close>

definition viewers_alive :: "live_server \<Rightarrow> bool" where
  "viewers_alive L \<longleftrightarrow> (\<forall>name i. map_find name (watching L) = Some i \<longrightarrow>
     gone name (live_net L) \<or> map_find name (client_map (publishers L ! i)) = Some (RtmpClientConnection_new name))"

definition live_inv :: "live_server \<Rightarrow> bool" where
  "live_inv L \<longleftrightarrow> live_ok L \<and> filed (live_net L) \<and> viewers_alive L"

lemma live_ok_index: "live_ok L \<Longrightarrow> i < length (publishers L) \<Longrightarrow> viewers_keyed (publishers L ! i)"
  by (simp add: live_ok_def)

lemma live_ok_append:
  assumes "live_ok L" "viewers_keyed srv"
  shows "live_ok (L\<lparr>publishers := publishers L @ [srv], publisher_of := map_set name (length (publishers L)) (publisher_of L)\<rparr>)"
proof -
  let ?ps = "publishers L @ [srv]"
  have "points_into ?ps (map_set name (length (publishers L)) (publisher_of L))"
    by (rule points_into_set) (use assms(1) in \<open>auto simp: live_ok_def\<close>)
  moreover have "points_into ?ps (watching L)"
    by (rule points_into_longer) (use assms(1) in \<open>auto simp: live_ok_def\<close>)
  ultimately show ?thesis using assms unfolding live_ok_def by (simp add: less_SucI)
qed

lemma live_ok_fields:
  "live_ok (L\<lparr>live_net := n\<rparr>) = live_ok L"
  by (simp add: live_ok_def)

lemma watching_range: "live_ok L \<Longrightarrow> map_find name (watching L) = Some i \<Longrightarrow> i < length (publishers L)"
  by (simp add: live_ok_def points_into_def)

section \<open>What each step does\<close>

lemma Publisher_message_does:
  assumes "Publisher_message e junk junks i b L = Inr (b', L')" "filed (live_net L)"
  obtains srv n reg where "L' = L\<lparr>publishers := (publishers L)[i := srv], live_net := n, rtmp_connection_map := reg\<rparr>"
    "client_map srv = client_map (publishers L ! i)" "keeps_gone (live_net L) n"
    "reg = rtmp_connection_map L \<or> (\<exists>path. reg = map_set path (Some i) (rtmp_connection_map L))"
proof (cases "on_body_data (publishers L ! i)")
  case True
  have "ebind (OnBodyData e junks (publishers L ! i) b (live_net L)) (\<lambda>(srv, b, n).
      Inr (b, L\<lparr>publishers := (publishers L)[i := srv], live_net := n\<rparr>)) = Inr (b', L')"
    using assms(1) True by (simp add: Publisher_message_def)
  then obtain srv b1 n where r: "OnBodyData e junks (publishers L ! i) b (live_net L) = Inr (srv, b1, n)"
    and eq: "(b1, L\<lparr>publishers := (publishers L)[i := srv], live_net := n\<rparr>) = (b', L')"
    by (rule ebind_case3E)
  show ?thesis
    by (rule that [where srv = srv and n = n and reg = "rtmp_connection_map L"])
      (use eq OnBodyData_fields(1) [OF r] OnBodyData_gone [OF assms(2) r] in auto)
next
  case False
  have "ebind (OnConnectionShakeHand e junk (Some OnAuthenticate) (Some (OnShakeHandSuccess i))
        (publishers L ! i) b (live_net L) (rtmp_connection_map L)) (\<lambda>(srv, b, n, reg).
      Inr (b, L\<lparr>publishers := (publishers L)[i := srv], live_net := n, rtmp_connection_map := reg\<rparr>)) = Inr (b', L')"
    using assms(1) False by (simp add: Publisher_message_def)
  then obtain srv b1 n reg where r: "OnConnectionShakeHand e junk (Some OnAuthenticate) (Some (OnShakeHandSuccess i))
        (publishers L ! i) b (live_net L) (rtmp_connection_map L) = Inr (srv, b1, n, reg)"
    and eq: "(b1, L\<lparr>publishers := (publishers L)[i := srv], live_net := n, rtmp_connection_map := reg\<rparr>) = (b', L')"
    by (rule ebind_case4E)
  show ?thesis
    by (rule that [where srv = srv and n = n and reg = reg])
      (use eq OnConnectionShakeHand_fields(1,3) [OF r] OnConnectionShakeHand_gone [OF assms(2) r] in simp_all)
qed

text \<open>A request that finds nobody, and one that joins a publisher.\<close>

lemma OnClientMessage_does:
  assumes "OnClientMessage e name b L = Inr (b', L')" "filed (live_net L)"
  obtains (nobody) reg n where "L' = L\<lparr>rtmp_connection_map := reg, live_net := n\<rparr>" "keeps_gone (live_net L) n"
      "reg = rtmp_connection_map L \<or> (\<exists>path. reg = map_set path None (rtmp_connection_map L))"
  | (joins) url i srv n where "map_find url (rtmp_connection_map L) = Some (Some i)"
      "L' = L\<lparr>publishers := (publishers L)[i := srv], live_net := n, watching := map_set name i (watching L)\<rparr>"
      "client_map srv = map_set name (RtmpClientConnection_new name) (client_map (publishers L ! i))" "keeps_gone (live_net L) n"
proof -
  obtain data b1 where d: "ReadAllAsString b = Inr (data, b1)"
    using assms(1) by (cases "ReadAllAsString b") (auto simp: OnClientMessage_def)
  then obtain url where u: "GetUrl data = Inr url"
    using assms(1) by (cases "GetUrl data") (auto simp: OnClientMessage_def)
  obtain v reg where v: "map_index None url (rtmp_connection_map L) = (v, reg)" by fastforce
  have run: "(case v of Some i \<Rightarrow>
         ebind (AddClientConnection e (RtmpClientConnection_new name) (publishers L ! i) (live_net L)) (\<lambda>(srv, n).
         Inr (b1, L\<lparr>rtmp_connection_map := reg, publishers := (publishers L)[i := srv], live_net := n,
           watching := map_set name i (watching L)\<rparr>))
       | None \<Rightarrow> ebind (net_shutdown name (live_net L)) (\<lambda>n. Inr (b1, L\<lparr>rtmp_connection_map := reg, live_net := n\<rparr>)))
      = Inr (b', L')"
    using assms(1) by (simp add: OnClientMessage_def d u v Let_def cong: option.case_cong)
  show thesis
  proof (cases v)
    case None
    then have reg: "reg = rtmp_connection_map L \<or> (\<exists>path. reg = map_set path None (rtmp_connection_map L))"
      using v by (auto simp: map_index_def split: option.splits)
    obtain n where n: "net_shutdown name (live_net L) = Inr n" "L' = L\<lparr>rtmp_connection_map := reg, live_net := n\<rparr>"
      using run None by (auto simp: ebind_Inr_iff)
    show thesis by (rule nobody [OF n(2) net_shutdown_gone [OF assms(2) n(1)] reg])
  next
    case (Some i)
    then have reg: "map_find url (rtmp_connection_map L) = Some (Some i)" "reg = rtmp_connection_map L"
      using v by (auto simp: map_index_def split: option.splits)
    from run [unfolded Some option.case] obtain srv n where
        a: "AddClientConnection e (RtmpClientConnection_new name) (publishers L ! i) (live_net L) = Inr (srv, n)"
      and eq: "(b1, L\<lparr>rtmp_connection_map := reg, publishers := (publishers L)[i := srv], live_net := n,
           watching := map_set name i (watching L)\<rparr>) = (b', L')"
      by (rule ebind_pairE)
    show thesis
      by (rule joins [OF reg(1), where srv = srv and n = n])
        (use eq reg(2) AddClientConnection_fields(1) [OF a] AddClientConnection_gone [OF assms(2) a] in
          \<open>simp_all add: RtmpClientConnection_new_def\<close>)
  qed
qed

text \<open>The end of a connection, when the viewer's object is there.\<close>

definition ended_net :: "bytes \<Rightarrow> tcp_connection \<Rightarrow> net \<Rightarrow> net" where
  "ended_net name c n = n\<lparr>net_conns := map_set name (on_channel DisableAll (c\<lparr>conn_status := DISCONNECTED\<rparr>)) (net_conns n)\<rparr>"

lemma ended_net_gone:
  assumes "filed n" "map_find name (net_conns n) = Some c"
  shows "keeps_gone n (ended_net name c n)" "gone name (ended_net name c n)"
proof -
  have "keeps_gone n (n\<lparr>net_conns := map_set name (on_channel DisableAll (c\<lparr>conn_status := DISCONNECTED\<rparr>)) (net_conns n), net_queue := net_queue n\<rparr>)"
    by (rule keeps_gone_set [OF assms]) simp_all
  then show "keeps_gone n (ended_net name c n)" by (simp add: ended_net_def)
  show "gone name (ended_net name c n)" by (simp add: gone_def ended_net_def)
qed

lemma Viewer_OnClose_eq:
  assumes "map_find name (net_conns (live_net L)) = Some c"
  shows "Viewer_OnClose name L = Viewer_closed name (on_channel DisableAll (c\<lparr>conn_status := DISCONNECTED\<rparr>))
    (L\<lparr>live_net := ended_net name c (live_net L)\<rparr>)"
proof -
  let ?d = "on_channel DisableAll (c\<lparr>conn_status := DISCONNECTED\<rparr>)" and ?L = "L\<lparr>live_net := ended_net name c (live_net L)\<rparr>"
  show ?thesis using assms
    by (cases "Viewer_closed name ?d ?L") (simp_all add: Viewer_OnClose_def OnClose_def call_def Let_def ended_net_def)
qed

lemma Viewer_OnClose_does:
  assumes "Viewer_OnClose name L = Inr L'" "filed (live_net L)" "viewers_alive L" "\<not> gone name (live_net L)"
  obtains n where "keeps_gone (live_net L) n" "gone name n"
    "map_find name (watching L) = None \<and> L' = L\<lparr>live_net := n\<rparr> \<or>
     (\<exists>i. map_find name (watching L) = Some i \<and>
       L' = L\<lparr>live_net := n, publishers := (publishers L)[i := OnConnectionClose name (publishers L ! i)]\<rparr>)"
proof -
  obtain c where c: "map_find name (net_conns (live_net L)) = Some c"
    using assms(1) by (auto simp: Viewer_OnClose_def split: option.splits)
  let ?d = "on_channel DisableAll (c\<lparr>conn_status := DISCONNECTED\<rparr>)"
  have run: "Viewer_closed name ?d (L\<lparr>live_net := ended_net name c (live_net L)\<rparr>) = Inr L'"
    using assms(1) by (simp add: Viewer_OnClose_eq [OF c])
  show thesis
  proof (rule that [OF ended_net_gone [OF assms(2) c]])
    show "map_find name (watching L) = None \<and> L' = L\<lparr>live_net := ended_net name c (live_net L)\<rparr> \<or>
     (\<exists>i. map_find name (watching L) = Some i \<and>
       L' = L\<lparr>live_net := ended_net name c (live_net L), publishers := (publishers L)[i := OnConnectionClose name (publishers L ! i)]\<rparr>)"
    proof (cases "map_find name (watching L)")
      case None
      then show ?thesis using run by (simp add: Viewer_closed_def)
    next
      case (Some i)
      with assms(3,4) have "map_find name (client_map (publishers L ! i)) = Some (RtmpClientConnection_new name)"
        by (auto simp: viewers_alive_def)
      then show ?thesis using run Some
        by (auto simp: Viewer_closed_def Client_OnConnection_def RtmpClientConnection_new_def Connected_def GetConnectionName_def
            split: if_splits)
    qed
  qed
qed

section \<open>The invariant\<close>

text \<open>A step in which the viewers that were there keep their objects.\<close>

lemma viewers_alive_step:
  assumes "viewers_alive L" "keeps_gone (live_net L) (live_net L')"
    and "\<And>name i. map_find name (watching L') = Some i \<Longrightarrow> gone name (live_net L') \<or>
      map_find name (client_map (publishers L' ! i)) = Some (RtmpClientConnection_new name) \<or>
      map_find name (watching L) = Some i \<and>
        map_find name (client_map (publishers L' ! i)) = map_find name (client_map (publishers L ! i))"
  shows "viewers_alive L'"
  using assms unfolding viewers_alive_def keeps_gone_def by metis

lemma connects_inv:
  assumes "live_inv L" "Main_OnConnection junk name L = Inr L'"
  shows "live_inv L'"
proof -
  have new: "viewers_keyed (RtmpServerConnection_new junk name)"
    by (simp add: viewers_keyed_def RtmpServerConnection_new_def)
  have ok: "live_ok L" "filed (live_net L)" "viewers_alive L" using assms(1) by (simp_all add: live_inv_def)
  let ?L = "L\<lparr>publishers := publishers L @ [RtmpServerConnection_new junk name],
      publisher_of := map_set name (length (publishers L)) (publisher_of L)\<rparr>"
  have "viewers_alive ?L"
    by (rule viewers_alive_step [OF ok(3)])
      (use ok(2) watching_range [OF ok(1)] in \<open>auto simp: keeps_gone_refl nth_append\<close>)
  with live_ok_append [OF ok(1) new] ok have "live_inv ?L" by (simp add: live_inv_def)
  moreover have "L' = L \<or> L' = ?L" using assms(2) by (auto simp: Main_OnConnection_def split: option.splits if_splits)
  ultimately show ?thesis using assms(1) by blast
qed

lemma sends_inv:
  assumes "live_inv L" "map_find name (publisher_of L) = Some i" "Publisher_message e junk junks i b L = Inr (b', L')"
  shows "live_inv L'"
proof -
  have ok: "live_ok L" "filed (live_net L)" "viewers_alive L" using assms(1) by (simp_all add: live_inv_def)
  have i: "i < length (publishers L)" using ok(1) assms(2) by (simp add: live_ok_def points_into_def)
  obtain srv n reg where L': "L' = L\<lparr>publishers := (publishers L)[i := srv], live_net := n, rtmp_connection_map := reg\<rparr>"
    and f: "client_map srv = client_map (publishers L ! i)" "keeps_gone (live_net L) n"
    "reg = rtmp_connection_map L \<or> (\<exists>path. reg = map_set path (Some i) (rtmp_connection_map L))"
    by (rule Publisher_message_does [OF assms(3) ok(2)])
  have "viewers_keyed srv" using live_ok_index [OF ok(1) i] viewers_keyed_same [OF f(1)] by simp
  from live_ok_update [OF ok(1) i this] have u: "live_ok (L\<lparr>publishers := (publishers L)[i := srv]\<rparr>)" .
  have "live_ok (L\<lparr>publishers := (publishers L)[i := srv], rtmp_connection_map := reg\<rparr>)"
    using f(3) u live_ok_register [OF u, of "Some i"] i by (auto simp: live_ok_def)
  then have "live_ok L'" unfolding L' by (simp add: live_ok_def)
  moreover have "viewers_alive L'"
    by (rule viewers_alive_step [OF ok(3)]) (use f(1,2) i in \<open>auto simp: L' nth_list_update\<close>)
  ultimately show ?thesis using keeps_gone_sorted [OF f(2)] by (simp add: live_inv_def L')
qed

lemma requests_inv:
  assumes "live_inv L" "OnClientMessage e name b L = Inr (b', L')"
  shows "live_inv L'"
proof -
  have ok: "live_ok L" "filed (live_net L)" "viewers_alive L" using assms(1) by (simp_all add: live_inv_def)
  show ?thesis
  proof (cases rule: OnClientMessage_does [OF assms(2) ok(2), consumes 0, case_names nobody joins])
    case (nobody reg n)
    have "live_ok (L\<lparr>rtmp_connection_map := reg\<rparr>)"
      using nobody(3) ok(1) live_ok_register [OF ok(1), of None] by auto
    then have "live_ok L'" by (simp add: nobody(1) live_ok_def)
    moreover have "viewers_alive L'" by (rule viewers_alive_step [OF ok(3)]) (use nobody in auto)
    ultimately show ?thesis using keeps_gone_sorted [OF nobody(2)] by (simp add: live_inv_def nobody(1))
  next
    case (joins url i srv n)
    have i: "i < length (publishers L)" using ok(1) joins(1) by (auto simp: live_ok_def)
    note old = live_ok_index [OF ok(1) i]
    have "live_ok (L\<lparr>publishers := (publishers L)[i := srv]\<rparr>)"
      by (rule live_ok_update [OF ok(1) i viewers_keyed_add [OF old joins(3)]])
    then have "live_ok L'" using i points_into_set [of "(publishers L)[i := srv]" "watching L" "(publishers L)[i := srv]" i name]
      by (simp add: joins(2) live_ok_def)
    moreover have "map_sorted (watching L)" "map_sorted (client_map (publishers L ! i))"
      using ok(1) old by (simp_all add: live_ok_def points_into_def viewers_keyed_def)
    then have "viewers_alive L'"
      by (intro viewers_alive_step [OF ok(3)])
        (use joins(3,4) i in \<open>auto simp: joins(2) map_find_set nth_list_update split: if_splits\<close>)
    ultimately show ?thesis using keeps_gone_sorted [OF joins(4)] by (simp add: live_inv_def joins(2))
  qed
qed

lemma leaves_inv:
  assumes "live_inv L" "Viewer_OnClose name L = Inr L'" "\<not> gone name (live_net L)"
  shows "live_inv L'"
proof -
  have ok: "live_ok L" "filed (live_net L)" "viewers_alive L" using assms(1) by (simp_all add: live_inv_def)
  obtain n where n: "keeps_gone (live_net L) n" "gone name n"
    and L': "map_find name (watching L) = None \<and> L' = L\<lparr>live_net := n\<rparr> \<or>
     (\<exists>i. map_find name (watching L) = Some i \<and>
       L' = L\<lparr>live_net := n, publishers := (publishers L)[i := OnConnectionClose name (publishers L ! i)]\<rparr>)"
    by (rule Viewer_OnClose_does [OF assms(2) ok(2,3) assms(3)])
  have "live_ok L'"
  proof (cases "map_find name (watching L)")
    case None
    with L' ok(1) show ?thesis by (auto simp: live_ok_fields)
  next
    case (Some i)
    have i: "i < length (publishers L)" by (rule watching_range [OF ok(1) Some])
    from live_ok_update [OF ok(1) i viewers_keyed_erase [OF live_ok_index [OF ok(1) i]], of name] L' Some
    show ?thesis by (auto simp: live_ok_def)
  qed
  moreover have "viewers_alive L'"
  proof (rule viewers_alive_step [OF ok(3)])
    show "keeps_gone (live_net L) (live_net L')" using L' n(1) by auto
    fix k j
    assume k: "map_find k (watching L') = Some j"
    then have j: "j < length (publishers L)" "map_find k (watching L) = Some j" using L' watching_range [OF ok(1)] by auto
    have so: "map_sorted (client_map (publishers L ! j))" using live_ok_index [OF ok(1) j(1)] by (simp add: viewers_keyed_def)
    show "gone k (live_net L') \<or> map_find k (client_map (publishers L' ! j)) = Some (RtmpClientConnection_new k) \<or>
      map_find k (watching L) = Some j \<and> map_find k (client_map (publishers L' ! j)) = map_find k (client_map (publishers L ! j))"
      using L' n(2) j so watching_range [OF ok(1), of name] by (cases "k = name") (auto simp: nth_list_update OnConnectionClose_def map_find_erase split: if_splits)
  qed
  moreover have "live_net L' = n" using L' by auto
  ultimately show ?thesis using keeps_gone_sorted [OF n(1)] by (simp add: live_inv_def)
qed

lemma live_step_inv: "live_step e junk junks L L' \<Longrightarrow> live_inv L \<Longrightarrow> live_inv L'"
proof (induction rule: live_step.induct)
  case (network L n)
  have "viewers_alive (L\<lparr>live_net := n\<rparr>)" by (rule viewers_alive_step [of L]) (use network in \<open>auto simp: live_inv_def\<close>)
  with network show ?case by (simp add: live_inv_def live_ok_fields keeps_gone_sorted)
qed (auto intro: connects_inv sends_inv requests_inv leaves_inv)

lemma live_run_inv: "(live_step e junk junks)\<^sup>*\<^sup>* L L' \<Longrightarrow> live_inv L \<Longrightarrow> live_inv L'"
  by (induction rule: rtranclp_induct) (auto intro: live_step_inv)

lemma live_server_new_inv: "live_inv live_server_new"
  by (simp add: live_inv_def live_ok_def live_server_new_def points_into_def viewers_alive_def filed_def)

section \<open>Who is registered and who watches\<close>

lemma keys_find: "k \<in> keys m \<longleftrightarrow> map_find k m \<noteq> None"
  by (simp add: map_find_def map_of_eq_None_iff keys_def)

lemma Viewer_OnClose_ends:
  assumes "live_inv L" "map_find name (net_conns (live_net L)) = Some c" "conn_status c \<noteq> DISCONNECTED"
  shows "\<exists>L'. Viewer_OnClose name L = Inr L' \<and> gone name (live_net L') \<and>
    (\<forall>i. map_find name (watching L) = Some i \<longrightarrow> name \<notin> keys (client_map (publishers L' ! i)))"
proof -
  have ok: "live_ok L" "viewers_alive L" "filed (live_net L)" using assms(1) by (simp_all add: live_inv_def)
  then have named: "conn_name c = name" using assms(2) by (simp add: filed_def)
  note g = ended_net_gone(2) [OF ok(3) assms(2)]
  show ?thesis
  proof (cases "map_find name (watching L)")
    case None
    then show ?thesis using g by (simp add: Viewer_OnClose_eq [OF assms(2)] Viewer_closed_def)
  next
    case (Some i)
    have "\<not> gone name (live_net L)" using assms(2,3) by (simp add: gone_def)
    with Some ok(2) have cl: "map_find name (client_map (publishers L ! i)) = Some (RtmpClientConnection_new name)"
      by (auto simp: viewers_alive_def)
    have i: "i < length (publishers L)" by (rule watching_range [OF ok(1) Some])
    then have "map_sorted (client_map (publishers L ! i))" using live_ok_index [OF ok(1) i] by (simp add: viewers_keyed_def)
    then have "name \<notin> keys (map_erase name (client_map (publishers L ! i)))" by (simp add: keys_find map_find_erase)
    then show ?thesis using g Some cl i named
      by (simp add: Viewer_OnClose_eq [OF assms(2)] Viewer_closed_def Client_OnConnection_def RtmpClientConnection_new_def
          Connected_def GetConnectionName_def OnConnectionClose_def on_channel_def Let_def split: prod.splits)
  qed
qed

text \<open>
  C19: the registry and the lists of viewers stay consistent, and the end of a viewer's connection always goes through. The empty server
  has the invariant and every step keeps it: each entry of the registry that is not null, and each publisher that a
  connection's callbacks captured, is a publisher that was made; each publisher's viewers are filed under the names of
  their own connections, once each; every connection is filed under its name; and as long as a viewer's connection has not ended, the viewer object that its callback captured as a plain pointer is
  still held by the publisher it joined last. So when the connection ends, \<^verbatim>\<open>OnClose\<close> does not reach a freed object and no assertion fails,
  and the viewer is taken off that publisher's list.
\<close>

theorem live_server_invariant:
  assumes "live_inv L0" "(live_step e junk junks)\<^sup>*\<^sup>* L0 L"
  shows "live_inv live_server_new \<and> live_inv L \<and>
    (\<forall>name c. map_find name (net_conns (live_net L)) = Some c \<and> conn_status c \<noteq> DISCONNECTED \<longrightarrow>
      (\<exists>L'. Viewer_OnClose name L = Inr L' \<and> gone name (live_net L') \<and>
        (\<forall>i. map_find name (watching L) = Some i \<longrightarrow> name \<notin> keys (client_map (publishers L' ! i)))))"
  using live_run_inv [OF assms(2,1)] live_server_new_inv Viewer_OnClose_ends by blast

section \<open>A viewer of two streams\<close>

lemma request_joins:
  assumes "request_for p b" "map_find (strip_slash p) (rtmp_connection_map L) = Some (Some i)"
    and "OnClientMessage e name b L = Inr (b', L')"
  obtains srv n where "L' = L\<lparr>publishers := (publishers L)[i := srv], live_net := n, watching := map_set name i (watching L)\<rparr>"
    "client_map srv = map_set name (RtmpClientConnection_new name) (client_map (publishers L ! i))"
proof -
  have "map_index None (strip_slash p) (rtmp_connection_map L) = (Some i, rtmp_connection_map L)"
    using assms(2) by (simp add: map_index_def)
  then have "ebind (AddClientConnection e (RtmpClientConnection_new name) (publishers L ! i) (live_net L)) (\<lambda>(srv, n).
      Inr (AddReadIndex (ReadableLength b) b, L\<lparr>publishers := (publishers L)[i := srv], live_net := n,
        watching := map_set name i (watching L)\<rparr>)) = Inr (b', L')"
    using assms(3) by (simp add: OnClientMessage_request [OF assms(1)] Let_def)
  then obtain srv n where r: "AddClientConnection e (RtmpClientConnection_new name) (publishers L ! i) (live_net L) = Inr (srv, n)"
    and eq: "(AddReadIndex (ReadableLength b) b, L\<lparr>publishers := (publishers L)[i := srv], live_net := n,
        watching := map_set name i (watching L)\<rparr>) = (b', L')"
    by (rule ebind_pairE)
  show ?thesis
  proof (rule that)
    show "L' = L\<lparr>publishers := (publishers L)[i := srv], live_net := n, watching := map_set name i (watching L)\<rparr>"
      using eq by (rule Pair_inject) (rule sym)
    show "client_map srv = map_set name (RtmpClientConnection_new name) (client_map (publishers L ! i))"
      using AddClientConnection_fields(1) [OF r] by (simp add: RtmpClientConnection_new_def)
  qed
qed

text \<open>A viewer that its publisher keeps although its connection has ended.\<close>

definition left_behind :: "bytes \<Rightarrow> nat \<Rightarrow> live_server \<Rightarrow> bool" where
  "left_behind name i L \<longleftrightarrow> live_inv L \<and> gone name (live_net L) \<and> i < length (publishers L) \<and>
     map_find name (client_map (publishers L ! i)) = Some (RtmpClientConnection_new name)"

lemma left_behind_step:
  assumes "live_step e junk junks L L'" "left_behind name i L"
  shows "left_behind name i L'"
proof -
  have ok: "live_ok L" "filed (live_net L)" "viewers_alive L" "gone name (live_net L)" "i < length (publishers L)"
    "map_find name (client_map (publishers L ! i)) = Some (RtmpClientConnection_new name)"
    using assms(2) by (simp_all add: left_behind_def live_inv_def)
  have so: "map_sorted (client_map (publishers L ! i))" using live_ok_index [OF ok(1,5)] by (simp add: viewers_keyed_def)
  have inv: "live_inv L'" using live_step_inv [OF assms(1)] assms(2) by (simp add: left_behind_def)
  have "gone name (live_net L') \<and> i < length (publishers L') \<and>
      map_find name (client_map (publishers L' ! i)) = Some (RtmpClientConnection_new name)"
    using assms(1)
  proof cases
    case (publisher_connects nm)
    then have "L' = L \<or> L' = L\<lparr>publishers := publishers L @ [RtmpServerConnection_new junk nm],
        publisher_of := map_set nm (length (publishers L)) (publisher_of L)\<rparr>"
      by (auto simp: Main_OnConnection_def split: option.splits if_splits)
    with ok(4-6) show ?thesis by (auto simp: nth_append)
  next
    case (publisher_sends nm j b b')
    obtain srv n reg where "L' = L\<lparr>publishers := (publishers L)[j := srv], live_net := n, rtmp_connection_map := reg\<rparr>"
      "client_map srv = client_map (publishers L ! j)" "keeps_gone (live_net L) n"
      by (rule Publisher_message_does [OF publisher_sends(2) ok(2)])
    with ok(4-6) show ?thesis by (cases "j = i") (auto simp: keeps_gone_def)
  next
    case (viewer_requests nm b b')
    have ne: "nm \<noteq> name" using viewer_requests(1) ok(4) by auto
    show ?thesis
    proof (cases rule: OnClientMessage_does [OF viewer_requests(2) ok(2), consumes 0, case_names nobody joins])
      case (nobody reg n)
      with ok(4-6) show ?thesis by (auto simp: keeps_gone_def)
    next
      case (joins url j srv n)
      with ok(4-6) ne so show ?thesis by (cases "j = i") (auto simp: keeps_gone_def map_find_set)
    qed
  next
    case (viewer_leaves nm)
    have ne: "nm \<noteq> name" using viewer_leaves(1) ok(4) by auto
    obtain n where n: "keeps_gone (live_net L) n" "map_find nm (watching L) = None \<and> L' = L\<lparr>live_net := n\<rparr> \<or>
     (\<exists>j. map_find nm (watching L) = Some j \<and>
       L' = L\<lparr>live_net := n, publishers := (publishers L)[j := OnConnectionClose nm (publishers L ! j)]\<rparr>)"
      by (rule Viewer_OnClose_does [OF viewer_leaves(2) ok(2,3) viewer_leaves(1)])
    show ?thesis
    proof (cases "map_find nm (watching L)")
      case None
      with n ok(4-6) show ?thesis by (auto simp: keeps_gone_def)
    next
      case (Some j)
      with n ok(4-6) ne so show ?thesis by (cases "j = i") (auto simp: keeps_gone_def OnConnectionClose_def map_find_erase)
    qed
  next
    case (network n)
    with ok(4-6) show ?thesis by (auto simp: keeps_gone_def)
  qed
  with inv show ?thesis by (simp add: left_behind_def)
qed

lemma left_behind_run:
  "(live_step e junk junks)\<^sup>*\<^sup>* L L' \<Longrightarrow> left_behind name i L \<Longrightarrow> left_behind name i L'"
  by (induction rule: rtranclp_induct) (auto intro: left_behind_step)

text \<open>A tag for the viewers of a publisher is given to each of them.\<close>

lemma send_to_clients_append:
  "send_to_clients e b (m @ m') n = ebind (send_to_clients e b m n) (send_to_clients e b m')"
proof (induction m arbitrary: n)
  case (Cons x m)
  obtain name cl where "x = (name, cl)" by (cases x)
  with Cons show ?case by (cases "AddNewTag e cl b n") simp_all
qed simp

lemma send_to_clients_Cons:
  "send_to_clients e b ((name, cl) # m) = (\<lambda>n. ebind (AddNewTag e cl b n) (send_to_clients e b m))"
  by (rule ext) simp

definition is_sent_tags :: "bytes \<Rightarrow> rtmp_server \<Rightarrow> bool" where
  "is_sent_tags name srv \<longleftrightarrow> (\<exists>before behind. \<forall>e b n. send_to_clients e b (client_map srv) n =
     ebind (send_to_clients e b before n) (\<lambda>n. ebind (net_send_buffer e name b n) (send_to_clients e b behind)))"

lemma found_is_sent_tags:
  assumes "map_find name (client_map srv) = Some (RtmpClientConnection_new name)"
  shows "is_sent_tags name srv"
proof -
  have "(name, RtmpClientConnection_new name) \<in> set (client_map srv)" using assms by (simp add: map_find_def map_of_SomeD)
  then obtain before behind where m: "client_map srv = before @ (name, RtmpClientConnection_new name) # behind" by (auto dest: split_list)
  show ?thesis unfolding is_sent_tags_def
    by (rule exI [of _ before], rule exI [of _ behind]) (simp add: m send_to_clients_append send_to_clients_Cons AddNewTag_def RtmpClientConnection_new_def)
qed

lemma joins_two:
  assumes "live_inv L" "request_for p b" "request_for q d" "i \<noteq> j"
    and "map_find (strip_slash p) (rtmp_connection_map L) = Some (Some i)" "OnClientMessage e name b L = Inr (b', L1)"
    and "map_find (strip_slash q) (rtmp_connection_map L) = Some (Some j)" "OnClientMessage e name d L1 = Inr (d', L2)"
  shows "live_inv L2" "i < length (publishers L2)" "map_find name (watching L2) = Some j"
    "map_find name (client_map (publishers L2 ! i)) = Some (RtmpClientConnection_new name)"
    "map_find name (client_map (publishers L2 ! j)) = Some (RtmpClientConnection_new name)"
proof -
  have ij: "i < length (publishers L)" "j < length (publishers L)" using assms(1,5,7) by (auto simp: live_inv_def live_ok_def)
  obtain s1 n1 where 1: "L1 = L\<lparr>publishers := (publishers L)[i := s1], live_net := n1, watching := map_set name i (watching L)\<rparr>"
    "client_map s1 = map_set name (RtmpClientConnection_new name) (client_map (publishers L ! i))"
    by (rule request_joins [OF assms(2,5,6)])
  have reg: "map_find (strip_slash q) (rtmp_connection_map L1) = Some (Some j)" using assms(7) by (simp add: 1(1))
  obtain s2 n2 where 2: "L2 = L1\<lparr>publishers := (publishers L1)[j := s2], live_net := n2, watching := map_set name j (watching L1)\<rparr>"
    "client_map s2 = map_set name (RtmpClientConnection_new name) (client_map (publishers L1 ! j))"
    by (rule request_joins [OF assms(3) reg assms(8)])
  show "live_inv L2" by (rule requests_inv [OF requests_inv [OF assms(1,6)] assms(8)])
  show "i < length (publishers L2)" "map_find name (watching L2) = Some j"
    "map_find name (client_map (publishers L2 ! i)) = Some (RtmpClientConnection_new name)"
    "map_find name (client_map (publishers L2 ! j)) = Some (RtmpClientConnection_new name)"
    using ij assms(4) by (simp_all add: 1 2)
qed

text \<open>
  C20: a viewer that sends a second request on its connection, for another stream, becomes a viewer of both publishers: each of them
  sends it every tag. When its connection ends, only the publisher it joined last is told and takes it off its list. The
  other keeps the dead connection for ever: in every state that the server can reach from then on, that publisher still holds the viewer and gives
  every further tag to it.
\<close>

theorem viewer_of_two_streams:
  assumes "live_inv L" "request_for p b" "request_for q d" "i \<noteq> j"
    and "map_find (strip_slash p) (rtmp_connection_map L) = Some (Some i)" "OnClientMessage e name b L = Inr (b', L1)"
    and "map_find (strip_slash q) (rtmp_connection_map L) = Some (Some j)" "OnClientMessage e name d L1 = Inr (d', L2)"
    and "keeps_gone (live_net L2) n" "map_find name (net_conns n) = Some c" "conn_status c \<noteq> DISCONNECTED"
  shows "is_sent_tags name (publishers L2 ! i) \<and> is_sent_tags name (publishers L2 ! j) \<and>
    (\<exists>L3. Viewer_OnClose name (L2\<lparr>live_net := n\<rparr>) = Inr L3 \<and> name \<notin> keys (client_map (publishers L3 ! j)) \<and>
      (\<forall>L4. (live_step e junk junks)\<^sup>*\<^sup>* L3 L4 \<longrightarrow> gone name (live_net L4) \<and> name \<in> keys (client_map (publishers L4 ! i)) \<and>
        is_sent_tags name (publishers L4 ! i)))"
proof -
  note both = joins_two [OF assms(1-8)]
  let ?L = "L2\<lparr>live_net := n\<rparr>"
  have inv: "live_inv ?L" using live_step_inv [OF network [OF assms(9)] both(1)] .
  have find: "map_find name (net_conns (live_net ?L)) = Some c" using assms(10) by simp
  obtain L3 where 3: "Viewer_OnClose name ?L = Inr L3" "gone name (live_net L3)" "name \<notin> keys (client_map (publishers L3 ! j))"
    using Viewer_OnClose_ends [OF inv find assms(11)] both(3) by auto
  have ng: "\<not> gone name (live_net ?L)" using assms(10,11) by (simp add: gone_def)
  have inv3: "live_inv L3" by (rule leaves_inv [OF inv 3(1) ng])
  have "filed (live_net ?L)" "viewers_alive ?L" using inv by (simp_all add: live_inv_def)
  then obtain n3 where "L3 = ?L\<lparr>live_net := n3, publishers := (publishers ?L)[j := OnConnectionClose name (publishers ?L ! j)]\<rparr>"
    using Viewer_OnClose_does [OF 3(1) _ _ ng] both(3) by fastforce
  then have "left_behind name i L3" using both(2,4) assms(4) inv3 3(2) by (simp add: left_behind_def)
  then have "left_behind name i L4" if "(live_step e junk junks)\<^sup>*\<^sup>* L3 L4" for L4 by (rule left_behind_run [OF that])
  then have "gone name (live_net L4) \<and> name \<in> keys (client_map (publishers L4 ! i)) \<and> is_sent_tags name (publishers L4 ! i)"
    if "(live_step e junk junks)\<^sup>*\<^sup>* L3 L4" for L4
    using that found_is_sent_tags [of name "publishers L4 ! i"] by (fastforce simp: left_behind_def keys_find)
  with 3 found_is_sent_tags both(4,5) show ?thesis by blast
qed

section \<open>Inputs for the witnesses\<close>

lemma sample_live_inv: "live_inv sample_live"
proof -
  have "filed (live_net sample_live)"
    by (simp add: filed_def sample_live_def sample_net_def map_find_Cons TcpConnection_new_def lit_def)
  then show ?thesis
    by (simp add: live_inv_def live_ok_def sample_live_def live_server_new_def points_into_def viewers_keyed_def sample_server_def
        viewers_alive_def RtmpServerConnection_new_def map_find_Cons lit_def)
qed

theorem live_server_invariant_witness:
  "\<exists>b1 L1 L2. OnClientMessage sample_env (lit ''v'') (sample_request (lit ''a'')) sample_live = Inr (b1, L1) \<and> live_inv L1 \<and>
     map_find (lit ''v'') (watching L1) = Some 0 \<and> lit ''v'' \<in> keys (client_map (publishers L1 ! 0)) \<and>
     Viewer_OnClose (lit ''v'') L1 = Inr L2 \<and> lit ''v'' \<notin> keys (client_map (publishers L2 ! 0))"
proof -
  have st: "publishers sample_live = [sample_server, sample_server]" "live_net sample_live = sample_net"
    "rtmp_connection_map sample_live = [(lit ''a'', Some 0), (lit ''b'', Some 1)]" "watching sample_live = []"
    by (simp_all add: sample_live_def live_server_new_def)
  have ra: "request_for (lit ''a'') (sample_request (lit ''a''))" by (rule sample_request_for) (simp_all add: lit_def of_char_def)
  have strip: "strip_slash (lit ''a'') = lit ''a''" by (simp add: strip_slash_def lit_def of_char_def)
  obtain b1 s1 n1 where 1: "OnClientMessage sample_env (lit ''v'') (sample_request (lit ''a'')) sample_live = Inr (b1,
      sample_live\<lparr>publishers := (publishers sample_live)[0 := s1], live_net := n1, watching := map_set (lit ''v'') 0 (watching sample_live)\<rparr>)"
    "live sample_env (lit ''v'') n1"
    by (rule sample_request_joins [OF ra, of sample_live 0]) (use sample_net_ok(1) in \<open>simp_all add: st strip map_find_Cons\<close>)
  let ?L1 = "sample_live\<lparr>publishers := (publishers sample_live)[0 := s1], live_net := n1, watching := map_set (lit ''v'') 0 (watching sample_live)\<rparr>"
  have w: "map_find (lit ''v'') (watching ?L1) = Some 0" by simp
  have ng: "\<not> gone (lit ''v'') (live_net sample_live)" using sample_net_ok(1) by (auto simp: st gone_def live_def)
  have run: "(live_step sample_env sample_pack (\<lambda>_. sample_pack))\<^sup>*\<^sup>* sample_live ?L1" using viewer_requests [OF ng 1(1)] by blast
  note inv = live_server_invariant [OF sample_live_inv run]
  obtain c where c: "map_find (lit ''v'') (net_conns (live_net ?L1)) = Some c" "conn_status c \<noteq> DISCONNECTED"
    using 1(2) by (auto simp: live_def)
  then obtain L2 where 2: "Viewer_OnClose (lit ''v'') ?L1 = Inr L2" "lit ''v'' \<notin> keys (client_map (publishers L2 ! 0))"
    using inv w by blast
  have "viewers_alive ?L1" "\<not> gone (lit ''v'') (live_net ?L1)" using inv c by (simp_all add: live_inv_def gone_def)
  then have "lit ''v'' \<in> keys (client_map (publishers ?L1 ! 0))" using w unfolding viewers_alive_def keys_find by blast
  with 1(1) inv w 2 show ?thesis by blast
qed

theorem viewer_of_two_streams_witness:
  "\<exists>b1 L1 b2 L2 L3. OnClientMessage sample_env (lit ''v'') (sample_request (lit ''a'')) sample_live = Inr (b1, L1) \<and>
     OnClientMessage sample_env (lit ''v'') (sample_request (lit ''b'')) L1 = Inr (b2, L2) \<and> is_sent_tags (lit ''v'') (publishers L2 ! 1) \<and>
     Viewer_OnClose (lit ''v'') L2 = Inr L3 \<and> gone (lit ''v'') (live_net L3) \<and> is_sent_tags (lit ''v'') (publishers L3 ! 0)"
proof -
  have strip: "strip_slash (lit ''a'') = lit ''a''" "strip_slash (lit ''b'') = lit ''b''" "lit ''a'' \<noteq> lit ''b''"
    by (simp_all add: strip_slash_def lit_def of_char_def)
  have ra: "request_for (lit ''a'') (sample_request (lit ''a''))" and rb: "request_for (lit ''b'') (sample_request (lit ''b''))"
    by (rule sample_request_for; simp add: lit_def of_char_def)+
  have st: "publishers sample_live = [sample_server, sample_server]" "live_net sample_live = sample_net"
    "rtmp_connection_map sample_live = [(lit ''a'', Some 0), (lit ''b'', Some 1)]"
    by (simp_all add: sample_live_def)
  obtain b1 s1 n1 where 1: "OnClientMessage sample_env (lit ''v'') (sample_request (lit ''a'')) sample_live = Inr (b1,
      sample_live\<lparr>publishers := (publishers sample_live)[0 := s1], live_net := n1, watching := map_set (lit ''v'') 0 (watching sample_live)\<rparr>)"
    "live sample_env (lit ''v'') n1"
    by (rule sample_request_joins [OF ra, of sample_live 0]) (use sample_net_ok(1) in \<open>simp_all add: st strip map_find_Cons\<close>)
  let ?L1 = "sample_live\<lparr>publishers := (publishers sample_live)[0 := s1], live_net := n1, watching := map_set (lit ''v'') 0 (watching sample_live)\<rparr>"
  obtain b2 s2 n2 where 2: "OnClientMessage sample_env (lit ''v'') (sample_request (lit ''b'')) ?L1 = Inr (b2,
      ?L1\<lparr>publishers := (publishers ?L1)[1 := s2], live_net := n2, watching := map_set (lit ''v'') 1 (watching ?L1)\<rparr>)"
    "live sample_env (lit ''v'') n2"
    by (rule sample_request_joins [OF rb, of ?L1 1]) (use 1(2) strip in \<open>simp_all add: st map_find_Cons\<close>)
  let ?L2 = "?L1\<lparr>publishers := (publishers ?L1)[1 := s2], live_net := n2, watching := map_set (lit ''v'') 1 (watching ?L1)\<rparr>"
  have "filed (live_net ?L2)" using requests_inv [OF requests_inv [OF sample_live_inv 1(1)] 2(1)] by (simp add: live_inv_def)
  then have k: "keeps_gone (live_net ?L2) n2" by (simp add: keeps_gone_refl)
  obtain c where c: "map_find (lit ''v'') (net_conns n2) = Some c" "conn_status c \<noteq> DISCONNECTED" using 2(2) by (auto simp: live_def)
  have ij: "(0 :: nat) \<noteq> 1" by simp
  have reg: "map_find (strip_slash (lit ''a'')) (rtmp_connection_map sample_live) = Some (Some 0)"
    "map_find (strip_slash (lit ''b'')) (rtmp_connection_map sample_live) = Some (Some 1)"
    using strip by (simp_all add: st map_find_Cons)
  note both = viewer_of_two_streams [OF sample_live_inv ra rb ij reg(1) 1(1) reg(2) 2(1) k c, of sample_pack "\<lambda>_. sample_pack"]
  moreover have "?L2\<lparr>live_net := n2\<rparr> = ?L2" by simp
  ultimately show ?thesis using 1(1) 2(1) by (metis rtranclp.rtrancl_refl)
qed

end
