(* ===== verification/SocketStream.thy ===== *)
theory SocketStream
  imports LiveServer
begin

text \<open>
  A publisher on its socket: \<^verbatim>\<open>TcpConnection::OnReadable\<close> with the callbacks that \<^verbatim>\<open>main.cpp\<close>
  installs, \<^verbatim>\<open>Buffer::ReadFromSockfd\<close> with its fixed room, the parser behind it and the viewers
  behind that. The peer is the bytes it sends and the sizes in which the kernel hands them over.
  The input buffer never grows, so a parser that waits for more than it holds ends the
  connection; the lemmas show that the stream never does this and that the handshake can.
\<close>

section \<open>Reading a publisher's socket\<close>

definition find_conn :: "bytes \<Rightarrow> live_server \<Rightarrow> tcp_connection option" where
  "find_conn name L = map_find name (net_conns (live_net L))"

definition put_conn :: "bytes \<Rightarrow> tcp_connection \<Rightarrow> live_server \<Rightarrow> live_server" where
  "put_conn name c L = L\<lparr>live_net := (live_net L)\<lparr>net_conns := map_set name c (net_conns (live_net L))\<rparr>\<rparr>"

text \<open>
  The message callback that \<^verbatim>\<open>OnConnection\<close> installs, as the connection calls it: on the shared
  connection and its input buffer. Without a publisher there is no callback.
\<close>

definition Publisher_callback :: "env \<Rightarrow> rtmp_pack \<Rightarrow> (nat \<Rightarrow> rtmp_pack) \<Rightarrow> bytes \<Rightarrow> live_server conn_callback" where
  "Publisher_callback e junk junks name c L = (case map_find name (publisher_of L) of
       None \<Rightarrow> Inr (c, L)
     | Some i \<Rightarrow>
         ebind (Publisher_message e junk junks i (recv_buffer c) (put_conn name c L)) (\<lambda>(b, L).
         case find_conn name L of None \<Rightarrow> Inl NullPointer
         | Some c \<Rightarrow> Inr (c\<lparr>recv_buffer := b\<rparr>, L)))"

text \<open>The connection callback of the publishers' server.\<close>

definition Publisher_connection :: "rtmp_pack \<Rightarrow> bytes \<Rightarrow> live_server conn_callback" where
  "Publisher_connection junk name c L = ebind (Main_OnConnection junk name (put_conn name c L)) (\<lambda>L. Inr (c, L))"

text \<open>\<open>close\<close> is the server's own close callback, on whatever it keeps beside this state.\<close>

definition Publisher_readable :: "env \<Rightarrow> rtmp_pack \<Rightarrow> (nat \<Rightarrow> rtmp_pack) \<Rightarrow> live_server conn_callback option \<Rightarrow>
    bytes \<Rightarrow> (nat \<Rightarrow> bytes option) \<Rightarrow> live_server \<Rightarrow> live_server result" where
  "Publisher_readable e junk junks close name sys_read L = (case find_conn name L of
       None \<Rightarrow> Inl NullPointer
     | Some c \<Rightarrow>
         ebind (OnReadable sys_read (Some (Publisher_callback e junk junks name)) (Some (Publisher_connection junk name))
                  close c L) (\<lambda>(c, L). Inr (put_conn name c L)))"

text \<open>\<open>read(2)\<close> when \<open>bytes\<close> have arrived and the kernel hands over at most \<open>k\<close> of them.\<close>

definition socket_read :: "nat \<Rightarrow> bytes \<Rightarrow> nat \<Rightarrow> bytes option" where
  "socket_read k bytes n = Some (take (min k n) bytes)"

text \<open>
  One readable event for every element of \<open>ks\<close>, as long as the connection is open and
  something has arrived; the result has what was not read.
\<close>

fun publisher_reads :: "env \<Rightarrow> rtmp_pack \<Rightarrow> (nat \<Rightarrow> rtmp_pack) \<Rightarrow> live_server conn_callback option \<Rightarrow>
    bytes \<Rightarrow> nat list \<Rightarrow> bytes \<Rightarrow> live_server \<Rightarrow> (bytes \<times> live_server) result" where
  "publisher_reads e junk junks close name [] bytes L = Inr (bytes, L)"
| "publisher_reads e junk junks close name (k # ks) bytes L = (case find_conn name L of
       None \<Rightarrow> Inl NullPointer
     | Some c \<Rightarrow>
         if bytes = [] \<or> conn_status c = DISCONNECTED then Inr (bytes, L)
         else ebind (Publisher_readable e junk junks close name (socket_read k bytes) L)
           (publisher_reads e junk junks close name ks (drop (min k (socket_room (recv_buffer c))) bytes)))"

section \<open>What a call of the parser leaves alone\<close>

lemma move_bytes_data: "move_bytes n b p = Inr (b', p') \<Longrightarrow> buf_data b' = buf_data b"
  by (auto simp: move_bytes_def result_simps)

lemma ParseBody_static_data: "ParseBody_static b p over rc st = Inr (n, b', p', rc', st') \<Longrightarrow> buf_data b' = buf_data b"
  by (auto simp: ParseBody_static_def Let_def result_simps dest: move_bytes_data split: if_splits option.splits)

lemma ParseBody_data: "ParseBody m b = Inr (n, m', b') \<Longrightarrow> buf_data b' = buf_data b"
  by (auto simp: ParseBody_def Let_def result_simps dest: ParseBody_static_data)

lemma ParseHeaderAndBody_data: "ParseHeaderAndBody b p = Inr (n, b', p') \<Longrightarrow> buf_data b' = buf_data b"
  by (auto simp: ParseHeaderAndBody_def Let_def result_simps dest: ParseBody_static_data split: if_splits)

lemma ParseScriptPack_data: "ParseScriptPack b p = Inr (n, b', p') \<Longrightarrow> buf_data b' = buf_data b"
  by (auto simp: ParseScriptPack_def Let_def result_simps case_prod_unfold dest: move_bytes_data split: if_split_asm)

lemma ParseVideoAudio_round_data: "ParseVideoAudio_round b p = Inr (n, b', p') \<Longrightarrow> buf_data b' = buf_data b"
  by (auto simp: ParseVideoAudio_round_def Let_def result_simps case_prod_unfold dest: move_bytes_data split: if_split_asm)

lemma ParseVideoAudio_data: "ParseVideoAudio b p0 p1 = Inr (n, b', q0, q1) \<Longrightarrow> buf_data b' = buf_data b"
  by (auto simp: ParseVideoAudio_def result_simps dest!: ParseVideoAudio_round_data split: if_splits)

lemma ParseFirstHeader_data:
  assumes "ParseFirstHeader junk m b = Inr (n, m', b')"
  shows "buf_data b' = buf_data b"
proof (cases "ReadableLength b < RTMP_START_PARSE_LENGTH")
  case True
  then show ?thesis using assms by (simp add: ParseFirstHeader_def)
next
  case False
  obtain n1 b1 sp where s: "ParseScriptPack b (RtmpPack_new (junk 0)) = Inr (n1, b1, sp)"
    using False assms by (auto simp: ParseFirstHeader_def result_simps)
  show ?thesis
  proof (cases "n1 < 0")
    case True
    then show ?thesis using False assms ParseScriptPack_data [OF s] by (simp add: ParseFirstHeader_def s)
  next
    case pos: False
    then obtain n2 b2 p0 p1 where v: "ParseVideoAudio b1 (RtmpPack_new (junk 1)) (RtmpPack_new (junk 2)) = Inr (n2, b2, p0, p1)"
      using False assms by (auto simp: ParseFirstHeader_def s Let_def case_prod_unfold result_simps)
    then have "b' = b2" using False pos assms
      by (auto simp: ParseFirstHeader_def s Let_def case_prod_unfold split: if_split_asm)
    then show ?thesis using ParseScriptPack_data [OF s] ParseVideoAudio_data [OF v] by simp
  qed
qed

lemma ParseData_round_data: "ParseData_round cb junk m b s = Inr (n, m', b', s') \<Longrightarrow> buf_data b' = buf_data b"
  by (auto simp: ParseData_round_def ParseData_header_def Let_def result_simps dest!: ParseBody_data ParseFirstHeader_data
      split: if_split_asm prod.split_asm)

lemma ParseData_loop_data: "ParseData_loop fuel cb junk acc m b s = Inr (n, m', b', s') \<Longrightarrow> buf_data b' = buf_data b"
proof (induction fuel arbitrary: acc m b s)
  case (Suc fuel)
  then obtain k m1 b1 s1 where r: "ParseData_round cb junk m b s = Inr (k, m1, b1, s1)"
    "(if k > 0 then ParseData_loop fuel cb junk (acc + k) m1 b1 s1
      else if k = 0 then Inr (acc, m1\<lparr>parsed_length := size_add (parsed_length m1) (nat acc)\<rparr>, b1, s1)
      else Inr (-1, m1, b1, s1)) = Inr (n, m', b', s')"
    by (auto simp: ebind_case4)
  from r(2) Suc.IH ParseData_round_data [OF r(1)] show ?case by (auto split: if_splits)
qed simp

lemma ParseData_data: "ParseData cb junk m b s = Inr (n, m', b', s') \<Longrightarrow> buf_data b' = buf_data b"
  by (auto simp: ParseData_def simp del: ParseData_loop.simps dest: ParseData_loop_data split: if_splits)

lemma ParseData_keeps:
  assumes "\<And>p t s s'. cb p t s = Inr s' \<Longrightarrow> P s \<Longrightarrow> P s'" "ParseData cb junk m b s = Inr (n, m', b', s')" "P s"
  shows "P s'"
proof (cases "ReadableLength b = 0")
  case True
  then show ?thesis using assms(2,3) by (simp add: ParseData_def)
next
  case False
  then have "ParseData_loop (ReadableLength b + 1) cb junk 0 m b s = Inr (n, m', b', s')"
    using assms(2) by (simp add: ParseData_def del: ParseData_loop.simps)
  then show ?thesis by (rule ParseData_loop_keeps [where P = P, rotated]) (use assms(1,3) in auto)
qed

lemma net_send_other:
  assumes "net_send e x data n = Inr n'" "map_sorted (net_conns n)"
  shows "map_sorted (net_conns n')" "y \<noteq> x \<Longrightarrow> map_find y (net_conns n') = map_find y (net_conns n)"
  using assms by (auto simp: net_send_def result_simps map_set_sorted map_find_set split: option.splits)

text \<open>What of a publisher and the network the tags cannot change, for the connection \<open>name\<close>.\<close>

definition beside :: "bytes \<Rightarrow> (rtmp_server \<times> net) \<Rightarrow> (rtmp_server \<times> net) \<Rightarrow> bool" where
  "beside name = (\<lambda>(srv, n) (srv', n'). map_sorted (net_conns n') \<and> map_find name (net_conns n') = map_find name (net_conns n) \<and>
     client_map srv' = client_map srv \<and> on_body_data srv' = on_body_data srv)"

lemma send_to_clients_other:
  "send_to_clients e b m n = Inr n' \<Longrightarrow> map_sorted (net_conns n) \<Longrightarrow> \<forall>(x, cl) \<in> set m. cl_conn cl \<noteq> name \<Longrightarrow>
   map_sorted (net_conns n') \<and> map_find name (net_conns n') = map_find name (net_conns n)"
proof (induction m arbitrary: n)
  case (Cons p m)
  obtain x cl where p: "p = (x, cl)" by (cases p)
  from Cons.prems(1) obtain n1 where n1: "AddNewTag e cl b n = Inr n1" "send_to_clients e b m n1 = Inr n'"
    by (auto simp: p result_simps)
  from n1(1) obtain data where d: "net_send e (cl_conn cl) data n = Inr n1"
    by (auto simp: AddNewTag_def net_send_buffer_def result_simps)
  have "name \<noteq> cl_conn cl" using Cons.prems(3) by (auto simp: p)
  with net_send_other [OF d Cons.prems(2)] Cons.IH [OF n1(2)] Cons.prems(3) show ?case by auto
qed simp

lemma OnBodyData_beside:
  assumes "OnBodyData e junk srv b n = Inr (srv', b', n')" "map_sorted (net_conns n)"
    and "\<forall>(x, cl) \<in> set (client_map srv). cl_conn cl \<noteq> name"
  shows "beside name (srv, n) (srv', n')" "buf_data b' = buf_data b"
proof -
  obtain k m s1 where r: "ParseData (OnNewFlvTag e) junk (srv_rtmp srv) b (srv, n) = Inr (k, m, b', s1, n')"
    and s': "srv' = DebugParseSize (100 * 1000 * 1000) (s1\<lparr>srv_rtmp := m\<rparr>)"
    using assms(1) by (auto simp: OnBodyData_def Server_ParseData_def ebind_case4 result_simps split: prod.splits)
  have "beside name (srv, n) (s1, n')"
  proof (rule ParseData_keeps [where P = "beside name (srv, n)", OF _ r])
    show "beside name (srv, n) (srv, n)" using assms(2) by (simp add: beside_def)
    show "beside name (srv, n) s'" if cb: "OnNewFlvTag e p t s = Inr s'" and s: "beside name (srv, n) s" for p t s s'
    proof -
      obtain sa na where sp: "s = (sa, na)" by (cases s)
      obtain b2 n2 where *: "send_to_clients e b2 (client_map sa) na = Inr n2" "s' = (sa\<lparr>last_flv_tag_ptr := Some p\<rparr>, n2)"
        using cb by (auto simp: sp OnNewFlvTag_def result_simps Let_def)
      then show ?thesis using s assms(3) send_to_clients_other [OF *(1), of name] by (simp add: sp beside_def)
    qed
  qed
  then show "beside name (srv, n) (srv', n')" by (simp add: s' beside_def DebugParseSize_def Let_def)
  show "buf_data b' = buf_data b" by (rule ParseData_data [OF r])
qed

section \<open>A publisher that streams\<close>

text \<open>An input buffer of its first size, with room for at least one byte.\<close>

definition open_input :: "buffer \<Rightarrow> bool" where
  "open_input b \<longleftrightarrow> buf_ok b \<and> length (buf_data b) = DEFAULT_BUFFER_SIZE + IDX_BEGIN \<and>
     ReadableLength b < DEFAULT_BUFFER_SIZE"

definition publishes :: "bytes \<Rightarrow> nat \<Rightarrow> live_server \<Rightarrow> tcp_connection \<Rightarrow> bool" where
  "publishes name i L c \<longleftrightarrow> find_conn name L = Some c \<and> conn_status c = CONNECTED \<and>
     map_sorted (net_conns (live_net L)) \<and> map_find name (publisher_of L) = Some i \<and> i < length (publishers L)"

text \<open>The publisher \<open>i\<close> streams on the connection \<open>name\<close>, which is not one of its viewers; \<open>v\<close> is one.\<close>

definition streaming :: "env \<Rightarrow> bytes \<Rightarrow> bytes \<Rightarrow> bytes \<Rightarrow> nat \<Rightarrow> live_server \<Rightarrow> tcp_connection \<Rightarrow> bool" where
  "streaming e v base name i L c \<longleftrightarrow> publishes name i L c \<and> open_input (recv_buffer c) \<and>
     on_body_data (publishers L ! i) \<and> stream_ok (srv_rtmp (publishers L ! i)) \<and>
     name \<notin> keys (client_map (publishers L ! i)) \<and> viewer_ok e v base (publishers L ! i, live_net L)"

abbreviation stream_followed :: "env \<Rightarrow> bytes \<Rightarrow> bytes \<Rightarrow> nat \<Rightarrow> live_server \<Rightarrow> tcp_connection \<Rightarrow> bytes \<Rightarrow>
    live_server \<Rightarrow> tcp_connection \<Rightarrow> bool" where
  "stream_followed e v base i L c xs L' c' \<equiv> followed (viewer_ok e v base) (viewer_items v base)
     (srv_rtmp (publishers L ! i)) (recv_buffer c) (publishers L ! i, live_net L) xs
     (srv_rtmp (publishers L' ! i)) (recv_buffer c') (publishers L' ! i, live_net L')"

lemma find_put_conn [simp]: "find_conn name (put_conn name c L) = Some c"
  by (simp add: find_conn_def put_conn_def)

lemma put_conn_fields [simp]:
  "publishers (put_conn name c L) = publishers L" "publisher_of (put_conn name c L) = publisher_of L"
  "rtmp_connection_map (put_conn name c L) = rtmp_connection_map L" "watching (put_conn name c L) = watching L"
  "net_queue (live_net (put_conn name c L)) = net_queue (live_net L)"
  by (simp_all add: put_conn_def)

lemma put_conn_sorted: "map_sorted (net_conns (live_net L)) \<Longrightarrow> map_sorted (net_conns (live_net (put_conn name c L)))"
  by (simp add: put_conn_def map_set_sorted)

lemma put_conn_other:
  "map_sorted (net_conns (live_net L)) \<Longrightarrow> x \<noteq> name \<Longrightarrow>
   map_find x (net_conns (live_net (put_conn name c L))) = map_find x (net_conns (live_net L))"
  by (simp add: put_conn_def map_find_set)

lemma clients_keyed:
  assumes "clients_ok e m n" "name \<notin> keys m"
  shows "\<forall>(x, cl) \<in> set m. cl_conn cl \<noteq> name"
proof (rule ballI)
  fix y
  assume y: "y \<in> set m"
  obtain x cl where xc: "y = (x, cl)" by (cases y)
  have m: "(x, cl) \<in> set m" using y xc by simp
  have "x = cl_conn cl" using assms(1) m by (auto simp: clients_ok_def)
  moreover have "x \<in> keys m" unfolding keys_def by (rule image_eqI [OF _ m]) simp
  ultimately show "case y of (x, cl) \<Rightarrow> cl_conn cl \<noteq> name" using assms(2) xc by auto
qed

text \<open>A connection that is not a viewer's can be changed.\<close>

lemma viewer_put:
  assumes "viewer_ok e v base (srv, live_net L)" "name \<notin> keys (client_map srv)" "map_sorted (net_conns (live_net L))"
  shows "viewer_ok e v base (srv, live_net (put_conn name c L))"
    "viewer_items v base (srv, live_net (put_conn name c L)) = viewer_items v base (srv, live_net L)"
proof -
  note so = put_conn_sorted [OF assms(3), of name c]
  have v: "v \<noteq> name" using assms(1,2) by (auto simp: viewer_ok_def)
  have q: "queued x (live_net (put_conn name c L)) = queued x (live_net L)" for x by (simp add: queued_def)
  have out: "net_out v (live_net (put_conn name c L)) = net_out v (live_net L)"
    by (simp add: net_out_def q put_conn_other [OF assms(3) v])
  have "live e v (live_net (put_conn name c L))"
    using assms(1) so by (simp add: viewer_ok_def live_def q put_conn_other [OF assms(3) v])
  moreover have "present e x (live_net (put_conn name c L))" if "(x, cl) \<in> set (client_map srv)" for x cl
  proof -
    have "x \<noteq> name" using that assms(2) by (force simp: keys_def)
    moreover have "present e x (live_net L)" using that assms(1) by (auto simp: viewer_ok_def clients_ok_def)
    ultimately show ?thesis using so by (simp add: present_def put_conn_other [OF assms(3)])
  qed
  ultimately show "viewer_ok e v base (srv, live_net (put_conn name c L))"
    using assms(1) by (auto simp: viewer_ok_def clients_ok_def out)
  show "viewer_items v base (srv, live_net (put_conn name c L)) = viewer_items v base (srv, live_net L)"
    by (simp add: viewer_items_def out)
qed

lemma socket_read_contract: "read_contract (socket_read k xs)"
  by (simp add: read_contract_def socket_read_def min.coboundedI2)

text \<open>Reading with room for more: at least a byte arrives.\<close>

lemma read_open:
  assumes "open_input b" "0 < k" "xs \<noteq> []"
  obtains b' where "ReadFromSockfd (socket_read k xs) b = Inr (int (length (take (min k (socket_room b)) xs)), b')"
    "buf_ok b'" "length (buf_data b') = DEFAULT_BUFFER_SIZE + IDX_BEGIN"
    "readable b' = readable b @ take (min k (socket_room b)) xs" "ReadableLength b' \<le> DEFAULT_BUFFER_SIZE"
    "0 < min k (socket_room b)"
proof -
  have ok: "buf_ok b" "length (buf_data b) = DEFAULT_BUFFER_SIZE + IDX_BEGIN" and lt: "ReadableLength b < DEFAULT_BUFFER_SIZE"
    using assms(1) by (simp_all add: open_input_def)
  have room: "socket_room b = DEFAULT_BUFFER_SIZE - ReadableLength b" using ok(2) by (simp add: socket_room_def)
  obtain n b' where b': "ReadFromSockfd (socket_read k xs) b = Inr (n, b')" "buf_ok b'"
      "length (buf_data b') = length (buf_data b)"
      "n = int (length (take (min k (socket_room b)) xs))" "readable b' = readable b @ take (min k (socket_room b)) xs"
    using ReadFromSockfd_ok [OF ok(1) socket_read_contract [of k xs]] by (auto simp: socket_read_def)
  have "ReadableLength b' = ReadableLength b + length (take (min k (socket_room b)) xs)"
    using length_readable [OF b'(2)] length_readable [OF ok(1)] b'(5) by simp
  then have "ReadableLength b' \<le> DEFAULT_BUFFER_SIZE" using room lt by simp
  then show ?thesis using that [of b'] b' ok room lt assms(2) by simp
qed

lemma Publisher_readable_bytes:
  assumes "publishes name i L c" "open_input (recv_buffer c)" "0 < k" "bytes \<noteq> []"
  obtains b where "Publisher_readable e junk junks close name (socket_read k bytes) L =
      ebind (Publisher_message e junk junks i b (put_conn name (c\<lparr>recv_buffer := b\<rparr>) L)) (\<lambda>(b, L).
        case find_conn name L of None \<Rightarrow> Inl NullPointer
        | Some c \<Rightarrow> Inr (put_conn name (c\<lparr>recv_buffer := b\<rparr>) L))"
    "buf_ok b" "length (buf_data b) = DEFAULT_BUFFER_SIZE + IDX_BEGIN" "ReadableLength b \<le> DEFAULT_BUFFER_SIZE"
    "readable b = readable (recv_buffer c) @ take (min k (socket_room (recv_buffer c))) bytes"
    "0 < min k (socket_room (recv_buffer c))"
proof -
  obtain b where b: "ReadFromSockfd (socket_read k bytes) (recv_buffer c) =
      Inr (int (length (take (min k (socket_room (recv_buffer c))) bytes)), b)" "buf_ok b"
    "length (buf_data b) = DEFAULT_BUFFER_SIZE + IDX_BEGIN" "0 < min k (socket_room (recv_buffer c))"
    "readable b = readable (recv_buffer c) @ take (min k (socket_room (recv_buffer c))) bytes"
    "ReadableLength b \<le> DEFAULT_BUFFER_SIZE"
    by (rule read_open [OF assms(2-4)]) blast
  have pos: "0 < int (length (take (min k (socket_room (recv_buffer c))) bytes))"
    using b(4) assms(4) by (cases bytes) simp_all
  have f: "find_conn name L = Some c" "map_find name (publisher_of L) = Some i"
    using assms(1) by (simp_all add: publishes_def)
  have rb: "recv_buffer (c\<lparr>recv_buffer := b\<rparr>) = b" by simp
  have "Publisher_readable e junk junks close name (socket_read k bytes) L =
      ebind (Publisher_message e junk junks i b (put_conn name (c\<lparr>recv_buffer := b\<rparr>) L)) (\<lambda>(b, L).
        case find_conn name L of None \<Rightarrow> Inl NullPointer
        | Some c \<Rightarrow> Inr (put_conn name (c\<lparr>recv_buffer := b\<rparr>) L))"
    unfolding Publisher_readable_def f(1) option.case OnReadable_def b(1) ebind_simps prod.case if_P [OF pos] call_def
      Publisher_callback_def Let_def f(2) ebind_assoc rb
    by (rule ebind_cong) (simp split: prod.split option.split)
  from that [OF this b(2,3,6,5,4)] show ?thesis .
qed

text \<open>The read of a stream as a call of \<^verbatim>\<open>OnBodyData\<close>, whose results are put back where they belong.\<close>

definition put_body :: "bytes \<Rightarrow> nat \<Rightarrow> live_server \<Rightarrow> rtmp_server \<times> buffer \<times> net \<Rightarrow> live_server result" where
  "put_body name i L = (\<lambda>(srv, b, n). case map_find name (net_conns n) of None \<Rightarrow> Inl NullPointer
     | Some c \<Rightarrow> Inr (put_conn name (c\<lparr>recv_buffer := b\<rparr>) (L\<lparr>publishers := (publishers L)[i := srv], live_net := n\<rparr>)))"

lemma streaming_read:
  assumes "publishes name i L c" "open_input (recv_buffer c)" "on_body_data (publishers L ! i)" "0 < k" "bytes \<noteq> []"
  obtains b where "Publisher_readable e junk junks close name (socket_read k bytes) L =
      ebind (OnBodyData e junks (publishers L ! i) b (live_net (put_conn name (c\<lparr>recv_buffer := b\<rparr>) L)))
        (put_body name i (put_conn name (c\<lparr>recv_buffer := b\<rparr>) L))"
    "buf_ok b" "length (buf_data b) = DEFAULT_BUFFER_SIZE + IDX_BEGIN" "ReadableLength b \<le> DEFAULT_BUFFER_SIZE"
    "readable b = readable (recv_buffer c) @ take (min k (socket_room (recv_buffer c))) bytes"
proof -
  obtain b where run: "Publisher_readable e junk junks close name (socket_read k bytes) L =
      ebind (Publisher_message e junk junks i b (put_conn name (c\<lparr>recv_buffer := b\<rparr>) L)) (\<lambda>(b, L).
        case find_conn name L of None \<Rightarrow> Inl NullPointer
        | Some c \<Rightarrow> Inr (put_conn name (c\<lparr>recv_buffer := b\<rparr>) L))"
    and b: "buf_ok b" "length (buf_data b) = DEFAULT_BUFFER_SIZE + IDX_BEGIN" "ReadableLength b \<le> DEFAULT_BUFFER_SIZE"
    "readable b = readable (recv_buffer c) @ take (min k (socket_room (recv_buffer c))) bytes"
    by (rule Publisher_readable_bytes [OF assms(1,2,4,5)]) blast
  show ?thesis
  proof (rule that [OF _ b])
    show "Publisher_readable e junk junks close name (socket_read k bytes) L =
      ebind (OnBodyData e junks (publishers L ! i) b (live_net (put_conn name (c\<lparr>recv_buffer := b\<rparr>) L)))
        (put_body name i (put_conn name (c\<lparr>recv_buffer := b\<rparr>) L))"
      unfolding run Publisher_message_def Let_def put_conn_fields if_P [OF assms(3)] ebind_assoc
      by (rule ebind_cong) (simp add: find_conn_def put_body_def split: prod.split option.split)
  qed
qed

text \<open>Putting the results back keeps the stream running.\<close>

lemma put_body_streaming:
  assumes st: "streaming e v base name i L c"
    and f: "followed (viewer_ok e v base) (viewer_items v base) (srv_rtmp (publishers L ! i)) (recv_buffer c)
      (publishers L ! i, live_net L) xs (srv_rtmp srv') b' (srv', n')"
    and o: "open_input b'" and bs: "beside name (publishers L ! i, live_net (put_conn name (c\<lparr>recv_buffer := b\<rparr>) L)) (srv', n')"
  shows "\<exists>L' c'. put_body name i (put_conn name (c\<lparr>recv_buffer := b\<rparr>) L) (srv', b', n') = Inr L' \<and>
    streaming e v base name i L' c' \<and> stream_followed e v base i L c xs L' c'"
proof -
  let ?c = "c\<lparr>recv_buffer := b'\<rparr>"
  let ?L1 = "put_conn name (c\<lparr>recv_buffer := b\<rparr>) L\<lparr>publishers := (publishers L)[i := srv'], live_net := n'\<rparr>"
  let ?L' = "put_conn name ?c ?L1"
  have p: "publishes name i L c" "i < length (publishers L)" "on_body_data (publishers L ! i)" "name \<notin> keys (client_map (publishers L ! i))"
    using st by (simp_all add: streaming_def publishes_def)
  have n': "map_find name (net_conns n') = Some (c\<lparr>recv_buffer := b\<rparr>)" "map_sorted (net_conns n')"
      "client_map srv' = client_map (publishers L ! i)" "on_body_data srv'"
    using bs p(3) by (simp_all add: beside_def put_conn_def)
  have vk: "viewer_ok e v base (srv', live_net ?L')" "viewer_items v base (srv', live_net ?L') = viewer_items v base (srv', n')"
    using viewer_put [of e v base srv' ?L1 name ?c] f p(4) n'(2,3) by (simp_all add: followed_def)
  have "map_sorted (net_conns (live_net ?L'))" by (rule put_conn_sorted) (simp add: n'(2))
  then have "publishes name i ?L' ?c" using p(1,2) by (simp add: publishes_def)
  then have "streaming e v base name i ?L' ?c"
    using o n'(3,4) p(2,4) f vk by (simp add: streaming_def followed_def)
  moreover have "stream_followed e v base i L c xs ?L' ?c" using f vk p(2) by (simp add: followed_def)
  ultimately show ?thesis by (intro exI [of _ ?L'] exI [of _ ?c]) (simp add: put_body_def n'(1))
qed

lemma streaming_step:
  assumes st: "streaming e v base name i L c" and k: "0 < k" "bytes \<noteq> []"
    and len: "length (acc_bytes (srv_rtmp (publishers L ! i))) + ReadableLength (recv_buffer c) + length bytes < 2 ^ 32"
  shows "safe (may_fill e) (\<lambda>L'. \<exists>c'. streaming e v base name i L' c' \<and>
      stream_followed e v base i L c (take (min k (socket_room (recv_buffer c))) bytes) L' c')
    (Publisher_readable e junk junks close name (socket_read k bytes) L)"
proof -
  let ?srv = "publishers L ! i" and ?xs = "take (min k (socket_room (recv_buffer c))) bytes"
  have p: "publishes name i L c" "open_input (recv_buffer c)" "on_body_data ?srv" "stream_ok (srv_rtmp ?srv)"
      "name \<notin> keys (client_map ?srv)" "viewer_ok e v base (?srv, live_net L)" "buf_ok (recv_buffer c)"
      "map_sorted (net_conns (live_net L))"
    using st by (simp_all add: streaming_def open_input_def publishes_def)
  obtain b where run: "Publisher_readable e junk junks close name (socket_read k bytes) L =
      ebind (OnBodyData e junks ?srv b (live_net (put_conn name (c\<lparr>recv_buffer := b\<rparr>) L)))
        (put_body name i (put_conn name (c\<lparr>recv_buffer := b\<rparr>) L))"
    and b: "buf_ok b" "length (buf_data b) = DEFAULT_BUFFER_SIZE + IDX_BEGIN" "ReadableLength b \<le> DEFAULT_BUFFER_SIZE"
    "readable b = readable (recv_buffer c) @ ?xs"
    by (rule streaming_read [OF p(1-3) k])
  let ?L = "put_conn name (c\<lparr>recv_buffer := b\<rparr>) L"
  have vk: "viewer_ok e v base (?srv, live_net ?L)" "viewer_items v base (?srv, live_net ?L) = viewer_items v base (?srv, live_net L)"
    by (rule viewer_put [OF p(6,5,8)])+
  have keyed: "\<forall>(x, cl) \<in> set (client_map ?srv). cl_conn cl \<noteq> name"
    by (rule clients_keyed [where e = e and n = "live_net L", OF _ p(5)]) (use p(6) in \<open>simp add: viewer_ok_def\<close>)
  have xs: "length (acc_bytes (srv_rtmp ?srv)) + ReadableLength (recv_buffer c) + length ?xs < 2 ^ 32" using len by simp
  show ?thesis unfolding run
  proof (rule safe_ebind [OF safe_result [OF OnBodyData_followed [OF p(4,7) b(1,4) vk(1) xs] conjI]])
    fix r assume res: "OnBodyData e junks ?srv b (live_net ?L) = Inr r \<and> (case r of (srv', b', n') \<Rightarrow>
        followed (viewer_ok e v base) (viewer_items v base) (srv_rtmp ?srv) (recv_buffer c) (?srv, live_net ?L) ?xs
          (srv_rtmp srv') b' (srv', n') \<and> (ReadableLength b' < 12 \<or> ReadableLength b' < ReadableLength b))"
    obtain srv' b' n' where r: "r = (srv', b', n')" by (cases r)
    note bs = OnBodyData_beside [OF res [THEN conjunct1, unfolded r] put_conn_sorted [OF p(8)] keyed]
    have f: "followed (viewer_ok e v base) (viewer_items v base) (srv_rtmp ?srv) (recv_buffer c)
        (?srv, live_net L) ?xs (srv_rtmp srv') b' (srv', n')"
      and less: "ReadableLength b' < 12 \<or> ReadableLength b' < ReadableLength b" using res by (simp_all add: r followed_def vk(2))
    have "buf_ok b'" using f by (simp add: followed_def)
    then have "open_input b'" using bs(2) b(2,3) less by (auto simp: open_input_def DEFAULT_BUFFER_SIZE_def)
    from put_body_streaming [OF st f this bs(1)]
    show "safe (may_fill e) (\<lambda>L'. \<exists>c'. streaming e v base name i L' c' \<and> stream_followed e v base i L c ?xs L' c')
      (put_body name i ?L r)" unfolding r by (elim exE conjE) (simp only: safe_Inr, blast)
  qed
qed

text \<open>Any number of reads: none finds the buffer full, and each takes something.\<close>

lemma streaming_reads:
  "streaming e v base name i L c \<Longrightarrow> \<forall>k \<in> set ks. 0 < k \<Longrightarrow>
   length (acc_bytes (srv_rtmp (publishers L ! i))) + ReadableLength (recv_buffer c) + length bytes < 2 ^ 32 \<Longrightarrow>
   safe (may_fill e) (\<lambda>(rest, L'). \<exists>c' xs. streaming e v base name i L' c' \<and> bytes = xs @ rest \<and>
      length rest \<le> length bytes - length ks \<and> stream_followed e v base i L c xs L' c')
    (publisher_reads e junk junks close name ks bytes L)"
proof (induction ks arbitrary: bytes L c)
  case Nil
  then show ?case
    by (auto intro!: exI [of _ c] exI [of _ "[]"] simp: followed_def streaming_def open_input_def)
next
  case (Cons k ks)
  have c: "find_conn name L = Some c" "conn_status c \<noteq> DISCONNECTED"
    using Cons.prems(1) by (simp_all add: streaming_def publishes_def)
  show ?case
  proof (cases "bytes = []")
    case True
    then show ?thesis using c Cons.prems(1)
      by (auto intro!: exI [of _ c] exI [of _ "[]"] simp: followed_def streaming_def open_input_def)
  next
    case False
    let ?n = "min k (socket_room (recv_buffer c))"
    have k: "0 < k" using Cons.prems(2) by simp
    have n: "0 < ?n" using k Cons.prems(1) by (simp add: streaming_def open_input_def socket_room_def)
    show ?thesis unfolding publisher_reads.simps c(1) option.case using False c(2) n
    proof (simp only: if_False simp_thms, intro safe_ebind [OF streaming_step [OF Cons.prems(1) k False Cons.prems(3)]], clarify)
      fix L1 c1
      assume st: "streaming e v base name i L1 c1" and f: "stream_followed e v base i L c (take ?n bytes) L1 c1"
      have "length (acc_bytes (srv_rtmp (publishers L1 ! i))) + ReadableLength (recv_buffer c1) + length (drop ?n bytes) < 2 ^ 32"
      proof -
        have "length (acc_bytes (srv_rtmp (publishers L1 ! i))) + ReadableLength (recv_buffer c1) \<le>
            length (acc_bytes (srv_rtmp (publishers L ! i))) + ReadableLength (recv_buffer c) + length (take ?n bytes)"
          using f by (simp only: followed_def)
        moreover have "length (take ?n bytes) + length (drop ?n bytes) = length bytes"
          by (simp only: length_append [symmetric] append_take_drop_id)
        ultimately show ?thesis using Cons.prems(3) by linarith
      qed
      from Cons.IH [OF st _ this] Cons.prems(2)
      have "safe (may_fill e) (\<lambda>(rest, L'). \<exists>c' xs. streaming e v base name i L' c' \<and> drop ?n bytes = xs @ rest \<and>
          length rest \<le> length (drop ?n bytes) - length ks \<and> stream_followed e v base i L1 c1 xs L' c')
        (publisher_reads e junk junks close name ks (drop ?n bytes) L1)" by simp
      then show "safe (may_fill e) (\<lambda>(rest, L'). \<exists>c' xs. streaming e v base name i L' c' \<and> bytes = xs @ rest \<and>
          length rest \<le> length bytes - length (k # ks) \<and> stream_followed e v base i L c xs L' c')
        (publisher_reads e junk junks close name ks (drop ?n bytes) L1)"
      proof (rule safe_mono, clarify)
        fix rest L' c' xs
        assume r: "streaming e v base name i L' c'" "drop ?n bytes = xs @ rest"
          "length rest \<le> length (drop ?n bytes) - length ks" "stream_followed e v base i L1 c1 xs L' c'"
        have "bytes = (take ?n bytes @ xs) @ rest" using r(2) by (metis append.assoc append_take_drop_id)
        moreover have "length rest \<le> length bytes - length (k # ks)"
          using r(3) n by (cases ?n) (simp_all only: length_drop list.size diff_diff_left add_Suc add_0_right add.commute less_irrefl)
        ultimately show "\<exists>c' xs. streaming e v base name i L' c' \<and> bytes = xs @ rest \<and>
            length rest \<le> length bytes - length (k # ks) \<and> stream_followed e v base i L c xs L' c'"
          using r(1) followed_trans [OF f r(4)] by blast
      qed
    qed
  qed
qed

section \<open>A viewer of a running stream\<close>

definition watch_and_read :: "env \<Rightarrow> rtmp_pack \<Rightarrow> (nat \<Rightarrow> rtmp_pack) \<Rightarrow> live_server conn_callback option \<Rightarrow>
    bytes \<Rightarrow> buffer \<Rightarrow> bytes \<Rightarrow> nat list \<Rightarrow> bytes \<Rightarrow> live_server \<Rightarrow> (bytes \<times> live_server) result" where
  "watch_and_read e junk junks close v request name ks bytes L =
     ebind (OnClientMessage e v request L) (\<lambda>(_, L). publisher_reads e junk junks close name ks bytes L)"

text \<open>What a new viewer needs: a head that fits, and a tag to begin with.\<close>

definition joinable :: "rtmp_server \<Rightarrow> bool" where
  "joinable srv \<longleftrightarrow> header_ok srv \<and> unat (headers_length (rm_flv_manager (srv_rtmp srv))) \<le> 4096 \<and> (\<exists>p. tags_ok srv p)"

lemma AddClientConnection_beside:
  assumes "AddClientConnection e cl srv n = Inr (srv', n')" "map_sorted (net_conns n)" "name \<noteq> cl_conn cl"
  shows "map_sorted (net_conns n')" "map_find name (net_conns n') = map_find name (net_conns n)" "on_body_data srv' = on_body_data srv"
proof -
  have h: "on_body_data s' = on_body_data s" if "GetHeaderDataBuffer s = Inr (b, s')" for s b s'
    using that by (auto simp: GetHeaderDataBuffer_def result_simps Let_def split: if_splits)
  obtain hb srv1 d1 n1 d2 where r: "GetHeaderDataBuffer (srv\<lparr>client_map := map_set (cl_conn cl) cl (client_map srv)\<rparr>) = Inr (hb, srv1)"
    "net_send e (cl_conn cl) d1 n = Inr n1" "net_send e (cl_conn cl) d2 n1 = Inr n'" "on_body_data srv' = on_body_data srv1"
    using assms(1) by (auto simp: AddClientConnection_def SendHeaderToClientConnection_def SendHeader_def AddNewTag_def
        net_send_buffer_def result_simps Let_def split: option.splits)
  note 1 = net_send_other [OF r(2) assms(2)]
  note 2 = net_send_other [OF r(3) 1(1)]
  show "map_sorted (net_conns n')" by (rule 2)
  show "map_find name (net_conns n') = map_find name (net_conns n)" using 1(2) 2(2) assms(3) by simp
  show "on_body_data srv' = on_body_data srv" using h [OF r(1)] r(4) by simp
qed

lemma joins_stream:
  assumes "publishes name i L c" "open_input (recv_buffer c)" "on_body_data (publishers L ! i)"
    and "stream_ok (srv_rtmp (publishers L ! i))" "joinable (publishers L ! i)" "name \<notin> keys (client_map (publishers L ! i))"
    and "clients_ok e (client_map (publishers L ! i)) (live_net L)" "live e v (live_net L)" "v \<noteq> name"
    and "request_for q request" "map_find (strip_slash q) (rtmp_connection_map L) = Some (Some i)"
  defines "srv \<equiv> publishers L ! i" and "base \<equiv> net_out v (live_net L) @ join_bytes (publishers L ! i)"
  shows "safe (may_fill e) (\<lambda>(_, L'). streaming e v base name i L' c \<and>
      chunk_state_of (srv_rtmp (publishers L' ! i)) = chunk_state_of (srv_rtmp srv) \<and>
      viewer_items v base (publishers L' ! i, live_net L') = [tag_item (first_tag srv)])
    (OnClientMessage e v request L)"
proof -
  let ?cl = "RtmpClientConnection_new v"
  have cl: "cl_conn ?cl = v" by (simp add: RtmpClientConnection_new_def)
  have i: "i < length (publishers L)" and so: "map_sorted (net_conns (live_net L))"
    using assms(1) by (simp_all add: publishes_def)
  obtain p where j: "header_ok srv" "unat (headers_length (rm_flv_manager (srv_rtmp srv))) \<le> 4096" "tags_ok srv p"
    using assms(5) by (auto simp: joinable_def srv_def)
  have run: "OnClientMessage e v request L = ebind (AddClientConnection e ?cl srv (live_net L)) (\<lambda>(srv, n).
      Inr (AddReadIndex (ReadableLength request) request,
        L\<lparr>publishers := (publishers L)[i := srv], live_net := n, watching := map_set v i (watching L)\<rparr>))"
    using assms(11) by (simp add: OnClientMessage_request [OF assms(10)] map_index_def Let_def srv_def)
  note add = AddClientConnection_ok [OF j(1-3) assms(7) [folded srv_def] assms(8)]
  show ?thesis unfolding run
  proof (rule safe_ebind [OF safe_result [OF add]])
    fix r :: "rtmp_server \<times> net"
    obtain srv' n' where r: "r = (srv', n')" by (cases r)
    assume res: "AddClientConnection e ?cl srv (live_net L) = Inr r"
      and "case r of (srv', n') \<Rightarrow> viewer_ok e v (net_out v (live_net L) @ join_bytes srv) (srv', n') \<and>
        net_out v n' = net_out v (live_net L) @ join_bytes srv @ http_chunk (tag_bytes (first_tag srv)) \<and>
        chunk_state_of (srv_rtmp srv') = chunk_state_of (srv_rtmp srv) \<and>
        (stream_ok (srv_rtmp srv) \<longrightarrow> stream_ok (srv_rtmp srv'))"
    then have v: "viewer_ok e v base (srv', n')" "net_out v n' = base @ http_chunk (tag_bytes (first_tag srv))"
      "chunk_state_of (srv_rtmp srv') = chunk_state_of (srv_rtmp srv)" "stream_ok (srv_rtmp srv')"
      using assms(4) by (simp_all add: r base_def srv_def)
    note bs = AddClientConnection_beside [OF res [unfolded r] so, of name]
    have cm: "client_map srv' = map_set v ?cl (client_map srv)"
      using AddClientConnection_fields(1) [OF res [unfolded r]] by (simp add: cl)
    have "name \<notin> keys (client_map srv')" using assms(6,9) by (simp add: cm map_set_keys srv_def)
    moreover have "viewer_items v base (srv', n') = [tag_item (first_tag srv)]"
      using chunk_items_tags [of "[first_tag srv]"] first_tag_item(1) [OF j(3)] by (simp add: viewer_items_def v(2))
    ultimately show "case r of (srv', n') \<Rightarrow> viewer_ok e v base (srv', n') \<and> stream_ok (srv_rtmp srv') \<and>
        name \<notin> keys (client_map srv') \<and> viewer_items v base (srv', n') = [tag_item (first_tag srv)] \<and>
        chunk_state_of (srv_rtmp srv') = chunk_state_of (srv_rtmp srv) \<and> on_body_data srv' \<and> map_sorted (net_conns n') \<and>
        map_find name (net_conns n') = map_find name (net_conns (live_net L))"
      using v bs assms(3,9) cl by (simp add: r srv_def)
  next
    fix r :: "rtmp_server \<times> net"
    assume "case r of (srv', n') \<Rightarrow> viewer_ok e v base (srv', n') \<and> stream_ok (srv_rtmp srv') \<and>
        name \<notin> keys (client_map srv') \<and> viewer_items v base (srv', n') = [tag_item (first_tag srv)] \<and>
        chunk_state_of (srv_rtmp srv') = chunk_state_of (srv_rtmp srv) \<and> on_body_data srv' \<and> map_sorted (net_conns n') \<and>
        map_find name (net_conns n') = map_find name (net_conns (live_net L))"
    then show "safe (may_fill e) (\<lambda>(_, L'). streaming e v base name i L' c \<and>
        chunk_state_of (srv_rtmp (publishers L' ! i)) = chunk_state_of (srv_rtmp srv) \<and>
        viewer_items v base (publishers L' ! i, live_net L') = [tag_item (first_tag srv)])
      (case r of (srv, n) \<Rightarrow> Inr (AddReadIndex (ReadableLength request) request,
        L\<lparr>publishers := (publishers L)[i := srv], live_net := n, watching := map_set v i (watching L)\<rparr>))"
      using assms(1,2) i by (cases r) (simp add: streaming_def publishes_def find_conn_def)
  qed
qed

text \<open>
  C1: what a viewer of a running stream is sent. A viewer asks for the path of a publisher;
  then \<open>bytes\<close> arrive on the publisher's socket, and the kernel hands them over in pieces of any
  sizes. All of them are read: the input buffer is never found full, and the publisher's
  connection stays open. The viewer is sent the response header and the head of the stream, as
  one HTTP chunk, and behind them chunks of one FLV tag each: the last tag the publisher had
  completed, then, in order and without a gap, every tag that the bytes complete (what is
  still to come is in the input buffer, which has room for more). Each tag holds the size of
  the one before it, starting from the last tag of the head. The run can only end early when a
  viewer that is served on the publisher's thread has used up the memory.
\<close>

theorem viewer_stream:
  assumes "publishes name i L c" "open_input (recv_buffer c)" "on_body_data (publishers L ! i)"
    and "stream_ok (srv_rtmp (publishers L ! i))" "joinable (publishers L ! i)" "name \<notin> keys (client_map (publishers L ! i))"
    and "clients_ok e (client_map (publishers L ! i)) (live_net L)" "live e v (live_net L)" "v \<noteq> name"
    and "request_for q request" "map_find (strip_slash q) (rtmp_connection_map L) = Some (Some i)"
    and "length (acc_bytes (srv_rtmp (publishers L ! i))) + ReadableLength (recv_buffer c) + length bytes < 2 ^ 32"
    and "\<forall>k \<in> set ks. 0 < k" "length bytes \<le> length ks"
  defines "srv \<equiv> publishers L ! i"
  shows "safe (may_fill e) (\<lambda>(rest, L'). rest = [] \<and> (\<exists>c' body todo. publishes name i L' c' \<and> open_input (recv_buffer c') \<and>
      net_out v (live_net L') =
        net_out v (live_net L) @ response_header @ http_chunk (head_bytes (rm_flv_manager (srv_rtmp srv))) @ body \<and>
      todo = snd (feed (chunk_state_of (srv_rtmp (publishers L' ! i))) (readable (recv_buffer c'))) \<and>
      chunk_items body @ todo =
        tag_item (first_tag srv) # snd (feed (chunk_state_of (srv_rtmp srv)) (readable (recv_buffer c) @ bytes)) \<and>
      chain_from (GetLastHeaderTagCurrentSize srv) (chunk_items body @ todo)))
    (watch_and_read e junk junks close v request name ks bytes L)"
  unfolding watch_and_read_def
proof (rule safe_ebind [OF joins_stream [OF assms(1-11)]], clarify)
  fix b1 L1
  let ?base = "net_out v (live_net L) @ join_bytes (publishers L ! i)"
  let ?s = "chunk_state_of (srv_rtmp srv)"
  assume st: "streaming e v ?base name i L1 c"
    and cs: "chunk_state_of (srv_rtmp (publishers L1 ! i)) = chunk_state_of (srv_rtmp (publishers L ! i))"
    and first: "viewer_items v ?base (publishers L1 ! i, live_net L1) = [tag_item (first_tag (publishers L ! i))]"
  obtain p where p: "tags_ok srv p" using assms(5) by (auto simp: joinable_def srv_def)
  have "cs_acc (chunk_state_of (srv_rtmp (publishers L1 ! i))) = cs_acc ?s" by (simp only: cs srv_def)
  then have len: "length (acc_bytes (srv_rtmp (publishers L1 ! i))) + ReadableLength (recv_buffer c) + length bytes < 2 ^ 32"
    using assms(12) by (simp add: srv_def)
  show "safe (may_fill e) (\<lambda>(rest, L'). rest = [] \<and> (\<exists>c' body todo. publishes name i L' c' \<and> open_input (recv_buffer c') \<and>
      net_out v (live_net L') =
        net_out v (live_net L) @ response_header @ http_chunk (head_bytes (rm_flv_manager (srv_rtmp srv))) @ body \<and>
      todo = snd (feed (chunk_state_of (srv_rtmp (publishers L' ! i))) (readable (recv_buffer c'))) \<and>
      chunk_items body @ todo = tag_item (first_tag srv) # snd (feed ?s (readable (recv_buffer c) @ bytes)) \<and>
      chain_from (GetLastHeaderTagCurrentSize srv) (chunk_items body @ todo)))
    (publisher_reads e junk junks close name ks bytes L1)"
  proof (rule safe_mono [OF streaming_reads [OF st assms(13) len]], clarify)
    fix rest L' c' xs
    assume st': "streaming e v ?base name i L' c'" and r: "length (rest :: bytes) \<le> length (xs @ rest) - length ks"
      and f: "stream_followed e v ?base i L1 c xs L' c'" and bytes: "bytes = xs @ rest"
    have fin: "rest = []" "xs = bytes" using r bytes assms(14) by auto
    obtain ys items where fd: "readable (recv_buffer c) @ bytes = ys @ readable (recv_buffer c')"
      "feed ?s ys = (chunk_state_of (srv_rtmp (publishers L' ! i)), items)"
      "viewer_items v ?base (publishers L' ! i, live_net L') = tag_item (first_tag srv) # items"
      using f first cs fin by (auto simp: followed_def srv_def)
    obtain body where body: "net_out v (live_net L') = ?base @ body" using f by (auto simp: followed_def viewer_ok_def)
    let ?todo = "snd (feed (chunk_state_of (srv_rtmp (publishers L' ! i))) (readable (recv_buffer c')))"
    have all: "chunk_items body @ ?todo = tag_item (first_tag srv) # snd (feed ?s (readable (recv_buffer c) @ bytes))"
      using fd body by (simp add: viewer_items_def feed_append split: prod.splits)
    have "chain_from (GetLastHeaderTagCurrentSize srv) (chunk_items body @ ?todo)"
      unfolding all by (rule viewer_stream_tail [OF p refl])
    moreover have "publishes name i L' c'" "open_input (recv_buffer c')" using st' by (simp_all add: streaming_def)
    moreover have "net_out v (live_net L') =
        net_out v (live_net L) @ response_header @ http_chunk (head_bytes (rm_flv_manager (srv_rtmp srv))) @ body"
      using body by (simp add: join_bytes_def srv_def)
    ultimately show "rest = [] \<and> (\<exists>c' body todo. publishes name i L' c' \<and> open_input (recv_buffer c') \<and>
        net_out v (live_net L') =
          net_out v (live_net L) @ response_header @ http_chunk (head_bytes (rm_flv_manager (srv_rtmp srv))) @ body \<and>
        todo = snd (feed (chunk_state_of (srv_rtmp (publishers L' ! i))) (readable (recv_buffer c'))) \<and>
        chunk_items body @ todo = tag_item (first_tag srv) # snd (feed ?s (readable (recv_buffer c) @ xs @ rest)) \<and>
        chain_from (GetLastHeaderTagCurrentSize srv) (chunk_items body @ todo))"
      using all fin by (intro conjI exI [of _ c'] exI [of _ body] exI [of _ ?todo]) simp_all
  qed
qed

definition sample_streaming :: live_server where
  "sample_streaming = sample_live\<lparr>publisher_of := [(lit ''p'', 0)]\<rparr>"

definition sample_conn :: tcp_connection where
  "sample_conn = (TcpConnection_new (lit ''p'') 8)\<lparr>conn_status := CONNECTED\<rparr>"

lemma open_input_new [simp]: "open_input Buffer_new"
  by (simp add: open_input_def) (simp add: Buffer_new_def Buffer_sized_def DEFAULT_BUFFER_SIZE_def)

lemma sample_streaming_ok:
  "publishes (lit ''p'') 0 sample_streaming sample_conn" "open_input (recv_buffer sample_conn)"
  "publishers sample_streaming ! 0 = sample_server" "live_net sample_streaming = sample_net"
  "map_find (strip_slash (lit ''a'')) (rtmp_connection_map sample_streaming) = Some (Some 0)"
  "joinable sample_server" "on_body_data sample_server" "client_map sample_server = []"
proof -
  show "publishes (lit ''p'') 0 sample_streaming sample_conn"
    by (simp add: publishes_def sample_streaming_def sample_live_def sample_net_def find_conn_def map_find_Cons
        sample_conn_def live_server_new_def lit_def)
  show "open_input (recv_buffer sample_conn)" by (simp add: sample_conn_def TcpConnection_new_def)
  show "publishers sample_streaming ! 0 = sample_server" "live_net sample_streaming = sample_net"
    "map_find (strip_slash (lit ''a'')) (rtmp_connection_map sample_streaming) = Some (Some 0)"
    by (simp_all add: sample_streaming_def sample_live_def map_find_Cons strip_slash_def lit_def of_char_def)
  show "joinable sample_server" using sample_server_ok unfolding joinable_def by blast
  show "on_body_data sample_server" "client_map sample_server = []"
    by (simp_all add: sample_server_def RtmpServerConnection_new_def)
qed

theorem viewer_stream_witness:
  "\<exists>L' c' body todo. watch_and_read sample_env sample_pack (\<lambda>_. sample_pack) None (lit ''v'') (sample_request (lit ''a''))
       (lit ''p'') (replicate 19 5) sample_stream sample_streaming = Inr ([], L') \<and>
     find_conn (lit ''p'') L' = Some c' \<and> conn_status c' = CONNECTED \<and>
     net_out (lit ''v'') (live_net L') = response_header @ http_chunk (head_bytes sample_manager) @ body \<and>
     todo = snd (feed (chunk_state_of (srv_rtmp (publishers L' ! 0))) (readable (recv_buffer c'))) \<and>
     map it_data (chunk_items body @ todo) = [[0x17, 1, 2], [0x17, 1, 2], [0x27, 1, 5]]"
proof -
  let ?run = "watch_and_read sample_env sample_pack (\<lambda>_. sample_pack) None (lit ''v'') (sample_request (lit ''a''))
       (lit ''p'') (replicate 19 5) sample_stream sample_streaming"
  let ?s = "chunk_state_of (srv_rtmp sample_server)"
  note ok = sample_streaming_ok
  have acc: "acc_bytes (srv_rtmp sample_server) = []" using sample_parser_acc by (simp add: sample_server_def)
  have rb: "recv_buffer sample_conn = Buffer_new" by (simp add: sample_conn_def TcpConnection_new_def)
  have out: "net_out (lit ''v'') sample_net = []"
    by (simp add: net_out_def sample_net_def map_find_Cons outgoing_def queued_def TcpConnection_new_def)
  have nf: "may_fill sample_env = False" by (simp add: may_fill_def sample_env_def)
  have man: "rm_flv_manager (srv_rtmp sample_server) = sample_manager" by (simp add: sample_server_def)
  have "idle ?s" using sample_parser_ok(2) by (simp add: idle_def sample_server_def)
  then obtain t where fd: "feed ?s sample_stream = (t, media_items (cs_clock ?s) (cs_last ?s) sample_msgs)"
    using feed_msgs [of 4 "[1, 0, 0, 0]" ?s None sample_msgs] sample_msgs_ok by (auto simp: sample_stream_def)
  have data: "map it_data (tag_item (first_tag sample_server) # snd (feed ?s sample_stream)) =
      [[0x17, 1, 2], [0x17, 1, 2], [0x27, 1, 5]]"
    unfolding fd snd_conv list.map media_items_data
    by (simp add: first_tag_def sample_server_def tag_item_setters tag_completeD sample_tag_complete)
      (simp add: tag_item_def sample_tag_def readable_def sample_msgs_def is_media_def Let_def)
  have req: "request_for (lit ''a'') (sample_request (lit ''a''))"
    by (rule sample_request_for; simp add: lit_def of_char_def)
  have len: "length (acc_bytes (srv_rtmp (publishers sample_streaming ! 0))) + ReadableLength (recv_buffer sample_conn) +
      length sample_stream < 2 ^ 32" unfolding ok acc rb by (simp add: length_sample_stream)
  have "holds (\<lambda>(rest, L'). rest = [] \<and> (\<exists>c' body todo. publishes (lit ''p'') 0 L' c' \<and>
      net_out (lit ''v'') (live_net L') = response_header @ http_chunk (head_bytes sample_manager) @ body \<and>
      todo = snd (feed (chunk_state_of (srv_rtmp (publishers L' ! 0))) (readable (recv_buffer c'))) \<and>
      chunk_items body @ todo = tag_item (first_tag sample_server) # snd (feed ?s sample_stream))) ?run"
  proof (rule holds_mono [OF viewer_stream [OF ok(1,2) _ _ _ _ _ _ _ req ok(5) len, of sample_env "lit ''v''" "replicate 19 5"
        sample_pack "\<lambda>_. sample_pack" None, unfolded ok rb out man nf safe_False readable_Buffer_new append_Nil]])
    show "lit ''v'' \<noteq> lit ''p''" by (simp add: lit_def)
  qed (use ok(6,7) sample_server_ok(3) sample_net_ok in \<open>auto simp: length_sample_stream\<close>)
  then obtain x where x: "?run = Inr x" and P: "case x of (rest, L') \<Rightarrow> rest = [] \<and> (\<exists>c' body todo. publishes (lit ''p'') 0 L' c' \<and>
      net_out (lit ''v'') (live_net L') = response_header @ http_chunk (head_bytes sample_manager) @ body \<and>
      todo = snd (feed (chunk_state_of (srv_rtmp (publishers L' ! 0))) (readable (recv_buffer c'))) \<and>
      chunk_items body @ todo = tag_item (first_tag sample_server) # snd (feed ?s sample_stream))"
    by (rule holdsE)
  obtain rest L' where xp: "x = (rest, L')" by (cases x)
  from P obtain c' body todo where r: "rest = []" "publishes (lit ''p'') 0 L' c'"
    "net_out (lit ''v'') (live_net L') = response_header @ http_chunk (head_bytes sample_manager) @ body"
    "todo = snd (feed (chunk_state_of (srv_rtmp (publishers L' ! 0))) (readable (recv_buffer c')))"
    "chunk_items body @ todo = tag_item (first_tag sample_server) # snd (feed ?s sample_stream)"
    unfolding xp prod.case by blast
  have items: "map it_data (chunk_items body @ todo) = [[0x17, 1, 2], [0x17, 1, 2], [0x27, 1, 5]]"
    by (simp only: r(5) data)
  have c: "find_conn (lit ''p'') L' = Some c'" "conn_status c' = CONNECTED" using r(2) by (simp_all add: publishes_def)
  show ?thesis
    by (rule exI [of _ L'], rule exI [of _ c'], rule exI [of _ body], rule exI [of _ todo], intro conjI)
      (rule x [unfolded xp r(1)] c r(3,4) items)+
qed

end
