(* ===== verification/HandshakeMessages.thy ===== *)
theory HandshakeMessages
  imports LiveServer
begin

text \<open>
  Handshakes of well-formed messages: \<open>msgs_from\<close> says that a list of byte strings is what the
  states of the handshake wait for, one after the other. A call of \<^verbatim>\<open>ShakeHand\<close> with any part of
  them in the buffer goes over the messages that are complete and answers them.
\<close>

section \<open>Messages\<close>

text \<open>A message with a header that states its size.\<close>

definition whole_message :: "bytes \<Rightarrow> bool" where
  "whole_message msg \<longleftrightarrow> 7 \<le> length msg \<and> fmt_of (drop_bit 6 (msg ! 0)) \<in> {FMT0, FMT1} \<and>
     header_len (msg ! 0) + unat (be24 (msg ! 4) (msg ! 5) (msg ! 6)) = length msg"

definition body_of :: "bytes \<Rightarrow> bytes" where
  "body_of msg = drop (header_len (msg ! 0)) msg"

fun msg_for :: "shake_hand_pack_type \<Rightarrow> bytes \<Rightarrow> bool" where
  "msg_for SHAKE_RTMP_C01 msg \<longleftrightarrow> length msg = 1537"
| "msg_for SHAKE_RTMP_C2 msg \<longleftrightarrow> length msg = 1536"
| "msg_for s msg \<longleftrightarrow> hs_left s \<noteq> 0 \<and> whole_message msg"

text \<open>The messages for a state and its successors.\<close>

fun msgs_from :: "shake_hand_pack_type \<Rightarrow> bytes list \<Rightarrow> bool" where
  "msgs_from s [] \<longleftrightarrow> True"
| "msgs_from s (m # ms) \<longleftrightarrow> msg_for s m \<and> msgs_from (the (hs_next s)) ms"

fun hs_after :: "shake_hand_pack_type \<Rightarrow> bytes list \<Rightarrow> shake_hand_pack_type" where
  "hs_after s [] = s"
| "hs_after s (m # ms) = hs_after (the (hs_next s)) ms"

fun hs_answers :: "shake_hand_pack_type \<Rightarrow> bytes list \<Rightarrow> bytes" where
  "hs_answers s [] = []"
| "hs_answers s (m # ms) = concat (hs_reply s) @ hs_answers (the (hs_next s)) ms"

text \<open>The body that the state \<open>key\<close> keeps.\<close>

fun kept_body :: "shake_hand_pack_type \<Rightarrow> shake_hand_pack_type \<Rightarrow> bytes list \<Rightarrow> bytes \<Rightarrow> bytes" where
  "kept_body key s [] old = old"
| "kept_body key s (m # ms) old = kept_body key (the (hs_next s)) ms (if s = key then body_of m else old)"

lemma hs_append [simp]:
  "msgs_from s (ms @ ns) \<longleftrightarrow> msgs_from s ms \<and> msgs_from (hs_after s ms) ns"
  "hs_after s (ms @ ns) = hs_after (hs_after s ms) ns"
  "hs_answers s (ms @ ns) = hs_answers s ms @ hs_answers (hs_after s ms) ns"
  "kept_body key s (ms @ ns) old = kept_body key (hs_after s ms) ns (kept_body key s ms old)"
  by (induction ms arbitrary: s old) auto

lemma whole_is_message: "whole_message msg \<Longrightarrow> is_message p msg"
  by (auto simp: whole_message_def is_message_def complete_def message_len_def body_size_def header_len_def)

lemma whole_body:
  assumes "whole_message msg"
  shows "message_body p (msg @ rest) = body_of msg"
proof -
  have "body_size p msg = length msg - header_len (msg ! 0)" "header_len (msg ! 0) \<le> length msg"
    using assms by (auto simp: whole_message_def body_size_def)
  moreover have "message_len p (msg @ rest) = length msg" "(msg @ rest) ! 0 = msg ! 0"
    using is_message_append(2,4) [OF whole_is_message [OF assms]] by simp_all
  ultimately have "body_size p (msg @ rest) = length msg - header_len (msg ! 0)" "(msg @ rest) ! 0 = msg ! 0"
    by (simp_all add: message_len_def)
  then show ?thesis by (simp add: message_body_def body_of_def)
qed

lemma whole_first: "whole_message msg \<Longrightarrow> msg \<noteq> [] \<and> msg ! 0 \<noteq> 0xc3"
  by (auto simp: whole_message_def fmt_of_def)

lemma msg_for_next: "msg_for s msg \<Longrightarrow> hs_next s = Some (the (hs_next s)) \<and> hs_left s \<noteq> 0 \<and> msg \<noteq> []"
  by (cases s) (auto dest: whole_first)

lemma body_size_more:
  assumes "bs \<noteq> []" "header_len (bs ! 0) \<le> length bs"
  shows "body_size p (bs @ xs) = body_size p bs" "message_len p (bs @ xs) = message_len p bs"
proof -
  have nth: "(bs @ xs) ! j = bs ! j" if "j < length bs" for j using that by (simp add: nth_append)
  have "body_size p (bs @ xs) = body_size p bs \<and> (bs @ xs) ! 0 = bs ! 0"
    using assms by (cases "fmt_of (drop_bit 6 (bs ! 0))") (simp_all add: body_size_def header_len_def nth)
  then show "body_size p (bs @ xs) = body_size p bs" "message_len p (bs @ xs) = message_len p bs"
    by (simp_all add: message_len_def)
qed

text \<open>A part of a message is not complete.\<close>

lemma whole_part:
  assumes "whole_message (bs @ u)" "u \<noteq> []"
  shows "\<not> complete p bs"
proof
  assume c: "complete p bs"
  then have "message_len p (bs @ u) = message_len p bs" by (intro body_size_more) (auto simp: complete_def)
  moreover have "message_len p (bs @ u) = length (bs @ u)" using whole_is_message [OF assms(1)] by (simp add: is_message_def)
  ultimately show False using c assms(2) by (cases u) (simp_all add: complete_def)
qed

text \<open>The state is ready when its message is there.\<close>

lemma msg_ready:
  assumes "msg_for (shake_hand_status m) msg" "bs @ todo = msg @ rest"
  shows "hs_ready junk m bs \<longleftrightarrow> length msg \<le> length bs" "length msg \<le> length bs \<Longrightarrow> hs_take junk m bs = length msg"
    "length msg \<le> length bs \<Longrightarrow> shake_hand_status m \<in> {SHAKE_RTMP_CONNECT, SHAKE_RTMP_RELEASE_STREAM} \<Longrightarrow>
      message_body p bs = body_of msg"
proof -
  have "(\<exists>us. bs = msg @ us) \<and> length msg \<le> length bs \<or> (\<exists>u. msg = bs @ u \<and> u \<noteq> []) \<and> \<not> length msg \<le> length bs"
    using assms(2) by (auto simp: append_eq_append_conv2)
  then consider us where "bs = msg @ us" "length msg \<le> length bs" | u where "msg = bs @ u" "u \<noteq> []" "\<not> length msg \<le> length bs"
    by blast
  then have "(hs_ready junk m bs \<longleftrightarrow> length msg \<le> length bs) \<and> (length msg \<le> length bs \<longrightarrow> hs_take junk m bs = length msg) \<and>
    (length msg \<le> length bs \<and> shake_hand_status m \<in> {SHAKE_RTMP_CONNECT, SHAKE_RTMP_RELEASE_STREAM} \<longrightarrow>
      message_body p bs = body_of msg)"
  proof cases
    case 1
    then show ?thesis using assms(1) is_message_append [OF whole_is_message, where msg = msg and rest = us] whole_first [of msg] whole_body [of msg p us]
      by (cases "shake_hand_status m") (auto simp: hs_ready_def hs_take_def)
  next
    case 2
    then show ?thesis using assms(1) whole_part [of bs u] whole_first [of msg]
      by (cases "shake_hand_status m") (auto simp: hs_ready_def hs_take_def nth_append)
  qed
  then show "hs_ready junk m bs \<longleftrightarrow> length msg \<le> length bs" "length msg \<le> length bs \<Longrightarrow> hs_take junk m bs = length msg"
    "length msg \<le> length bs \<Longrightarrow> shake_hand_status m \<in> {SHAKE_RTMP_CONNECT, SHAKE_RTMP_RELEASE_STREAM} \<Longrightarrow>
      message_body p bs = body_of msg" by auto
qed

section \<open>A call of ShakeHand\<close>

text \<open>The messages \<open>ms\<close> were gone over: the states, the answers and the kept bodies.\<close>

definition handshaken :: "env \<Rightarrow> rtmp_pack \<Rightarrow> bytes \<Rightarrow> rtmp_manager \<Rightarrow> net \<Rightarrow> bytes list \<Rightarrow> rtmp_manager \<Rightarrow> net \<Rightarrow> bool" where
  "handshaken e junk c m n ms m' n' \<longleftrightarrow> hs_ok junk m' \<and> hs_same m m' \<and>
     shake_hand_status m' = hs_after (shake_hand_status m) ms \<and> sent e c n (hs_answers (shake_hand_status m) ms) n' \<and>
     readable (pk_buffer (connect_pack m')) =
       kept_body SHAKE_RTMP_CONNECT (shake_hand_status m) ms (readable (pk_buffer (connect_pack m))) \<and>
     readable (pk_buffer (release_pack m')) =
       kept_body SHAKE_RTMP_RELEASE_STREAM (shake_hand_status m) ms (readable (pk_buffer (release_pack m)))"

lemma handshaken_refl: "hs_ok junk m \<Longrightarrow> live e c n \<Longrightarrow> handshaken e junk c m n [] m n"
  by (simp add: handshaken_def sent_refl)

lemma handshaken_trans:
  "handshaken e junk c m n ms m1 n1 \<Longrightarrow> handshaken e junk c m1 n1 ns m2 n2 \<Longrightarrow> handshaken e junk c m n (ms @ ns) m2 n2"
  by (auto simp: handshaken_def intro: hs_same_trans sent_trans)

text \<open>Where the call stops, with the messages \<open>ms\<close> still to come, of which \<open>b\<close> holds a part.\<close>

definition stopped :: "rtmp_manager \<Rightarrow> buffer \<Rightarrow> bytes list \<Rightarrow> shake_hand_result \<Rightarrow> bool" where
  "stopped m b ms r \<longleftrightarrow> (case r of
       RESULT_AUTHENTICATE \<Rightarrow> shake_hand_status m = SHAKE_RTMP_FCPUBLISH
     | RESULT_SUCCESS \<Rightarrow> shake_hand_status m = SHAKE_SUCCESS
     | RESULT_FAILED \<Rightarrow> False
     | RESULT_DATA_NOT_ENOUGH \<Rightarrow> shake_hand_status m \<noteq> SHAKE_SUCCESS \<and> (ms = [] \<or> length (readable b) < length (hd ms)))"

lemma shake_message_step:
  assumes "hs_ok junk m" "buf_ok b" "readable b @ todo = msg @ rest" "msg_for (shake_hand_status m) msg"
  obtains m' b' where "ParseShakeHand junk m b =
      Inr (if length msg \<le> length (readable b) then shake_hand_status m else SHAKE_DATA_NOT_ENOUGH, m', b')"
    "buf_ok b'" "readable b' @ todo = (if length msg \<le> length (readable b) then rest else msg @ rest)"
    "length msg \<le> length (readable b) \<or> b' = b"
    "\<And>e c n n'. sent e c n (if length msg \<le> length (readable b) then concat (hs_reply (shake_hand_status m)) else []) n' \<Longrightarrow>
      handshaken e junk c m n (if length msg \<le> length (readable b) then [msg] else []) m' n'"
proof -
  let ?s = "shake_hand_status m"
  obtain st m' b' where p: "ParseShakeHand junk m b = Inr (st, m', b')" "shake_step junk m b st m' b'"
    using ParseShakeHand_step [OF assms(1,2)] by blast
  note r = msg_ready(1,2) [OF assms(4,3), of junk]
  have nx: "hs_next ?s = Some (the (hs_next ?s))" "hs_left ?s \<noteq> 0" using msg_for_next [OF assms(4)] by simp_all
  have st: "hs_ok junk m'" "buf_ok b'" "hs_same m m'" "hs_kept junk m (readable b) m'"
    using p(2) by (simp_all add: shake_step_def)
  show ?thesis
  proof (cases "length msg \<le> length (readable b)")
    case True
    then have ready: "hs_ready junk m (readable b)" using r(1) by simp
    have s: "st = ?s" "shake_hand_status m' = the (hs_next ?s)" "readable b' = drop (length msg) (readable b)"
      using p(2) ready r(2) [OF True] nx(1) by (auto simp: shake_step_def)
    have body: "?s = SHAKE_RTMP_CONNECT \<Longrightarrow> message_body (connect_pack m) (readable b) = body_of msg"
      "?s = SHAKE_RTMP_RELEASE_STREAM \<Longrightarrow> message_body (release_pack m) (readable b) = body_of msg"
      using msg_ready(3) [OF assms(4,3) True] by simp_all
    have "readable b' @ todo = rest" using s(3) assms(3) True by (metis append_eq_conv_conj drop_append drop_eq_Nil diff_is_0_eq drop_0)
    then show ?thesis using p(1) s st True ready body
      by (intro that [of m' b']) (auto simp: handshaken_def hs_kept_def)
  next
    case False
    then have nr: "\<not> hs_ready junk m (readable b)" using r(1) by simp
    then have s: "st = SHAKE_DATA_NOT_ENOUGH" "shake_hand_status m' = ?s" "b' = b"
      using p(2) nx(2) by (auto simp: shake_step_def)
    then show ?thesis using p(1) st False nr assms(3)
      by (intro that [of m' b']) (auto simp: handshaken_def hs_kept_def)
  qed
qed

lemma nothing_ready: "\<not> hs_ready junk m []"
  by (cases "shake_hand_status m") (simp_all add: hs_ready_def complete_def)

lemma ShakeHand_loop_empty:
  assumes "hs_ok junk m" "buf_ok b" "live e c n" "readable b = []"
  obtains m' r where "ShakeHand_loop (Suc fuel) e junk c m b n = Inr (r, m', b, n)" "handshaken e junk c m n [] m' n"
    "stopped m' b [] r" "r \<noteq> RESULT_AUTHENTICATE"
proof -
  obtain st m' b' where p: "ParseShakeHand junk m b = Inr (st, m', b')" "shake_step junk m b st m' b'"
    using ParseShakeHand_step [OF assms(1,2)] by blast
  then have s: "st = (if shake_hand_status m = SHAKE_SUCCESS then SHAKE_SUCCESS else SHAKE_DATA_NOT_ENOUGH)"
      "shake_hand_status m' = shake_hand_status m" "b' = b" "hs_ok junk m'" "hs_same m m'" "hs_kept junk m [] m'"
    using nothing_ready [of junk m] assms(4) by (simp_all add: shake_step_def)
  let ?r = "if shake_hand_status m = SHAKE_SUCCESS then RESULT_SUCCESS else RESULT_DATA_NOT_ENOUGH"
  have "ShakeHand_loop (Suc fuel) e junk c m b n = Inr (?r, m', b, n)"
    by (simp add: p(1) s(1,3) shake_reply_def)
  moreover have "handshaken e junk c m n [] m' n"
    using s nothing_ready [of junk m] sent_refl [OF assms(3)] by (simp add: handshaken_def hs_kept_def)
  ultimately show ?thesis using s(2) by (intro that [of ?r m']) (simp_all add: stopped_def)
qed

definition shook :: "env \<Rightarrow> rtmp_pack \<Rightarrow> bytes \<Rightarrow> rtmp_manager \<Rightarrow> net \<Rightarrow> bytes list \<Rightarrow> bytes \<Rightarrow>
    shake_hand_result \<times> rtmp_manager \<times> buffer \<times> net \<Rightarrow> bool" where
  "shook e junk c m n ms todo = (\<lambda>(r, m', b', n'). \<exists>gone left. ms = gone @ left \<and> handshaken e junk c m n gone m' n' \<and>
     buf_ok b' \<and> readable b' @ todo = concat left \<and> stopped m' b' left r \<and> (r = RESULT_AUTHENTICATE \<longrightarrow> gone \<noteq> []))"

lemma shook_more:
  assumes "handshaken e junk c m n [msg] m1 n1" "shook e junk c m1 n1 rest todo x"
  shows "shook e junk c m n (msg # rest) todo x"
  using assms(2) handshaken_trans [OF assms(1)] unfolding shook_def by (fastforce intro: exI [of _ "msg # _"])

text \<open>One round of the loop, with \<open>loop\<close> for the rounds behind it.\<close>

lemma shake_round_messages:
  assumes "hs_ok junk m" "buf_ok b" "live e c n" "readable b @ todo = msg @ concat rest" "msgs_from (shake_hand_status m) (msg # rest)"
    and loop: "\<And>m1 b1 n1. hs_ok junk m1 \<Longrightarrow> buf_ok b1 \<Longrightarrow> live e c n1 \<Longrightarrow> readable b1 @ todo = concat rest \<Longrightarrow>
      shake_hand_status m1 = the (hs_next (shake_hand_status m)) \<Longrightarrow>
      safe (may_fill e) (shook e junk c m1 n1 rest todo) (ShakeHand_loop fuel e junk c m1 b1 n1)"
  shows "safe (may_fill e) (shook e junk c m n (msg # rest) todo) (ShakeHand_loop (Suc fuel) e junk c m b n)"
proof -
  let ?s = "shake_hand_status m"
  have mf: "msg_for ?s msg" using assms(5) by simp
  obtain m1 b1 where p: "ParseShakeHand junk m b =
      Inr (if length msg \<le> length (readable b) then ?s else SHAKE_DATA_NOT_ENOUGH, m1, b1)"
    "buf_ok b1" "readable b1 @ todo = (if length msg \<le> length (readable b) then concat rest else msg @ concat rest)"
    "length msg \<le> length (readable b) \<or> b1 = b"
    and hs: "\<And>e c n n'. sent e c n (if length msg \<le> length (readable b) then concat (hs_reply ?s) else []) n' \<Longrightarrow>
      handshaken e junk c m n (if length msg \<le> length (readable b) then [msg] else []) m1 n'"
    by (rule shake_message_step [OF assms(1,2,4) mf]) blast
  have nx: "hs_next ?s = Some (the (hs_next ?s))" "hs_left ?s \<noteq> 0" using msg_for_next [OF mf] by simp_all
  show ?thesis
  proof (cases "length msg \<le> length (readable b)")
    case False
    have h: "handshaken e junk c m n [] m1 n" using hs [of e c n n] False sent_refl [OF assms(3)] by simp
    then have "shake_hand_status m1 \<noteq> SHAKE_SUCCESS" using nx(2) by (auto simp: handshaken_def)
    then have "stopped m1 b (msg # rest) RESULT_DATA_NOT_ENOUGH" using False by (simp add: stopped_def)
    moreover have "ShakeHand_loop (Suc fuel) e junk c m b n = Inr (RESULT_DATA_NOT_ENOUGH, m1, b, n)"
      using p(1,4) False by (simp add: shake_reply_def)
    ultimately show ?thesis using h assms(2,4)
      by (simp add: shook_def del: ShakeHand_loop.simps) (intro exI [of _ "[]"] exI [of _ "msg # rest"], simp)
  next
    case True
    have run: "ShakeHand_loop (Suc fuel) e junk c m b n = ebind (shake_reply e c ?s n) (\<lambda>(r, n).
        case r of Some result \<Rightarrow> Inr (result, m1, b1, n) | None \<Rightarrow> ShakeHand_loop fuel e junk c m1 b1 n)"
      using True by (simp add: p(1))
    show ?thesis unfolding run
    proof (rule safe_ebind [OF shake_reply_sent [OF assms(3) nx(1)]], clarify)
      fix n1
      assume s: "sent e c n (concat (hs_reply ?s)) n1"
      then have h: "handshaken e junk c m n [msg] m1 n1" and lv: "live e c n1" using hs True by (simp_all add: sent_def)
      then have st: "shake_hand_status m1 = the (hs_next ?s)" "hs_ok junk m1" by (simp_all add: handshaken_def)
      have rd1: "readable b1 @ todo = concat rest" using p(3) True by simp
      have "shook e junk c m n (msg # rest) todo (RESULT_AUTHENTICATE, m1, b1, n1)" if "?s = SHAKE_RTMP_RELEASE_STREAM"
        using that h p(2) rd1 st(1) by (simp add: shook_def) (intro exI [of _ "[msg]"] exI [of _ rest], simp add: stopped_def)
      moreover have "safe (may_fill e) (shook e junk c m n (msg # rest) todo) (ShakeHand_loop fuel e junk c m1 b1 n1)"
        by (rule safe_mono [OF loop [OF st(2) p(2) lv rd1 st(1)]]) (rule shook_more [OF h])
      ultimately show "safe (may_fill e) (shook e junk c m n (msg # rest) todo)
        (case if ?s = SHAKE_RTMP_RELEASE_STREAM then Some RESULT_AUTHENTICATE else None of
           None \<Rightarrow> ShakeHand_loop fuel e junk c m1 b1 n1 | Some result \<Rightarrow> Inr (result, m1, b1, n1))" by simp
    qed
  qed
qed

lemma ShakeHand_loop_messages:
  "hs_ok junk m \<Longrightarrow> buf_ok b \<Longrightarrow> live e c n \<Longrightarrow> readable b @ todo = concat ms \<Longrightarrow> msgs_from (shake_hand_status m) ms \<Longrightarrow>
   hs_left (shake_hand_status m) < fuel \<Longrightarrow> safe (may_fill e) (shook e junk c m n ms todo) (ShakeHand_loop fuel e junk c m b n)"
proof (induction fuel arbitrary: m b n ms)
  case 0
  then show ?case by simp
next
  case (Suc fuel)
  show ?case
  proof (cases ms)
    case Nil
    then have e: "readable b = []" "todo = []" using Suc.prems(4) by simp_all
    obtain m' r where r: "ShakeHand_loop (Suc fuel) e junk c m b n = Inr (r, m', b, n)" "handshaken e junk c m n [] m' n"
      "stopped m' b [] r" "r \<noteq> RESULT_AUTHENTICATE"
      by (rule ShakeHand_loop_empty [OF Suc.prems(1-3) e(1)])
    then show ?thesis using Nil Suc.prems(2) e by (simp add: shook_def)
  next
    case (Cons msg rest)
    have rd: "readable b @ todo = msg @ concat rest" and ms: "msgs_from (shake_hand_status m) (msg # rest)"
      using Suc.prems(4,5) Cons by simp_all
    have nx: "hs_next (shake_hand_status m) = Some (the (hs_next (shake_hand_status m)))" using ms msg_for_next [of "shake_hand_status m" msg] by simp
    show ?thesis unfolding Cons
    proof (rule shake_round_messages [OF Suc.prems(1-3) rd ms])
      fix m1 b1 n1
      assume a: "hs_ok junk m1" "buf_ok b1" "live e c n1" "readable b1 @ todo = concat rest"
        and st: "shake_hand_status m1 = the (hs_next (shake_hand_status m))"
      have "msgs_from (shake_hand_status m1) rest" using ms st by simp
      moreover have "hs_left (shake_hand_status m1) < fuel" using Suc.prems(6) st hs_left_next [OF nx] by simp
      ultimately show "safe (may_fill e) (shook e junk c m1 n1 rest todo) (ShakeHand_loop fuel e junk c m1 b1 n1)"
        by (rule Suc.IH [OF a])
    qed
  qed
qed

end
