(* ===== verification/PublisherHandshake.thy ===== *)
theory PublisherHandshake
  imports SocketStream HandshakeMessages StreamHead
begin

text \<open>
  A whole handshake on the socket of a publisher, from the first byte to the registration of
  its stream, with the pieces cut anywhere.
\<close>

section \<open>What the handshake leaves of the input buffer\<close>

lemma ParseShakeHand_data: "ParseShakeHand junk m b = Inr (st, m', b') \<Longrightarrow> buf_data b' = buf_data b"
  by (cases "shake_hand_status m")
    (auto simp: ParseShakeHand_def shake_result_def result_simps Let_def dest: ParseHeaderAndBody_data split: if_split_asm)

lemma ShakeHand_loop_data: "ShakeHand_loop fuel e junk c m b n = Inr (r, m', b', n') \<Longrightarrow> buf_data b' = buf_data b"
proof (induction fuel arbitrary: m b n)
  case (Suc fuel)
  from Suc.prems obtain st m1 b1 where p: "ParseShakeHand junk m b = Inr (st, m1, b1)"
    by (auto simp: ebind_case3)
  obtain o1 n1 where r: "shake_reply e c st n = Inr (o1, n1)" using Suc.prems by (auto simp: p result_simps)
  show ?case using Suc.prems Suc.IH [of m1 b1 n1] ParseShakeHand_data [OF p]
    by (cases o1) (simp_all add: p r)
qed simp

section \<open>What the callbacks need\<close>

text \<open>The connect message names the stream; the release message holds a password.\<close>

definition names_stream :: "bytes \<Rightarrow> bytes \<Rightarrow> bool" where
  "names_stream path body \<longleftrightarrow> (\<exists>host p. connect_url body (lit ''rtmp:'' @ [SLASH, SLASH] @ host @ SLASH # p) \<and>
     SLASH \<notin> set host \<and> length host + length p + 8 \<le> max_size \<and> path = strip_slash p)"

definition has_password :: "bytes \<Rightarrow> bool" where
  "has_password body \<longleftrightarrow> 29 \<le> length body \<and> 0 \<le> sint (body ! 28) \<and> 29 + nat (sint (body ! 28)) \<le> length body"

lemma GetRtmpPath_named:
  assumes "buf_ok (pk_buffer (connect_pack (srv_rtmp srv)))" "names_stream path (readable (pk_buffer (connect_pack (srv_rtmp srv))))"
  shows "GetRtmpPath srv = Inr path"
  using assms GetRtmpPath_connect [OF assms(1)] by (auto simp: names_stream_def)

lemma ReadBegin_middle:
  assumes "buf_ok b" "off + n \<le> ReadableLength b"
  shows "ReadBegin_at b off n = Inr (take n (drop off (readable b)))"
proof -
  have "read_idx b + off + n \<le> length (buf_data b)" using assms buf_okD [OF assms(1)] by (simp add: ReadableLength_eq)
  moreover have "take n (drop off (readable b)) = take n (drop (read_idx b + off) (buf_data b))"
    using assms by (simp add: readable_def ReadableLength_eq drop_take min_def add.commute)
  ultimately show ?thesis by (simp add: ReadBegin_at_def)
qed

definition password_in :: "bytes \<Rightarrow> bytes" where
  "password_in body = take (nat (sint (body ! 28))) (drop 29 body)"

lemma GetPassword_there:
  assumes "buf_ok (pk_buffer (release_pack m))" "has_password (readable (pk_buffer (release_pack m)))"
  shows "GetPasswordFromReleasePack m = Inr (password_in (readable (pk_buffer (release_pack m))))"
proof -
  let ?b = "pk_buffer (release_pack m)"
  let ?n = "nat (sint (readable ?b ! 28))"
  have len: "29 \<le> ReadableLength ?b" "29 + ?n \<le> ReadableLength ?b" and pos: "0 \<le> sint (readable ?b ! 28)"
    using assms by (simp_all add: has_password_def)
  have "ReadBegin_at ?b 28 1 = Inr [readable ?b ! 28]"
    using ReadBegin_middle [OF assms(1), of 28 1] len(1) assms(1) by (simp add: take_Suc_conv_app_nth hd_drop_conv_nth take_Suc)
  then show ?thesis using ReadBegin_middle [OF assms(1) len(2)] pos
    by (simp add: GetPasswordFromReleasePack_def Let_def not_less password_in_def)
qed

lemma Authenticate_named:
  assumes "buf_ok (pk_buffer (connect_pack (srv_rtmp srv)))" "names_stream path (readable (pk_buffer (connect_pack (srv_rtmp srv))))"
    and "buf_ok (pk_buffer (release_pack (srv_rtmp srv)))" "has_password (readable (pk_buffer (release_pack (srv_rtmp srv))))"
  shows "Authenticate (Some auth) srv = Inr (auth path (password_in (readable (pk_buffer (release_pack (srv_rtmp srv))))))"
  using GetRtmpPath_named [OF assms(1,2)] GetPassword_there [OF assms(3,4)] by (simp add: Authenticate_def)

lemma Authenticate_accepts:
  assumes "buf_ok (pk_buffer (connect_pack (srv_rtmp srv)))" "names_stream path (readable (pk_buffer (connect_pack (srv_rtmp srv))))"
    and "buf_ok (pk_buffer (release_pack (srv_rtmp srv)))" "has_password (readable (pk_buffer (release_pack (srv_rtmp srv))))"
  shows "Authenticate (Some OnAuthenticate) srv = Inr True"
  using Authenticate_named [OF assms, of OnAuthenticate] by (simp add: OnAuthenticate_def)

section \<open>Counting the messages\<close>

lemma hs_left_after: "msgs_from s ms \<Longrightarrow> hs_left (hs_after s ms) + length ms = hs_left s"
proof (induction ms arbitrary: s)
  case (Cons m ms)
  then have "hs_left s = Suc (hs_left (the (hs_next s)))" using msg_for_next [of s m] hs_left_next by simp
  with Cons show ?case by simp
qed simp

lemma kept_body_over: "msgs_from s ms \<Longrightarrow> hs_left s < hs_left key \<Longrightarrow> kept_body key s ms old = old"
proof (induction ms arbitrary: s)
  case (Cons m ms)
  then have "hs_left s = Suc (hs_left (the (hs_next s)))" using msg_for_next [of s m] hs_left_next by simp
  with Cons show ?case by auto
qed simp

lemma no_message_after_success: "msgs_from SHAKE_SUCCESS ms \<Longrightarrow> ms = []"
  by (cases ms) simp_all

lemma messages_nonempty: "msgs_from s ms \<Longrightarrow> m \<in> set ms \<Longrightarrow> m \<noteq> []"
  by (induction ms arbitrary: s) (auto dest: msg_for_next)

section \<open>One call of the callback\<close>

text \<open>
  What has happened when \<open>gone\<close> has been gone over and \<open>left\<close> is to come: the stream is
  registered once the handshake is over. A complete message is left only behind the
  release message.
\<close>

definition registry_after :: "nat \<Rightarrow> bytes \<Rightarrow> rtmp_manager \<Rightarrow> registry \<Rightarrow> registry" where
  "registry_after i path m reg = (if shake_hand_status m = SHAKE_SUCCESS then map_set path (Some i) reg else reg)"

definition held_back :: "shake_hand_pack_type \<Rightarrow> bytes list \<Rightarrow> bool" where
  "held_back s gone \<longleftrightarrow> hs_left (hs_after s gone) \<le> 3 \<and> 4 \<le> hs_left s"

definition waits_for :: "bytes list \<Rightarrow> buffer \<Rightarrow> bool" where
  "waits_for left b \<longleftrightarrow> left = [] \<or> length (readable b) < length (hd left)"

definition handshake_inputs :: "rtmp_manager \<Rightarrow> bytes \<Rightarrow> bytes list \<Rightarrow> bool" where
  "handshake_inputs m path ms \<longleftrightarrow> msgs_from (shake_hand_status m) ms \<and> (\<forall>msg \<in> set ms. length msg \<le> DEFAULT_BUFFER_SIZE) \<and>
     names_stream path (kept_body SHAKE_RTMP_CONNECT (shake_hand_status m) ms (readable (pk_buffer (connect_pack m)))) \<and>
     has_password (kept_body SHAKE_RTMP_RELEASE_STREAM (shake_hand_status m) ms (readable (pk_buffer (release_pack m))))"

lemma handshake_inputs_rest:
  "handshake_inputs m path (gone @ left) \<Longrightarrow> handshaken e junk c m n gone m' n' \<Longrightarrow> handshake_inputs m' path left"
  by (simp add: handshake_inputs_def handshaken_def)

text \<open>Behind the connect and the release message their bodies are there.\<close>

lemma handshake_inputs_bodies:
  assumes "handshake_inputs m path ms"
  shows "hs_left (shake_hand_status m) < 5 \<Longrightarrow> names_stream path (readable (pk_buffer (connect_pack m)))"
    "hs_left (shake_hand_status m) < 4 \<Longrightarrow> has_password (readable (pk_buffer (release_pack m)))"
  using assms kept_body_over [of "shake_hand_status m" ms] by (simp_all add: handshake_inputs_def)

text \<open>What a call of the callback is to leave, when \<open>todo\<close> is still to come of the messages \<open>ms\<close>.\<close>

definition called :: "env \<Rightarrow> rtmp_pack \<Rightarrow> bytes \<Rightarrow> nat \<Rightarrow> rtmp_server \<Rightarrow> net \<Rightarrow> registry \<Rightarrow> bytes list \<Rightarrow> bytes \<Rightarrow>
    rtmp_server \<times> buffer \<times> net \<times> registry \<Rightarrow> bool" where
  "called e junk path i srv n reg ms todo = (\<lambda>(srv', b', n', reg'). \<exists>gone left. ms = gone @ left \<and>
     handshaken e junk (srv_conn srv) (srv_rtmp srv) n gone (srv_rtmp srv') n' \<and> buf_ok b' \<and> readable b' @ todo = concat left \<and>
     srv' = srv\<lparr>srv_rtmp := srv_rtmp srv', on_body_data := (shake_hand_status (srv_rtmp srv') = SHAKE_SUCCESS \<or> on_body_data srv)\<rparr> \<and>
     reg' = registry_after i path (srv_rtmp srv') reg \<and>
     (waits_for left b' \<or> held_back (shake_hand_status (srv_rtmp srv)) gone \<and> gone \<noteq> []))"

text \<open>What the callback does with the result of the loop.\<close>

definition on_result :: "nat \<Rightarrow> rtmp_server \<Rightarrow> registry \<Rightarrow> shake_hand_result \<times> rtmp_manager \<times> buffer \<times> net \<Rightarrow>
    (rtmp_server \<times> buffer \<times> net \<times> registry) result" where
  "on_result i srv reg = (\<lambda>(r, m, b, n). case r of
       RESULT_AUTHENTICATE \<Rightarrow> ebind (Authenticate (Some OnAuthenticate) (srv\<lparr>srv_rtmp := m\<rparr>)) (\<lambda>ok.
         if \<not> ok then ebind (net_shutdown (srv_conn srv) n) (\<lambda>n. Inr (srv\<lparr>srv_rtmp := m\<rparr>, b, n, reg)) else Inr (srv\<lparr>srv_rtmp := m\<rparr>, b, n, reg))
     | RESULT_SUCCESS \<Rightarrow> ebind (OnShakeHandSuccess i (srv\<lparr>srv_rtmp := m\<rparr>) reg) (\<lambda>s. Inr (srv\<lparr>srv_rtmp := m, on_body_data := True\<rparr>, b, n, s))
     | RESULT_FAILED \<Rightarrow> ebind (net_shutdown (srv_conn srv) n) (\<lambda>n. Inr (srv\<lparr>srv_rtmp := m\<rparr>, b, n, reg))
     | RESULT_DATA_NOT_ENOUGH \<Rightarrow> Inr (srv\<lparr>srv_rtmp := m\<rparr>, b, n, reg))"

lemma OnConnectionShakeHand_loop:
  "OnConnectionShakeHand e junk (Some OnAuthenticate) (Some (OnShakeHandSuccess i)) srv b n reg =
     ebind (ShakeHand_loop 10 e junk (srv_conn srv) (srv_rtmp srv) b n) (on_result i srv reg)"
  unfolding OnConnectionShakeHand_def ShakeHand_def ebind_assoc
  by (rule ebind_cong)
    (simp add: on_result_def del: ShakeHand_loop.simps cong: if_cong split: prod.split shake_hand_result.split)

lemma on_result_messages:
  assumes "shook e junk (srv_conn srv) (srv_rtmp srv) n ms todo x" "handshake_inputs (srv_rtmp srv) path ms"
  shows "safe (may_fill e) (called e junk path i srv n reg ms todo) (on_result i srv reg x)"
proof -
  let ?m = "srv_rtmp srv" and ?c = "srv_conn srv"
  let ?s = "shake_hand_status ?m"
  obtain r m' b' n' where x: "x = (r, m', b', n')" by (cases x)
  obtain gone left where g: "ms = gone @ left" "handshaken e junk ?c ?m n gone m' n'" "buf_ok b'"
    "readable b' @ todo = concat left" "stopped m' b' left r" "r = RESULT_AUTHENTICATE \<longrightarrow> gone \<noteq> []"
    using assms(1) by (auto simp: shook_def x)
  have st: "shake_hand_status m' = hs_after ?s gone" "hs_ok junk m'" using g(2) by (simp_all add: handshaken_def)
  have inp: "handshake_inputs m' path left" using handshake_inputs_rest [OF _ g(2)] assms(2) g(1) by simp
  have bufs: "buf_ok (pk_buffer (connect_pack m'))" "buf_ok (pk_buffer (release_pack m'))"
    using st(2) by (simp_all add: hs_ok_def pack_ok_def)
  note bodies = handshake_inputs_bodies [OF inp]
  have cnt: "hs_left (hs_after ?s gone) + length gone = hs_left ?s"
    using hs_left_after assms(2) g(1) by (simp add: handshake_inputs_def)
  show ?thesis
  proof (cases r)
    case RESULT_AUTHENTICATE
    then have s: "shake_hand_status m' = SHAKE_RTMP_FCPUBLISH" "gone \<noteq> []" using g(5,6) by (simp_all add: stopped_def)
    have "Authenticate (Some OnAuthenticate) (srv\<lparr>srv_rtmp := m'\<rparr>) = Inr True"
      by (rule Authenticate_accepts [where path = path]) (use bufs bodies s in simp_all)
    moreover have "held_back ?s gone" using cnt s st(1) by (cases gone) (simp_all add: held_back_def)
    ultimately show ?thesis using RESULT_AUTHENTICATE g(1-4) s by (auto simp: x on_result_def called_def registry_after_def)
  next
    case RESULT_SUCCESS
    then have s: "shake_hand_status m' = SHAKE_SUCCESS" using g(5) by (simp add: stopped_def)
    then have "waits_for left b'" using inp no_message_after_success by (simp add: handshake_inputs_def waits_for_def)
    moreover have "GetRtmpPath (srv\<lparr>srv_rtmp := m'\<rparr>) = Inr path"
      by (rule GetRtmpPath_named) (use bufs bodies s in simp_all)
    ultimately show ?thesis using RESULT_SUCCESS g(1-4) s
      by (auto simp: x on_result_def called_def registry_after_def OnShakeHandSuccess_def)
  next
    case RESULT_DATA_NOT_ENOUGH
    then have "shake_hand_status m' \<noteq> SHAKE_SUCCESS" "waits_for left b'" using g(5) by (simp_all add: stopped_def waits_for_def)
    then show ?thesis using RESULT_DATA_NOT_ENOUGH g(1-4) by (auto simp: x on_result_def called_def registry_after_def)
  qed (use g(5) in \<open>simp add: stopped_def\<close>)
qed

lemma OnConnectionShakeHand_messages:
  assumes "hs_ok junk (srv_rtmp srv)" "buf_ok b" "live e (srv_conn srv) n" "readable b @ todo = concat ms"
    and "handshake_inputs (srv_rtmp srv) path ms"
  shows "safe (may_fill e) (called e junk path i srv n reg ms todo)
    (OnConnectionShakeHand e junk (Some OnAuthenticate) (Some (OnShakeHandSuccess i)) srv b n reg)"
  unfolding OnConnectionShakeHand_loop
proof (rule safe_ebind [OF ShakeHand_loop_messages [OF assms(1-4)]])
  show "msgs_from (shake_hand_status (srv_rtmp srv)) ms" using assms(5) by (simp add: handshake_inputs_def)
  show "hs_left (shake_hand_status (srv_rtmp srv)) < 10" by (cases "shake_hand_status (srv_rtmp srv)") simp_all
qed (rule on_result_messages [OF _ assms(5)])

section \<open>One read of the socket\<close>

text \<open>A publisher in its handshake, or at its end, on the connection \<open>name\<close>.\<close>

definition shaking :: "env \<Rightarrow> rtmp_pack \<Rightarrow> bytes \<Rightarrow> nat \<Rightarrow> live_server \<Rightarrow> tcp_connection \<Rightarrow> bool" where
  "shaking e junk name i L c \<longleftrightarrow> publishes name i L c \<and> open_input (recv_buffer c) \<and> live e name (live_net L) \<and>
     hs_ok junk (srv_rtmp (publishers L ! i)) \<and> srv_conn (publishers L ! i) = name \<and>
     on_body_data (publishers L ! i) = (shake_hand_status (srv_rtmp (publishers L ! i)) = SHAKE_SUCCESS)"

definition went_over :: "env \<Rightarrow> rtmp_pack \<Rightarrow> bytes \<Rightarrow> bytes \<Rightarrow> nat \<Rightarrow> live_server \<Rightarrow> bytes list \<Rightarrow> live_server \<Rightarrow> bool" where
  "went_over e junk path name i L gone L' \<longleftrightarrow>
     handshaken e junk name (srv_rtmp (publishers L ! i)) (live_net L) gone (srv_rtmp (publishers L' ! i)) (live_net L') \<and>
     rtmp_connection_map L' = registry_after i path (srv_rtmp (publishers L' ! i)) (rtmp_connection_map L)"

text \<open>Changing only the input buffer of a connection changes nothing that is sent.\<close>

lemma put_recv:
  assumes "find_conn name L = Some c" "map_sorted (net_conns (live_net L))"
  shows "live e x (live_net (put_conn name (c\<lparr>recv_buffer := b\<rparr>) L)) = live e x (live_net L)"
    "net_out x (live_net (put_conn name (c\<lparr>recv_buffer := b\<rparr>) L)) = net_out x (live_net L)"
  using assms by (auto simp: live_def net_out_def find_conn_def put_conn_def map_find_set map_set_sorted queued_def outgoing_def)

lemma put_recv_sent:
  assumes "find_conn name L = Some c" "map_sorted (net_conns (live_net L))"
  shows "sent e name (live_net (put_conn name (c\<lparr>recv_buffer := b\<rparr>) L)) out n' = sent e name (live_net L) out n'"
    "sent e name n out (live_net (put_conn name (c\<lparr>recv_buffer := b\<rparr>) L)) = sent e name n out (live_net L)"
proof -
  have "map_find x (net_conns (live_net (put_conn name (c\<lparr>recv_buffer := b\<rparr>) L))) = map_find x (net_conns (live_net L))"
    "queued x (live_net (put_conn name (c\<lparr>recv_buffer := b\<rparr>) L)) = queued x (live_net L)" if "x \<noteq> name" for x
    using put_conn_other [OF assms(2) that] by (simp_all add: queued_def)
  then show "sent e name (live_net (put_conn name (c\<lparr>recv_buffer := b\<rparr>) L)) out n' = sent e name (live_net L) out n'"
    "sent e name n out (live_net (put_conn name (c\<lparr>recv_buffer := b\<rparr>) L)) = sent e name n out (live_net L)"
    by (auto simp: sent_def others_same_def put_recv [OF assms])
qed

lemma OnConnectionShakeHand_data:
  assumes "OnConnectionShakeHand e junk auth success srv b n s = Inr (srv', b', n', s')"
  shows "buf_data b' = buf_data b"
proof -
  obtain r m b1 n1 where r: "ShakeHand_loop 10 e junk (srv_conn srv) (srv_rtmp srv) b n = Inr (r, m, b1, n1)"
    using assms by (auto simp: OnConnectionShakeHand_def ShakeHand_def ebind_assoc result_simps simp del: ShakeHand_loop.simps)
  have "b' = b1" using assms
    by (cases r) (auto simp: OnConnectionShakeHand_def ShakeHand_def r result_simps simp del: ShakeHand_loop.simps split: if_split_asm)
  then show ?thesis using ShakeHand_loop_data [OF r] by simp
qed

text \<open>Behind a call there is room in the buffer again.\<close>

lemma handshake_leaves_room:
  assumes "readable b @ todo = concat (gone @ left)" "readable b' @ todo = concat left" "msgs_from s (gone @ left)"
    and "\<forall>msg \<in> set (gone @ left). length msg \<le> DEFAULT_BUFFER_SIZE" "buf_ok b" "buf_ok b'"
    and "ReadableLength b \<le> DEFAULT_BUFFER_SIZE" "waits_for left b' \<or> gone \<noteq> []"
  shows "ReadableLength b' < DEFAULT_BUFFER_SIZE"
proof (cases "gone = []")
  case True
  note gone = this
  show ?thesis
  proof (cases "left = []")
    case True
    then have "readable b' = []" using assms(2) by simp
    then show ?thesis using length_readable [OF assms(6)] by (simp add: DEFAULT_BUFFER_SIZE_def)
  next
    case False
    then have "length (readable b') < length (hd left)" using assms(8) gone by (simp add: waits_for_def)
    moreover have "hd left \<in> set (gone @ left)" using False by simp
    ultimately show ?thesis using assms(4) length_readable [OF assms(6)] by fastforce
  qed
next
  case False
  then obtain msg where m: "msg \<in> set gone" by (cases gone) auto
  then have "0 < length (concat gone)" using messages_nonempty [OF assms(3), of msg] by auto
  moreover have "length (readable b) + length todo = length (concat gone) + (length (readable b') + length todo)"
    using arg_cong [OF assms(1), of length] arg_cong [OF assms(2), of length] by simp
  ultimately show ?thesis using assms(7) length_readable [OF assms(5)] length_readable [OF assms(6)] by linarith
qed

text \<open>What a read leaves: the messages that are complete are gone over, and \<open>todo\<close> is still to come.\<close>

definition went_on :: "env \<Rightarrow> rtmp_pack \<Rightarrow> bytes \<Rightarrow> bytes \<Rightarrow> nat \<Rightarrow> live_server \<Rightarrow> bytes list \<Rightarrow> bytes \<Rightarrow> live_server \<Rightarrow> bool" where
  "went_on e junk path name i L ms todo L' \<longleftrightarrow> (\<exists>c' gone left. ms = gone @ left \<and> shaking e junk name i L' c' \<and>
     went_over e junk path name i L gone L' \<and> readable (recv_buffer c') @ todo = concat left \<and>
     (waits_for left (recv_buffer c') \<or> held_back (shake_hand_status (srv_rtmp (publishers L ! i))) gone))"

text \<open>The read as a call of the callback, whose results are put back where they belong.\<close>

definition put_call :: "bytes \<Rightarrow> nat \<Rightarrow> live_server \<Rightarrow> rtmp_server \<times> buffer \<times> net \<times> registry \<Rightarrow> live_server result" where
  "put_call name i L = (\<lambda>(srv, b, n, reg). case map_find name (net_conns n) of None \<Rightarrow> Inl NullPointer
     | Some c \<Rightarrow> Inr (put_conn name (c\<lparr>recv_buffer := b\<rparr>)
         (L\<lparr>publishers := (publishers L)[i := srv], live_net := n, rtmp_connection_map := reg\<rparr>)))"

lemma shaking_read:
  assumes "shaking e junk name i L c" "\<not> on_body_data (publishers L ! i)" "0 < k" "bytes \<noteq> []"
  obtains b where "Publisher_readable e junk junks close name (socket_read k bytes) L =
      ebind (OnConnectionShakeHand e junk (Some OnAuthenticate) (Some (OnShakeHandSuccess i)) (publishers L ! i) b
          (live_net (put_conn name (c\<lparr>recv_buffer := b\<rparr>) L)) (rtmp_connection_map L))
        (put_call name i (put_conn name (c\<lparr>recv_buffer := b\<rparr>) L))"
    "buf_ok b" "length (buf_data b) = DEFAULT_BUFFER_SIZE + IDX_BEGIN" "ReadableLength b \<le> DEFAULT_BUFFER_SIZE"
    "readable b = readable (recv_buffer c) @ take (min k (socket_room (recv_buffer c))) bytes"
proof -
  have p: "publishes name i L c" "open_input (recv_buffer c)" using assms(1) by (simp_all add: shaking_def)
  obtain b where run: "Publisher_readable e junk junks close name (socket_read k bytes) L =
      ebind (Publisher_message e junk junks i b (put_conn name (c\<lparr>recv_buffer := b\<rparr>) L)) (\<lambda>(b, L).
        case find_conn name L of None \<Rightarrow> Inl NullPointer
        | Some c \<Rightarrow> Inr (put_conn name (c\<lparr>recv_buffer := b\<rparr>) L))"
    and b: "buf_ok b" "length (buf_data b) = DEFAULT_BUFFER_SIZE + IDX_BEGIN" "ReadableLength b \<le> DEFAULT_BUFFER_SIZE"
    "readable b = readable (recv_buffer c) @ take (min k (socket_room (recv_buffer c))) bytes"
    by (rule Publisher_readable_bytes [OF p assms(3,4)]) blast
  show ?thesis
  proof (rule that [OF _ b])
    show "Publisher_readable e junk junks close name (socket_read k bytes) L =
      ebind (OnConnectionShakeHand e junk (Some OnAuthenticate) (Some (OnShakeHandSuccess i)) (publishers L ! i) b
          (live_net (put_conn name (c\<lparr>recv_buffer := b\<rparr>) L)) (rtmp_connection_map L))
        (put_call name i (put_conn name (c\<lparr>recv_buffer := b\<rparr>) L))"
      unfolding run Publisher_message_def Let_def put_conn_fields if_not_P [OF assms(2)] ebind_assoc
      by (rule ebind_cong) (simp add: find_conn_def put_call_def split: prod.split option.split)
  qed
qed

text \<open>Putting the results back keeps the publisher in its handshake.\<close>

lemma put_call_shaking:
  assumes "shaking e junk name i L c" "handshaken e junk name (srv_rtmp (publishers L ! i)) (live_net L) gone (srv_rtmp srv') n'"
    and "open_input b'" "srv_conn srv' = name" "on_body_data srv' = (shake_hand_status (srv_rtmp srv') = SHAKE_SUCCESS)"
    and "reg' = registry_after i path (srv_rtmp srv') (rtmp_connection_map L)"
  obtains L' d where "put_call name i (put_conn name (c\<lparr>recv_buffer := b\<rparr>) L) (srv', b', n', reg') = Inr L'"
    "shaking e junk name i L' d" "recv_buffer d = b'" "went_over e junk path name i L gone L'"
proof -
  have p: "publishes name i L c" "i < length (publishers L)" using assms(1) by (simp_all add: shaking_def publishes_def)
  have lv: "live e name n'" and hs: "hs_ok junk (srv_rtmp srv')" using assms(2) by (simp_all add: handshaken_def sent_def)
  obtain d where d: "map_find name (net_conns n') = Some d" "conn_status d = CONNECTED" "map_sorted (net_conns n')"
    using lv by (auto simp: live_def)
  let ?L1 = "put_conn name (c\<lparr>recv_buffer := b\<rparr>) L\<lparr>publishers := (publishers L)[i := srv'], live_net := n', rtmp_connection_map := reg'\<rparr>"
  let ?d = "d\<lparr>recv_buffer := b'\<rparr>"
  have f: "find_conn name ?L1 = Some d" "map_sorted (net_conns (live_net ?L1))" using d by (simp_all add: find_conn_def)
  have so: "map_sorted (net_conns (live_net (put_conn name ?d ?L1)))" by (rule put_conn_sorted [OF f(2)])
  show ?thesis
  proof (rule that)
    show "put_call name i (put_conn name (c\<lparr>recv_buffer := b\<rparr>) L) (srv', b', n', reg') = Inr (put_conn name ?d ?L1)"
      by (simp add: put_call_def d(1))
    show "shaking e junk name i (put_conn name ?d ?L1) ?d"
      using p d(2) assms(3-5) hs so put_recv(1) [OF f] lv by (simp add: shaking_def publishes_def)
    show "went_over e junk path name i L gone (put_conn name ?d ?L1)"
      using assms(2,6) p(2) put_recv_sent(2) [OF f] by (simp add: went_over_def handshaken_def)
  qed simp
qed

lemma shaking_step:
  assumes st: "shaking e junk name i L c" and k: "0 < k" "bytes \<noteq> []"
    and ms: "readable (recv_buffer c) @ bytes = concat ms" "handshake_inputs (srv_rtmp (publishers L ! i)) path ms"
  shows "safe (may_fill e) (went_on e junk path name i L ms (drop (min k (socket_room (recv_buffer c))) bytes))
    (Publisher_readable e junk junks close name (socket_read k bytes) L)"
proof -
  let ?srv = "publishers L ! i" and ?todo = "drop (min k (socket_room (recv_buffer c))) bytes"
  have p: "find_conn name L = Some c" "map_sorted (net_conns (live_net L))" "live e name (live_net L)" "hs_ok junk (srv_rtmp ?srv)"
      "srv_conn ?srv = name" using st by (simp_all add: shaking_def publishes_def)
  have mf: "msgs_from (shake_hand_status (srv_rtmp ?srv)) ms" "\<forall>msg \<in> set ms. length msg \<le> DEFAULT_BUFFER_SIZE"
    using ms(2) by (simp_all add: handshake_inputs_def)
  have "ms \<noteq> []" using ms(1) k(2) by auto
  then have nb: "\<not> on_body_data ?srv" using st mf(1) no_message_after_success by (auto simp: shaking_def)
  obtain b where run: "Publisher_readable e junk junks close name (socket_read k bytes) L =
      ebind (OnConnectionShakeHand e junk (Some OnAuthenticate) (Some (OnShakeHandSuccess i)) ?srv b
          (live_net (put_conn name (c\<lparr>recv_buffer := b\<rparr>) L)) (rtmp_connection_map L))
        (put_call name i (put_conn name (c\<lparr>recv_buffer := b\<rparr>) L))"
    and b: "buf_ok b" "length (buf_data b) = DEFAULT_BUFFER_SIZE + IDX_BEGIN" "ReadableLength b \<le> DEFAULT_BUFFER_SIZE"
    "readable b = readable (recv_buffer c) @ take (min k (socket_room (recv_buffer c))) bytes"
    by (rule shaking_read [OF st nb k])
  have rd: "readable b @ ?todo = concat ms" using b(4) ms(1) by simp
  have lv: "live e (srv_conn ?srv) (live_net (put_conn name (c\<lparr>recv_buffer := b\<rparr>) L))" using p(3,5) put_recv [OF p(1,2)] by simp
  show ?thesis unfolding run
  proof (rule safe_ebind [OF safe_result [OF OnConnectionShakeHand_messages [OF p(4) b(1) lv rd ms(2)] conjI]])
    fix r assume r: "OnConnectionShakeHand e junk (Some OnAuthenticate) (Some (OnShakeHandSuccess i)) ?srv b
          (live_net (put_conn name (c\<lparr>recv_buffer := b\<rparr>) L)) (rtmp_connection_map L) = Inr r \<and>
        called e junk path i ?srv (live_net (put_conn name (c\<lparr>recv_buffer := b\<rparr>) L)) (rtmp_connection_map L) ms ?todo r"
    obtain srv' b' n' reg' where e: "r = (srv', b', n', reg')" by (cases r)
    obtain gone left where g: "ms = gone @ left" "buf_ok b'" "readable b' @ ?todo = concat left"
        "handshaken e junk name (srv_rtmp ?srv) (live_net L) gone (srv_rtmp srv') n'"
        "srv' = ?srv\<lparr>srv_rtmp := srv_rtmp srv', on_body_data := (shake_hand_status (srv_rtmp srv') = SHAKE_SUCCESS \<or> on_body_data ?srv)\<rparr>"
        "reg' = registry_after i path (srv_rtmp srv') (rtmp_connection_map L)"
        "waits_for left b' \<or> held_back (shake_hand_status (srv_rtmp ?srv)) gone \<and> gone \<noteq> []"
      using r [THEN conjunct2] unfolding e called_def prod.case p(5) handshaken_def put_recv_sent [OF p(1,2)] by blast
    have "ReadableLength b' < DEFAULT_BUFFER_SIZE"
      by (rule handshake_leaves_room [OF rd [unfolded g(1)] g(3) mf(1) [unfolded g(1)] mf(2) [unfolded g(1)] b(1) g(2) b(3)])
        (use g(7) in blast)
    then have "open_input b'" using g(2) OnConnectionShakeHand_data [OF r [THEN conjunct1, unfolded e]] b(2) by (simp add: open_input_def)
    moreover have "srv_conn srv' = name" "on_body_data srv' = (shake_hand_status (srv_rtmp srv') = SHAKE_SUCCESS)"
      by (subst g(5), simp add: nb p(5))+
    ultimately obtain L' d where "put_call name i (put_conn name (c\<lparr>recv_buffer := b\<rparr>) L) r = Inr L'"
      "shaking e junk name i L' d" "recv_buffer d = b'" "went_over e junk path name i L gone L'"
      unfolding e by (rule put_call_shaking [OF st g(4) _ _ _ g(6)])
    then show "safe (may_fill e) (went_on e junk path name i L ms ?todo) (put_call name i (put_conn name (c\<lparr>recv_buffer := b\<rparr>) L) r)"
      using g(1,3,7) by (auto simp: went_on_def)
  qed
qed

text \<open>The handshake leaves the parser of the stream alone.\<close>

lemma before_head_same: "hs_same m m' \<Longrightarrow> before_head m' = before_head m"
  by (cases m, cases m') (simp add: hs_same_def before_head_def)

section \<open>Any number of reads\<close>

lemma waits_for_all: "waits_for left b \<Longrightarrow> readable b = concat left \<Longrightarrow> left = []"
  by (cases left) (simp_all add: waits_for_def)

lemma held_back_more:
  assumes "held_back (hs_after s gone) next_ms \<or> held_back s gone" "msgs_from s (gone @ next_ms)"
  shows "held_back s (gone @ next_ms)"
proof -
  have "hs_left (hs_after s gone) \<le> hs_left s" "hs_left (hs_after (hs_after s gone) next_ms) \<le> hs_left (hs_after s gone)"
    using hs_left_after [of s gone] hs_left_after [of "hs_after s gone" next_ms] assms(2) by simp_all
  then show ?thesis using assms(1) by (auto simp: held_back_def)
qed

lemma went_over_trans:
  assumes "went_over e junk path name i L gone L1" "went_over e junk path name i L1 next_ms L2"
    and "shake_hand_status (srv_rtmp (publishers L1 ! i)) \<noteq> SHAKE_SUCCESS"
  shows "went_over e junk path name i L (gone @ next_ms) L2"
  using assms handshaken_trans by (auto simp: went_over_def registry_after_def)

lemma reads_of_nothing: "find_conn name L = Some c \<Longrightarrow> publisher_reads e junk junks close name ks [] L = Inr ([], L)"
  by (cases ks) simp_all

lemma drop_shorter: "0 < n \<Longrightarrow> length xs \<le> Suc k \<Longrightarrow> length (drop n xs) \<le> k"
  by simp

text \<open>The reads that follow go on where the first one stopped.\<close>

lemma went_on_further:
  assumes "went_on e junk path name i L ms todo L1" "todo \<noteq> []" "handshake_inputs (srv_rtmp (publishers L ! i)) path ms"
  obtains c1 left where "shaking e junk name i L1 c1" "readable (recv_buffer c1) @ todo = concat left"
    "handshake_inputs (srv_rtmp (publishers L1 ! i)) path left"
    "\<And>todo' L2. went_on e junk path name i L1 left todo' L2 \<Longrightarrow> went_on e junk path name i L ms todo' L2"
proof -
  let ?s = "shake_hand_status (srv_rtmp (publishers L ! i))"
  obtain c1 gone left where g: "ms = gone @ left" "shaking e junk name i L1 c1" "went_over e junk path name i L gone L1"
    "readable (recv_buffer c1) @ todo = concat left" using assms(1) by (auto simp: went_on_def)
  have inp: "handshake_inputs (srv_rtmp (publishers L1 ! i)) path left"
    using handshake_inputs_rest [of _ path gone left] assms(3) g(1,3) by (auto simp: went_over_def)
  have st: "shake_hand_status (srv_rtmp (publishers L1 ! i)) = hs_after ?s gone"
    using g(3) by (simp add: went_over_def handshaken_def)
  have "left \<noteq> []" using g(4) assms(2) by auto
  then have ns: "shake_hand_status (srv_rtmp (publishers L1 ! i)) \<noteq> SHAKE_SUCCESS"
    using inp no_message_after_success by (auto simp: handshake_inputs_def)
  have "went_on e junk path name i L ms todo' L2" if w: "went_on e junk path name i L1 left todo' L2" for todo' L2
  proof -
    obtain c2 next_ms left' where h: "left = next_ms @ left'" "shaking e junk name i L2 c2" "went_over e junk path name i L1 next_ms L2"
      "readable (recv_buffer c2) @ todo' = concat left'" "waits_for left' (recv_buffer c2) \<or> held_back (hs_after ?s gone) next_ms"
      using w by (auto simp: went_on_def st)
    have "msgs_from ?s (gone @ next_ms)" using assms(3) g(1) h(1) by (simp add: handshake_inputs_def)
    then have "waits_for left' (recv_buffer c2) \<or> held_back ?s (gone @ next_ms)" using h(5) held_back_more by blast
    then show ?thesis unfolding went_on_def using h(2,4) went_over_trans [OF g(3) h(3) ns] g(1) h(1)
      by (intro exI [of _ c2] exI [of _ "gone @ next_ms"] exI [of _ left']) simp
  qed
  with g(2,4) inp show ?thesis by (rule that)
qed

lemma shaking_reads:
  "shaking e junk name i L c \<Longrightarrow> \<forall>k \<in> set ks. 0 < k \<Longrightarrow> bytes \<noteq> [] \<Longrightarrow> length bytes \<le> length ks \<Longrightarrow>
   readable (recv_buffer c) @ bytes = concat ms \<Longrightarrow> handshake_inputs (srv_rtmp (publishers L ! i)) path ms \<Longrightarrow>
   safe (may_fill e) (\<lambda>(rest, L'). rest = [] \<and> went_on e junk path name i L ms [] L')
    (publisher_reads e junk junks close name ks bytes L)"
proof (induction ks arbitrary: bytes L c ms)
  case Nil
  then show ?case by simp
next
  case (Cons k ks)
  let ?n = "min k (socket_room (recv_buffer c))"
  have c: "find_conn name L = Some c" "conn_status c \<noteq> DISCONNECTED"
    using Cons.prems(1) by (simp_all add: shaking_def publishes_def)
  have k: "0 < k" using Cons.prems(2) by simp
  have n: "0 < ?n" using k Cons.prems(1) by (simp add: shaking_def open_input_def socket_room_def)
  have run: "publisher_reads e junk junks close name (k # ks) bytes L =
      ebind (Publisher_readable e junk junks close name (socket_read k bytes) L)
        (publisher_reads e junk junks close name ks (drop ?n bytes))"
    using c Cons.prems(3) by simp
  show ?case unfolding run
  proof (rule safe_ebind [OF shaking_step [OF Cons.prems(1) k Cons.prems(3,5,6)]])
    fix L1
    assume on: "went_on e junk path name i L ms (drop ?n bytes) L1"
    show "safe (may_fill e) (\<lambda>(rest, L'). rest = [] \<and> went_on e junk path name i L ms [] L')
      (publisher_reads e junk junks close name ks (drop ?n bytes) L1)"
    proof (cases "drop ?n bytes = []")
      case True
      obtain c1 where "find_conn name L1 = Some c1" using on by (auto simp: went_on_def shaking_def publishes_def)
      then show ?thesis using on True reads_of_nothing by simp
    next
      case False
      obtain c1 left where g: "shaking e junk name i L1 c1" "readable (recv_buffer c1) @ drop ?n bytes = concat left"
        "handshake_inputs (srv_rtmp (publishers L1 ! i)) path left"
        "\<And>todo' L2. went_on e junk path name i L1 left todo' L2 \<Longrightarrow> went_on e junk path name i L ms todo' L2"
        by (rule went_on_further [OF on False Cons.prems(6)]) blast
      have "length (drop ?n bytes) \<le> length ks" by (rule drop_shorter [OF n]) (use Cons.prems(4) in simp)
      from Cons.IH [OF g(1) _ False this g(2,3)] Cons.prems(2)
      have "safe (may_fill e) (\<lambda>(rest, L'). rest = [] \<and> went_on e junk path name i L1 left [] L')
        (publisher_reads e junk junks close name ks (drop ?n bytes) L1)" by simp
      then show ?thesis by (rule safe_mono) (auto intro: g(4))
    qed
  qed
qed

text \<open>
  Messages that end with the release message, or come behind it, are gone over to the last one.
\<close>

definition went_through :: "env \<Rightarrow> rtmp_pack \<Rightarrow> bytes \<Rightarrow> bytes \<Rightarrow> nat \<Rightarrow> live_server \<Rightarrow> bytes list \<Rightarrow> live_server \<Rightarrow> bool" where
  "went_through e junk path name i L ms L' \<longleftrightarrow> went_over e junk path name i L ms L' \<and>
     (\<exists>c'. shaking e junk name i L' c' \<and> readable (recv_buffer c') = [])"

definition in_one_go :: "shake_hand_pack_type \<Rightarrow> bytes list \<Rightarrow> bool" where
  "in_one_go s ms \<longleftrightarrow> hs_left s \<le> 3 \<or> 3 + length ms \<le> hs_left s"

lemma went_on_all:
  assumes "went_on e junk path name i L ms [] L'" "handshake_inputs (srv_rtmp (publishers L ! i)) path ms"
    and "in_one_go (shake_hand_status (srv_rtmp (publishers L ! i))) ms"
  shows "went_through e junk path name i L ms L'"
proof -
  let ?s = "shake_hand_status (srv_rtmp (publishers L ! i))"
  obtain c' gone left where g: "ms = gone @ left" "shaking e junk name i L' c'" "went_over e junk path name i L gone L'"
    "readable (recv_buffer c') = concat left" "waits_for left (recv_buffer c') \<or> held_back ?s gone"
    using assms(1) by (auto simp: went_on_def)
  have "left = []" using g(5)
  proof
    assume "held_back ?s gone"
    moreover have "hs_left (hs_after ?s gone) + length gone = hs_left ?s"
      using hs_left_after assms(2) g(1) by (simp add: handshake_inputs_def)
    ultimately have "length left \<le> 0" using assms(3) arg_cong [OF g(1), of length]
      unfolding held_back_def in_one_go_def length_append by arith
    then show "left = []" by simp
  qed (rule waits_for_all [OF _ g(4)])
  then show ?thesis using g(1-4) by (auto simp: went_through_def)
qed

lemma messages_through:
  assumes "shaking e junk name i L c" "readable (recv_buffer c) = []" "\<forall>k \<in> set ks. 0 < k" "length (concat ms) \<le> length ks"
    and "concat ms \<noteq> []" "handshake_inputs (srv_rtmp (publishers L ! i)) path ms"
    and "in_one_go (shake_hand_status (srv_rtmp (publishers L ! i))) ms"
  shows "safe (may_fill e) (\<lambda>(rest, L'). rest = [] \<and> went_through e junk path name i L ms L')
    (publisher_reads e junk junks close name ks (concat ms) L)"
proof -
  have "readable (recv_buffer c) @ concat ms = concat ms" using assms(2) by simp
  from shaking_reads [OF assms(1,3,5,4) this assms(6)] show ?thesis
    by (rule safe_mono) (auto intro: went_on_all [OF _ assms(6,7)])
qed

lemma went_through_inputs:
  "handshake_inputs (srv_rtmp (publishers L ! i)) path (ms @ left) \<Longrightarrow> went_through e junk path name i L ms L' \<Longrightarrow>
   handshake_inputs (srv_rtmp (publishers L' ! i)) path left"
  unfolding went_through_def went_over_def using handshake_inputs_rest by blast

text \<open>
  C4: a well-formed handshake succeeds: one whose messages behind C2 have at most 4096 bytes each, whose connect message names a
  stream and whose release message carries the password. A publisher has connected; it sends the messages up to
  the release message and then, when these have been read, the others, each in pieces cut
  anywhere. Everything is read, the connection is never closed, the publisher has been sent
  exactly the answers of the protocol, in order, and its stream is registered under the path
  of the URL in its connect message. From then on what it sends is parsed as a stream, and the
  parser waits for the head of it.
\<close>

theorem handshake_registers_stream:
  assumes "shaking e junk name i L c" "readable (recv_buffer c) = []"
    and "shake_hand_status (srv_rtmp (publishers L ! i)) = SHAKE_RTMP_C01"
    and "msgs_from SHAKE_RTMP_C01 [c01, c2, chunk_size, connect, release, fcpublish, create, publish]"
    and "\<forall>msg \<in> {chunk_size, connect, release, fcpublish, create, publish}. length msg \<le> DEFAULT_BUFFER_SIZE"
    and "names_stream path (body_of connect)" "has_password (body_of release)"
    and "\<forall>k \<in> set ks. 0 < k" "length (concat [c01, c2, chunk_size, connect, release]) \<le> length ks"
    and "\<forall>k \<in> set ks'. 0 < k" "length (concat [fcpublish, create, publish]) \<le> length ks'"
    and "before_head (srv_rtmp (publishers L ! i))"
  shows "safe (may_fill e) (\<lambda>(rest, L'). rest = [] \<and> (\<exists>c'. publishes name i L' c' \<and> readable (recv_buffer c') = [] \<and>
      open_input (recv_buffer c') \<and> net_out name (live_net L') = net_out name (live_net L) @ handshake_answers \<and>
      rtmp_connection_map L' = map_set path (Some i) (rtmp_connection_map L) \<and> on_body_data (publishers L' ! i) \<and>
      before_head (srv_rtmp (publishers L' ! i))))
    (ebind (publisher_reads e junk junks close name ks (concat [c01, c2, chunk_size, connect, release]) L)
      (\<lambda>(rest, L'). publisher_reads e junk junks close name ks' (rest @ concat [fcpublish, create, publish]) L'))"
proof -
  let ?m = "srv_rtmp (publishers L ! i)" and ?one = "[c01, c2, chunk_size, connect, release]" and ?two = "[fcpublish, create, publish]"
  have "length c01 = 1537" "length c2 = 1536" using assms(4) by simp_all
  then have inp: "handshake_inputs ?m path (?one @ ?two)"
    using assms(3-7) by (simp add: handshake_inputs_def DEFAULT_BUFFER_SIZE_def)
  have in1: "handshake_inputs ?m path ?one"
    using assms(3-7) by (simp add: handshake_inputs_def DEFAULT_BUFFER_SIZE_def)
  have ne: "concat ?one \<noteq> []" "concat ?two \<noteq> []" using assms(4) whole_first by auto
  have go: "in_one_go (shake_hand_status ?m) ?one" by (simp add: in_one_go_def assms(3))
  show ?thesis
  proof (rule safe_ebind [OF messages_through [OF assms(1,2,8,9) ne(1) in1 go]], clarify)
    fix L1
    assume w1: "went_through e junk path name i L ?one L1"
    let ?m1 = "srv_rtmp (publishers L1 ! i)"
    obtain c1 where c1: "shaking e junk name i L1 c1" "readable (recv_buffer c1) = []" using w1 by (auto simp: went_through_def)
    have h1: "handshaken e junk name ?m (live_net L) ?one ?m1 (live_net L1)"
      and reg1: "rtmp_connection_map L1 = registry_after i path ?m1 (rtmp_connection_map L)"
      using w1 by (simp_all add: went_through_def went_over_def)
    have st1: "shake_hand_status ?m1 = SHAKE_RTMP_FCPUBLISH" using h1 assms(3) by (simp add: handshaken_def)
    have go2: "in_one_go (shake_hand_status ?m1) ?two" by (simp add: in_one_go_def st1)
    show "safe (may_fill e) (\<lambda>(rest, L'). rest = [] \<and> (\<exists>c'. publishes name i L' c' \<and> readable (recv_buffer c') = [] \<and>
        open_input (recv_buffer c') \<and> net_out name (live_net L') = net_out name (live_net L) @ handshake_answers \<and>
        rtmp_connection_map L' = map_set path (Some i) (rtmp_connection_map L) \<and> on_body_data (publishers L' ! i) \<and>
      before_head (srv_rtmp (publishers L' ! i))))
      (publisher_reads e junk junks close name ks' ([] @ concat ?two) L1)"
      unfolding append_Nil
    proof (rule safe_mono [OF messages_through [OF c1 assms(10,11) ne(2) went_through_inputs [OF inp w1] go2]], clarify)
      fix L2
      assume w2: "went_through e junk path name i L1 ?two L2"
      let ?m2 = "srv_rtmp (publishers L2 ! i)"
      obtain c2' where c2': "shaking e junk name i L2 c2'" "readable (recv_buffer c2') = []" using w2 by (auto simp: went_through_def)
      have h2: "handshaken e junk name ?m1 (live_net L1) ?two ?m2 (live_net L2)"
        and reg2: "rtmp_connection_map L2 = registry_after i path ?m2 (rtmp_connection_map L1)"
        using w2 by (simp_all add: went_through_def went_over_def)
      have st2: "shake_hand_status ?m2 = SHAKE_SUCCESS" using h2 st1 by (simp add: handshaken_def)
      have "net_out name (live_net L2) = net_out name (live_net L) @ handshake_answers"
        using h1 h2 by (simp add: handshaken_def sent_def st1 assms(3) handshake_answers_def)
      moreover have "before_head ?m2" using h1 h2 assms(12) before_head_same unfolding handshaken_def by blast
      ultimately show "[] = [] \<and> (\<exists>c'. publishes name i L2 c' \<and> readable (recv_buffer c') = [] \<and>
          open_input (recv_buffer c') \<and> net_out name (live_net L2) = net_out name (live_net L) @ handshake_answers \<and>
          rtmp_connection_map L2 = map_set path (Some i) (rtmp_connection_map L) \<and> on_body_data (publishers L2 ! i) \<and>
          before_head (srv_rtmp (publishers L2 ! i)))"
        using c2' st1 st2 by (intro conjI refl exI [of _ c2']) (simp_all add: shaking_def reg1 reg2 registry_after_def)
    qed
  qed
qed

section \<open>Messages that come together\<close>

text \<open>The release message with others behind it, in one piece: the others stay in the buffer.\<close>

lemma release_and_more:
  assumes "shaking e junk name i L c" "readable (recv_buffer c) = []"
    and "shake_hand_status (srv_rtmp (publishers L ! i)) = SHAKE_RTMP_RELEASE_STREAM" "whole_message release"
    and "length (release @ others) \<le> k" "length (release @ others) \<le> DEFAULT_BUFFER_SIZE"
    and "names_stream path (readable (pk_buffer (connect_pack (srv_rtmp (publishers L ! i)))))" "has_password (body_of release)"
  obtains L' c' where "Publisher_readable e junk junks close name (socket_read k (release @ others)) L = Inr L'"
    "find_conn name L' = Some c'" "conn_status c' = CONNECTED" "readable (recv_buffer c') = others"
    "net_out name (live_net L') = net_out name (live_net L)"
    "shake_hand_status (srv_rtmp (publishers L' ! i)) = SHAKE_RTMP_FCPUBLISH"
    "socket_room (recv_buffer c) = DEFAULT_BUFFER_SIZE"
proof -
  let ?srv = "publishers L ! i" and ?bytes = "release @ others"
  have p: "publishes name i L c" "open_input (recv_buffer c)" "hs_ok junk (srv_rtmp ?srv)" "buf_ok (recv_buffer c)"
      "\<not> on_body_data ?srv"
    using assms(1,3) by (simp_all add: shaking_def open_input_def)
  have i: "i < length (publishers L)" and f: "find_conn name L = Some c" "map_sorted (net_conns (live_net L))"
    and up: "conn_status c = CONNECTED" using p(1) by (simp_all add: publishes_def)
  have ne: "?bytes \<noteq> []" "0 < k" using whole_first [OF assms(4)] assms(5) by (cases release; simp)+
  have room: "socket_room (recv_buffer c) = DEFAULT_BUFFER_SIZE"
    using p(2) assms(2) length_readable [OF p(4)] by (simp add: open_input_def socket_room_def)
  have tk: "take (min k (socket_room (recv_buffer c))) ?bytes = ?bytes" using assms(5,6) room by simp
  obtain b where run: "Publisher_readable e junk junks close name (socket_read k ?bytes) L =
      ebind (Publisher_message e junk junks i b (put_conn name (c\<lparr>recv_buffer := b\<rparr>) L)) (\<lambda>(b, L).
        case find_conn name L of None \<Rightarrow> Inl NullPointer
        | Some c \<Rightarrow> Inr (put_conn name (c\<lparr>recv_buffer := b\<rparr>) L))"
    and b: "buf_ok b" "readable b = ?bytes"
    by (rule Publisher_readable_bytes [OF p(1,2) ne(2,1)]) (simp only: tk assms(2) append_Nil)
  let ?L = "put_conn name (c\<lparr>recv_buffer := b\<rparr>) L"
  note msg = is_message_append [OF whole_is_message [OF assms(4), of "release_pack (srv_rtmp ?srv)"], where rest = others]
  have "complete (release_pack (srv_rtmp ?srv)) (readable b)" using msg(1) by (simp add: b(2))
  from accepted_release_waits [OF p(3) b(1) assms(3) this, of e "Some OnAuthenticate" "Some (OnShakeHandSuccess i)" "live_net ?L" "rtmp_connection_map L"]
  obtain srv' b' where w: "shake_hand_status (srv_rtmp srv') = SHAKE_RTMP_FCPUBLISH" "readable b' = others" "hs_ok junk (srv_rtmp srv')"
    "readable (pk_buffer (connect_pack (srv_rtmp srv'))) = readable (pk_buffer (connect_pack (srv_rtmp ?srv)))"
    "readable (pk_buffer (release_pack (srv_rtmp srv'))) = body_of release"
    "OnConnectionShakeHand e junk (Some OnAuthenticate) (Some (OnShakeHandSuccess i)) ?srv b (live_net ?L) (rtmp_connection_map L) =
      ebind (Authenticate (Some OnAuthenticate) srv') (\<lambda>ok.
        if ok then Inr (srv', b', live_net ?L, rtmp_connection_map L)
        else ebind (net_shutdown (srv_conn ?srv) (live_net ?L)) (\<lambda>n. Inr (srv', b', n, rtmp_connection_map L)))"
    unfolding b(2) msg(3) whole_body [OF assms(4)] by blast
  have "Authenticate (Some OnAuthenticate) srv' = Inr True"
    by (rule Authenticate_accepts [where path = path]) (use w(3-5) assms(7,8) in \<open>simp_all add: hs_ok_def pack_ok_def\<close>)
  then have call: "OnConnectionShakeHand e junk (Some OnAuthenticate) (Some (OnShakeHandSuccess i)) ?srv b (live_net ?L)
      (rtmp_connection_map L) = Inr (srv', b', live_net ?L, rtmp_connection_map L)" by (simp add: w(6))
  let ?L1 = "?L\<lparr>publishers := (publishers L)[i := srv'], live_net := live_net ?L, rtmp_connection_map := rtmp_connection_map L\<rparr>"
  let ?c = "c\<lparr>recv_buffer := b'\<rparr>"
  have f1: "find_conn name ?L1 = Some (c\<lparr>recv_buffer := b\<rparr>)" "map_sorted (net_conns (live_net ?L1))"
    using put_conn_sorted [OF f(2)] by (simp_all add: find_conn_def put_conn_def)
  have "Publisher_readable e junk junks close name (socket_read k ?bytes) L = Inr (put_conn name ?c ?L1)"
    using p(5) call f1(1) by (simp add: run Publisher_message_def Let_def)
  moreover have "net_out name (live_net (put_conn name ?c ?L1)) = net_out name (live_net L)"
    using put_recv(2) [OF f1, of name b'] put_recv(2) [OF f, of name b] by simp
  ultimately show ?thesis using w(1,2) i up room by (intro that [of "put_conn name ?c ?L1" ?c]) simp_all
qed

text \<open>Messages in one piece that are gone over together, and a first piece of its own.\<close>

lemma shaking_room:
  "shaking e junk name i L c \<Longrightarrow> readable (recv_buffer c) = [] \<Longrightarrow> socket_room (recv_buffer c) = DEFAULT_BUFFER_SIZE"
  using length_readable [of "recv_buffer c"] by (simp add: shaking_def open_input_def socket_room_def)

lemma messages_at_once:
  assumes "shaking e junk name i L c" "readable (recv_buffer c) = []" "concat ms \<noteq> []" "length (concat ms) \<le> DEFAULT_BUFFER_SIZE"
    and "handshake_inputs (srv_rtmp (publishers L ! i)) path ms" "in_one_go (shake_hand_status (srv_rtmp (publishers L ! i))) ms"
  shows "safe (may_fill e) (\<lambda>(rest, L'). rest = [] \<and> went_through e junk path name i L ms L')
    (publisher_reads e junk junks close name [length (concat ms)] (concat ms) L)"
proof -
  have c: "find_conn name L = Some c" "conn_status c \<noteq> DISCONNECTED" using assms(1) by (simp_all add: shaking_def publishes_def)
  have all: "drop (min (length (concat ms)) (socket_room (recv_buffer c))) (concat ms) = []"
    using assms(4) shaking_room [OF assms(1,2)] by simp
  have run: "publisher_reads e junk junks close name [length (concat ms)] (concat ms) L =
      ebind (Publisher_readable e junk junks close name (socket_read (length (concat ms)) (concat ms)) L)
        (publisher_reads e junk junks close name [] [])"
    using c assms(3) by (simp only: publisher_reads.simps(2) c(1) all option.case if_False simp_thms)
  have k: "0 < length (concat ms)" "readable (recv_buffer c) @ concat ms = concat ms" using assms(2,3) by simp_all
  show ?thesis unfolding run
    by (rule safe_ebind [OF shaking_step [OF assms(1) k(1) assms(3) k(2) assms(5), unfolded all]])
      (simp add: went_on_all [OF _ assms(5,6)])
qed

lemma first_piece:
  assumes "shaking e junk name i L c" "readable (recv_buffer c) = []" "xs \<noteq> []" "length xs \<le> DEFAULT_BUFFER_SIZE"
  shows "publisher_reads e junk junks close name (length xs # ks) (xs @ ys) L =
    ebind (publisher_reads e junk junks close name [length xs] xs L) (\<lambda>(rest, L'). publisher_reads e junk junks close name ks ys L')"
proof -
  have c: "find_conn name L = Some c" "conn_status c \<noteq> DISCONNECTED" using assms(1) by (simp_all add: shaking_def publishes_def)
  have n: "min (length xs) (socket_room (recv_buffer c)) = length xs" using assms(4) shaking_room [OF assms(1,2)] by simp
  have same: "socket_read (length xs) (xs @ ys) = socket_read (length xs) xs" by (rule ext) (simp add: socket_read_def)
  have last: "ebind r (publisher_reads e junk junks close name [] []) = ebind r (\<lambda>L. Inr ([], L))" for r by (cases r) simp_all
  show ?thesis using c assms(3) by (simp add: n same last ebind_assoc)
qed

text \<open>The same messages, with a pause behind the release message.\<close>

lemma release_then_more:
  assumes "shaking e junk name i L c" "readable (recv_buffer c) = []"
    and "shake_hand_status (srv_rtmp (publishers L ! i)) = SHAKE_RTMP_RELEASE_STREAM"
    and "handshake_inputs (srv_rtmp (publishers L ! i)) path [release, fcpublish, create]"
    and "length (release @ fcpublish @ create) \<le> DEFAULT_BUFFER_SIZE"
  shows "safe (may_fill e) (\<lambda>(rest, L'). rest = [] \<and> net_out name (live_net L') = net_out name (live_net L) @ RTMP_SERVER_RESULT \<and>
      shake_hand_status (srv_rtmp (publishers L' ! i)) = SHAKE_RTMP_PUBLISH)
    (publisher_reads e junk junks close name [length release, length (fcpublish @ create)] (release @ fcpublish @ create) L)"
proof -
  let ?m = "srv_rtmp (publishers L ! i)" and ?one = "[release]" and ?two = "[fcpublish, create]"
  have ne: "release \<noteq> []" "fcpublish \<noteq> []" using assms(3,4) whole_first by (auto simp: handshake_inputs_def)
  have in1: "handshake_inputs ?m path ?one" using assms(3,4) by (simp add: handshake_inputs_def)
  have inp: "handshake_inputs ?m path (?one @ ?two)" using assms(4) by simp
  have go: "in_one_go (shake_hand_status ?m) ?one" by (simp add: in_one_go_def assms(3))
  have len: "length (concat ?one) \<le> DEFAULT_BUFFER_SIZE" "length (concat ?two) \<le> DEFAULT_BUFFER_SIZE" "length release \<le> DEFAULT_BUFFER_SIZE"
    using assms(5) by simp_all
  have first: "safe (may_fill e) (\<lambda>(rest, L'). rest = [] \<and> went_through e junk path name i L ?one L')
      (publisher_reads e junk junks close name [length release] release L)"
    using messages_at_once [OF assms(1,2) _ len(1) in1 go] ne by simp
  show ?thesis unfolding first_piece [OF assms(1,2) ne(1) len(3)]
  proof (rule safe_ebind [OF first], clarify)
    fix L1
    assume w1: "went_through e junk path name i L ?one L1"
    let ?m1 = "srv_rtmp (publishers L1 ! i)"
    obtain c1 where c1: "shaking e junk name i L1 c1" "readable (recv_buffer c1) = []" using w1 by (auto simp: went_through_def)
    have h1: "handshaken e junk name ?m (live_net L) ?one ?m1 (live_net L1)" using w1 by (simp add: went_through_def went_over_def)
    then have st1: "shake_hand_status ?m1 = SHAKE_RTMP_FCPUBLISH" using assms(3) by (simp add: handshaken_def)
    then have go2: "in_one_go (shake_hand_status ?m1) ?two" by (simp add: in_one_go_def)
    have "safe (may_fill e) (\<lambda>(rest, L'). rest = [] \<and> went_through e junk path name i L1 ?two L')
        (publisher_reads e junk junks close name [length (fcpublish @ create)] (fcpublish @ create) L1)"
      using messages_at_once [OF c1 _ len(2) went_through_inputs [OF inp w1] go2] ne by simp
    then show "safe (may_fill e) (\<lambda>(rest, L'). rest = [] \<and> net_out name (live_net L') = net_out name (live_net L) @ RTMP_SERVER_RESULT \<and>
        shake_hand_status (srv_rtmp (publishers L' ! i)) = SHAKE_RTMP_PUBLISH)
      (publisher_reads e junk junks close name [length (fcpublish @ create)] (fcpublish @ create) L1)"
      by (rule safe_mono) (use h1 assms(3) st1 in \<open>auto simp: went_through_def went_over_def handshaken_def sent_def\<close>)
  qed
qed

text \<open>
  C14: whether the server answers depends on how the bytes are cut. A publisher sends
  the release, the FCPublish and the createStream message and waits for the answer to the last. When
  the kernel hands all of them over at once, the call of the handshake ends with the
  authentication and the other two messages stay in the buffer: nothing is sent, and the
  publisher, which has nothing more to send, waits for ever on an open connection. When the
  same bytes come with a cut behind the release message, the answer is sent.
\<close>

theorem answer_depends_on_cutting:
  assumes "shaking e junk name i L c" "readable (recv_buffer c) = []"
    and "shake_hand_status (srv_rtmp (publishers L ! i)) = SHAKE_RTMP_RELEASE_STREAM"
    and "msgs_from SHAKE_RTMP_RELEASE_STREAM [release, fcpublish, create]"
    and "length (release @ fcpublish @ create) \<le> DEFAULT_BUFFER_SIZE" "length (release @ fcpublish @ create) \<le> k"
    and "names_stream path (readable (pk_buffer (connect_pack (srv_rtmp (publishers L ! i)))))" "has_password (body_of release)"
  shows "(\<exists>L' c'. publisher_reads e junk junks close name [k] (release @ fcpublish @ create) L = Inr ([], L') \<and>
      find_conn name L' = Some c' \<and> conn_status c' = CONNECTED \<and> readable (recv_buffer c') = fcpublish @ create \<and>
      net_out name (live_net L') = net_out name (live_net L)) \<and>
    safe (may_fill e) (\<lambda>(rest, L'). rest = [] \<and> net_out name (live_net L') = net_out name (live_net L) @ RTMP_SERVER_RESULT \<and>
      shake_hand_status (srv_rtmp (publishers L' ! i)) = SHAKE_RTMP_PUBLISH)
    (publisher_reads e junk junks close name [length release, length (fcpublish @ create)] (release @ fcpublish @ create) L)"
proof
  have rel: "whole_message release" using assms(4) by simp
  obtain L' c' where r: "Publisher_readable e junk junks close name (socket_read k (release @ fcpublish @ create)) L = Inr L'"
    "find_conn name L' = Some c'" "conn_status c' = CONNECTED" "readable (recv_buffer c') = fcpublish @ create"
    "net_out name (live_net L') = net_out name (live_net L)" "socket_room (recv_buffer c) = DEFAULT_BUFFER_SIZE"
    by (rule release_and_more [OF assms(1-3) rel assms(6,5,7,8)]) blast
  have "find_conn name L = Some c" "conn_status c \<noteq> DISCONNECTED"
    using assms(1) by (simp_all add: shaking_def publishes_def)
  then have "publisher_reads e junk junks close name [k] (release @ fcpublish @ create) L = Inr ([], L')"
    using r(1,6) assms(5,6) whole_first [OF rel] by simp
  with r(2-5) show "\<exists>L' c'. publisher_reads e junk junks close name [k] (release @ fcpublish @ create) L = Inr ([], L') \<and>
      find_conn name L' = Some c' \<and> conn_status c' = CONNECTED \<and> readable (recv_buffer c') = fcpublish @ create \<and>
      net_out name (live_net L') = net_out name (live_net L)" by blast
  have "handshake_inputs (srv_rtmp (publishers L ! i)) path [release, fcpublish, create]"
    using assms(3-5,7,8) by (simp add: handshake_inputs_def)
  from release_then_more [OF assms(1-3) this assms(5)]
  show "safe (may_fill e) (\<lambda>(rest, L'). rest = [] \<and> net_out name (live_net L') = net_out name (live_net L) @ RTMP_SERVER_RESULT \<and>
      shake_hand_status (srv_rtmp (publishers L' ! i)) = SHAKE_RTMP_PUBLISH)
    (publisher_reads e junk junks close name [length release, length (fcpublish @ create)] (release @ fcpublish @ create) L)" .
qed

section \<open>Inputs for the witnesses\<close>

definition sample_whole :: "bytes \<Rightarrow> bytes" where
  "sample_whole body = [basic_header 3 FMT0, 0, 0, 0, 0, 0, word_of_nat (length body), 20, 0, 0, 0, 0] @ body"

definition sample_release_body :: bytes where
  "sample_release_body = replicate 28 0 @ [3, 97, 98, 99]"

lemma sample_whole:
  assumes "length body < 256"
  shows "whole_message (sample_whole body)" "body_of (sample_whole body) = body" "length (sample_whole body) = 12 + length body"
proof -
  have "unat (word_of_nat (length body) :: byte) = length body" using assms by (simp add: unat_of_nat)
  moreover have "header_len (basic_header 3 FMT0) = 12" by (simp add: header_len_basic)
  ultimately show "whole_message (sample_whole body)" "body_of (sample_whole body) = body" "length (sample_whole body) = 12 + length body"
    by (simp_all add: whole_message_def sample_whole_def body_of_def fmt_of_basic unat_be24)
qed

lemma sample_connect_names: "names_stream (lit ''live'') sample_connect"
proof -
  have "connect_url sample_connect (lit ''rtmp:'' @ [SLASH, SLASH] @ lit ''h'' @ SLASH # (lit ''live'' @ [SLASH]))"
    unfolding connect_url_def sample_connect_def
    by (intro exI [of _ "[2, 0, 5]"] exI [of _ "[9]"]) (simp add: lit_def of_char_def)
  then show ?thesis unfolding names_stream_def
    by (intro exI [of _ "lit ''h''"] exI [of _ "lit ''live'' @ [SLASH]"]) (simp add: lit_def of_char_def max_size_def strip_slash_def)
qed

lemma sample_release_password: "has_password sample_release_body"
  by (simp add: has_password_def sample_release_body_def nth_append)

lemma length_sample_bodies: "length sample_connect = 19" "length sample_release_body = 32"
  by (simp_all add: sample_connect_def sample_release_body_def lit_def)

definition sample_shaking :: "rtmp_manager \<Rightarrow> live_server" where
  "sample_shaking m = live_server_new\<lparr>publishers := [(RtmpServerConnection_new sample_pack (lit ''p''))\<lparr>srv_rtmp := m\<rparr>],
     publisher_of := [(lit ''p'', 0)], live_net := sample_net\<rparr>"

lemma sample_shaking:
  "hs_ok sample_pack m \<Longrightarrow> shake_hand_status m \<noteq> SHAKE_SUCCESS \<Longrightarrow>
   shaking sample_env sample_pack (lit ''p'') 0 (sample_shaking m) sample_conn"
  "srv_rtmp (publishers (sample_shaking m) ! 0) = m" "rtmp_connection_map (sample_shaking m) = []"
  "net_out (lit ''p'') (live_net (sample_shaking m)) = []"
proof -
  have "publishes (lit ''p'') 0 (sample_shaking m) sample_conn"
    by (simp add: publishes_def sample_shaking_def sample_net_def find_conn_def map_find_Cons sample_conn_def lit_def)
  then show "hs_ok sample_pack m \<Longrightarrow> shake_hand_status m \<noteq> SHAKE_SUCCESS \<Longrightarrow>
      shaking sample_env sample_pack (lit ''p'') 0 (sample_shaking m) sample_conn"
    using sample_net_p sample_streaming_ok(2)
    by (simp add: shaking_def) (simp add: sample_shaking_def RtmpServerConnection_new_def)
  show "srv_rtmp (publishers (sample_shaking m) ! 0) = m" "rtmp_connection_map (sample_shaking m) = []"
    "net_out (lit ''p'') (live_net (sample_shaking m)) = []"
    by (simp_all add: sample_shaking_def live_server_new_def net_out_def sample_net_def map_find_Cons outgoing_def
        queued_def TcpConnection_new_def)
qed

lemma sample_conn_empty: "readable (recv_buffer sample_conn) = []"
  by (simp add: sample_conn_def TcpConnection_new_def)

theorem handshake_registers_stream_witness:
  "\<exists>L'. ebind (publisher_reads sample_env sample_pack (\<lambda>_. sample_pack) None (lit ''p'') (replicate 3200 700)
      (concat [replicate 1537 3, replicate 1536 0, sample_whole [0], sample_whole sample_connect, sample_whole sample_release_body])
      (sample_shaking (sample_manager_at SHAKE_RTMP_C01)))
    (\<lambda>(rest, L'). publisher_reads sample_env sample_pack (\<lambda>_. sample_pack) None (lit ''p'') (replicate 40 5)
      (rest @ concat [sample_whole [1], sample_whole [2], sample_whole [3]]) L') = Inr ([], L') \<and>
    net_out (lit ''p'') (live_net L') = handshake_answers \<and> rtmp_connection_map L' = [(lit ''live'', Some 0)]"
proof -
  let ?L = "sample_shaking (sample_manager_at SHAKE_RTMP_C01)"
  have len: "length (sample_whole sample_connect) = 31" "length (sample_whole sample_release_body) = 44"
    "length (sample_whole [x]) = 13" for x
    using sample_whole(3) [of sample_connect] sample_whole(3) [of sample_release_body] sample_whole(3) [of "[x]"]
    by (simp_all add: length_sample_bodies)
  have wh: "whole_message (sample_whole [x])" "whole_message (sample_whole sample_connect)"
    "whole_message (sample_whole sample_release_body)" for x
    using sample_whole(1) by (simp_all add: length_sample_bodies)
  have st: "shaking sample_env sample_pack (lit ''p'') 0 ?L sample_conn"
    by (rule sample_shaking(1)) (simp_all add: sample_publisher_ok)
  have s: "shake_hand_status (srv_rtmp (publishers ?L ! 0)) = SHAKE_RTMP_C01" by (simp add: sample_shaking(2))
  have ms: "msgs_from SHAKE_RTMP_C01 [replicate 1537 3, replicate 1536 0, sample_whole [0], sample_whole sample_connect,
      sample_whole sample_release_body, sample_whole [1], sample_whole [2], sample_whole [3]]" by (simp add: wh)
  have small: "\<forall>msg \<in> {sample_whole [0], sample_whole sample_connect, sample_whole sample_release_body, sample_whole [1],
      sample_whole [2], sample_whole [3]}. length msg \<le> DEFAULT_BUFFER_SIZE" by (simp add: len DEFAULT_BUFFER_SIZE_def)
  have nm: "names_stream (lit ''live'') (body_of (sample_whole sample_connect))" "has_password (body_of (sample_whole sample_release_body))"
    using sample_whole(2) sample_connect_names sample_release_password by (simp_all add: length_sample_bodies)
  have ks: "\<forall>k \<in> set (replicate 3200 (700 :: nat)). 0 < k" "\<forall>k \<in> set (replicate 40 (5 :: nat)). 0 < k" by simp_all
  have "may_fill sample_env = False" by (simp add: may_fill_def sample_env_def)
  moreover have "before_head (srv_rtmp (publishers ?L ! 0))"
    using sample_before_head by (simp add: sample_shaking(2) sample_manager_at_def before_head_def)
  ultimately show ?thesis
    using handshake_registers_stream [OF st sample_conn_empty s ms small nm ks(1) _ ks(2), of "\<lambda>_. sample_pack" None]
    by (simp add: len safe_False holds_def sample_shaking(3,4) del: publisher_reads.simps) blast
qed

definition sample_connected :: rtmp_manager where
  "sample_connected = (sample_manager_at SHAKE_RTMP_RELEASE_STREAM)\<lparr>connect_pack :=
     sample_pack\<lparr>pk_buffer := buffer_of sample_connect\<rparr>\<rparr>"

lemma sample_connected:
  "hs_ok sample_pack sample_connected" "shake_hand_status sample_connected = SHAKE_RTMP_RELEASE_STREAM"
  "readable (pk_buffer (connect_pack sample_connected)) = sample_connect"
proof -
  have "pack_ok (sample_pack\<lparr>pk_buffer := buffer_of sample_connect\<rparr>)"
    by (simp add: pack_ok_def length_sample_bodies sample_pack_def)
  then show "hs_ok sample_pack sample_connected"
    using sample_publisher_ok [of SHAKE_RTMP_RELEASE_STREAM] by (simp add: hs_ok_def sample_connected_def)
  show "shake_hand_status sample_connected = SHAKE_RTMP_RELEASE_STREAM"
    "readable (pk_buffer (connect_pack sample_connected)) = sample_connect"
    by (simp_all add: sample_connected_def)
qed

theorem answer_depends_on_cutting_witness:
  "\<exists>L1 c1 L2. publisher_reads sample_env sample_pack (\<lambda>_. sample_pack) None (lit ''p'') [4096]
      (sample_whole sample_release_body @ sample_whole [1] @ sample_whole [2]) (sample_shaking sample_connected) = Inr ([], L1) \<and>
    find_conn (lit ''p'') L1 = Some c1 \<and> conn_status c1 = CONNECTED \<and> net_out (lit ''p'') (live_net L1) = [] \<and>
    publisher_reads sample_env sample_pack (\<lambda>_. sample_pack) None (lit ''p'') [44, 26]
      (sample_whole sample_release_body @ sample_whole [1] @ sample_whole [2]) (sample_shaking sample_connected) = Inr ([], L2) \<and>
    net_out (lit ''p'') (live_net L2) = RTMP_SERVER_RESULT"
proof -
  let ?L = "sample_shaking sample_connected"
  have len: "length (sample_whole sample_release_body) = 44" "length (sample_whole [x]) = 13" for x
    using sample_whole(3) [of sample_release_body] sample_whole(3) [of "[x]"] by (simp_all add: length_sample_bodies)
  have wh: "whole_message (sample_whole [x])" "whole_message (sample_whole sample_release_body)" for x
    using sample_whole(1) by (simp_all add: length_sample_bodies)
  have st: "shaking sample_env sample_pack (lit ''p'') 0 ?L sample_conn"
    by (rule sample_shaking(1)) (simp_all add: sample_connected)
  have s: "shake_hand_status (srv_rtmp (publishers ?L ! 0)) = SHAKE_RTMP_RELEASE_STREAM"
    by (simp add: sample_shaking(2) sample_connected)
  have ms: "msgs_from SHAKE_RTMP_RELEASE_STREAM [sample_whole sample_release_body, sample_whole [1], sample_whole [2]]"
    by (simp add: wh)
  have small: "length (sample_whole sample_release_body @ sample_whole [1] @ sample_whole [2]) \<le> DEFAULT_BUFFER_SIZE"
    "length (sample_whole sample_release_body @ sample_whole [1] @ sample_whole [2]) \<le> 4096" by (simp_all add: len DEFAULT_BUFFER_SIZE_def)
  have nm: "names_stream (lit ''live'') (readable (pk_buffer (connect_pack (srv_rtmp (publishers ?L ! 0)))))"
    "has_password (body_of (sample_whole sample_release_body))"
    using sample_whole(2) [of sample_release_body] sample_connect_names sample_release_password
    by (simp_all add: length_sample_bodies sample_shaking(2) sample_connected)
  have nf: "may_fill sample_env = False" by (simp add: may_fill_def sample_env_def)
  note both = answer_depends_on_cutting [OF st sample_conn_empty s ms small nm, of "\<lambda>_. sample_pack" None, unfolded nf safe_False sample_shaking(4) append_Nil]
  have cut: "[length (sample_whole sample_release_body), length (sample_whole [1] @ sample_whole [2])] = [44, 26]" by (simp add: len)
  obtain L2 where 2: "publisher_reads sample_env sample_pack (\<lambda>_. sample_pack) None (lit ''p'') [44, 26]
      (sample_whole sample_release_body @ sample_whole [1] @ sample_whole [2]) ?L = Inr ([], L2)"
    "net_out (lit ''p'') (live_net L2) = RTMP_SERVER_RESULT"
    using both [THEN conjunct2, unfolded cut] by (auto simp: holds_def simp del: publisher_reads.simps)
  then show ?thesis using both [THEN conjunct1] by blast
qed

end
