(* ===== verification/RejectedPublisher.thy ===== *)
theory RejectedPublisher
  imports PublisherHandshake
begin

text \<open>
  A publisher that the authentication of \<^verbatim>\<open>RtmpServerConnection::OnConnectionShakeHand\<close> turns away, and what becomes of
  the messages it sends then. The authentication is an argument; the one of \<^verbatim>\<open>main.cpp\<close> accepts everybody.
\<close>

section \<open>A connection that sends nothing\<close>

text \<open>A connection that \<open>Shutdown\<close> was called on, or that is closed, sends nothing.\<close>

definition closed :: "bytes \<Rightarrow> net \<Rightarrow> bool" where
  "closed c n \<longleftrightarrow> map_sorted (net_conns n) \<and>
     (\<exists>conn. map_find c (net_conns n) = Some conn \<and> conn_status conn \<noteq> CONNECTED)"

lemma net_send_closed: "closed c n \<Longrightarrow> net_send e c data n = Inr n"
  by (auto simp: closed_def net_send_def Send_def map_set_same)

lemma send_all_closed: "closed c n \<Longrightarrow> append_all (net_send e c) xss n = Inr n"
  by (induction xss) (simp_all add: net_send_closed)

lemma shake_reply_closed:
  "closed c n \<Longrightarrow> hs_next s = Some s' \<Longrightarrow>
   shake_reply e c s n = Inr (if s = SHAKE_RTMP_RELEASE_STREAM then Some RESULT_AUTHENTICATE else None, n)"
  by (cases s) (simp_all add: shake_reply_def send_all_closed Let_def del: append_all.simps)

lemma net_shutdown_closes:
  assumes "live e c n"
  obtains n' where "net_shutdown c n = Inr n'" "closed c n'" "net_out c n' = net_out c n"
proof -
  obtain conn where f: "map_find c (net_conns n) = Some conn" "conn_status conn = CONNECTED" "map_sorted (net_conns n)"
    using assms by (auto simp: live_def)
  let ?n = "n\<lparr>net_conns := map_set c (Shutdown conn) (net_conns n)\<rparr>"
  have "conn_status (Shutdown conn) = DISCONNECTING" using f(2) by (simp add: Shutdown_def Socket_ShutdownWrite_def Let_def)
  then have "closed c ?n" using f(3) by (simp add: closed_def map_find_set map_set_sorted)
  moreover have "net_out c ?n = net_out c n" using f(1,3) by (simp add: net_out_def map_find_set outgoing_def queued_def)
  moreover have "net_shutdown c n = Inr ?n" using f(1) by (simp add: net_shutdown_def net_update_def)
  ultimately show thesis by (rule that [rotated 1])
qed

text \<open>One round of the loop on a closed connection: the answer is dropped.\<close>

lemma ShakeHand_loop_closed:
  assumes "hs_ok junk m" "buf_ok b" "closed c n" "shake_hand_status m \<noteq> SHAKE_RTMP_RELEASE_STREAM"
    and "hs_ready junk m (readable b)"
  obtains m1 b1 where "ShakeHand_loop (Suc fuel) e junk c m b n = ShakeHand_loop fuel e junk c m1 b1 n"
    "hs_ok junk m1" "buf_ok b1" "hs_next (shake_hand_status m) = Some (shake_hand_status m1)"
    "readable b1 = drop (hs_take junk m (readable b)) (readable b)"
    "shake_hand_status m \<noteq> SHAKE_RTMP_CONNECT \<Longrightarrow> connect_pack m1 = connect_pack m"
proof -
  obtain st m1 b1 where p: "ParseShakeHand junk m b = Inr (st, m1, b1)" "shake_step junk m b st m1 b1"
    using ParseShakeHand_step [OF assms(1,2)] by blast
  then have st: "st = shake_hand_status m" "hs_next st = Some (shake_hand_status m1)"
    "hs_ok junk m1" "buf_ok b1" "readable b1 = drop (hs_take junk m (readable b)) (readable b)"
    "hs_kept junk m (readable b) m1"
    using assms(5) by (auto simp: shake_step_def)
  have "ShakeHand_loop (Suc fuel) e junk c m b n = ShakeHand_loop fuel e junk c m1 b1 n"
    using shake_reply_closed [OF assms(3) st(2)] st(1) assms(4) by (simp add: p(1))
  with that st assms(5) show ?thesis by (simp add: hs_kept_def)
qed

text \<open>The rest of the handshake on a closed connection.\<close>

lemma closed_handshake_goes_on:
  assumes "hs_ok junk (srv_rtmp srv)" "buf_ok b" "closed (srv_conn srv) n"
    and "shake_hand_status (srv_rtmp srv) = SHAKE_RTMP_FCPUBLISH"
    and "readable b = fcpublish @ create @ publish @ rest"
    and "\<forall>msg \<in> {fcpublish, create, publish}. is_message (RtmpPack_new junk) msg \<and> msg ! 0 \<noteq> 0xc3"
  shows "\<exists>srv' b'. readable b' = rest \<and> shake_hand_status (srv_rtmp srv') = SHAKE_SUCCESS \<and>
    connect_pack (srv_rtmp srv') = connect_pack (srv_rtmp srv) \<and>
    OnConnectionShakeHand e junk (Some authentication) (Some success) srv b n s =
      ebind (success srv' s) (\<lambda>s. Inr (srv'\<lparr>on_body_data := True\<rparr>, b', n, s))"
proof -
  let ?m = "srv_rtmp srv" and ?J = "RtmpPack_new junk" and ?c = "srv_conn srv"
  note msg = is_message_append [of ?J]
  have ne: "create \<noteq> []" using assms(6) by (auto simp: is_message_def)
  have r0: "hs_ready junk ?m (readable b)" using assms(4-6) msg by (simp add: hs_ready_def)
  obtain m1 b1 where 1: "ShakeHand_loop 10 e junk ?c ?m b n = ShakeHand_loop 9 e junk ?c m1 b1 n"
    "hs_ok junk m1" "buf_ok b1" "shake_hand_status m1 = SHAKE_RTMP_CREATE_STREAM" "readable b1 = create @ publish @ rest"
    "connect_pack m1 = connect_pack ?m"
    by (rule ShakeHand_loop_closed [OF assms(1-3) _ r0, of 9 e])
      (use assms(4-6) msg in \<open>auto simp: hs_take_def eval_nat_numeral\<close>)
  have r1: "hs_ready junk m1 (readable b1)" using 1(4,5) assms(6) msg ne by (auto simp: hs_ready_def)
  obtain m2 b2 where 2: "ShakeHand_loop 9 e junk ?c m1 b1 n = ShakeHand_loop 8 e junk ?c m2 b2 n"
    "hs_ok junk m2" "buf_ok b2" "shake_hand_status m2 = SHAKE_RTMP_PUBLISH" "readable b2 = publish @ rest"
    "connect_pack m2 = connect_pack m1"
    by (rule ShakeHand_loop_closed [OF 1(2,3) assms(3) _ r1, of 8 e])
      (use 1 assms(6) msg in \<open>auto simp: hs_take_def eval_nat_numeral\<close>)
  have r2: "hs_ready junk m2 (readable b2)" using 2(4,5) assms(6) msg by (auto simp: hs_ready_def)
  obtain m3 b3 where 3: "ShakeHand_loop 8 e junk ?c m2 b2 n = ShakeHand_loop 7 e junk ?c m3 b3 n"
    "buf_ok b3" "shake_hand_status m3 = SHAKE_SUCCESS" "readable b3 = rest"
    "connect_pack m3 = connect_pack m2"
    by (rule ShakeHand_loop_closed [OF 2(2,3) assms(3) _ r2, of 7 e])
      (use 2 assms(6) msg in \<open>auto simp: hs_take_def eval_nat_numeral\<close>)
  have "ShakeHand_loop 7 e junk ?c m3 b3 n = Inr (RESULT_SUCCESS, m3, b3, n)"
    using 3(3) by (simp add: eval_nat_numeral ParseShakeHand_def shake_reply_def)
  then have "ShakeHand e junk srv b n = Inr (RESULT_SUCCESS, srv\<lparr>srv_rtmp := m3\<rparr>, b3, n)"
    using 1(1) 2(1) 3(1) by (simp add: ShakeHand_def)
  with 1(6) 2(6) 3 show ?thesis
    by (intro exI [of _ "srv\<lparr>srv_rtmp := m3\<rparr>"] exI [of _ b3]) (simp add: OnConnectionShakeHand_def)
qed

text \<open>
  C17: a publisher that is turned away publishes all the same. When its release message has come and the authentication refuses the
  user and the password in it, the server sends nothing and shuts its sending side, which is all that a failed authentication does: the
  state stays at the next message, and whatever is behind the release message stays in the buffer. When the rest of the
  handshake has come, and the connection has not been opened again meanwhile, the success callback gets the stream under the path that was
  refused, although nothing was accepted or asked again, and from then on the connection's bytes are parsed as a stream.
\<close>

theorem rejected_publisher_publishes:
  assumes "hs_ok junk (srv_rtmp srv)" "buf_ok b" "live e (srv_conn srv) n"
    and "shake_hand_status (srv_rtmp srv) = SHAKE_RTMP_RELEASE_STREAM" "readable b = release @ early"
    and "is_message (release_pack (srv_rtmp srv)) release"
    and "names_stream user (readable (pk_buffer (connect_pack (srv_rtmp srv))))"
    and "has_password (message_body (release_pack (srv_rtmp srv)) release)"
    and "\<not> authentication user (password_in (message_body (release_pack (srv_rtmp srv)) release))"
    and "buf_ok b2" "readable b2 = early @ late" "early @ late = fcpublish @ create @ publish @ rest"
    and "\<forall>msg \<in> {fcpublish, create, publish}. is_message (RtmpPack_new junk) msg \<and> msg ! 0 \<noteq> 0xc3"
    and "closed (srv_conn srv) n2"
  shows "\<exists>srv1 b1 n1. OnConnectionShakeHand e junk (Some authentication) (Some success) srv b n s = Inr (srv1, b1, n1, s) \<and>
    readable b1 = early \<and> closed (srv_conn srv) n1 \<and> net_out (srv_conn srv) n1 = net_out (srv_conn srv) n \<and>
    (\<exists>srv2 b3. OnConnectionShakeHand e junk (Some authentication) (Some success) srv1 b2 n2 s2 =
        ebind (success srv2 s2) (\<lambda>s. Inr (srv2\<lparr>on_body_data := True\<rparr>, b3, n2, s)) \<and>
      readable b3 = rest \<and> shake_hand_status (srv_rtmp srv2) = SHAKE_SUCCESS \<and> GetRtmpPath srv2 = Inr user)"
proof -
  note msg = is_message_append [OF assms(6), of early]
  obtain srv1 b1 where 1: "shake_hand_status (srv_rtmp srv1) = SHAKE_RTMP_FCPUBLISH" "srv_conn srv1 = srv_conn srv"
    "hs_ok junk (srv_rtmp srv1)" "connect_pack (srv_rtmp srv1) = connect_pack (srv_rtmp srv)"
    "readable (pk_buffer (release_pack (srv_rtmp srv1))) = message_body (release_pack (srv_rtmp srv)) release" "readable b1 = early"
    "OnConnectionShakeHand e junk (Some authentication) (Some success) srv b n s =
      ebind (Authenticate (Some authentication) srv1) (\<lambda>ok.
        if ok then Inr (srv1, b1, n, s) else ebind (net_shutdown (srv_conn srv) n) (\<lambda>n. Inr (srv1, b1, n, s)))"
    using accepted_release_waits [OF assms(1,2,4), of e "Some authentication" "Some success" n s] msg(1)
    unfolding assms(5) msg(3,5) by blast
  have bufs: "buf_ok (pk_buffer (connect_pack (srv_rtmp srv1)))" "buf_ok (pk_buffer (release_pack (srv_rtmp srv1)))"
    using 1(3) by (simp_all add: hs_ok_def pack_ok_def)
  have refused: "Authenticate (Some authentication) srv1 = Inr False"
    using Authenticate_named [OF bufs(1) _ bufs(2), of user authentication] 1(4,5) assms(7-9) by simp
  obtain n1 where n1: "net_shutdown (srv_conn srv) n = Inr n1" "closed (srv_conn srv) n1" "net_out (srv_conn srv) n1 = net_out (srv_conn srv) n"
    by (rule net_shutdown_closes [OF assms(3)])
  have c2: "closed (srv_conn srv1) n2" using assms(14) 1(2) by simp
  have r2: "readable b2 = fcpublish @ create @ publish @ rest" using assms(11,12) by simp
  obtain srv2 b3 where 2: "readable b3 = rest" "shake_hand_status (srv_rtmp srv2) = SHAKE_SUCCESS"
    "connect_pack (srv_rtmp srv2) = connect_pack (srv_rtmp srv1)"
    "OnConnectionShakeHand e junk (Some authentication) (Some success) srv1 b2 n2 s2 =
      ebind (success srv2 s2) (\<lambda>s. Inr (srv2\<lparr>on_body_data := True\<rparr>, b3, n2, s))"
    using closed_handshake_goes_on [OF 1(3) assms(10) c2 1(1) r2 assms(13), of e authentication success s2] by blast
  have "GetRtmpPath srv2 = Inr user" by (rule GetRtmpPath_named) (use bufs(1) 1(4) 2(3) assms(7) in simp_all)
  moreover have "OnConnectionShakeHand e junk (Some authentication) (Some success) srv b n s = Inr (srv1, b1, n1, s)"
    by (simp add: 1(7) refused n1(1))
  ultimately show ?thesis using 1(6) 2(1,2,4) n1(2,3)
    by (intro exI [of _ srv1] exI [of _ b1] exI [of _ n1] conjI exI [of _ srv2] exI [of _ b3]) assumption+
qed

section \<open>Inputs for the witness\<close>

definition refused_publisher :: rtmp_server where
  "refused_publisher = (RtmpServerConnection_new sample_pack (lit ''p''))\<lparr>srv_rtmp := sample_connected\<rparr>"

definition sample_shut_net :: net where
  "sample_shut_net = \<lparr>net_conns = [(lit ''p'', (TcpConnection_new (lit ''p'') 8)\<lparr>conn_status := DISCONNECTING\<rparr>)], net_queue = []\<rparr>"

text \<open>The release message comes with the first of the messages behind it; nobody is accepted.\<close>

theorem rejected_publisher_publishes_witness:
  "\<exists>srv1 b1 n1 srv2 b3. OnConnectionShakeHand sample_env sample_pack (Some (\<lambda>_ _. False)) (Some (\<lambda>srv n. Inr (n + 1)))
       refused_publisher (buffer_of (sample_whole sample_release_body @ sample_message)) sample_net (0 :: nat) = Inr (srv1, b1, n1, 0) \<and>
     readable b1 = sample_message \<and> closed (lit ''p'') n1 \<and>
     OnConnectionShakeHand sample_env sample_pack (Some (\<lambda>_ _. False)) (Some (\<lambda>srv n. Inr (n + 1)))
       srv1 (buffer_of (sample_message @ sample_message @ sample_message @ [7])) sample_shut_net (0 :: nat) = Inr (srv2, b3, sample_shut_net, 1) \<and>
     readable b3 = [7] \<and> on_body_data srv2"
proof -
  let ?rel = "sample_whole sample_release_body" and ?p = "release_pack (srv_rtmp refused_publisher)"
  have srv: "srv_rtmp refused_publisher = sample_connected" "srv_conn refused_publisher = lit ''p''"
    by (simp_all add: refused_publisher_def RtmpServerConnection_new_def)
  have wh: "whole_message ?rel" "body_of ?rel = sample_release_body" "length ?rel = 44"
    using sample_whole [of sample_release_body] by (simp_all add: length_sample_bodies)
  have body: "message_body p ?rel = sample_release_body" for p using whole_body [OF wh(1), of p "[]"] wh(2) by simp
  have len: "length sample_message = 13" by (simp add: sample_message_def)
  have small: "length (?rel @ sample_message) \<le> 2 ^ 62" "length (sample_message @ sample_message @ sample_message @ [7]) \<le> 2 ^ 62"
    by (simp_all add: wh(3) len)
  have shut: "closed (srv_conn refused_publisher) sample_shut_net"
    by (simp add: srv(2) closed_def sample_shut_net_def map_find_Cons TcpConnection_new_def)
  have "\<exists>srv1 b1 n1. OnConnectionShakeHand sample_env sample_pack (Some (\<lambda>_ _. False)) (Some (\<lambda>srv n. Inr (n + 1)))
       refused_publisher (buffer_of (?rel @ sample_message)) sample_net (0 :: nat) = Inr (srv1, b1, n1, 0) \<and>
     readable b1 = sample_message \<and> closed (srv_conn refused_publisher) n1 \<and>
     net_out (srv_conn refused_publisher) n1 = net_out (srv_conn refused_publisher) sample_net \<and>
     (\<exists>srv2 b3. OnConnectionShakeHand sample_env sample_pack (Some (\<lambda>_ _. False)) (Some (\<lambda>srv n. Inr (n + 1)))
         srv1 (buffer_of (sample_message @ sample_message @ sample_message @ [7])) sample_shut_net (0 :: nat) =
       ebind (Inr (0 + 1)) (\<lambda>s. Inr (srv2\<lparr>on_body_data := True\<rparr>, b3, sample_shut_net, s)) \<and>
       readable b3 = [7] \<and> shake_hand_status (srv_rtmp srv2) = SHAKE_SUCCESS \<and> GetRtmpPath srv2 = Inr (lit ''live''))"
    by (rule rejected_publisher_publishes [where success = "\<lambda>srv n. Inr (n + 1)" and release = ?rel and late = "sample_message @ sample_message @ [7]"
        and fcpublish = sample_message and create = sample_message and publish = sample_message])
      (use srv sample_connected sample_net_p small body whole_is_message [OF wh(1)] sample_connect_names sample_release_password
        sample_message shut in simp_all)
  then obtain srv1 b1 n1 srv2 b3 where "OnConnectionShakeHand sample_env sample_pack (Some (\<lambda>_ _. False)) (Some (\<lambda>srv n. Inr (n + 1)))
       refused_publisher (buffer_of (?rel @ sample_message)) sample_net (0 :: nat) = Inr (srv1, b1, n1, 0)"
     "readable b1 = sample_message" "closed (lit ''p'') n1" "readable b3 = [7]"
     "OnConnectionShakeHand sample_env sample_pack (Some (\<lambda>_ _. False)) (Some (\<lambda>srv n. Inr (n + 1)))
         srv1 (buffer_of (sample_message @ sample_message @ sample_message @ [7])) sample_shut_net (0 :: nat) =
       Inr (srv2\<lparr>on_body_data := True\<rparr>, b3, sample_shut_net, 1)"
    unfolding srv(2) by auto
  moreover have "on_body_data (srv2\<lparr>on_body_data := True\<rparr>)" by simp
  ultimately show ?thesis by blast
qed

end
