(* ===== verification/PublisherSession.thy ===== *)
theory PublisherSession
  imports PublisherHandshake
begin

text \<open>
  A publisher between its handshake and its first viewer: the head of its stream and the first tags,
  read from its socket, leave the server in a state in which viewers can join.
\<close>

section \<open>What was announced\<close>

text \<open>A callback that also keeps what it was called with.\<close>

definition logged :: "'s tag_callback \<Rightarrow> ('s \<times> (tag_ref \<times> flv_tag) list) tag_callback" where
  "logged cb p t = (\<lambda>(s, log). ebind (cb p t s) (\<lambda>s. Inr (s, log @ [(p, t)])))"

lemma new_tag_logged:
  "new_tag cb m s = ebind (new_tag (logged cb) m (s, log)) (\<lambda>(m, s, _). Inr (m, s))"
  by (simp add: new_tag_def ProcessNewFlvTag_def logged_def Let_def case_prod_unfold ebind_assoc)

lemma ParseData_round_logged:
  "ParseData_round cb junk m b s = ebind (ParseData_round (logged cb) junk m b (s, log)) (\<lambda>(n, m, b, s, _). Inr (n, m, b, s))"
  unfolding ParseData_round_def ebind_assoc
  by (rule ebind_cong)
    (auto simp: new_tag_logged [where cb = cb and log = log] ebind_assoc case_prod_unfold intro!: ebind_cong)

lemma ParseData_loop_logged:
  "ParseData_loop fuel cb junk acc m b s =
     ebind (ParseData_loop fuel (logged cb) junk acc m b (s, log)) (\<lambda>(n, m, b, s, _). Inr (n, m, b, s))"
proof (induction fuel arbitrary: acc m b s log)
  case (Suc fuel)
  show ?case
    unfolding ParseData_loop.simps
    by (subst ParseData_round_logged [where log = log], unfold ebind_assoc, rule ebind_cong)
      (auto simp: Suc.IH split: prod.split)
qed simp

lemma ParseData_logged:
  "ParseData cb junk m b s = ebind (ParseData (logged cb) junk m b (s, log)) (\<lambda>(n, m, b, s, _). Inr (n, m, b, s))"
  using ParseData_loop_logged [of "ReadableLength b + 1" cb junk 0 m b s log]
  by (simp add: ParseData_def del: ParseData_loop.simps)

text \<open>The parser points to the last tag that was announced.\<close>

definition linked :: "rtmp_manager \<Rightarrow> (tag_ref \<times> flv_tag) list \<Rightarrow> bool" where
  "linked m log \<longleftrightarrow> (if log = [] then last_flv_ptr m = None
     else last_flv_ptr m = Some (fst (last log)) \<and> fst (last log) < length (flv_heap m) \<and> flv_heap m ! fst (last log) = snd (last log))"

lemma new_tag_linked: "new_tag (logged cb) m (s, log) = Inr (m', s', log') \<Longrightarrow> linked m log \<Longrightarrow> linked m' log'"
  by (auto simp: new_tag_def ProcessNewFlvTag_def logged_def linked_def Let_def result_simps nth_append case_prod_unfold
      split: if_split_asm)

definition same_tags :: "rtmp_manager \<Rightarrow> rtmp_manager \<Rightarrow> bool" where
  "same_tags m m' \<longleftrightarrow> flv_heap m' = flv_heap m \<and> last_flv_ptr m' = last_flv_ptr m"

lemma same_tags_linked: "same_tags m m' \<Longrightarrow> linked m log \<Longrightarrow> linked m' log"
  by (simp add: linked_def same_tags_def)

lemma ParseBody_tags: "ParseBody m b = Inr (n, m', b') \<Longrightarrow> same_tags m m'"
  by (auto simp: ParseBody_def Let_def result_simps same_tags_def)

lemma ParseData_header_tags: "ParseData_header m b = Inr (n, m', b') \<Longrightarrow> same_tags m m'"
  by (auto simp: ParseData_header_def Let_def result_simps same_tags_def split: if_split_asm)

lemma ParseFirstHeader_tags: "ParseFirstHeader junk m b = Inr (n, m', b') \<Longrightarrow> same_tags m m'"
  by (auto simp: ParseFirstHeader_def Let_def result_simps case_prod_unfold same_tags_def split: if_split_asm)

lemma ParseData_round_linked:
  assumes "ParseData_round (logged cb) junk m b (s, log) = Inr (n, m', b', s', log')" "linked m log"
  shows "linked m' log'"
proof -
  obtain k m1 b1 where h: "ParseData_header m b = Inr (k, m1, b1)"
    "(if parsed_status m1 = PARSE_RTMP_BODY then
       ebind (ParseBody m1 b1) (\<lambda>(parsed, m, b).
       if parsed > 0 then ebind (new_tag (logged cb) m (s, log)) (\<lambda>(m, s). Inr (parsed, m, b, s))
       else Inr (parsed, m, b, s, log))
     else if parsed_status m1 = PARSE_FIRST_HEADER then
       ebind (ParseFirstHeader junk m1 b1) (\<lambda>(parsed, m, b). Inr (parsed, m, b, s, log))
     else Inr (k, m1, b1, s, log)) = Inr (n, m', b', s', log')"
    using assms(1) by (auto simp: ParseData_round_def ebind_case3)
  have l1: "linked m1 log" by (rule same_tags_linked [OF ParseData_header_tags [OF h(1)] assms(2)])
  show ?thesis
  proof (cases "parsed_status m1 = PARSE_RTMP_BODY")
    case True
    then obtain q m2 b2 where b: "ParseBody m1 b1 = Inr (q, m2, b2)"
      "(if q > 0 then ebind (new_tag (logged cb) m2 (s, log)) (\<lambda>(m, s). Inr (q, m, b2, s))
       else Inr (q, m2, b2, s, log)) = Inr (n, m', b', s', log')"
      using h(2) by (auto simp: ebind_case3)
    have l2: "linked m2 log" by (rule same_tags_linked [OF ParseBody_tags [OF b(1)] l1])
    show ?thesis
    proof (cases "q > 0")
      case True
      then have "new_tag (logged cb) m2 (s, log) = Inr (m', s', log')" using b(2) by (auto simp: result_simps)
      then show ?thesis using l2 by (rule new_tag_linked)
    qed (use b(2) l2 in auto)
  next
    case False
    then show ?thesis
      using h(2) l1 same_tags_linked [OF ParseFirstHeader_tags, of junk m1 b1] by (auto simp: result_simps split: if_split_asm)
  qed
qed

lemma ParseData_loop_linked:
  "ParseData_loop fuel (logged cb) junk acc m b (s, log) = Inr (n, m', b', s', log') \<Longrightarrow> linked m log \<Longrightarrow> linked m' log'"
proof (induction fuel arbitrary: acc m b s log)
  case (Suc fuel)
  then obtain k m1 b1 s1 log1 where r: "ParseData_round (logged cb) junk m b (s, log) = Inr (k, m1, b1, s1, log1)"
    "(if k > 0 then ParseData_loop fuel (logged cb) junk (acc + k) m1 b1 (s1, log1)
      else if k = 0 then Inr (acc, m1\<lparr>parsed_length := size_add (parsed_length m1) (nat acc)\<rparr>, b1, s1, log1)
      else Inr (-1, m1, b1, s1, log1)) = Inr (n, m', b', s', log')"
    by (auto simp: ebind_case4)
  have "linked m1 log1" by (rule ParseData_round_linked [OF r(1) Suc.prems(2)])
  with r(2) Suc.IH show ?case by (auto simp: linked_def split: if_splits)
qed simp

lemma ParseData_linked:
  "ParseData (logged cb) junk m b (s, log) = Inr (n, m', b', s', log') \<Longrightarrow> linked m log \<Longrightarrow> linked m' log'"
  by (auto simp: ParseData_def simp del: ParseData_loop.simps dest: ParseData_loop_linked split: if_splits)

section \<open>A publisher without viewers\<close>

text \<open>With nobody to send to, a tag is announced by pointing to it.\<close>

definition unwatched :: "rtmp_server \<Rightarrow> net \<Rightarrow> (rtmp_server \<times> net) \<times> (tag_ref \<times> flv_tag) list \<Rightarrow> bool" where
  "unwatched srv0 n0 = (\<lambda>((srv, n), log). n = n0 \<and> client_map srv0 = [] \<and>
     srv = srv0\<lparr>last_flv_tag_ptr := (if log = [] then None else Some (fst (last log)))\<rparr> \<and> (\<forall>pt \<in> set log. tag_complete (snd pt)))"

definition announced :: "(tag_ref \<times> flv_tag) list \<Rightarrow> flv_item list" where
  "announced log = map (\<lambda>pt. tag_item (snd pt)) log"

lemma OnNewFlvTag_unwatched:
  assumes "client_map srv = []" "tag_complete t"
  shows "OnNewFlvTag e p t (srv, n) = Inr (srv\<lparr>last_flv_tag_ptr := Some p\<rparr>, n)"
proof -
  have "hdr_ok t" "buf_ok (tag_body t)" "ReadableLength (tag_body t) < 2 ^ 32"
    using assms(2) tag_completeD [of t] tag_complete_small [of t] by auto
  from FlvTagBuffer_ok [OF this] obtain b where "FlvTagBuffer_new t = Inr b" by blast
  then show ?thesis using assms(1) by (simp add: OnNewFlvTag_def Let_def)
qed

interpretation alone: tag_sink "logged (OnNewFlvTag e)" "unwatched srv0 n0" "\<lambda>st. announced (snd st)" False for e srv0 n0
proof unfold_locales
  fix st :: "(rtmp_server \<times> net) \<times> (tag_ref \<times> flv_tag) list" and t p
  assume ok: "unwatched srv0 n0 st" "tag_complete t"
  obtain srv n log where st: "st = ((srv, n), log)" by (cases st) auto
  have "OnNewFlvTag e p t (srv, n) = Inr (srv\<lparr>last_flv_tag_ptr := Some p\<rparr>, n)"
    by (rule OnNewFlvTag_unwatched) (use ok in \<open>simp_all add: st unwatched_def\<close>)
  then show "safe False (\<lambda>s'. unwatched srv0 n0 s' \<and> announced (snd s') = announced (snd st) @ [tag_item t]) (logged (OnNewFlvTag e) p t st)"
    using ok by (simp add: st logged_def unwatched_def announced_def)
qed

section \<open>The session\<close>

text \<open>
  \<open>got\<close> is everything that came so far, in \<open>b\<close> what is left of it: the head is waited for, or it was
  found and the bytes behind it were fed to the parser.
\<close>

definition session :: "rtmp_manager \<Rightarrow> rtmp_msg list \<Rightarrow> bytes \<Rightarrow> bytes \<Rightarrow> rtmp_manager \<Rightarrow> buffer \<Rightarrow> (tag_ref \<times> flv_tag) list \<Rightarrow> bool" where
  "session m0 xs head got m b log \<longleftrightarrow> linked m log \<and>
     (before_head m \<and> rtmp_codec m = rtmp_codec m0 \<and> readable b = got \<and> length got < RTMP_START_PARSE_LENGTH \<and> log = [] \<or>
      (\<exists>m1 ys. behind_head m0 xs m1 \<and> rm_flv_manager m = rm_flv_manager m1 \<and> stream_ok m \<and> got = head @ ys @ readable b \<and>
        feed (chunk_state_of m1) ys = (chunk_state_of m, announced log)))"

lemma encode_stream_head: "stream_head xs \<Longrightarrow> encode_msgs csid sid xs \<noteq> []"
  by (elim stream_headE) (simp add: encode_msgs_def encode_head_msg msg_header_first)

text \<open>The bytes that have come are those of the stream, in order.\<close>

definition stream_part :: "bytes \<Rightarrow> bytes \<Rightarrow> bool" where
  "stream_part got all \<longleftrightarrow> take (length got) all = got \<and> length got \<le> length all"

lemma stream_part_rest:
  assumes "stream_part (head @ xs) (head @ rest)"
  shows "length xs \<le> length rest"
  using assms by (simp add: stream_part_def)

lemma stream_part_head:
  assumes "stream_part got (head @ rest)" "length head \<le> length got"
  obtains xs where "got = head @ xs"
proof -
  have "got = take (length got) (head @ rest)" using assms(1) by (simp add: stream_part_def)
  then have "got = head @ take (length got - length head) rest" using assms(2) by simp
  then show ?thesis by (rule that)
qed

lemma session_call:
  assumes se: "session m0 xs (encode_msgs csid sid xs) got m b log"
    and xs: "stream_head xs" "csid < 64" "length sid = 4" "length (encode_msgs csid sid xs) \<le> RTMP_START_PARSE_LENGTH"
    and b: "buf_ok b" "buf_ok c" "readable c = readable b @ new"
    and part: "stream_part (got @ new) (encode_msgs csid sid xs @ rest)" "length rest < 2 ^ 32"
    and un: "unwatched srv n ((srv, n), log)"
  shows "holds (\<lambda>(k, m', b', st'). session m0 xs (encode_msgs csid sid xs) (got @ new) m' b' (snd st') \<and> unwatched srv n st' \<and> buf_ok b' \<and>
      (ReadableLength b' < RTMP_START_PARSE_LENGTH \<or> ReadableLength b' < ReadableLength c))
    (ParseData (logged (OnNewFlvTag e)) junk m c ((srv, n), log))"
proof -
  let ?head = "encode_msgs csid sid xs" and ?run = "ParseData (logged (OnNewFlvTag e)) junk m c ((srv, n), log)"
  have li: "linked m log" using se by (simp add: session_def)
  have keep: "linked m' log'" if "?run = Inr (k, m', b', st', log')" for k m' b' st' log'
    by (rule ParseData_linked [OF that li])
  have rl: "ReadableLength c = length (readable b @ new)" using length_readable [OF b(2)] b(3) by simp
  consider (wait) "before_head m" "rtmp_codec m = rtmp_codec m0" "readable b = got" "log = []" "ReadableLength c < RTMP_START_PARSE_LENGTH"
    | (found) "before_head m" "rtmp_codec m = rtmp_codec m0" "readable b = got" "log = []" "RTMP_START_PARSE_LENGTH \<le> ReadableLength c"
    | (stream) m1 ys where "behind_head m0 xs m1" "rm_flv_manager m = rm_flv_manager m1" "stream_ok m" "got = ?head @ ys @ readable b"
      "feed (chunk_state_of m1) ys = (chunk_state_of m, announced log)"
  proof (cases "before_head m \<and> rtmp_codec m = rtmp_codec m0 \<and> readable b = got \<and> log = []")
    case True
    then show thesis using wait found by (cases "ReadableLength c < RTMP_START_PARSE_LENGTH") auto
  next
    case False
    then show thesis using se stream unfolding session_def by blast
  qed
  then show ?thesis
  proof cases
    case wait
    obtain k where "?run = Inr (0, m\<lparr>parsed_length := k\<rparr>, c, (srv, n), log)"
      using before_head_waits [OF wait(1,5), where cb = "logged (OnNewFlvTag e)" and junk = junk and s = "((srv, n), log)"] by auto
    moreover from keep [OF this] have "linked (m\<lparr>parsed_length := k\<rparr>) log" .
    ultimately show ?thesis using wait b un rl by (simp add: session_def)
  next
    case found
    have "length ?head \<le> length (got @ new)" using found(3,5) xs(4) rl by simp
    from stream_part_head [OF part(1) this] obtain us where us: "got @ new = ?head @ us" by blast
    then have rd: "readable c = ?head @ us" using b(3) found(3) by simp
    have "length us \<le> length rest" using part(1) unfolding us by (rule stream_part_rest)
    then have "length us < 2 ^ 32" using part(2) by simp
    note head = alone.ParseData_head [OF found(1) xs(1-3) b(2) rd found(5) un this, where e = e and junk = junk, unfolded safe_False]
    then obtain k m' b' st' m1 where r: "?run = Inr (k, m', b', st')" "behind_head m xs m1" "rm_flv_manager m' = rm_flv_manager m1"
      and f: "followed (unwatched srv n) (\<lambda>st. announced (snd st)) m1 Buffer_new ((srv, n), log) us m' b' st'"
      by (auto simp: holds_def)
    have bh: "behind_head m0 xs m1" using r(2) found(2) by (simp add: behind_head_def)
    from f obtain ys where ys: "us = ys @ readable b'" "feed (chunk_state_of m1) ys = (chunk_state_of m', announced (snd st'))"
      "stream_ok m'" "buf_ok b'" "unwatched srv n st'"
      using found(4) by (auto simp: followed_def announced_def)
    have "linked m' (snd st')" using keep [of k m' b' "fst st'" "snd st'"] r(1) by simp
    moreover have "ReadableLength b' < ReadableLength c"
      using length_readable [OF ys(4)] length_readable [OF b(2)] rd ys(1) encode_stream_head [OF xs(1), of csid sid] by (cases ?head) auto
    ultimately show ?thesis using r(1,3) bh ys us by (auto simp: session_def)
  next
    case stream
    have "length (ys @ readable b @ new) \<le> length rest" using part(1) unfolding stream(4) append_assoc by (rule stream_part_rest)
    moreover have "length (acc_bytes m) \<le> length ys"
      using feed_acc [of "chunk_state_of m1" ys] stream(1,5) by (simp add: behind_head_def idle_def)
    ultimately have len: "length (acc_bytes m) + ReadableLength b + length new < 2 ^ 32"
      using part(2) length_readable [OF b(1)] by simp
    from alone.ParseData_followed [OF stream(3) b un len, where e = e and junk = junk, unfolded safe_False]
    obtain k m' b' st' where r: "?run = Inr (k, m', b', st')" "ReadableLength b' < 12 \<or> ReadableLength b' < ReadableLength c"
      and f: "followed (unwatched srv n) (\<lambda>st. announced (snd st)) m b ((srv, n), log) new m' b' st'"
      by (auto simp: holds_def)
    from f obtain zs items where zs: "readable b @ new = zs @ readable b'" "feed (chunk_state_of m) zs = (chunk_state_of m', items)"
      "announced (snd st') = announced log @ items" "stream_ok m'" "buf_ok b'" "unwatched srv n st'"
      by (auto simp: followed_def)
    have "feed (chunk_state_of m1) (ys @ zs) = (chunk_state_of m', announced (snd st'))"
      using stream(5) zs(2,3) by (simp add: feed_append)
    moreover have "rm_flv_manager m' = rm_flv_manager m1"
      using ParseData_manager [OF r(1)] stream(2,3) by (simp add: stream_ok_def base_ok_def)
    moreover have "linked m' (snd st')" using keep [of k m' b' "fst st'" "snd st'"] r(1) by simp
    moreover have "got @ new = ?head @ (ys @ zs) @ readable b'" using stream(4) zs(1) by simp
    ultimately show ?thesis using r stream(1) zs(4-6) by (auto simp: session_def RTMP_START_PARSE_LENGTH_def)
  qed
qed

section \<open>The session on the socket\<close>

definition unwatched_publisher :: "rtmp_server \<Rightarrow> (tag_ref \<times> flv_tag) list \<Rightarrow> bool" where
  "unwatched_publisher srv log \<longleftrightarrow> on_body_data srv \<and> client_map srv = [] \<and> buf_ok (header_buffer srv) \<and>
     readable (header_buffer srv) = [] \<and> last_flv_tag_ptr srv = (if log = [] then None else Some (fst (last log))) \<and>
     (\<forall>pt \<in> set log. tag_complete (snd pt))"

lemma OnBodyData_session:
  assumes "session m0 xs (encode_msgs csid sid xs) got (srv_rtmp srv) b log" "unwatched_publisher srv log"
    and "stream_head xs" "csid < 64" "length sid = 4" "length (encode_msgs csid sid xs) \<le> RTMP_START_PARSE_LENGTH"
    and "buf_ok b" "buf_ok c" "readable c = readable b @ new"
    and "stream_part (got @ new) (encode_msgs csid sid xs @ rest)" "length rest < 2 ^ 32"
  obtains srv' b' log' where "OnBodyData e junks srv c n = Inr (srv', b', n)"
    "session m0 xs (encode_msgs csid sid xs) (got @ new) (srv_rtmp srv') b' log'" "unwatched_publisher srv' log'" "buf_ok b'"
    "ReadableLength b' < RTMP_START_PARSE_LENGTH \<or> ReadableLength b' < ReadableLength c" "buf_data b' = buf_data c"
proof -
  have un: "unwatched srv n ((srv, n), log)" using assms(2) by (simp add: unwatched_def unwatched_publisher_def)
  from session_call [OF assms(1,3-11) un, where e = e and junk = junks]
  obtain k m' b' srv1 n1 log' where r: "ParseData (logged (OnNewFlvTag e)) junks (srv_rtmp srv) c ((srv, n), log) = Inr (k, m', b', (srv1, n1), log')"
    and se: "session m0 xs (encode_msgs csid sid xs) (got @ new) m' b' log'" "unwatched srv n ((srv1, n1), log')" "buf_ok b'"
    "ReadableLength b' < RTMP_START_PARSE_LENGTH \<or> ReadableLength b' < ReadableLength c"
    by (auto simp: holds_def)
  have s1: "n1 = n" "srv1 = srv\<lparr>last_flv_tag_ptr := (if log' = [] then None else Some (fst (last log')))\<rparr>"
    "\<forall>pt \<in> set log'. tag_complete (snd pt)" using se(2) by (simp_all add: unwatched_def)
  let ?srv = "DebugParseSize (100 * 1000 * 1000) (srv1\<lparr>srv_rtmp := m'\<rparr>)"
  have "OnBodyData e junks srv c n = Inr (?srv, b', n)"
    using r s1(1) by (simp add: OnBodyData_def Server_ParseData_def ebind_assoc
        ParseData_logged [of "OnNewFlvTag e" junks "srv_rtmp srv" c "(srv, n)" log])
  moreover have "unwatched_publisher ?srv log'"
    using assms(2) s1(2,3) by (simp add: unwatched_publisher_def DebugParseSize_def Let_def)
  ultimately show ?thesis using se(1,3,4) ParseData_data [OF r] by (intro that [of ?srv b' log']) simp_all
qed

text \<open>What the session of one publisher leaves alone.\<close>

definition same_else :: "bytes \<Rightarrow> live_server \<Rightarrow> live_server \<Rightarrow> bool" where
  "same_else name L L' \<longleftrightarrow> rtmp_connection_map L' = rtmp_connection_map L \<and> net_queue (live_net L') = net_queue (live_net L) \<and>
     (\<forall>x. x \<noteq> name \<longrightarrow> find_conn x L' = find_conn x L)"

definition at_work :: "bytes \<Rightarrow> nat \<Rightarrow> rtmp_manager \<Rightarrow> rtmp_msg list \<Rightarrow> bytes \<Rightarrow> bytes \<Rightarrow> live_server \<Rightarrow> bool" where
  "at_work name i m0 xs head got L \<longleftrightarrow> (\<exists>c log. publishes name i L c \<and> open_input (recv_buffer c) \<and>
     unwatched_publisher (publishers L ! i) log \<and> session m0 xs head got (srv_rtmp (publishers L ! i)) (recv_buffer c) log)"

lemma session_read:
  assumes at: "at_work name i m0 xs (encode_msgs csid sid xs) got L" and k: "0 < k" "bytes \<noteq> []"
    and xs: "stream_head xs" "csid < 64" "length sid = 4" "length (encode_msgs csid sid xs) \<le> RTMP_START_PARSE_LENGTH"
    and part: "got @ bytes = encode_msgs csid sid xs @ rest" "length rest < 2 ^ 32"
  obtains L' j where "Publisher_readable e junk junks close name (socket_read k bytes) L = Inr L'" "same_else name L L'"
    "at_work name i m0 xs (encode_msgs csid sid xs) (got @ take j bytes) L'" "0 < j"
    "\<And>c. find_conn name L = Some c \<Longrightarrow> j = min k (socket_room (recv_buffer c))"
proof -
  obtain c log where p: "publishes name i L c" "open_input (recv_buffer c)" "unwatched_publisher (publishers L ! i) log"
    "session m0 xs (encode_msgs csid sid xs) got (srv_rtmp (publishers L ! i)) (recv_buffer c) log"
    using at by (auto simp: at_work_def)
  have i: "i < length (publishers L)" and f: "find_conn name L = Some c" "map_sorted (net_conns (live_net L))"
    using p(1) by (simp_all add: publishes_def)
  have body: "on_body_data (publishers L ! i)" and ok: "buf_ok (recv_buffer c)" using p(2,3) by (simp_all add: unwatched_publisher_def open_input_def)
  let ?j = "min k (socket_room (recv_buffer c))"
  obtain b where run: "Publisher_readable e junk junks close name (socket_read k bytes) L =
      ebind (OnBodyData e junks (publishers L ! i) b (live_net (put_conn name (c\<lparr>recv_buffer := b\<rparr>) L)))
        (put_body name i (put_conn name (c\<lparr>recv_buffer := b\<rparr>) L))"
    and b: "buf_ok b" "length (buf_data b) = DEFAULT_BUFFER_SIZE + IDX_BEGIN" "ReadableLength b \<le> DEFAULT_BUFFER_SIZE"
    "readable b = readable (recv_buffer c) @ take ?j bytes"
    by (rule streaming_read [OF p(1,2) body k])
  let ?L = "put_conn name (c\<lparr>recv_buffer := b\<rparr>) L"
  have "take (length (got @ take ?j bytes)) (got @ bytes) = got @ take ?j bytes" by (simp add: min_def)
  then have sp: "stream_part (got @ take ?j bytes) (encode_msgs csid sid xs @ rest)"
    unfolding stream_part_def part(1) [symmetric] by simp
  obtain srv' b' log' where s: "OnBodyData e junks (publishers L ! i) b (live_net ?L) = Inr (srv', b', live_net ?L)"
    "session m0 xs (encode_msgs csid sid xs) (got @ take ?j bytes) (srv_rtmp srv') b' log'" "unwatched_publisher srv' log'" "buf_ok b'"
    "ReadableLength b' < RTMP_START_PARSE_LENGTH \<or> ReadableLength b' < ReadableLength b" "buf_data b' = buf_data b"
    by (rule OnBodyData_session [OF p(4,3) xs ok b(1,4) sp part(2)])
  let ?c = "c\<lparr>recv_buffer := b'\<rparr>"
  let ?L1 = "?L\<lparr>publishers := (publishers L)[i := srv'], live_net := live_net ?L\<rparr>"
  let ?L' = "put_conn name ?c ?L1"
  have f1: "map_find name (net_conns (live_net ?L)) = Some (c\<lparr>recv_buffer := b\<rparr>)" by (simp add: put_conn_def)
  have so: "map_sorted (net_conns (live_net ?L1))" using put_conn_sorted [OF f(2)] by simp
  have "open_input b'" using s(4-6) b(2,3) by (auto simp: open_input_def DEFAULT_BUFFER_SIZE_def RTMP_START_PARSE_LENGTH_def)
  moreover have "publishes name i ?L' ?c" using p(1) i put_conn_sorted [OF so] by (simp add: publishes_def)
  ultimately have "at_work name i m0 xs (encode_msgs csid sid xs) (got @ take ?j bytes) ?L'"
    using s(2,3) i unfolding at_work_def by (intro exI [of _ ?c] exI [of _ log']) simp
  moreover have "Publisher_readable e junk junks close name (socket_read k bytes) L = Inr ?L'"
    by (simp add: run s(1) put_body_def f1)
  moreover have "same_else name L ?L'"
    using put_conn_other [OF f(2)] put_conn_other [OF so] by (simp add: same_else_def find_conn_def)
  moreover have "0 < ?j" using k(1) p(2) by (simp add: open_input_def socket_room_def)
  ultimately show ?thesis using f(1) by (intro that [of ?L' ?j]) simp_all
qed

lemma same_else_trans: "same_else name L L1 \<Longrightarrow> same_else name L1 L2 \<Longrightarrow> same_else name L L2"
  by (simp add: same_else_def)

lemma session_reads:
  assumes xs: "stream_head xs" "csid < 64" "length sid = 4" "length (encode_msgs csid sid xs) \<le> RTMP_START_PARSE_LENGTH"
    and rest: "length rest < 2 ^ 32"
  shows "at_work name i m0 xs (encode_msgs csid sid xs) got L \<Longrightarrow> \<forall>k \<in> set ks. 0 < k \<Longrightarrow> length bytes \<le> length ks \<Longrightarrow>
    got @ bytes = encode_msgs csid sid xs @ rest \<Longrightarrow>
    \<exists>L'. publisher_reads e junk junks close name ks bytes L = Inr ([], L') \<and> same_else name L L' \<and>
      at_work name i m0 xs (encode_msgs csid sid xs) (encode_msgs csid sid xs @ rest) L'"
proof (induction ks arbitrary: got bytes L)
  case Nil
  then show ?case by (simp add: same_else_def)
next
  case (Cons k ks)
  obtain c where c: "find_conn name L = Some c" "conn_status c \<noteq> DISCONNECTED"
    using Cons.prems(1) by (auto simp: at_work_def publishes_def)
  show ?case
  proof (cases "bytes = []")
    case True
    then show ?thesis using Cons.prems(1,4) c by (simp add: same_else_def)
  next
    case False
    have k: "0 < k" using Cons.prems(2) by simp
    obtain L1 j where r: "Publisher_readable e junk junks close name (socket_read k bytes) L = Inr L1" "same_else name L L1"
      "at_work name i m0 xs (encode_msgs csid sid xs) (got @ take j bytes) L1" "0 < j"
      "\<And>c. find_conn name L = Some c \<Longrightarrow> j = min k (socket_room (recv_buffer c))"
      by (rule session_read [OF Cons.prems(1) k False xs Cons.prems(4) rest]) blast
    have "length (drop j bytes) \<le> length ks" by (rule drop_shorter [OF r(4)]) (use Cons.prems(3) in simp)
    moreover have "(got @ take j bytes) @ drop j bytes = encode_msgs csid sid xs @ rest" using Cons.prems(4) by simp
    ultimately obtain L2 where l2: "publisher_reads e junk junks close name ks (drop j bytes) L1 = Inr ([], L2)" "same_else name L1 L2"
      "at_work name i m0 xs (encode_msgs csid sid xs) (encode_msgs csid sid xs @ rest) L2"
      using Cons.IH [OF r(3), of "drop j bytes"] Cons.prems(2) by (auto simp del: append_assoc length_drop)
    have "publisher_reads e junk junks close name (k # ks) bytes L = Inr ([], L2)"
      using c False r(1) r(5) [OF c(1)] l2(1) by simp
    then show ?thesis using l2(2,3) same_else_trans [OF r(2)] by blast
  qed
qed

section \<open>Viewers can join\<close>

lemma head_small:
  assumes "holds_head clock xs fm" "stream_head xs" "length sid = 4"
    and "length (encode_msgs csid sid xs) \<le> RTMP_START_PARSE_LENGTH"
  shows "unat (headers_length fm) \<le> 4096"
proof -
  obtain s a v where xs: "xs = [s, a, v]" "head_msg s" "head_msg a" "head_msg v" by (rule stream_headE [OF assms(2)])
  have d: "length (ms_data s) = unat (GetDataSize (script_tag fm))" "length (ms_data a) = unat (GetDataSize (video_audio_tag0 fm))"
    "length (ms_data v) = unat (GetDataSize (video_audio_tag1 fm))"
    using assms(1) length_data_item [of "script_tag fm"] length_data_item [of "video_audio_tag0 fm"]
      length_data_item [of "video_audio_tag1 fm"] by (auto simp: holds_head_def manager_ok_def xs(1))
  have "length (ms_data s) + length (ms_data a) + length (ms_data v) \<le> RTMP_START_PARSE_LENGTH"
    using assms(4) by (simp add: xs(1) encode_msgs_def encode_head_msg [OF xs(2)] encode_head_msg [OF xs(3)] encode_head_msg [OF xs(4)])
  then show ?thesis unfolding unat_headers_length d [symmetric] by (simp add: RTMP_START_PARSE_LENGTH_def)
qed

lemma announced_joinable:
  assumes "unwatched_publisher srv log" "linked (srv_rtmp srv) log" "log \<noteq> []"
    and "holds_head clock xs (rm_flv_manager (srv_rtmp srv))" "unat (headers_length (rm_flv_manager (srv_rtmp srv))) \<le> 4096"
  shows "joinable srv"
proof -
  have "tag_complete (snd (last log))" using assms(1,3) by (simp add: unwatched_publisher_def)
  then have "tags_ok srv (fst (last log))" using assms(1-3) by (simp add: tags_ok_def unwatched_publisher_def linked_def)
  moreover have "header_ok srv" using assms(1,4) by (simp add: header_ok_def unwatched_publisher_def holds_head_def)
  ultimately show ?thesis using assms(5) by (auto simp: joinable_def)
qed

text \<open>
  C5: a session goes on from the handshake to the point where viewers can join. A publisher whose
  handshake is over, and who has no viewer yet, sends the head of its stream, of at most 1000 bytes, and
  messages behind it, in pieces cut anywhere, at least 1000 bytes in all. Everything is read, the
  connection stays open and no other connection is touched; the head of the stream is kept, and the tags that have been made, with those that are
  still in the input buffer, are those of the audio and video messages. From the first tag
  on a viewer can join, and the stream goes on: this is the state that a viewer's stream starts from.
\<close>

theorem session_opens_for_viewers:
  assumes "publishes name i L c" "open_input (recv_buffer c)" "readable (recv_buffer c) = []"
    and "on_body_data (publishers L ! i)" "before_head (srv_rtmp (publishers L ! i))"
    and "client_map (publishers L ! i) = []" "last_flv_tag_ptr (publishers L ! i) = None"
    and "buf_ok (header_buffer (publishers L ! i))" "readable (header_buffer (publishers L ! i)) = []"
    and "stream_head xs" "csid < 64" "length sid = 4" "msgs_ok None ms"
    and "length (encode_msgs csid sid xs) \<le> RTMP_START_PARSE_LENGTH"
    and "bytes = encode_msgs csid sid (xs @ ms)" "RTMP_START_PARSE_LENGTH \<le> length bytes" "length bytes < 2 ^ 32"
    and "\<forall>k \<in> set ks. 0 < k" "length bytes \<le> length ks"
  shows "\<exists>L' c' items. publisher_reads e junk junks close name ks bytes L = Inr ([], L') \<and> same_else name L L' \<and>
    publishes name i L' c' \<and> open_input (recv_buffer c') \<and> on_body_data (publishers L' ! i) \<and>
    stream_ok (srv_rtmp (publishers L' ! i)) \<and> client_map (publishers L' ! i) = [] \<and>
    holds_head (rtmp_codec (srv_rtmp (publishers L ! i))) xs (rm_flv_manager (srv_rtmp (publishers L' ! i))) \<and>
    items @ snd (feed (chunk_state_of (srv_rtmp (publishers L' ! i))) (readable (recv_buffer c'))) =
      media_items (clock_after (rtmp_codec (srv_rtmp (publishers L ! i))) xs) 0 ms \<and>
    (items \<noteq> [] \<longrightarrow> joinable (publishers L' ! i) \<and> tag_item (flv_heap (srv_rtmp (publishers L' ! i)) !
      the (last_flv_tag_ptr (publishers L' ! i))) = last items)"
proof -
  let ?srv = "publishers L ! i" and ?head = "encode_msgs csid sid xs" and ?rest = "encode_msgs csid sid ms"
  let ?m = "srv_rtmp ?srv"
  have all: "bytes = ?head @ ?rest" using assms(15) by (simp add: encode_msgs_def)
  have rest: "length ?rest < 2 ^ 32" using assms(17) all by simp
  have "session ?m xs ?head [] ?m (recv_buffer c) []"
    using assms(3,5) by (simp add: session_def linked_def before_head_def RTMP_START_PARSE_LENGTH_def)
  moreover have "unwatched_publisher ?srv []" using assms(4,6-9) by (simp add: unwatched_publisher_def)
  ultimately have at: "at_work name i ?m xs ?head [] L" using assms(1,2) by (auto simp: at_work_def)
  have all0: "[] @ bytes = ?head @ ?rest" using all by simp
  obtain L' where r: "publisher_reads e junk junks close name ks bytes L = Inr ([], L')" "same_else name L L'"
    "at_work name i ?m xs ?head (?head @ ?rest) L'"
    using session_reads [OF assms(10-12,14) rest at assms(18,19) all0] by blast
  let ?srv' = "publishers L' ! i"
  obtain c' log where w: "publishes name i L' c'" "open_input (recv_buffer c')" "unwatched_publisher ?srv' log"
    "session ?m xs ?head (?head @ ?rest) (srv_rtmp ?srv') (recv_buffer c') log"
    using r(3) by (auto simp: at_work_def)
  have li: "linked (srv_rtmp ?srv') log" using w(4) by (simp add: session_def)
  have "\<not> length (?head @ ?rest) < RTMP_START_PARSE_LENGTH" using assms(16) all by simp
  then obtain m1 ys where m1: "behind_head ?m xs m1" "rm_flv_manager (srv_rtmp ?srv') = rm_flv_manager m1" "stream_ok (srv_rtmp ?srv')"
    "?rest = ys @ readable (recv_buffer c')" "feed (chunk_state_of m1) ys = (chunk_state_of (srv_rtmp ?srv'), announced log)"
    using w(4) unfolding session_def by auto
  have head: "holds_head (rtmp_codec ?m) xs (rm_flv_manager (srv_rtmp ?srv'))" using m1(1,2) by (simp add: behind_head_def)
  have "idle (chunk_state_of m1)" using m1(1) by (simp add: behind_head_def)
  from feed_msgs [OF assms(11,12) this _ assms(13)] m1(1)
  have "snd (feed (chunk_state_of m1) ?rest) = media_items (clock_after (rtmp_codec ?m) xs) 0 ms"
    by (auto simp: behind_head_def)
  then have items: "announced log @ snd (feed (chunk_state_of (srv_rtmp ?srv')) (readable (recv_buffer c'))) =
      media_items (clock_after (rtmp_codec ?m) xs) 0 ms"
    using m1(5) unfolding m1(4) by (simp add: feed_append split: prod.splits)
  have ready: "joinable ?srv' \<and> tag_item (flv_heap (srv_rtmp ?srv') ! the (last_flv_tag_ptr ?srv')) = last (announced log)" if "announced log \<noteq> []"
  proof
    have ne: "log \<noteq> []" using that by (simp add: announced_def)
    show "joinable ?srv'"
      by (rule announced_joinable [OF w(3) li ne head head_small [OF head assms(10,12,14)]])
    show "tag_item (flv_heap (srv_rtmp ?srv') ! the (last_flv_tag_ptr ?srv')) = last (announced log)"
      using w(3) li ne by (simp add: unwatched_publisher_def linked_def announced_def last_map)
  qed
  show ?thesis
    using r(1,2) w(1-3) m1(3) head items ready
    by (intro exI [of _ L'] exI [of _ c'] exI [of _ "announced log"]) (simp add: unwatched_publisher_def)
qed

section \<open>An input for the witness\<close>

definition sample_opened :: live_server where
  "sample_opened = live_server_new\<lparr>publishers := [(RtmpServerConnection_new sample_pack (lit ''p''))\<lparr>on_body_data := True\<rparr>],
     publisher_of := [(lit ''p'', 0)], live_net := sample_net\<rparr>"

lemma sample_opened:
  "publishes (lit ''p'') 0 sample_opened sample_conn" "on_body_data (publishers sample_opened ! 0)"
  "srv_rtmp (publishers sample_opened ! 0) = RtmpManager_new sample_pack" "client_map (publishers sample_opened ! 0) = []"
  "last_flv_tag_ptr (publishers sample_opened ! 0) = None" "header_buffer (publishers sample_opened ! 0) = Buffer_new"
  by (simp_all add: publishes_def sample_opened_def sample_net_def find_conn_def map_find_Cons sample_conn_def lit_def
      RtmpServerConnection_new_def)

theorem session_opens_for_viewers_witness:
  "\<exists>L' c' items. publisher_reads sample_env sample_pack (\<lambda>_. sample_pack) None (lit ''p'') (replicate 1047 300)
      (encode_msgs 4 [1, 0, 0, 0] (sample_head @ [sample_long_msg])) sample_opened = Inr ([], L') \<and>
    find_conn (lit ''p'') L' = Some c' \<and> conn_status c' = CONNECTED \<and>
    it_data (tag_item (script_tag (rm_flv_manager (srv_rtmp (publishers L' ! 0))))) = [2, 0, 10] \<and>
    map it_ts (items @ snd (feed (chunk_state_of (srv_rtmp (publishers L' ! 0))) (readable (recv_buffer c')))) = [63]"
proof -
  let ?all = "encode_msgs 4 [1, 0, 0, 0] (sample_head @ [sample_long_msg])"
  note o = sample_opened
  have bh: "before_head (srv_rtmp (publishers sample_opened ! 0))" unfolding o by (rule sample_before_head)
  have hb: "buf_ok (header_buffer (publishers sample_opened ! 0))" "readable (header_buffer (publishers sample_opened ! 0)) = []"
    unfolding o by simp_all
  have len: "length (encode_msgs 4 [1, 0, 0, 0] sample_head) \<le> RTMP_START_PARSE_LENGTH" "RTMP_START_PARSE_LENGTH \<le> length ?all"
    "length ?all < 2 ^ 32" "length ?all \<le> length (replicate 1047 (300 :: nat))" "\<forall>k \<in> set (replicate 1047 (300 :: nat)). 0 < k"
    by (simp_all only: length_sample_head RTMP_START_PARSE_LENGTH_def) simp_all
  have small: "4 < (64 :: nat)" "length [1, 0, 0, 0 :: byte] = 4" by simp_all
  have clk: "rtmp_codec (RtmpManager_new sample_pack) = 0" by (simp add: RtmpManager_new_def RtmpCodec_new_def)
  obtain L' c' items where r: "publisher_reads sample_env sample_pack (\<lambda>_. sample_pack) None (lit ''p'') (replicate 1047 300) ?all sample_opened = Inr ([], L')"
    "publishes (lit ''p'') 0 L' c'" "holds_head 0 sample_head (rm_flv_manager (srv_rtmp (publishers L' ! 0)))"
    "items @ snd (feed (chunk_state_of (srv_rtmp (publishers L' ! 0))) (readable (recv_buffer c'))) =
      media_items (clock_after 0 sample_head) 0 [sample_long_msg]"
    using session_opens_for_viewers [OF o(1) sample_streaming_ok(2) sample_conn_empty o(2) bh o(4,5) hb sample_head_ok(1) small
        sample_head_ok(2) len(1) refl len(2,3,5,4), of sample_env sample_pack "\<lambda>_. sample_pack" None]
    unfolding o(3) clk by auto
  have "it_data (tag_item (script_tag (rm_flv_manager (srv_rtmp (publishers L' ! 0))))) = [2, 0, 10]"
    using r(3) by (simp add: holds_head_def sample_head_def)
  moreover have "map it_ts (items @ snd (feed (chunk_state_of (srv_rtmp (publishers L' ! 0))) (readable (recv_buffer c')))) = [63]"
    by (simp only: r(4)) (simp add: sample_long_msg_def sample_head_def clock_after_def is_media_def)
  moreover have "find_conn (lit ''p'') L' = Some c'" "conn_status c' = CONNECTED" using r(2) by (simp_all add: publishes_def)
  ultimately show ?thesis using r(1) by (intro exI [of _ L'] exI [of _ c'] exI [of _ items] conjI)
qed

end
