(* ===== verification/LongMessage.thy ===== *)
theory LongMessage
  imports SocketStream HandshakeMessages
begin

text \<open>
  The handshake of a publisher on its socket. A message is looked at when all of it is in the
  input buffer, and the input buffer never grows: a message that is longer than the buffer is
  waited for until the buffer is full, and then the connection is closed.
\<close>

section \<open>A message longer than the buffer\<close>

text \<open>The header of the message is there, and the message takes more than a buffer holds.\<close>

definition oversized :: "rtmp_pack \<Rightarrow> rtmp_manager \<Rightarrow> bytes \<Rightarrow> bool" where
  "oversized junk m bs \<longleftrightarrow> hs_left (shake_hand_status m) \<noteq> 0 \<and> bs \<noteq> [] \<and> header_len (bs ! 0) \<le> length bs \<and>
     DEFAULT_BUFFER_SIZE < hs_take junk m bs"

lemma oversized_more: "oversized junk m bs \<Longrightarrow> oversized junk m (bs @ xs)"
  by (cases "shake_hand_status m")
    (auto simp: oversized_def hs_take_def body_size_more nth_append split: if_splits)

text \<open>It is never complete in the buffer; the fixed sizes of the first two messages do fit.\<close>

lemma oversized_not_ready: "oversized junk m bs \<Longrightarrow> length bs \<le> DEFAULT_BUFFER_SIZE \<Longrightarrow> \<not> hs_ready junk m bs"
  by (cases "shake_hand_status m")
    (auto simp: oversized_def hs_take_def hs_ready_def complete_def DEFAULT_BUFFER_SIZE_def split: if_splits)

lemma OnConnectionShakeHand_waits:
  assumes "hs_ok junk (srv_rtmp srv)" "buf_ok b" "oversized junk (srv_rtmp srv) (readable b)" "ReadableLength b \<le> DEFAULT_BUFFER_SIZE"
  obtains m where "OnConnectionShakeHand e junk auth success srv b n s = Inr (srv\<lparr>srv_rtmp := m\<rparr>, b, n, s)"
    "hs_ok junk m" "oversized junk m (readable b)" "shake_hand_status m = shake_hand_status (srv_rtmp srv)"
proof -
  let ?m = "srv_rtmp srv"
  obtain st m b' where p: "ParseShakeHand junk ?m b = Inr (st, m, b')" "shake_step junk ?m b st m b'"
    using ParseShakeHand_step [OF assms(1,2)] by blast
  have nr: "\<not> hs_ready junk ?m (readable b)"
    using oversized_not_ready [OF assms(3)] assms(2,4) by simp
  have left: "shake_hand_status ?m \<noteq> SHAKE_SUCCESS" using assms(3) by (auto simp: oversized_def)
  have m: "b' = b" "shake_hand_status m = shake_hand_status ?m" "hs_take junk m (readable b) = hs_take junk ?m (readable b)"
      "st = SHAKE_DATA_NOT_ENOUGH" "hs_ok junk m"
    using p(2) nr left by (simp_all add: shake_step_def)
  have "ShakeHand e junk srv b n = Inr (RESULT_DATA_NOT_ENOUGH, srv\<lparr>srv_rtmp := m\<rparr>, b, n)"
    using p(1) m(1,4) by (simp add: ShakeHand_def eval_nat_numeral shake_reply_def)
  then have "OnConnectionShakeHand e junk auth success srv b n s = Inr (srv\<lparr>srv_rtmp := m\<rparr>, b, n, s)"
    by (simp add: OnConnectionShakeHand_def)
  moreover have "oversized junk m (readable b)" using assms(3) m(2,3) by (simp add: oversized_def)
  ultimately show ?thesis using m(2,5) by (intro that [of m])
qed

section \<open>Its publisher\<close>

text \<open>The publisher \<open>i\<close> waits for such a message on the connection \<open>name\<close>.\<close>

definition stuck :: "rtmp_pack \<Rightarrow> bytes \<Rightarrow> nat \<Rightarrow> live_server \<Rightarrow> tcp_connection \<Rightarrow> bool" where
  "stuck junk name i L c \<longleftrightarrow> publishes name i L c \<and> buf_ok (recv_buffer c) \<and>
     length (buf_data (recv_buffer c)) = DEFAULT_BUFFER_SIZE + IDX_BEGIN \<and>
     ReadableLength (recv_buffer c) \<le> DEFAULT_BUFFER_SIZE \<and> \<not> on_body_data (publishers L ! i) \<and>
     hs_ok junk (srv_rtmp (publishers L ! i)) \<and> oversized junk (srv_rtmp (publishers L ! i)) (readable (recv_buffer c))"

text \<open>What stays as it is.\<close>

definition unanswered :: "bytes \<Rightarrow> nat \<Rightarrow> live_server \<Rightarrow> live_server \<Rightarrow> bool" where
  "unanswered name i L L' \<longleftrightarrow> net_out name (live_net L') = net_out name (live_net L) \<and>
     rtmp_connection_map L' = rtmp_connection_map L \<and> length (publishers L') = length (publishers L) \<and>
     shake_hand_status (srv_rtmp (publishers L' ! i)) = shake_hand_status (srv_rtmp (publishers L ! i))"

lemma unanswered_trans: "unanswered name i L L1 \<Longrightarrow> unanswered name i L1 L2 \<Longrightarrow> unanswered name i L L2"
  by (simp add: unanswered_def)

lemma stuck_step:
  assumes "stuck junk name i L c" "ReadableLength (recv_buffer c) < DEFAULT_BUFFER_SIZE" "0 < k" "bytes \<noteq> []"
  obtains L' c' where "Publisher_readable e junk junks close name (socket_read k bytes) L = Inr L'" "stuck junk name i L' c'"
    "unanswered name i L L'"
    "ReadableLength (recv_buffer c') = ReadableLength (recv_buffer c) + length (take (min k (socket_room (recv_buffer c))) bytes)"
proof -
  let ?srv = "publishers L ! i"
  have st: "publishes name i L c" "\<not> on_body_data ?srv" "hs_ok junk (srv_rtmp ?srv)"
      "oversized junk (srv_rtmp ?srv) (readable (recv_buffer c))" "buf_ok (recv_buffer c)"
    using assms(1) by (simp_all add: stuck_def)
  have op: "open_input (recv_buffer c)" using assms(1,2) by (simp add: stuck_def open_input_def)
  obtain b where run: "Publisher_readable e junk junks close name (socket_read k bytes) L =
      ebind (Publisher_message e junk junks i b (put_conn name (c\<lparr>recv_buffer := b\<rparr>) L)) (\<lambda>(b, L).
        case find_conn name L of None \<Rightarrow> Inl NullPointer
        | Some c \<Rightarrow> Inr (put_conn name (c\<lparr>recv_buffer := b\<rparr>) L))"
    and b: "buf_ok b" "length (buf_data b) = DEFAULT_BUFFER_SIZE + IDX_BEGIN" "ReadableLength b \<le> DEFAULT_BUFFER_SIZE"
    "readable b = readable (recv_buffer c) @ take (min k (socket_room (recv_buffer c))) bytes"
    by (rule Publisher_readable_bytes [OF st(1) op assms(3,4)]) blast
  let ?L = "put_conn name (c\<lparr>recv_buffer := b\<rparr>) L"
  have ov: "oversized junk (srv_rtmp ?srv) (readable b)" using oversized_more [OF st(4)] by (simp only: b(4))
  obtain m where m: "OnConnectionShakeHand e junk (Some OnAuthenticate) (Some (OnShakeHandSuccess i)) ?srv b (live_net ?L)
        (rtmp_connection_map L) = Inr (?srv\<lparr>srv_rtmp := m\<rparr>, b, live_net ?L, rtmp_connection_map L)"
    "hs_ok junk m" "oversized junk m (readable b)" "shake_hand_status m = shake_hand_status (srv_rtmp ?srv)"
    by (rule OnConnectionShakeHand_waits [OF st(3) b(1) ov b(3)])
  let ?L1 = "?L\<lparr>publishers := (publishers L)[i := ?srv\<lparr>srv_rtmp := m\<rparr>], live_net := live_net ?L, rtmp_connection_map := rtmp_connection_map L\<rparr>"
  let ?L' = "put_conn name (c\<lparr>recv_buffer := b\<rparr>) ?L1"
  have f: "find_conn name ?L1 = Some (c\<lparr>recv_buffer := b\<rparr>)" by (simp add: find_conn_def put_conn_def)
  have so: "map_sorted (net_conns (live_net L))" and i: "i < length (publishers L)" and c: "find_conn name L = Some c"
    using st(1) by (simp_all add: publishes_def)
  have res: "Publisher_readable e junk junks close name (socket_read k bytes) L = Inr ?L'"
    using st(2) m(1) f by (simp add: run Publisher_message_def Let_def)
  have "map_sorted (net_conns (live_net ?L'))" by (rule put_conn_sorted) (simp add: put_conn_sorted [OF so])
  then have "stuck junk name i ?L' (c\<lparr>recv_buffer := b\<rparr>)"
    using st(1,2) m(2,3) b(1-3) i by (simp add: stuck_def publishes_def)
  moreover have "unanswered name i L ?L'"
    using c i m(4) by (simp add: unanswered_def net_out_def find_conn_def put_conn_def queued_def outgoing_def)
  moreover have "ReadableLength b = ReadableLength (recv_buffer c) + length (take (min k (socket_room (recv_buffer c))) bytes)"
    using length_readable [OF b(1)] length_readable [OF st(5)] b(4) by simp
  ultimately show ?thesis using res by (intro that [of ?L' "c\<lparr>recv_buffer := b\<rparr>"]) simp_all
qed

text \<open>A read into a full buffer is asked for nothing, and what it returns counts as the end.\<close>

lemma full_closes:
  assumes "stuck junk name i L c" "ReadableLength (recv_buffer c) = DEFAULT_BUFFER_SIZE" "\<forall>c L. call close c L = Inr (c, L)"
  obtains L' c' where "Publisher_readable e junk junks close name (socket_read k bytes) L = Inr L'"
    "find_conn name L' = Some c'" "conn_status c' = DISCONNECTED" "unanswered name i L L'"
proof -
  have st: "publishes name i L c" "buf_ok (recv_buffer c)" "length (buf_data (recv_buffer c)) = DEFAULT_BUFFER_SIZE + IDX_BEGIN"
    using assms(1) by (simp_all add: stuck_def)
  have c: "find_conn name L = Some c" using st(1) by (simp add: publishes_def)
  have room: "socket_room (recv_buffer c) = 0" using st(3) assms(2) by (simp add: socket_room_def)
  obtain b where b: "ReadFromSockfd (socket_read k bytes) (recv_buffer c) = Inr (0, b)"
    using ReadFromSockfd_ok [OF st(2) socket_read_contract [of k bytes]] room by (auto simp: socket_read_def)
  let ?c = "on_channel DisableAll (c\<lparr>recv_buffer := b, conn_status := DISCONNECTED\<rparr>)"
  have "Main_OnConnection junk name (put_conn name ?c L) = Inr (put_conn name ?c L)"
    using find_put_conn [of name ?c L] by (simp add: Main_OnConnection_def find_conn_def Connected_def)
  then have "OnReadable (socket_read k bytes) (Some (Publisher_callback e junk junks name)) (Some (Publisher_connection junk name))
      close c L = Inr (?c, put_conn name ?c L)"
    using assms(3) by (simp add: OnReadable_def b OnClose_def Let_def call_def Publisher_connection_def)
  then have "Publisher_readable e junk junks close name (socket_read k bytes) L = Inr (put_conn name ?c (put_conn name ?c L))"
    by (simp add: Publisher_readable_def c)
  moreover have "unanswered name i L (put_conn name ?c (put_conn name ?c L))"
    using c by (simp add: unanswered_def net_out_def find_conn_def put_conn_def queued_def outgoing_def)
  ultimately show ?thesis by (intro that [of "put_conn name ?c (put_conn name ?c L)" ?c]) simp_all
qed

lemma reads_of_closed:
  "find_conn name L = Some c \<Longrightarrow> conn_status c = DISCONNECTED \<Longrightarrow>
   publisher_reads e junk junks close name ks bytes L = Inr (bytes, L)"
  by (cases ks) simp_all

lemma stuck_reads:
  assumes "\<forall>c L. call close c L = Inr (c, L)"
  shows "stuck junk name i L c \<Longrightarrow> \<forall>k \<in> set ks. 0 < k \<Longrightarrow>
    DEFAULT_BUFFER_SIZE < ReadableLength (recv_buffer c) + length bytes \<Longrightarrow>
    DEFAULT_BUFFER_SIZE < ReadableLength (recv_buffer c) + length ks \<Longrightarrow>
    \<exists>rest L' c'. publisher_reads e junk junks close name ks bytes L = Inr (rest, L') \<and>
      find_conn name L' = Some c' \<and> conn_status c' = DISCONNECTED \<and> unanswered name i L L' \<and>
      length rest = ReadableLength (recv_buffer c) + length bytes - DEFAULT_BUFFER_SIZE"
proof (induction ks arbitrary: bytes L c)
  case Nil
  then show ?case by (simp add: stuck_def)
next
  case (Cons k ks)
  have c: "find_conn name L = Some c" "conn_status c \<noteq> DISCONNECTED" and le: "ReadableLength (recv_buffer c) \<le> DEFAULT_BUFFER_SIZE"
    and room: "socket_room (recv_buffer c) = DEFAULT_BUFFER_SIZE - ReadableLength (recv_buffer c)"
    using Cons.prems(1) by (simp_all add: stuck_def publishes_def socket_room_def)
  have ne: "bytes \<noteq> []" using Cons.prems(3) le by auto
  let ?n = "min k (socket_room (recv_buffer c))"
  have run: "publisher_reads e junk junks close name (k # ks) bytes L =
      ebind (Publisher_readable e junk junks close name (socket_read k bytes) L)
        (publisher_reads e junk junks close name ks (drop ?n bytes))"
    using c ne by simp
  show ?case
  proof (cases "ReadableLength (recv_buffer c) = DEFAULT_BUFFER_SIZE")
    case True
    obtain L' c' where r: "Publisher_readable e junk junks close name (socket_read k bytes) L = Inr L'"
      "find_conn name L' = Some c'" "conn_status c' = DISCONNECTED" "unanswered name i L L'"
      by (rule full_closes [OF Cons.prems(1) True assms])
    have "?n = 0" using True room by simp
    then show ?thesis using r reads_of_closed [OF r(2,3)] True unfolding run by (intro exI [of _ bytes]) simp
  next
    case False
    then have lt: "ReadableLength (recv_buffer c) < DEFAULT_BUFFER_SIZE" using le by simp
    have k: "0 < k" using Cons.prems(2) by simp
    obtain L1 c1 where r: "Publisher_readable e junk junks close name (socket_read k bytes) L = Inr L1" "stuck junk name i L1 c1"
      "unanswered name i L L1" "ReadableLength (recv_buffer c1) = ReadableLength (recv_buffer c) + length (take ?n bytes)"
      by (rule stuck_step [OF Cons.prems(1) lt k ne])
    have split: "length (take ?n bytes) + length (drop ?n bytes) = length bytes"
      by (simp only: length_append [symmetric] append_take_drop_id)
    have pos: "0 < length (take ?n bytes)" using k ne room lt by simp
    have sum: "ReadableLength (recv_buffer c1) + length (drop ?n bytes) = ReadableLength (recv_buffer c) + length bytes"
      using r(4) split by linarith
    have more: "DEFAULT_BUFFER_SIZE < ReadableLength (recv_buffer c1) + length ks"
      using Cons.prems(4) r(4) pos by (simp only: list.size)
    from Cons.IH [OF r(2) _ _ more, of "drop ?n bytes"] Cons.prems(2,3)
    obtain rest L' c' where "publisher_reads e junk junks close name ks (drop ?n bytes) L1 = Inr (rest, L')"
      "find_conn name L' = Some c'" "conn_status c' = DISCONNECTED" "unanswered name i L1 L'"
      "length rest = ReadableLength (recv_buffer c) + length bytes - DEFAULT_BUFFER_SIZE"
      unfolding sum by auto
    then show ?thesis using r(1) unanswered_trans [OF r(3)] unfolding run by auto
  qed
qed

text \<open>
  C15: a publisher whose next handshake message is longer than the input buffer is always
  thrown out. As soon as the header of the message is there, and however the kernel hands over
  what the publisher sends, the first 4096 bytes are taken and nothing else happens: the
  handshake stays where it is, nothing is answered, no stream is registered; and the next
  read, into a full buffer, closes the connection while the rest of the message is waiting.
\<close>

theorem long_handshake_message_closes:
  assumes "stuck junk name i L c" "\<forall>k \<in> set ks. 0 < k" "\<forall>c L. call close c L = Inr (c, L)"
    and "DEFAULT_BUFFER_SIZE < ReadableLength (recv_buffer c) + length bytes" "length bytes \<le> length ks"
  shows "\<exists>rest L' c'. publisher_reads e junk junks close name ks bytes L = Inr (rest, L') \<and>
    find_conn name L' = Some c' \<and> conn_status c' = DISCONNECTED \<and>
    length rest = ReadableLength (recv_buffer c) + length bytes - DEFAULT_BUFFER_SIZE \<and>
    net_out name (live_net L') = net_out name (live_net L) \<and> rtmp_connection_map L' = rtmp_connection_map L \<and>
    shake_hand_status (srv_rtmp (publishers L' ! i)) = shake_hand_status (srv_rtmp (publishers L ! i))"
proof -
  have "DEFAULT_BUFFER_SIZE < ReadableLength (recv_buffer c) + length ks" using assms(4,5) by linarith
  from stuck_reads [OF assms(3,1,2,4) this, of e junks] show ?thesis by (auto simp: unanswered_def)
qed

text \<open>A connect message that declares a body of 5000 bytes; its header has arrived.\<close>

definition sample_long_header :: bytes where
  "sample_long_header = [basic_header 3 FMT0, 0, 0, 0, 0, 0x13, 0x88, 20, 0, 0, 0, 0]"

definition sample_long_conn :: tcp_connection where
  "sample_long_conn = sample_conn\<lparr>recv_buffer := \<lparr>buf_data = replicate 8 0 @ sample_long_header @ replicate 4084 0,
     read_idx = 8, write_idx = 20, sum_read = 0, sum_write = 12\<rparr>\<rparr>"

definition sample_waiting :: live_server where
  "sample_waiting = live_server_new\<lparr>publishers := [sample_publisher SHAKE_RTMP_CONNECT], publisher_of := [(lit ''p'', 0)],
     live_net := \<lparr>net_conns = [(lit ''p'', sample_long_conn)], net_queue = []\<rparr>\<rparr>"

lemma sample_long_input:
  "buf_ok (recv_buffer sample_long_conn)" "readable (recv_buffer sample_long_conn) = sample_long_header"
  "ReadableLength (recv_buffer sample_long_conn) = 12" "length (buf_data (recv_buffer sample_long_conn)) = 4104"
  by (simp_all add: sample_long_conn_def buf_ok_def readable_def sample_long_header_def max_size_def ReadableLength_def
      size_sub_def size_mod_def)

lemma sample_waiting_stuck: "stuck sample_pack (lit ''p'') 0 sample_waiting sample_long_conn"
proof -
  have "body_size (connect_pack (sample_manager_at SHAKE_RTMP_CONNECT)) sample_long_header = 5000"
    by (simp add: body_size_def sample_long_header_def fmt_of_basic unat_be24)
  then have "oversized sample_pack (sample_manager_at SHAKE_RTMP_CONNECT) sample_long_header"
    by (simp add: oversized_def hs_take_def message_len_def DEFAULT_BUFFER_SIZE_def)
      (simp add: sample_long_header_def header_len_basic)
  moreover have "publishes (lit ''p'') 0 sample_waiting sample_long_conn"
    by (simp add: publishes_def sample_waiting_def find_conn_def map_find_Cons sample_long_conn_def sample_conn_def)
  ultimately show ?thesis
    using sample_publisher_ok [of SHAKE_RTMP_CONNECT]
    by (simp add: stuck_def sample_long_input DEFAULT_BUFFER_SIZE_def)
      (simp add: sample_waiting_def sample_publisher_def RtmpServerConnection_new_def)
qed

theorem long_handshake_message_closes_witness:
  "\<exists>rest L' c'. publisher_reads sample_env sample_pack (\<lambda>_. sample_pack) None (lit ''p'') (replicate 5000 100) (replicate 5000 7)
      sample_waiting = Inr (rest, L') \<and> find_conn (lit ''p'') L' = Some c' \<and> conn_status c' = DISCONNECTED \<and>
    length rest = 916 \<and> shake_hand_status (srv_rtmp (publishers L' ! 0)) = SHAKE_RTMP_CONNECT"
proof -
  have st: "shake_hand_status (srv_rtmp (publishers sample_waiting ! 0)) = SHAKE_RTMP_CONNECT" by (simp add: sample_waiting_def)
  have "\<forall>k \<in> set (replicate 5000 (100 :: nat)). 0 < k" by simp
  from long_handshake_message_closes [OF sample_waiting_stuck this, of None "replicate 5000 7" sample_env "\<lambda>_. sample_pack"]
  show ?thesis unfolding st sample_long_input by (simp add: DEFAULT_BUFFER_SIZE_def) blast
qed

end
