(* ===== verification/FileIO.thy ===== *)
theory FileIO
  imports Buffer
begin

text \<open>
  \<^verbatim>\<open>utils/File.{h,cpp}\<close>: a file opened through C's \<open>stdio\<close>, with the length \<open>stat\<close> reported for its
  path. The file system is a map from paths to contents, a \<open>FILE*\<close> is the path it was opened
  on, the mode and the position; writes go to the file at once, so \<open>fflush\<close> changes nothing.
\<close>

section \<open>The file system\<close>

type_synonym files = "bytes \<Rightarrow> bytes option"

record stdio =
  io_path :: bytes
  io_mode :: string
  io_pos :: nat

definition fopen :: "bytes \<Rightarrow> string \<Rightarrow> files \<Rightarrow> stdio option \<times> files" where
  "fopen path mode fs =
     (let file = \<lparr>io_path = path, io_mode = mode, io_pos = 0\<rparr> in
      if mode = ''wb'' then (Some file, fs(path \<mapsto> []))
      else if mode = ''ab'' then (Some file, if fs path = None then fs(path \<mapsto> []) else fs)
      else if mode = ''rb'' \<or> mode = ''rb+'' then (if fs path = None then None else Some file, fs)
      else (None, fs))"

definition content :: "files \<Rightarrow> stdio \<Rightarrow> bytes" where
  "content fs s = (case fs (io_path s) of None \<Rightarrow> [] | Some xs \<Rightarrow> xs)"

definition fread :: "nat \<Rightarrow> stdio \<Rightarrow> files \<Rightarrow> bytes \<times> stdio" where
  "fread n s fs =
     (let xs = if io_mode s = ''rb'' \<or> io_mode s = ''rb+'' then take n (drop (io_pos s) (content fs s)) else [] in
      (xs, s\<lparr>io_pos := io_pos s + length xs\<rparr>))"

definition fwrite :: "bytes \<Rightarrow> stdio \<Rightarrow> files \<Rightarrow> nat \<times> stdio \<times> files" where
  "fwrite xs s fs =
     (if io_mode s = ''rb'' then (0, s, fs)
      else let pos = if io_mode s = ''ab'' then length (content fs s) else io_pos s in
        (length xs, s\<lparr>io_pos := pos + length xs\<rparr>,
         fs(io_path s \<mapsto> overwrite pos xs (content fs s))))"

section \<open>The class\<close>

datatype open_mode = O_RDONLY | O_WRONLY | O_APPEND | O_RDWR

record file_state =
  f_path :: bytes
  f_file :: "stdio option"
  f_stat_size :: nat

definition OpenModeToString :: "open_mode \<Rightarrow> string" where
  "OpenModeToString openmode = (case openmode of
     O_RDONLY \<Rightarrow> ''rb'' | O_WRONLY \<Rightarrow> ''wb'' | O_APPEND \<Rightarrow> ''ab'' | O_RDWR \<Rightarrow> ''rb+'')"

definition File_new :: file_state where
  "File_new = \<lparr>f_path = [], f_file = None, f_stat_size = 0\<rparr>"

definition File_of :: "bytes \<Rightarrow> open_mode \<Rightarrow> files \<Rightarrow> file_state \<times> files" where
  "File_of path openmode fs =
     (let (s, fs) = fopen path (OpenModeToString openmode) fs in (\<lparr>f_path = path, f_file = s, f_stat_size = 0\<rparr>, fs))"

definition File_Open :: "bytes \<Rightarrow> open_mode \<Rightarrow> file_state \<Rightarrow> files \<Rightarrow> bool \<times> file_state \<times> files" where
  "File_Open path openmode f fs =
     (if f_file f \<noteq> None then (False, f, fs)
      else let (s, fs) = fopen path (OpenModeToString openmode) fs in (s \<noteq> None, f\<lparr>f_file := s\<rparr>, fs))"

definition File_Close :: "file_state \<Rightarrow> file_state" where
  "File_Close f = f\<lparr>f_file := None\<rparr>"

definition File_of_path :: "bytes \<Rightarrow> files \<Rightarrow> file_state \<times> files" where
  "File_of_path path fs = File_of path O_RDONLY fs"

definition File_destroy :: "file_state \<Rightarrow> file_state" where
  "File_destroy f = File_Close f"

text \<open>\<open>Read(buffer, length)\<close>: the result, the bytes stored at \<open>buffer\<close> and the file.\<close>

definition File_Read :: "nat \<Rightarrow> file_state \<Rightarrow> files \<Rightarrow> int \<times> bytes \<times> file_state" where
  "File_Read n f fs = (case f_file f of
       None \<Rightarrow> (-1, [], f)
     | Some s \<Rightarrow> (let (xs, s) = fread n s fs in (int (length xs), xs, f\<lparr>f_file := Some s\<rparr>)))"

text \<open>A negative result becomes a huge length when it is added to an index.\<close>

definition to_size :: "int \<Rightarrow> nat" where
  "to_size i = nat (i mod 2 ^ 64)"

definition File_Read_buffer :: "buffer option \<Rightarrow> file_state \<Rightarrow> files \<Rightarrow> (int \<times> buffer option \<times> file_state) result" where
  "File_Read_buffer bp f fs = (case bp of
       None \<Rightarrow> Inr (-1, None, f)
     | Some b \<Rightarrow>
         ebind (AdjustBuffer b) (\<lambda>b.
         let (n, xs, f) = File_Read (WritableLength b) f fs in
         ebind (WriteBegin_put xs b) (\<lambda>b.
         Inr (n, Some (AddWriteIndex (to_size n) b), f))))"

definition File_Write :: "bytes \<Rightarrow> file_state \<Rightarrow> files \<Rightarrow> int \<times> file_state \<times> files" where
  "File_Write xs f fs = (case f_file f of
       None \<Rightarrow> (-1, f, fs)
     | Some s \<Rightarrow> (let (n, s, fs) = fwrite xs s fs in (int n, f\<lparr>f_file := Some s\<rparr>, fs)))"

definition File_Write_buffer :: "buffer option \<Rightarrow> file_state \<Rightarrow> files \<Rightarrow> (int \<times> file_state \<times> files) result" where
  "File_Write_buffer bp f fs = (case bp of
       None \<Rightarrow> Inr (-1, f, fs)
     | Some b \<Rightarrow> ebind (ReadBegin_at b 0 (ReadableLength b)) (\<lambda>xs. Inr (File_Write xs f fs)))"

definition GetFileSize :: "file_state \<Rightarrow> files \<Rightarrow> nat \<times> file_state" where
  "GetFileSize f fs =
     (let f = if f_stat_size f = 0
              then (case fs (f_path f) of None \<Rightarrow> f | Some xs \<Rightarrow> f\<lparr>f_stat_size := length xs\<rparr>) else f in
      (f_stat_size f, f))"

definition File_Flush :: "file_state \<Rightarrow> file_state" where
  "File_Flush f = f"

definition GetPath :: "file_state \<Rightarrow> bytes" where
  "GetPath f = f_path f"

section \<open>Reading a file from the front\<close>

text \<open>A file open for reading with the bytes \<open>rest\<close> still to come.\<close>

definition reading :: "files \<Rightarrow> bytes \<Rightarrow> file_state \<Rightarrow> bool" where
  "reading fs rest f \<longleftrightarrow> (\<exists>s. f_file f = Some s \<and> io_mode s = ''rb'' \<and> drop (io_pos s) (content fs s) = rest)"

lemma reading_open:
  assumes "fs path = Some xs" "f_file f = None"
  shows "\<exists>f'. File_Open path O_RDONLY f fs = (True, f', fs) \<and> reading fs xs f' \<and> f_path f' = f_path f \<and>
    f_stat_size f' = f_stat_size f"
  using assms by (simp add: File_Open_def fopen_def OpenModeToString_def reading_def content_def Let_def)

lemma reading_of:
  "fs path = Some xs \<Longrightarrow> \<exists>f. File_of path O_RDONLY fs = (f, fs) \<and> reading fs xs f \<and> f_path f = path \<and> f_stat_size f = 0"
  by (simp add: File_of_def fopen_def OpenModeToString_def reading_def content_def Let_def)

lemma File_Read_reading:
  assumes "reading fs rest f"
  shows "\<exists>f'. File_Read n f fs = (int (length (take n rest)), take n rest, f') \<and> reading fs (drop n rest) f' \<and>
    f_path f' = f_path f \<and> f_stat_size f' = f_stat_size f"
proof -
  obtain s where s: "f_file f = Some s" "io_mode s = ''rb''" "drop (io_pos s) (content fs s) = rest"
    using assms by (auto simp: reading_def)
  have pos: "drop (io_pos s + min (length rest) n) (content fs s) = drop n rest"
    using s(3) by (metis drop_drop add.commute append_take_drop_id append_eq_conv_conj length_take)
  show ?thesis using s pos
    by (auto simp: File_Read_def fread_def reading_def content_def Let_def)
qed

text \<open>Reading into a buffer appends what fits into it and takes that from the file.\<close>

lemma File_Read_buffer_reading:
  assumes "reading fs rest f" "buf_ok b"
  obtains n b' f' where "File_Read_buffer (Some b) f fs = Inr (n, Some b', f')" "buf_ok b'"
    "readable b' = readable b @ take (socket_room b) rest" "reading fs (drop (socket_room b) rest) f'"
    "n = int (length (take (socket_room b) rest))" "length (buf_data b') = length (buf_data b)"
proof -
  obtain a where a: "AdjustBuffer b = Inr a" "buf_ok a" "readable a = readable b"
      "write_idx a = 8 + ReadableLength b" "length (buf_data a) = length (buf_data b)"
    by (rule AdjustBuffer_ok [OF assms(2)]) blast
  have room: "WritableLength a = socket_room b" using a by (simp add: WritableLength_eq socket_room_def)
  let ?xs = "take (socket_room b) rest"
  obtain f' where f: "File_Read (socket_room b) f fs = (int (length ?xs), ?xs, f')" "reading fs (drop (socket_room b) rest) f'"
    using File_Read_reading [OF assms(1), of "socket_room b"] by blast
  have "write_idx a + length ?xs \<le> length (buf_data a)"
    using a buf_okD [OF a(2)] by (simp add: socket_room_def)
  from put_then_advance [OF a(2) this] obtain c where c: "WriteBegin_put ?xs a = Inr c"
      "buf_ok (AddWriteIndex (length ?xs) c)" "readable (AddWriteIndex (length ?xs) c) = readable a @ ?xs"
      "length (buf_data c) = length (buf_data a)"
    by metis
  have "length ?xs < 2 ^ 64"
    using buf_okD(4) [OF assms(2)] by (simp add: socket_room_def max_size_def)
  then have "to_size (int (length ?xs)) = length ?xs" by (simp add: to_size_def nat_mod_as_int flip: of_nat_mod)
  with a f c show ?thesis
    by (intro that [of "int (length ?xs)" "AddWriteIndex (length ?xs) c" f'])
      (simp_all add: File_Read_buffer_def room Let_def)
qed

end
