(* ===== verification/FlvFile.thy ===== *)
theory FlvFile
  imports FlvManager FileIO
begin

text \<open>
  The file parser of \<^verbatim>\<open>utils/codec/FlvManager.{h,cpp}\<close>: an FLV file is read through a buffer of
  30000 bytes; the file header, the script tag and the first two tags have to be in its first
  filling, the other tags are collected in a list, checked against each other by their
  previous tag size. The loop may run for ever, so it has fuel, one unit per iteration; using it up is
  \<open>Diverges\<close>.
\<close>

section \<open>State and operations\<close>

datatype file_parse_status = TAG_HEADER | TAG_DATA

record flv_parser =
  fp_file :: file_state
  fp_header :: flv_header
  fp_manager :: flv_manager
  current_tag :: "flv_tag option"
  last_tag :: "flv_tag option"
  flv_tags :: "flv_tag list"
  fp_status :: file_parse_status
  fp_parsed_length :: nat
  fp_buffer :: buffer

definition BUFFER_SIZE :: nat where
  "BUFFER_SIZE = 30000"

definition FlvManager_of :: "bytes \<Rightarrow> files \<Rightarrow> flv_parser" where
  "FlvManager_of path fs = \<lparr>fp_file = fst (File_of path O_RDONLY fs), fp_header = FlvHeader_new, fp_manager = FlvManager_new,
     current_tag = None, last_tag = None, flv_tags = [], fp_status = TAG_HEADER, fp_parsed_length = 0,
     fp_buffer = Buffer_sized BUFFER_SIZE\<rparr>"

definition SetFilePath :: "bytes \<Rightarrow> files \<Rightarrow> flv_parser \<Rightarrow> bool \<times> flv_parser" where
  "SetFilePath path fs p =
     (let (result, f, _) = File_Open path O_RDONLY (fp_file p) fs in (result, p\<lparr>fp_file := f\<rparr>))"

definition ReadDataFromFile :: "files \<Rightarrow> flv_parser \<Rightarrow> flv_parser result" where
  "ReadDataFromFile fs p =
     ebind (AdjustBuffer (fp_buffer p)) (\<lambda>b.
     let (result, xs, f) = File_Read (WritableLength b) (fp_file p) fs in
     ebind (WriteBegin_put xs b) (\<lambda>b.
     Inr (p\<lparr>fp_buffer := AddWriteIndex (to_size result) b, fp_file := f\<rparr>)))"

text \<open>The decoders look at the bytes of a header only, and only when that many are readable.\<close>

definition File_ParseHeader :: "flv_parser \<Rightarrow> (int \<times> flv_parser) result" where
  "File_ParseHeader p =
     ebind (ReadBegin_at (fp_buffer p) 0 (min (ReadableLength (fp_buffer p)) FLV_HEADER_LENGTH)) (\<lambda>data.
     let (parse_result, h) = DecodeFileHeader data (Some (fp_header p)) in
     if parse_result > 0 then
       Inr (parse_result, p\<lparr>fp_header := the h, fp_buffer := AddReadIndex (nat parse_result) (fp_buffer p)\<rparr>)
     else if parse_result < 0 then Inr (-1, p\<lparr>fp_header := the h\<rparr>)
     else Inr (parse_result, p\<lparr>fp_header := the h\<rparr>))"

definition ParseTagHeader :: "flv_tag \<Rightarrow> flv_parser \<Rightarrow> (int \<times> flv_tag \<times> flv_parser) result" where
  "ParseTagHeader tag p =
     (if ReadableLength (fp_buffer p) < FLV_TAG_HEADER_LENGTH then Inr (0, tag, p)
      else
        ebind (ReadBegin_at (fp_buffer p) 0 FLV_TAG_HEADER_LENGTH) (\<lambda>data.
        ebind (FlvCodec_DecodeTagHander data (Some tag)) (\<lambda>(parse_result, t).
        if parse_result > 0 then
          Inr (parse_result, the t, p\<lparr>fp_buffer := AddReadIndex (nat parse_result) (fp_buffer p), fp_status := TAG_DATA\<rparr>)
        else Inr (-1, the t, p))))"

definition ParseTagData :: "flv_tag \<Rightarrow> flv_parser \<Rightarrow> (int \<times> flv_tag \<times> flv_parser) result" where
  "ParseTagData tag p =
     (let data_size = unat (GetDataSize tag);
          remain_size = size_sub data_size (unat (GetBodyDataLength tag));
          buffer_size = ReadableLength (fp_buffer p);
          n = (if remain_size \<le> buffer_size then remain_size else buffer_size) in
      ebind (ReadBegin_at (fp_buffer p) 0 n) (\<lambda>data.
      ebind (FlvTag_AppendData data tag) (\<lambda>tag.
      let p = p\<lparr>fp_buffer := AddReadIndex n (fp_buffer p)\<rparr> in
      if remain_size \<le> buffer_size then Inr (int data_size, tag, p\<lparr>fp_status := TAG_HEADER\<rparr>)
      else Inr (0, tag, p))))"

text \<open>The header and the data of one tag that has to be in the buffer: \<open>None\<close> for the result \<open>-1\<close>.\<close>

definition ParseWholeTag :: "flv_tag \<Rightarrow> flv_parser \<Rightarrow> (int option \<times> flv_tag \<times> flv_parser) result" where
  "ParseWholeTag tag p =
     ebind (ParseTagHeader tag p) (\<lambda>(n, tag, p).
     if n \<le> 0 then Inr (None, tag, p)
     else
       ebind (ParseTagData tag p) (\<lambda>(k, tag, p).
       if k \<le> 0 then Inr (None, tag, p) else Inr (Some (n + k), tag, p)))"

definition ParseScripTag :: "flv_parser \<Rightarrow> (int \<times> flv_parser) result" where
  "ParseScripTag p =
     ebind (ParseWholeTag (script_tag (fp_manager p)) p) (\<lambda>(r, tag, p).
     Inr (case r of None \<Rightarrow> -1 | Some n \<Rightarrow> n, p\<lparr>fp_manager := (fp_manager p)\<lparr>script_tag := tag\<rparr>\<rparr>))"

definition File_ParseVideoAudio :: "flv_parser \<Rightarrow> (int \<times> flv_parser) result" where
  "File_ParseVideoAudio p =
     ebind (ParseWholeTag (video_audio_tag0 (fp_manager p)) p) (\<lambda>(r, tag, p).
     let p = p\<lparr>fp_manager := (fp_manager p)\<lparr>video_audio_tag0 := tag\<rparr>\<rparr> in
     case r of None \<Rightarrow> Inr (-1, p)
     | Some n \<Rightarrow>
         ebind (ParseWholeTag (video_audio_tag1 (fp_manager p)) p) (\<lambda>(r, tag, p).
         let p = p\<lparr>fp_manager := (fp_manager p)\<lparr>video_audio_tag1 := tag\<rparr>\<rparr> in
         case r of None \<Rightarrow> Inr (-1, p) | Some k \<Rightarrow> Inr (n + k, p)))"

definition CheckTag :: "flv_parser \<Rightarrow> bool" where
  "CheckTag p = (case last_tag p of None \<Rightarrow> True
     | Some l \<Rightarrow> GetCurrentTagSize l = GetPreviousTagSize (the (current_tag p)))"

text \<open>The second half of an iteration: \<open>None\<close> ends the loop.\<close>

definition ParseFile_data :: "files \<Rightarrow> flv_parser \<Rightarrow> (bool \<times> flv_parser) result" where
  "ParseFile_data fs p =
     ebind (ParseTagData (the (current_tag p)) p) (\<lambda>(parsed, tag, p).
     let p = p\<lparr>current_tag := Some tag\<rparr> in
     if parsed = 0 then ebind (ReadDataFromFile fs p) (\<lambda>p. Inr (True, p))
     else
       let p = p\<lparr>last_tag := Some tag, flv_tags := flv_tags p @ [tag], current_tag := Some FlvTag_new,
              fp_parsed_length := size_add (fp_parsed_length p) (to_size (parsed + int FLV_TAG_HEADER_LENGTH))\<rparr> in
       Inr (parsed \<ge> 0, p))"

definition ParseFile_round :: "files \<Rightarrow> flv_parser \<Rightarrow> (bool \<times> flv_parser) result" where
  "ParseFile_round fs p =
     (if fp_status p = TAG_HEADER then
        ebind (ParseTagHeader (the (current_tag p)) p) (\<lambda>(parsed, tag, p).
        let p = p\<lparr>current_tag := Some tag\<rparr> in
        if parsed < 0 then Inr (False, p)
        else if parsed = 0 then ebind (ReadDataFromFile fs p) (\<lambda>p. Inr (True, p))
        else if \<not> CheckTag p then Inr (False, p)
        else if fp_status p = TAG_DATA then ParseFile_data fs p else Inr (True, p))
      else ParseFile_data fs p)"

fun ParseFile_loop :: "nat \<Rightarrow> files \<Rightarrow> nat \<Rightarrow> bool \<Rightarrow> flv_parser \<Rightarrow> flv_parser result" where
  "ParseFile_loop fuel fs parse_length parsing p =
     (if \<not> (parsing \<and> fp_parsed_length p < parse_length) then Inr p
      else case fuel of 0 \<Rightarrow> Inl Diverges
      | Suc fuel \<Rightarrow> ebind (ParseFile_round fs p) (\<lambda>(parsing, p). ParseFile_loop fuel fs parse_length parsing p))"

declare ParseFile_loop.simps [simp del]

text \<open>What comes before the loop; \<open>None\<close> for an early return of \<open>-1\<close>.\<close>

definition ParseFile_head :: "files \<Rightarrow> flv_parser \<Rightarrow> (bool \<times> flv_parser) result" where
  "ParseFile_head fs p =
     ebind (ReadDataFromFile fs p) (\<lambda>p.
     ebind (File_ParseHeader p) (\<lambda>(parsed, p).
     if parsed < 0 then Inr (False, p)
     else let p = p\<lparr>fp_parsed_length := size_add (fp_parsed_length p) (nat parsed)\<rparr> in
       ebind (ParseScripTag p) (\<lambda>(parsed, p).
       if parsed < 0 then Inr (False, p)
       else let p = p\<lparr>fp_parsed_length := size_add (fp_parsed_length p) (nat parsed)\<rparr> in
         ebind (File_ParseVideoAudio p) (\<lambda>(parsed, p).
         if parsed < 0 then Inr (False, p)
         else Inr (True, p\<lparr>fp_parsed_length := size_add (fp_parsed_length p) (nat parsed)\<rparr>)))))"

definition ParseFile :: "nat \<Rightarrow> files \<Rightarrow> nat \<Rightarrow> flv_parser \<Rightarrow> (int \<times> flv_parser) result" where
  "ParseFile fuel fs parse_length p =
     (let (size, f) = GetFileSize (fp_file p) fs;
          parse_length = (if size > parse_length then parse_length else size_sub size 4) in
      ebind (ParseFile_head fs (p\<lparr>fp_file := f\<rparr>)) (\<lambda>(ok, p).
      if \<not> ok then Inr (-1, p)
      else
        ebind (ParseFile_loop fuel fs parse_length True (p\<lparr>current_tag := Some FlvTag_new\<rparr>)) (\<lambda>p.
        Inr (int (fp_parsed_length p), p))))"

section \<open>The bytes still to come\<close>

text \<open>What is in the buffer and, behind it, what is left of the file.\<close>

definition stream :: "files \<Rightarrow> bytes \<Rightarrow> file_state \<Rightarrow> buffer \<Rightarrow> bool" where
  "stream fs xs f b \<longleftrightarrow> buf_ok b \<and> length (buf_data b) = BUFFER_SIZE + 8 \<and>
     (\<exists>u. reading fs u f \<and> xs = readable b @ u)"

lemma streamD:
  assumes "stream fs xs f b"
  shows "buf_ok b" "ReadableLength b \<le> length xs" "readable b = take (ReadableLength b) xs" "ReadableLength b \<le> BUFFER_SIZE"
  using assms length_readable [of b] buf_okD [of b]
  by (auto simp: stream_def ReadableLength_eq simp del: length_readable)

text \<open>The file alone says how much is not in the buffer.\<close>

lemma stream_left:
  assumes "stream fs xs f b" "stream fs ys f c"
  shows "length xs + ReadableLength c = length ys + ReadableLength b"
proof -
  obtain u v where "reading fs u f" "reading fs v f" "xs = readable b @ u" "ys = readable c @ v"
    using assms by (auto simp: stream_def)
  moreover from this have "u = v" by (auto simp: reading_def)
  ultimately show ?thesis using streamD(1) [OF assms(1)] streamD(1) [OF assms(2)] by simp
qed

lemma stream_skip:
  assumes "stream fs xs f b" "n \<le> ReadableLength b"
  shows "stream fs (drop n xs) f (AddReadIndex n b)"
  using assms by (auto simp: stream_def)

lemma ReadDataFromFile_stream:
  assumes "stream fs xs (fp_file p) (fp_buffer p)"
  obtains f b where "ReadDataFromFile fs p = Inr (p\<lparr>fp_buffer := b, fp_file := f\<rparr>)" "stream fs xs f b"
    "readable b = take BUFFER_SIZE xs"
proof -
  let ?b = "fp_buffer p"
  obtain u where u: "buf_ok ?b" "length (buf_data ?b) = BUFFER_SIZE + 8" "reading fs u (fp_file p)" "xs = readable ?b @ u"
    using assms by (auto simp: stream_def)
  obtain n b f where r: "File_Read_buffer (Some ?b) (fp_file p) fs = Inr (n, Some b, f)" "buf_ok b"
      "readable b = readable ?b @ take (socket_room ?b) u" "reading fs (drop (socket_room ?b) u) f"
      "length (buf_data b) = length (buf_data ?b)"
    by (rule File_Read_buffer_reading [OF u(3,1)])
  have "ReadDataFromFile fs p = ebind (File_Read_buffer (Some ?b) (fp_file p) fs)
      (\<lambda>(n, b, f). Inr (p\<lparr>fp_buffer := the b, fp_file := f\<rparr>))"
    by (simp add: ReadDataFromFile_def File_Read_buffer_def ebind_assoc case_prod_unfold Let_def)
  then have "ReadDataFromFile fs p = Inr (p\<lparr>fp_buffer := b, fp_file := f\<rparr>)" by (simp add: r(1))
  moreover have "readable b = take BUFFER_SIZE xs"
    using r(3) u streamD(4) [OF assms] by (simp add: socket_room_def)
  moreover have "stream fs xs f b" using r u by (auto simp: stream_def)
  ultimately show ?thesis by (intro that)
qed

section \<open>One tag\<close>

text \<open>A tag of which the header and the first \<open>k\<close> bytes of the data have been read.\<close>

definition partial :: "flv_item \<Rightarrow> nat \<Rightarrow> flv_tag \<Rightarrow> bool" where
  "partial it k t \<longleftrightarrow> tag_header t = take 15 (item_bytes it) \<and> buf_ok (tag_body t) \<and>
     readable (tag_body t) = take k (it_data it)"

lemma item_bytes_split:
  assumes "item_ok it"
  shows "length (take 15 (item_bytes it)) = 15" "drop 15 (item_bytes it) = it_data it"
    "length (item_bytes it) = 15 + length (it_data it)"
  using assms by (simp_all add: item_bytes_def item_ok_def Let_def)

lemma partial_size:
  assumes "item_ok it" "partial it k t"
  shows "unat (GetDataSize t) = length (it_data it)"
proof -
  let ?n = "to_u32 (length (it_data it))"
  have "length (it_data it) < 2 ^ 24" using assms(1) by (simp add: item_ok_def)
  from be24_to_u32 [OF this] show ?thesis
    using assms by (simp add: partial_def GetDataSize_def flv_offsets item_bytes_def Let_def)
qed

lemma partial_complete:
  assumes "item_ok it" "partial it (length (it_data it)) t"
  shows "tag_complete t" "tag_item t = it"
proof -
  have h: "tag_header t = take 15 (item_bytes it)" "buf_ok (tag_body t)" "readable (tag_body t) = it_data it"
    using assms(2) by (simp_all add: partial_def)
  have "ReadableLength (tag_body t) = unat (GetDataSize t)"
    using length_readable [OF h(2)] h(3) partial_size [OF assms] by simp
  then show c: "tag_complete t" using h item_bytes_split [OF assms(1)] by (simp add: tag_complete_def hdr_ok_def)
  have "tag_bytes t = item_bytes it"
    using h item_bytes_split(2) [OF assms(1)] append_take_drop_id [of 15 "item_bytes it"] by (simp add: tag_bytes_def)
  then have "item_bytes (tag_item t) = item_bytes it" using tag_item_ok(2) [OF c] by simp
  with tag_item_ok(1) [OF c] assms(1) show "tag_item t = it" by (rule flv.enc_inj)
qed

lemma ParseTagHeader_stream:
  assumes "stream fs (item_bytes it @ rest) (fp_file p) (fp_buffer p)" "15 \<le> ReadableLength (fp_buffer p)" "item_ok it"
    and "buf_ok (tag_body t)" "readable (tag_body t) = []"
  obtains t' b where "ParseTagHeader t p = Inr (15, t', p\<lparr>fp_buffer := b, fp_status := TAG_DATA\<rparr>)"
    "partial it 0 t'" "stream fs (it_data it @ rest) (fp_file p) b" "ReadableLength b = ReadableLength (fp_buffer p) - 15"
proof -
  let ?b = "fp_buffer p"
  let ?t = "t\<lparr>tag_header := take 15 (item_bytes it)\<rparr>"
  note s = streamD [OF assms(1)] item_bytes_split [OF assms(3)]
  have "ReadBegin_at ?b 0 15 = Inr (take 15 (readable ?b))" by (rule readable_prefix [OF s(1) assms(2)])
  moreover have "take 15 (readable ?b) = take 15 (item_bytes it)"
    using s(7) assms(2) by (subst s(3)) (simp add: min_def)
  ultimately have "ParseTagHeader t p = Inr (15, ?t, p\<lparr>fp_buffer := AddReadIndex 15 ?b, fp_status := TAG_DATA\<rparr>)"
    using assms(2) s(5) by (simp add: ParseTagHeader_def FLV_TAG_HEADER_LENGTH_def FlvCodec_DecodeTagHander_def
        FlvTag_DecodeTagHander_def)
  moreover have "stream fs (it_data it @ rest) (fp_file p) (AddReadIndex 15 ?b)"
    using stream_skip [OF assms(1,2)] s(6,7) by simp
  ultimately show ?thesis
    using s(1) assms(4,5) by (intro that [of ?t "AddReadIndex 15 ?b"]) (simp_all add: partial_def)
qed

lemma FlvTag_AppendData_partial:
  assumes "item_ok it" "partial it k t" "k + length xs \<le> length (it_data it)" "xs = take (length xs) (drop k (it_data it))"
  obtains t' where "FlvTag_AppendData xs t = Inr t'" "partial it (k + length xs) t'"
proof -
  have "length (it_data it) < 2 ^ 24" using assms(1) by (simp add: item_ok_def)
  moreover have "length (readable (tag_body t)) \<le> length (it_data it)" using assms(2) by (simp add: partial_def del: length_readable)
  ultimately have "fits (length xs) (tag_body t)" using assms(3) by (simp add: fits_def max_size_def del: length_readable)
  moreover have ok: "buf_ok (tag_body t)" using assms(2) by (simp add: partial_def)
  ultimately obtain b where b: "AppendData xs (tag_body t) = Inr b" "buf_ok b" "readable b = readable (tag_body t) @ xs"
    using holdsE [OF AppendData_ok] by metis
  have "readable b = take (k + length xs) (it_data it)"
    using b(3) assms(2,4) by (metis partial_def take_add)
  with b assms(2) show ?thesis by (intro that [of "t\<lparr>tag_body := b\<rparr>"]) (simp_all add: FlvTag_AppendData_def partial_def)
qed

section \<open>The loop\<close>

text \<open>One or more iterations lead from a state to another.\<close>

definition runs_to :: "files \<Rightarrow> nat \<Rightarrow> flv_parser \<Rightarrow> flv_parser \<Rightarrow> bool" where
  "runs_to fs len p p' \<longleftrightarrow>
     (\<exists>j. \<forall>fuel. ParseFile_loop (Suc j + fuel) fs len True p = ParseFile_loop fuel fs len True p')"

lemma runs_to_trans:
  assumes "runs_to fs len p q" "runs_to fs len q r"
  shows "runs_to fs len p r"
proof -
  obtain i j where "\<forall>fuel. ParseFile_loop (Suc i + fuel) fs len True p = ParseFile_loop fuel fs len True q"
    "\<forall>fuel. ParseFile_loop (Suc j + fuel) fs len True q = ParseFile_loop fuel fs len True r"
    using assms by (auto simp: runs_to_def)
  then have "ParseFile_loop (Suc i + (Suc j + fuel)) fs len True p = ParseFile_loop fuel fs len True r" for fuel
    by (simp only:)
  moreover have "Suc (i + Suc j) + fuel = Suc i + (Suc j + fuel)" for fuel by simp
  ultimately have "ParseFile_loop (Suc (i + Suc j) + fuel) fs len True p = ParseFile_loop fuel fs len True r" for fuel
    by (simp only:)
  then show ?thesis unfolding runs_to_def by blast
qed

lemma ParseFile_loop_Suc:
  "fp_parsed_length p < len \<Longrightarrow> ParseFile_loop (Suc fuel) fs len True p =
     ebind (ParseFile_round fs p) (\<lambda>(parsing, p). ParseFile_loop fuel fs len parsing p)"
  by (subst ParseFile_loop.simps) simp

lemma runs_to_round:
  "fp_parsed_length p < len \<Longrightarrow> ParseFile_round fs p = Inr (True, p') \<Longrightarrow> runs_to fs len p p'"
  unfolding runs_to_def by (intro exI [of _ 0]) (simp add: ParseFile_loop_Suc)

lemma runs_to_same:
  assumes "ParseFile_round fs p = ParseFile_round fs q" "fp_parsed_length p < len" "fp_parsed_length q < len" "runs_to fs len q r"
  shows "runs_to fs len p r"
  using assms by (simp add: runs_to_def ParseFile_loop_Suc)

lemma runs_to_stop:
  assumes "runs_to fs len p q" "fp_parsed_length q < len" "ParseFile_round fs q = Inr (False, r)"
  shows "\<exists>k. \<forall>fuel \<ge> k. ParseFile_loop fuel fs len True p = Inr r"
proof -
  obtain i where "ParseFile_loop (Suc i + fuel) fs len True p = ParseFile_loop fuel fs len True q" for fuel
    using assms(1) by (auto simp: runs_to_def)
  then obtain j where j: "ParseFile_loop (j + fuel) fs len True p = ParseFile_loop fuel fs len True q" for fuel by blast
  have "ParseFile_loop fuel fs len True p = Inr r" if le: "Suc j \<le> fuel" for fuel
  proof -
    obtain i where "fuel = Suc j + i" using le_Suc_ex [OF le] by blast
    then have i: "fuel = j + Suc i" by simp
    have "ParseFile_loop i fs len False r = Inr r" by (subst ParseFile_loop.simps) simp
    then show ?thesis by (simp only: i j ParseFile_loop_Suc [OF assms(2)] assms(3) ebind_simps prod.case)
  qed
  then show ?thesis by blast
qed

lemma runs_to_end:
  assumes "runs_to fs len p q" "len \<le> fp_parsed_length q"
  shows "\<exists>k. \<forall>fuel \<ge> k. ParseFile_loop fuel fs len True p = Inr q"
proof -
  obtain i where "ParseFile_loop (Suc i + fuel) fs len True p = ParseFile_loop fuel fs len True q" for fuel
    using assms(1) by (auto simp: runs_to_def)
  then obtain j where j: "ParseFile_loop (j + fuel) fs len True p = ParseFile_loop fuel fs len True q" for fuel by blast
  have "ParseFile_loop i fs len True q = Inr q" for i by (subst ParseFile_loop.simps) (use assms(2) in simp)
  with j have "ParseFile_loop fuel fs len True p = Inr q" if "j \<le> fuel" for fuel
    using that le_iff_add [of j fuel] by auto
  then show ?thesis by blast
qed

text \<open>A tag whose data is read in pieces: the last piece, and one that empties the buffer.\<close>

definition in_data :: "files \<Rightarrow> flv_item \<Rightarrow> nat \<Rightarrow> bytes \<Rightarrow> flv_parser \<Rightarrow> bool" where
  "in_data fs it k rest p \<longleftrightarrow> fp_status p = TAG_DATA \<and> (\<exists>t. current_tag p = Some t \<and> partial it k t) \<and>
     k \<le> length (it_data it) \<and> stream fs (drop k (it_data it) @ rest) (fp_file p) (fp_buffer p)"

definition collected :: "files \<Rightarrow> flv_item \<Rightarrow> bytes \<Rightarrow> flv_parser \<Rightarrow> flv_parser \<Rightarrow> bool" where
  "collected fs it rest p p' \<longleftrightarrow> (\<exists>t f b. p' = p\<lparr>fp_file := f, fp_buffer := b, fp_status := TAG_HEADER,
       current_tag := Some FlvTag_new, last_tag := Some t, flv_tags := flv_tags p @ [t],
       fp_parsed_length := fp_parsed_length p + 15 + length (it_data it)\<rparr> \<and>
     tag_complete t \<and> tag_item t = it \<and> stream fs rest f b)"

lemma ParseTagData_piece:
  assumes "item_ok it" "partial it k t" "k \<le> length (it_data it)"
    and "stream fs (drop k (it_data it) @ rest) (fp_file p) (fp_buffer p)"
    and "n = min (length (it_data it) - k) (ReadableLength (fp_buffer p))"
  obtains t' b where "partial it (k + n) t'" "stream fs (drop (k + n) (it_data it) @ rest) (fp_file p) b"
    "ParseTagData t p = Inr (if length (it_data it) - k \<le> ReadableLength (fp_buffer p)
       then (int (length (it_data it)), t', p\<lparr>fp_buffer := b, fp_status := TAG_HEADER\<rparr>)
       else (0, t', p\<lparr>fp_buffer := b\<rparr>))"
proof -
  let ?b = "fp_buffer p" and ?len = "length (it_data it)"
  note s = streamD [OF assms(4)]
  have small: "?len < 2 ^ 24" using assms(1) by (simp add: item_ok_def)
  have body: "ReadableLength (tag_body t) = k"
    using assms(2,3) length_readable [of "tag_body t"] by (simp add: partial_def)
  then have remain: "size_sub ?len (unat (GetBodyDataLength t)) = ?len - k"
    using small assms(3) by (simp add: GetBodyDataLength_def size_sub_eq size_mod_def)
  have n: "n \<le> ReadableLength ?b" "n \<le> ?len - k" using assms(5) by simp_all
  have xs: "take n (readable ?b) = take n (drop k (it_data it))"
    using n by (subst s(3)) (simp add: min_def)
  have "k + length (take n (readable ?b)) \<le> ?len" "length (take n (readable ?b)) = n"
    using n assms(3) by (simp_all add: xs)
  then obtain t' where t': "FlvTag_AppendData (take n (readable ?b)) t = Inr t'" "partial it (k + n) t'"
    using FlvTag_AppendData_partial [OF assms(1,2), of "take n (readable ?b)"] xs by metis
  have "stream fs (drop n (drop k (it_data it) @ rest)) (fp_file p) (AddReadIndex n ?b)"
    by (rule stream_skip [OF assms(4) n(1)])
  then have st: "stream fs (drop (k + n) (it_data it) @ rest) (fp_file p) (AddReadIndex n ?b)"
    using n(2) by (simp add: add.commute)
  have "(if ?len - k \<le> ReadableLength ?b then ?len - k else ReadableLength ?b) = n"
    using assms(5) by (simp add: min_def)
  then have "ParseTagData t p = Inr (if ?len - k \<le> ReadableLength ?b
       then (int ?len, t', p\<lparr>fp_buffer := AddReadIndex n ?b, fp_status := TAG_HEADER\<rparr>)
       else (0, t', p\<lparr>fp_buffer := AddReadIndex n ?b\<rparr>))"
    using t'(1) readable_prefix [OF s(1) n(1)]
    by (cases "?len - k \<le> ReadableLength ?b") (auto simp: ParseTagData_def Let_def remain partial_size [OF assms(1,2)])
  with t'(2) st show ?thesis by (rule that)
qed

text \<open>A round of the second half of the loop, on a tag that is not empty.\<close>

lemma round_last_piece:
  assumes "in_data fs it k rest p" "item_ok it" "it_data it \<noteq> []" "length (it_data it) - k \<le> ReadableLength (fp_buffer p)"
    and "fp_parsed_length p < 2 ^ 62"
  shows "\<exists>p'. ParseFile_data fs p = Inr (True, p') \<and> collected fs it rest p p'"
proof -
  let ?n = "length (it_data it) - k"
  obtain t where t: "current_tag p = Some t" "partial it k t" and k: "k \<le> length (it_data it)"
    and st: "stream fs (drop k (it_data it) @ rest) (fp_file p) (fp_buffer p)"
    using assms(1) by (auto simp: in_data_def)
  have "?n = min (length (it_data it) - k) (ReadableLength (fp_buffer p))" using assms(4) by simp
  then obtain t' b where d: "partial it (k + ?n) t'" "stream fs (drop (k + ?n) (it_data it) @ rest) (fp_file p) b"
    and run: "ParseTagData t p = Inr (if length (it_data it) - k \<le> ReadableLength (fp_buffer p)
       then (int (length (it_data it)), t', p\<lparr>fp_buffer := b, fp_status := TAG_HEADER\<rparr>)
       else (0, t', p\<lparr>fp_buffer := b\<rparr>))"
    by (rule ParseTagData_piece [OF assms(2) t(2) k st])
  have run: "ParseTagData t p = Inr (int (length (it_data it)), t', p\<lparr>fp_buffer := b, fp_status := TAG_HEADER\<rparr>)"
    using run assms(4) by simp
  have c: "tag_complete t'" "tag_item t' = it" using partial_complete [OF assms(2), of t'] d(1) k by simp_all
  have small: "length (it_data it) < 2 ^ 24" using assms(2) by (simp add: item_ok_def)
  have "to_size (int (length (it_data it)) + 15) = length (it_data it) + 15"
    using small by (simp add: to_size_def nat_add_distrib)
  then have "size_add (fp_parsed_length p) (to_size (int (length (it_data it)) + 15)) = fp_parsed_length p + 15 + length (it_data it)"
    using small assms(5) by (simp add: size_add_eq size_mod_def)
  moreover have "int (length (it_data it)) \<noteq> 0" using assms(3) by simp
  ultimately have "ParseFile_data fs p = Inr (True, p\<lparr>fp_buffer := b, fp_status := TAG_HEADER, current_tag := Some FlvTag_new,
      last_tag := Some t', flv_tags := flv_tags p @ [t'], fp_parsed_length := fp_parsed_length p + 15 + length (it_data it)\<rparr>)"
    using run t(1) by (simp add: ParseFile_data_def Let_def FLV_TAG_HEADER_LENGTH_def)
  moreover have "stream fs rest (fp_file p) b" using d(2) k by simp
  ultimately show ?thesis using c unfolding collected_def
    by (intro exI [of _ "p\<lparr>fp_buffer := b, fp_status := TAG_HEADER, current_tag := Some FlvTag_new,
      last_tag := Some t', flv_tags := flv_tags p @ [t'], fp_parsed_length := fp_parsed_length p + 15 + length (it_data it)\<rparr>"]
      conjI exI [of _ t'] exI [of _ "fp_file p"] exI [of _ b]) simp_all
qed

lemma round_piece:
  assumes "in_data fs it k rest p" "item_ok it" "ReadableLength (fp_buffer p) < length (it_data it) - k"
  shows "\<exists>f b t. ParseFile_data fs p = Inr (True, p\<lparr>current_tag := Some t, fp_buffer := b, fp_file := f\<rparr>) \<and>
    in_data fs it (k + ReadableLength (fp_buffer p)) rest (p\<lparr>current_tag := Some t, fp_buffer := b, fp_file := f\<rparr>) \<and>
    0 < ReadableLength b"
proof -
  let ?n = "ReadableLength (fp_buffer p)"
  obtain t where t: "current_tag p = Some t" "partial it k t" and k: "k \<le> length (it_data it)"
    and st: "stream fs (drop k (it_data it) @ rest) (fp_file p) (fp_buffer p)"
    using assms(1) by (auto simp: in_data_def)
  have "?n = min (length (it_data it) - k) (ReadableLength (fp_buffer p))" using assms(3) by simp
  then obtain t' b where d: "partial it (k + ?n) t'" "stream fs (drop (k + ?n) (it_data it) @ rest) (fp_file p) b"
    and run: "ParseTagData t p = Inr (if length (it_data it) - k \<le> ReadableLength (fp_buffer p)
       then (int (length (it_data it)), t', p\<lparr>fp_buffer := b, fp_status := TAG_HEADER\<rparr>)
       else (0, t', p\<lparr>fp_buffer := b\<rparr>))"
    by (rule ParseTagData_piece [OF assms(2) t(2) k st])
  have run: "ParseTagData t p = Inr (0, t', p\<lparr>fp_buffer := b\<rparr>)" using run assms(3) by simp
  let ?p = "p\<lparr>fp_buffer := b, current_tag := Some t'\<rparr>"
  have "stream fs (drop (k + ?n) (it_data it) @ rest) (fp_file ?p) (fp_buffer ?p)" using d(2) by simp
  then obtain f c where r: "ReadDataFromFile fs ?p = Inr (?p\<lparr>fp_buffer := c, fp_file := f\<rparr>)"
    "stream fs (drop (k + ?n) (it_data it) @ rest) f c"
    "readable c = take BUFFER_SIZE (drop (k + ?n) (it_data it) @ rest)"
    by (rule ReadDataFromFile_stream)
  have "k + ?n < length (it_data it)" using assms(3) by linarith
  then have "0 < length (readable c)" by (simp add: r(3) BUFFER_SIZE_def del: length_readable)
  then have "0 < ReadableLength c" using streamD(1) [OF r(2)] by simp
  moreover have "ParseFile_data fs p = Inr (True, p\<lparr>current_tag := Some t', fp_buffer := c, fp_file := f\<rparr>)"
    using r(1) run t(1) by (simp add: ParseFile_data_def)
  ultimately show ?thesis using assms(1,3) r(2) d(1) k
    by (intro exI [of _ f] exI [of _ c] exI [of _ t']) (simp add: in_data_def)
qed

lemma collected_pieces:
  "collected fs it rest (p\<lparr>current_tag := t, fp_buffer := b, fp_file := f\<rparr>) p' = collected fs it rest p p'"
  by (simp add: collected_def)

lemma round_data: "in_data fs it k rest p \<Longrightarrow> ParseFile_round fs p = ParseFile_data fs p"
  by (simp add: ParseFile_round_def in_data_def)

lemma runs_data:
  assumes "in_data fs it k rest p" "item_ok it" "it_data it \<noteq> []" "fp_parsed_length p < len" "fp_parsed_length p < 2 ^ 62"
  shows "\<exists>p'. runs_to fs len p p' \<and> collected fs it rest p p'"
proof -
  have go: "0 < ReadableLength (fp_buffer p) \<Longrightarrow> in_data fs it k rest p \<Longrightarrow> fp_parsed_length p < len \<Longrightarrow>
      fp_parsed_length p < 2 ^ 62 \<Longrightarrow> \<exists>p'. runs_to fs len p p' \<and> collected fs it rest p p'" for p k
  proof (induction "length (it_data it) - k" arbitrary: p k rule: less_induct)
    case less
    show ?case
    proof (cases "length (it_data it) - k \<le> ReadableLength (fp_buffer p)")
      case True
      from round_last_piece [OF less.prems(2) assms(2,3) True less.prems(4)] show ?thesis
        using runs_to_round [OF less.prems(3)] round_data [OF less.prems(2)] by metis
    next
      case False
      then obtain f b t where r: "ParseFile_data fs p = Inr (True, p\<lparr>current_tag := Some t, fp_buffer := b, fp_file := f\<rparr>)"
        "in_data fs it (k + ReadableLength (fp_buffer p)) rest (p\<lparr>current_tag := Some t, fp_buffer := b, fp_file := f\<rparr>)"
        "0 < ReadableLength b"
        using round_piece [OF less.prems(2) assms(2)] by (metis not_le)
      let ?q = "p\<lparr>current_tag := Some t, fp_buffer := b, fp_file := f\<rparr>"
      have "length (it_data it) - (k + ReadableLength (fp_buffer p)) < length (it_data it) - k"
        using less.prems(1) False by simp
      from less.hyps [OF this _ r(2)] r(3) less.prems(3,4) obtain p' where "runs_to fs len ?q p'" "collected fs it rest ?q p'"
        by auto
      moreover have "runs_to fs len p ?q"
        using runs_to_round [OF less.prems(3)] round_data [OF less.prems(2)] r(1) by simp
      ultimately show ?thesis using runs_to_trans collected_pieces by metis
    qed
  qed
  show ?thesis
  proof (cases "ReadableLength (fp_buffer p) = 0")
    case False
    then show ?thesis using go assms by simp
  next
    case True
    show ?thesis
    proof (cases "length (it_data it) - k \<le> ReadableLength (fp_buffer p)")
      case True
      from round_last_piece [OF assms(1-3) True assms(5)] show ?thesis
        using runs_to_round [OF assms(4)] round_data [OF assms(1)] by metis
    next
      case False
      then obtain f b t where r: "ParseFile_data fs p = Inr (True, p\<lparr>current_tag := Some t, fp_buffer := b, fp_file := f\<rparr>)"
        "in_data fs it (k + ReadableLength (fp_buffer p)) rest (p\<lparr>current_tag := Some t, fp_buffer := b, fp_file := f\<rparr>)"
        "0 < ReadableLength b"
        using round_piece [OF assms(1,2)] by (metis not_le)
      let ?q = "p\<lparr>current_tag := Some t, fp_buffer := b, fp_file := f\<rparr>"
      from go [OF _ r(2)] r(3) assms(4,5) obtain p' where "runs_to fs len ?q p'" "collected fs it rest ?q p'" by auto
      moreover have "runs_to fs len p ?q"
        using runs_to_round [OF assms(4)] round_data [OF assms(1)] r(1) by simp
      ultimately show ?thesis using runs_to_trans collected_pieces by metis
    qed
  qed
qed

text \<open>At the border of two tags.\<close>

definition at_tag :: "files \<Rightarrow> bytes \<Rightarrow> flv_parser \<Rightarrow> bool" where
  "at_tag fs xs p \<longleftrightarrow> fp_status p = TAG_HEADER \<and> current_tag p = Some FlvTag_new \<and> stream fs xs (fp_file p) (fp_buffer p)"

lemma round_refill:
  assumes "at_tag fs xs p" "ReadableLength (fp_buffer p) < 15"
  obtains f b where "ParseFile_round fs p = Inr (True, p\<lparr>fp_buffer := b, fp_file := f\<rparr>)"
    "at_tag fs xs (p\<lparr>fp_buffer := b, fp_file := f\<rparr>)" "readable b = take BUFFER_SIZE xs"
proof -
  have st: "stream fs xs (fp_file p) (fp_buffer p)" and cur: "p\<lparr>current_tag := Some FlvTag_new\<rparr> = p"
    and p: "fp_status p = TAG_HEADER" "current_tag p = Some FlvTag_new"
    using assms(1) by (simp_all add: at_tag_def)
  obtain f b where r: "ReadDataFromFile fs p = Inr (p\<lparr>fp_buffer := b, fp_file := f\<rparr>)" "stream fs xs f b"
    "readable b = take BUFFER_SIZE xs"
    by (rule ReadDataFromFile_stream [OF st])
  have "ReadDataFromFile fs (p\<lparr>current_tag := Some FlvTag_new\<rparr>) = Inr (p\<lparr>fp_buffer := b, fp_file := f\<rparr>)"
    by (simp only: cur r(1))
  then have "ParseFile_round fs p = Inr (True, p\<lparr>fp_buffer := b, fp_file := f\<rparr>)"
    using assms(2) p by (simp add: ParseFile_round_def ParseTagHeader_def FLV_TAG_HEADER_LENGTH_def)
  moreover have "at_tag fs xs (p\<lparr>fp_buffer := b, fp_file := f\<rparr>)" using p r(2) by (simp add: at_tag_def)
  ultimately show ?thesis using r(3) by (rule that)
qed

lemma round_header:
  assumes "at_tag fs (item_bytes it @ rest) p" "15 \<le> ReadableLength (fp_buffer p)" "item_ok it"
  obtains t b where "in_data fs it 0 rest (p\<lparr>fp_buffer := b, fp_status := TAG_DATA, current_tag := Some t\<rparr>)"
    "tag_header t = take 15 (item_bytes it)"
    "ParseFile_round fs p =
      (if CheckTag (p\<lparr>fp_buffer := b, fp_status := TAG_DATA, current_tag := Some t\<rparr>)
       then ParseFile_data fs (p\<lparr>fp_buffer := b, fp_status := TAG_DATA, current_tag := Some t\<rparr>)
       else Inr (False, p\<lparr>fp_buffer := b, fp_status := TAG_DATA, current_tag := Some t\<rparr>))"
proof -
  have st: "stream fs (item_bytes it @ rest) (fp_file p) (fp_buffer p)"
    and p: "fp_status p = TAG_HEADER" "current_tag p = Some FlvTag_new"
    using assms(1) by (simp_all add: at_tag_def)
  have new: "buf_ok (tag_body FlvTag_new)" "readable (tag_body FlvTag_new) = []" by (simp_all add: FlvTag_new_def)
  obtain t b where r: "ParseTagHeader FlvTag_new p = Inr (15, t, p\<lparr>fp_buffer := b, fp_status := TAG_DATA\<rparr>)"
    "partial it 0 t" "stream fs (it_data it @ rest) (fp_file p) b"
    by (rule ParseTagHeader_stream [OF st assms(2,3) new])
  show ?thesis
  proof (rule that)
    show "in_data fs it 0 rest (p\<lparr>fp_buffer := b, fp_status := TAG_DATA, current_tag := Some t\<rparr>)"
      using r by (simp add: in_data_def)
    show "tag_header t = take 15 (item_bytes it)" using r(2) by (simp add: partial_def)
    show "ParseFile_round fs p =
      (if CheckTag (p\<lparr>fp_buffer := b, fp_status := TAG_DATA, current_tag := Some t\<rparr>)
       then ParseFile_data fs (p\<lparr>fp_buffer := b, fp_status := TAG_DATA, current_tag := Some t\<rparr>)
       else Inr (False, p\<lparr>fp_buffer := b, fp_status := TAG_DATA, current_tag := Some t\<rparr>))"
      using p r(1) by (simp add: ParseFile_round_def Let_def)
  qed
qed

lemma refilled_enough:
  assumes "at_tag fs (item_bytes it @ rest) p" "item_ok it" "readable (fp_buffer p) = take BUFFER_SIZE (item_bytes it @ rest)"
  shows "15 \<le> ReadableLength (fp_buffer p)"
proof -
  have "length (readable (fp_buffer p)) = ReadableLength (fp_buffer p)"
    using assms(1) streamD(1) by (auto simp: at_tag_def intro!: length_readable)
  then show ?thesis using item_bytes_split(3) [OF assms(2)] by (simp add: assms(3) BUFFER_SIZE_def del: length_readable)
qed

text \<open>Without a tag to compare with, the next one is collected.\<close>

lemma runs_first_tag:
  assumes "at_tag fs (item_bytes it @ rest) p" "item_ok it" "it_data it \<noteq> []" "last_tag p = None"
    and "fp_parsed_length p < len" "fp_parsed_length p < 2 ^ 62"
  shows "\<exists>p'. runs_to fs len p p' \<and> collected fs it rest p p'"
proof -
  have go: "\<exists>p'. runs_to fs len p p' \<and> collected fs it rest p p'"
    if at: "at_tag fs (item_bytes it @ rest) p" and len: "15 \<le> ReadableLength (fp_buffer p)"
      and none: "last_tag p = None" and lt: "fp_parsed_length p < len" "fp_parsed_length p < 2 ^ 62" for p
  proof -
    obtain t b where r: "in_data fs it 0 rest (p\<lparr>fp_buffer := b, fp_status := TAG_DATA, current_tag := Some t\<rparr>)"
      and round: "ParseFile_round fs p =
      (if CheckTag (p\<lparr>fp_buffer := b, fp_status := TAG_DATA, current_tag := Some t\<rparr>)
       then ParseFile_data fs (p\<lparr>fp_buffer := b, fp_status := TAG_DATA, current_tag := Some t\<rparr>)
       else Inr (False, p\<lparr>fp_buffer := b, fp_status := TAG_DATA, current_tag := Some t\<rparr>))"
      by (rule round_header [OF at len assms(2)])
    let ?q = "p\<lparr>fp_buffer := b, fp_status := TAG_DATA, current_tag := Some t\<rparr>"
    have lt': "fp_parsed_length ?q < len" "fp_parsed_length ?q < 2 ^ 62" using lt by simp_all
    have same: "ParseFile_round fs p = ParseFile_round fs ?q"
      using round round_data [OF r] none by (simp add: CheckTag_def)
    obtain p' where p': "runs_to fs len ?q p'" "collected fs it rest ?q p'"
      using runs_data [OF r assms(2,3) lt'] by blast
    have "collected fs it rest p p'" using p'(2) by (simp add: collected_def)
    with runs_to_same [OF same lt(1) lt'(1) p'(1)] show ?thesis by blast
  qed
  show ?thesis
  proof (cases "15 \<le> ReadableLength (fp_buffer p)")
    case True
    with go assms show ?thesis by blast
  next
    case False
    then have "ReadableLength (fp_buffer p) < 15" by simp
    then obtain f b where r: "ParseFile_round fs p = Inr (True, p\<lparr>fp_buffer := b, fp_file := f\<rparr>)"
      "at_tag fs (item_bytes it @ rest) (p\<lparr>fp_buffer := b, fp_file := f\<rparr>)" "readable b = take BUFFER_SIZE (item_bytes it @ rest)"
      by (rule round_refill [OF assms(1)])
    let ?q = "p\<lparr>fp_buffer := b, fp_file := f\<rparr>"
    have "15 \<le> ReadableLength (fp_buffer ?q)" by (rule refilled_enough [OF r(2) assms(2)]) (simp add: r(3))
    then obtain p' where p': "runs_to fs len ?q p'" "collected fs it rest ?q p'"
      using go [OF r(2)] assms(4-6) by auto
    have "collected fs it rest p p'" using p'(2) by (simp add: collected_def)
    with runs_to_trans [OF runs_to_round [OF assms(5) r(1)] p'(1)] show ?thesis by blast
  qed
qed

text \<open>The check of a tag against the one before it fails, because of how the size is read.\<close>

lemma check_fails:
  assumes "tag_header t = take 15 (item_bytes it)" "item_ok it" "GetCurrentTagSize l = it_prev it"
    and "unat (it_prev it) < 2 ^ 24"
  shows "GetCurrentTagSize l \<noteq> GetPreviousTagSize t"
proof -
  have h: "hdr_ok t" using assms(1) item_bytes_split(1) [OF assms(2)] by (simp add: hdr_ok_def)
  have "SetPreviousTagSize (it_prev it) t = t"
    using assms(1) by (cases t) (simp add: SetPreviousTagSize_def PREVIOUS_TAG_SIZE_SUB_def overwrite_def item_bytes_def Let_def)
  moreover have "0 < unat (it_prev it)" using unat_GetCurrentTagSize [of l] by (simp add: assms(3))
  ultimately show ?thesis using GetPreviousTagSize_differs [OF h, of "it_prev it"] assms(3,4) by simp
qed

lemma stops_at_next_tag:
  assumes "runs_to fs len p0 p" "at_tag fs (item_bytes it @ rest) p" "item_ok it" "last_tag p = Some l"
    and "GetCurrentTagSize l = it_prev it" "unat (it_prev it) < 2 ^ 24" "fp_parsed_length p < len"
  shows "\<exists>k r. (\<forall>fuel \<ge> k. ParseFile_loop fuel fs len True p0 = Inr r) \<and> flv_tags r = flv_tags p \<and>
    fp_parsed_length r = fp_parsed_length p \<and> fp_manager r = fp_manager p"
proof -
  have go: "\<exists>k r. (\<forall>fuel \<ge> k. ParseFile_loop fuel fs len True p0 = Inr r) \<and> flv_tags r = flv_tags p \<and>
      fp_parsed_length r = fp_parsed_length p \<and> fp_manager r = fp_manager p"
    if run: "runs_to fs len p0 p" and at: "at_tag fs (item_bytes it @ rest) p" and len: "15 \<le> ReadableLength (fp_buffer p)"
      and last: "last_tag p = Some l" and lt: "fp_parsed_length p < len" for p
  proof -
    obtain t b where h: "tag_header t = take 15 (item_bytes it)" and round: "ParseFile_round fs p =
      (if CheckTag (p\<lparr>fp_buffer := b, fp_status := TAG_DATA, current_tag := Some t\<rparr>)
       then ParseFile_data fs (p\<lparr>fp_buffer := b, fp_status := TAG_DATA, current_tag := Some t\<rparr>)
       else Inr (False, p\<lparr>fp_buffer := b, fp_status := TAG_DATA, current_tag := Some t\<rparr>))"
      by (rule round_header [OF at len assms(3)])
    let ?r = "p\<lparr>fp_buffer := b, fp_status := TAG_DATA, current_tag := Some t\<rparr>"
    have "\<not> CheckTag ?r" using check_fails [OF h assms(3,5,6)] last by (simp add: CheckTag_def)
    then have "ParseFile_round fs p = Inr (False, ?r)" using round by simp
    from runs_to_stop [OF run lt this] obtain k where "\<forall>fuel \<ge> k. ParseFile_loop fuel fs len True p0 = Inr ?r" by blast
    then show ?thesis by (intro exI [of _ k] exI [of _ ?r]) simp
  qed
  show ?thesis
  proof (cases "15 \<le> ReadableLength (fp_buffer p)")
    case True
    with go assms show ?thesis by blast
  next
    case False
    then have "ReadableLength (fp_buffer p) < 15" by simp
    then obtain f b where r: "ParseFile_round fs p = Inr (True, p\<lparr>fp_buffer := b, fp_file := f\<rparr>)"
      "at_tag fs (item_bytes it @ rest) (p\<lparr>fp_buffer := b, fp_file := f\<rparr>)" "readable b = take BUFFER_SIZE (item_bytes it @ rest)"
      by (rule round_refill [OF assms(2)])
    let ?q = "p\<lparr>fp_buffer := b, fp_file := f\<rparr>"
    have "15 \<le> ReadableLength (fp_buffer ?q)" by (rule refilled_enough [OF r(2) assms(3)]) (simp add: r(3))
    from go [OF runs_to_trans [OF assms(1) runs_to_round [OF assms(7) r(1)]] r(2) this] assms(4,7) show ?thesis by simp
  qed
qed

text \<open>Fewer bytes than a header: the loop waits for more, which never come.\<close>

lemma waits_for_ever:
  "at_tag fs xs p \<Longrightarrow> length xs < 15 \<Longrightarrow> fp_parsed_length p < len \<Longrightarrow> ParseFile_loop fuel fs len True p = Inl Diverges"
proof (induction fuel arbitrary: p)
  case 0
  then show ?case by (subst ParseFile_loop.simps) simp
next
  case (Suc fuel)
  have "ReadableLength (fp_buffer p) < 15"
    using streamD(2) [of fs xs "fp_file p" "fp_buffer p"] Suc.prems(1,2) by (simp add: at_tag_def)
  then obtain f b where r: "ParseFile_round fs p = Inr (True, p\<lparr>fp_buffer := b, fp_file := f\<rparr>)"
    "at_tag fs xs (p\<lparr>fp_buffer := b, fp_file := f\<rparr>)"
    by (rule round_refill [OF Suc.prems(1)])
  then show ?case using Suc.IH [OF r(2)] Suc.prems(2,3) by (simp add: ParseFile_loop_Suc)
qed

lemma runs_then_waits:
  assumes "runs_to fs len p q" "at_tag fs xs q" "length xs < 15" "fp_parsed_length p < len" "fp_parsed_length q < len"
  shows "ParseFile_loop fuel fs len True p = Inl Diverges"
proof -
  obtain j where j: "ParseFile_loop (Suc j + n) fs len True p = ParseFile_loop n fs len True q" for n
    using assms(1) by (auto simp: runs_to_def)
  have enough: "ParseFile_loop (Suc j + n) fs len True p = Inl Diverges" for n
    using j waits_for_ever [OF assms(2,3,5)] by simp
  have mono: "ParseFile_loop (Suc n) fs len pa p = Inl Diverges \<Longrightarrow> ParseFile_loop n fs len pa p = Inl Diverges" for n pa p
  proof (induction n arbitrary: pa p)
    case 0
    then show ?case by (subst (asm) ParseFile_loop.simps, subst ParseFile_loop.simps) (auto split: if_splits)
  next
    case (Suc n)
    from Suc.prems show ?case
      by (subst (asm) ParseFile_loop.simps, subst ParseFile_loop.simps)
        (use Suc.IH in \<open>auto split: if_splits simp: ebind_Inl_iff\<close>)
  qed
  have "ParseFile_loop (m + fuel) fs len True p = Inl Diverges \<Longrightarrow> ParseFile_loop fuel fs len True p = Inl Diverges" for m
    by (induction m) (use mono in auto)
  then show ?thesis using enough [of fuel] by blast
qed

section \<open>The head of the file\<close>

lemma ParseWholeTag_stream:
  assumes "stream fs (item_bytes it @ rest) (fp_file p) (fp_buffer p)" "length (item_bytes it) \<le> ReadableLength (fp_buffer p)"
    and "item_ok it" "it_data it \<noteq> []" "buf_ok (tag_body t)" "readable (tag_body t) = []"
  obtains t' b where "ParseWholeTag t p = Inr (Some (int (length (item_bytes it))), t', p\<lparr>fp_buffer := b, fp_status := TAG_HEADER\<rparr>)"
    "tag_complete t'" "tag_item t' = it" "stream fs rest (fp_file p) b"
    "ReadableLength b = ReadableLength (fp_buffer p) - length (item_bytes it)"
proof -
  let ?n = "length (it_data it)"
  note len = item_bytes_split(3) [OF assms(3)]
  have "15 \<le> ReadableLength (fp_buffer p)" using assms(2) len by simp
  then obtain t1 b1 where 1: "ParseTagHeader t p = Inr (15, t1, p\<lparr>fp_buffer := b1, fp_status := TAG_DATA\<rparr>)"
    "partial it 0 t1" "stream fs (it_data it @ rest) (fp_file p) b1" "ReadableLength b1 = ReadableLength (fp_buffer p) - 15"
    by (rule ParseTagHeader_stream [OF assms(1) _ assms(3,5,6)])
  let ?p = "p\<lparr>fp_buffer := b1, fp_status := TAG_DATA\<rparr>"
  have st: "stream fs (drop 0 (it_data it) @ rest) (fp_file ?p) (fp_buffer ?p)" using 1(3) by simp
  have enough: "?n \<le> ReadableLength b1" using 1(4) assms(2) len by simp
  then have n: "?n = min (?n - 0) (ReadableLength (fp_buffer ?p))" by simp
  obtain t2 b where 2: "partial it (0 + ?n) t2" "stream fs (drop (0 + ?n) (it_data it) @ rest) (fp_file ?p) b"
    and run: "ParseTagData t1 ?p = Inr (if ?n - 0 \<le> ReadableLength (fp_buffer ?p)
       then (int ?n, t2, ?p\<lparr>fp_buffer := b, fp_status := TAG_HEADER\<rparr>) else (0, t2, ?p\<lparr>fp_buffer := b\<rparr>))"
    by (rule ParseTagData_piece [OF assms(3) 1(2) _ st n]) simp
  have r: "ParseTagData t1 ?p = Inr (int ?n, t2, p\<lparr>fp_buffer := b, fp_status := TAG_HEADER\<rparr>)"
    using run enough by simp
  have "0 < ?n" using assms(4) by simp
  then have "ParseWholeTag t p = Inr (Some (int (length (item_bytes it))), t2, p\<lparr>fp_buffer := b, fp_status := TAG_HEADER\<rparr>)"
    using 1(1) r len by (simp add: ParseWholeTag_def)
  moreover have b: "stream fs rest (fp_file p) b" using 2(2) by simp
  moreover have "ReadableLength b = ReadableLength (fp_buffer p) - length (item_bytes it)"
    using stream_left [OF assms(1) b] by simp
  moreover have "tag_complete t2" "tag_item t2 = it" using partial_complete [OF assms(3), of t2] 2(1) by simp_all
  ultimately show ?thesis by (intro that)
qed

text \<open>A parser that starts: nothing is read yet, the three tags are new.\<close>

definition fresh :: "files \<Rightarrow> bytes \<Rightarrow> flv_parser \<Rightarrow> bool" where
  "fresh fs xs p \<longleftrightarrow> stream fs xs (fp_file p) (fp_buffer p) \<and> fp_manager p = FlvManager_new \<and>
     last_tag p = None \<and> flv_tags p = [] \<and> fp_parsed_length p = 0"

definition head_size :: "flv_item \<Rightarrow> flv_item \<Rightarrow> flv_item \<Rightarrow> nat" where
  "head_size s v0 v1 = 9 + length (item_bytes s) + length (item_bytes v0) + length (item_bytes v1)"

lemma File_ParseHeader_stream:
  assumes "stream fs (hdr @ rest) (fp_file p) (fp_buffer p)" "length hdr = 9" "9 \<le> ReadableLength (fp_buffer p)"
  obtains h b where "File_ParseHeader p = Inr (9, p\<lparr>fp_header := h, fp_buffer := b\<rparr>)"
    "stream fs rest (fp_file p) b" "ReadableLength b = ReadableLength (fp_buffer p) - 9"
proof -
  note s = streamD [OF assms(1)]
  let ?data = "take 9 (readable (fp_buffer p))"
  have "length ?data = 9" using assms(3) s(1) by simp
  then obtain h where h: "DecodeFileHeader ?data (Some (fp_header p)) = (9, Some h)"
    unfolding DecodeFileHeader_def FLV_HEADER_LENGTH_def by simp
  have m: "min (ReadableLength (fp_buffer p)) FLV_HEADER_LENGTH = 9" using assms(3) by (simp add: FLV_HEADER_LENGTH_def)
  have "ReadBegin_at (fp_buffer p) 0 9 = Inr ?data" by (rule readable_prefix [OF s(1) assms(3)])
  then have "File_ParseHeader p = Inr (9, p\<lparr>fp_header := h, fp_buffer := AddReadIndex 9 (fp_buffer p)\<rparr>)"
    unfolding File_ParseHeader_def m by (simp add: h)
  moreover have "stream fs rest (fp_file p) (AddReadIndex 9 (fp_buffer p))"
    using stream_skip [OF assms(1,3)] assms(2) by simp
  ultimately show ?thesis by (rule that) (simp add: s(1))
qed

lemma FlvManager_new_tags [simp]:
  "buf_ok (tag_body (script_tag FlvManager_new))" "readable (tag_body (script_tag FlvManager_new)) = []"
  "buf_ok (tag_body (video_audio_tag0 FlvManager_new))" "readable (tag_body (video_audio_tag0 FlvManager_new)) = []"
  "buf_ok (tag_body (video_audio_tag1 FlvManager_new))" "readable (tag_body (video_audio_tag1 FlvManager_new)) = []"
  by (simp_all add: FlvManager_new_def FlvTag_new_def)

text \<open>A tag object that nothing was read into.\<close>

definition empty_tag :: "flv_tag \<Rightarrow> bool" where
  "empty_tag t \<longleftrightarrow> buf_ok (tag_body t) \<and> readable (tag_body t) = []"

definition item_fits :: "flv_item \<Rightarrow> nat \<Rightarrow> bool" where
  "item_fits it n \<longleftrightarrow> item_ok it \<and> it_data it \<noteq> [] \<and> length (item_bytes it) \<le> n"

definition tag_read :: "flv_item \<Rightarrow> flv_tag \<Rightarrow> bool" where
  "tag_read it t \<longleftrightarrow> tag_complete t \<and> tag_item t = it"

lemma ParseWholeTag_fits:
  assumes "stream fs (item_bytes it @ rest) (fp_file p) (fp_buffer p)" "item_fits it (ReadableLength (fp_buffer p))" "empty_tag t"
  obtains t' b where "ParseWholeTag t p = Inr (Some (int (length (item_bytes it))), t', p\<lparr>fp_buffer := b, fp_status := TAG_HEADER\<rparr>)"
    "tag_read it t'" "stream fs rest (fp_file p) b"
    "ReadableLength b = ReadableLength (fp_buffer p) - length (item_bytes it)"
proof -
  have f: "length (item_bytes it) \<le> ReadableLength (fp_buffer p)" "item_ok it" "it_data it \<noteq> []"
    using assms(2) by (simp_all add: item_fits_def)
  have e: "buf_ok (tag_body t)" "readable (tag_body t) = []" using assms(3) by (simp_all add: empty_tag_def)
  obtain t' b where "ParseWholeTag t p = Inr (Some (int (length (item_bytes it))), t', p\<lparr>fp_buffer := b, fp_status := TAG_HEADER\<rparr>)"
    "tag_complete t'" "tag_item t' = it" "stream fs rest (fp_file p) b"
    "ReadableLength b = ReadableLength (fp_buffer p) - length (item_bytes it)"
    by (rule ParseWholeTag_stream [OF assms(1) f e])
  then show ?thesis by (intro that [of t' b]) (simp_all add: tag_read_def)
qed

lemma ParseScripTag_fits:
  assumes "stream fs (item_bytes s @ rest) (fp_file p) (fp_buffer p)" "item_fits s (ReadableLength (fp_buffer p))"
    and "empty_tag (script_tag (fp_manager p))"
  obtains t b where "ParseScripTag p = Inr (int (length (item_bytes s)), p\<lparr>fp_buffer := b, fp_status := TAG_HEADER,
      fp_manager := (fp_manager p)\<lparr>script_tag := t\<rparr>\<rparr>)" "tag_read s t" "stream fs rest (fp_file p) b"
    "ReadableLength b = ReadableLength (fp_buffer p) - length (item_bytes s)"
proof -
  obtain t b where r: "ParseWholeTag (script_tag (fp_manager p)) p =
      Inr (Some (int (length (item_bytes s))), t, p\<lparr>fp_buffer := b, fp_status := TAG_HEADER\<rparr>)"
    "tag_read s t" "stream fs rest (fp_file p) b" "ReadableLength b = ReadableLength (fp_buffer p) - length (item_bytes s)"
    by (rule ParseWholeTag_fits [OF assms])
  show ?thesis by (rule that [OF _ r(2-4)]) (simp add: ParseScripTag_def r(1))
qed

lemma ParseVideoAudio_fits:
  assumes "stream fs (item_bytes v0 @ item_bytes v1 @ rest) (fp_file p) (fp_buffer p)"
    and "item_fits v0 (ReadableLength (fp_buffer p))" "item_fits v1 (ReadableLength (fp_buffer p) - length (item_bytes v0))"
    and "empty_tag (video_audio_tag0 (fp_manager p))" "empty_tag (video_audio_tag1 (fp_manager p))"
  obtains t0 t1 b where "File_ParseVideoAudio p = Inr (int (length (item_bytes v0) + length (item_bytes v1)),
      p\<lparr>fp_buffer := b, fp_status := TAG_HEADER,
        fp_manager := (fp_manager p)\<lparr>video_audio_tag0 := t0, video_audio_tag1 := t1\<rparr>\<rparr>)"
    "tag_read v0 t0" "tag_read v1 t1" "stream fs rest (fp_file p) b"
proof -
  obtain t0 b where r0: "ParseWholeTag (video_audio_tag0 (fp_manager p)) p =
      Inr (Some (int (length (item_bytes v0))), t0, p\<lparr>fp_buffer := b, fp_status := TAG_HEADER\<rparr>)"
    "tag_read v0 t0" "stream fs (item_bytes v1 @ rest) (fp_file p) b"
    "ReadableLength b = ReadableLength (fp_buffer p) - length (item_bytes v0)"
    by (rule ParseWholeTag_fits [OF assms(1,2,4)])
  let ?q = "p\<lparr>fp_buffer := b, fp_status := TAG_HEADER, fp_manager := (fp_manager p)\<lparr>video_audio_tag0 := t0\<rparr>\<rparr>"
  have "stream fs (item_bytes v1 @ rest) (fp_file ?q) (fp_buffer ?q)" "item_fits v1 (ReadableLength (fp_buffer ?q))"
    "empty_tag (video_audio_tag1 (fp_manager ?q))" using r0(3,4) assms(3,5) by simp_all
  then obtain t1 c where r1: "ParseWholeTag (video_audio_tag1 (fp_manager ?q)) ?q =
      Inr (Some (int (length (item_bytes v1))), t1, ?q\<lparr>fp_buffer := c, fp_status := TAG_HEADER\<rparr>)"
    "tag_read v1 t1" "stream fs rest (fp_file ?q) c"
    by (rule ParseWholeTag_fits)
  have "stream fs rest (fp_file p) c" using r1(3) by simp
  with r0(2) r1(2) show ?thesis by (intro that [of t1 t0 c]) (use r0(1) r1(1) in \<open>simp add: File_ParseVideoAudio_def Let_def\<close>)
qed

lemma ParseFile_head_ok:
  assumes "fresh fs (hdr @ item_bytes s @ item_bytes v0 @ item_bytes v1 @ rest) p" "length hdr = 9"
    and "\<forall>it \<in> {s, v0, v1}. item_ok it \<and> it_data it \<noteq> []" "head_size s v0 v1 \<le> BUFFER_SIZE"
  obtains p' where "ParseFile_head fs p = Inr (True, p')" "fp_parsed_length p' = head_size s v0 v1"
    "tag_read s (script_tag (fp_manager p'))" "tag_read v0 (video_audio_tag0 (fp_manager p'))"
    "tag_read v1 (video_audio_tag1 (fp_manager p'))"
    "fp_status p' = TAG_HEADER" "last_tag p' = None" "flv_tags p' = []" "stream fs rest (fp_file p') (fp_buffer p')"
proof -
  let ?xs = "hdr @ item_bytes s @ item_bytes v0 @ item_bytes v1 @ rest"
  have p: "stream fs ?xs (fp_file p) (fp_buffer p)" "fp_manager p = FlvManager_new" "last_tag p = None"
    "flv_tags p = []" "fp_parsed_length p = 0" using assms(1) by (simp_all add: fresh_def)
  have et: "empty_tag (script_tag FlvManager_new)" "empty_tag (video_audio_tag0 FlvManager_new)" "empty_tag (video_audio_tag1 FlvManager_new)"
    by (simp_all add: empty_tag_def)
  obtain f b where r: "ReadDataFromFile fs p = Inr (p\<lparr>fp_buffer := b, fp_file := f\<rparr>)" "stream fs ?xs f b"
      "readable b = take BUFFER_SIZE ?xs" by (rule ReadDataFromFile_stream [OF p(1)])
  have rl: "head_size s v0 v1 \<le> ReadableLength b"
    using length_readable [OF streamD(1) [OF r(2)]] assms(2,4) unfolding r(3) by (simp add: head_size_def)
  define p1 where "p1 = p\<lparr>fp_buffer := b, fp_file := f\<rparr>"
  have f1: "stream fs ?xs (fp_file p1) (fp_buffer p1)" "9 \<le> ReadableLength (fp_buffer p1)"
    using r(2) rl by (simp_all add: p1_def head_size_def)
  obtain h b1 where h: "File_ParseHeader p1 = Inr (9, p1\<lparr>fp_header := h, fp_buffer := b1\<rparr>)"
    "stream fs (item_bytes s @ item_bytes v0 @ item_bytes v1 @ rest) (fp_file p1) b1"
    "ReadableLength b1 = ReadableLength (fp_buffer p1) - 9"
    by (rule File_ParseHeader_stream [OF f1(1) assms(2) f1(2)])
  define p2 where "p2 = p1\<lparr>fp_header := h, fp_buffer := b1, fp_parsed_length := 9\<rparr>"
  have f2: "stream fs (item_bytes s @ item_bytes v0 @ item_bytes v1 @ rest) (fp_file p2) (fp_buffer p2)"
    "item_fits s (ReadableLength (fp_buffer p2))" "empty_tag (script_tag (fp_manager p2))"
    using h(2,3) rl assms(3) et p(2) by (simp_all add: p2_def p1_def item_fits_def head_size_def)
  obtain t b2 where t: "ParseScripTag p2 = Inr (int (length (item_bytes s)), p2\<lparr>fp_buffer := b2, fp_status := TAG_HEADER,
      fp_manager := (fp_manager p2)\<lparr>script_tag := t\<rparr>\<rparr>)" "tag_read s t"
    "stream fs (item_bytes v0 @ item_bytes v1 @ rest) (fp_file p2) b2"
    "ReadableLength b2 = ReadableLength (fp_buffer p2) - length (item_bytes s)"
    by (rule ParseScripTag_fits [OF f2])
  define p3 where "p3 = p2\<lparr>fp_buffer := b2, fp_status := TAG_HEADER, fp_manager := (fp_manager p2)\<lparr>script_tag := t\<rparr>,
      fp_parsed_length := 9 + length (item_bytes s)\<rparr>"
  have f3: "stream fs (item_bytes v0 @ item_bytes v1 @ rest) (fp_file p3) (fp_buffer p3)"
    "item_fits v0 (ReadableLength (fp_buffer p3))" "item_fits v1 (ReadableLength (fp_buffer p3) - length (item_bytes v0))"
    "empty_tag (video_audio_tag0 (fp_manager p3))" "empty_tag (video_audio_tag1 (fp_manager p3))"
    using t(3,4) h(3) rl assms(3) et p(2) by (simp_all add: p3_def p2_def p1_def item_fits_def head_size_def)
  obtain t0 t1 b3 where v: "File_ParseVideoAudio p3 = Inr (int (length (item_bytes v0) + length (item_bytes v1)),
      p3\<lparr>fp_buffer := b3, fp_status := TAG_HEADER,
        fp_manager := (fp_manager p3)\<lparr>video_audio_tag0 := t0, video_audio_tag1 := t1\<rparr>\<rparr>)"
    "tag_read v0 t0" "tag_read v1 t1" "stream fs rest (fp_file p3) b3"
    by (rule ParseVideoAudio_fits [OF f3])
  let ?p = "p3\<lparr>fp_buffer := b3, fp_status := TAG_HEADER, fp_manager := (fp_manager p3)\<lparr>video_audio_tag0 := t0, video_audio_tag1 := t1\<rparr>,
      fp_parsed_length := head_size s v0 v1\<rparr>"
  have small: "head_size s v0 v1 < size_mod" using assms(4) by (simp add: BUFFER_SIZE_def size_mod_def)
  have "ParseFile_head fs p = Inr (True, ?p)"
    using small v(1) t(1) h(1) p(5) r(1)
    by (simp add: ParseFile_head_def p1_def [symmetric]) (simp add: p3_def p2_def p1_def size_add_eq head_size_def)
  then show ?thesis by (rule that) (use v t p in \<open>simp_all add: p3_def p2_def p1_def\<close>)
qed

section \<open>Whole files\<close>

lemma fresh_of:
  assumes "fs path = Some xs"
  shows "fresh fs xs (FlvManager_of path fs)" "f_path (fp_file (FlvManager_of path fs)) = path"
    "f_stat_size (fp_file (FlvManager_of path fs)) = 0"
proof -
  obtain f where f: "File_of path O_RDONLY fs = (f, fs)" "reading fs xs f" "f_path f = path" "f_stat_size f = 0"
    using reading_of [where fs = fs and path = path, OF assms] by blast
  have b: "buf_ok (Buffer_sized BUFFER_SIZE)" "length (buf_data (Buffer_sized BUFFER_SIZE)) = BUFFER_SIZE + 8"
    by (rule Buffer_sized_ok) (simp_all add: BUFFER_SIZE_def max_size_def Buffer_sized_def)
  show "fresh fs xs (FlvManager_of path fs)" using f b by (simp add: fresh_def FlvManager_of_def stream_def)
  show "f_path (fp_file (FlvManager_of path fs)) = path" "f_stat_size (fp_file (FlvManager_of path fs)) = 0"
    using f by (simp_all add: FlvManager_of_def)
qed

lemma fresh_stat: "fresh fs xs (p\<lparr>fp_file := (fp_file p)\<lparr>f_stat_size := n\<rparr>\<rparr>) = fresh fs xs p"
  by (simp add: fresh_def stream_def reading_def)

text \<open>The run on a file whose head is complete, up to the loop.\<close>

definition loop_starts :: "files \<Rightarrow> flv_item \<Rightarrow> flv_item \<Rightarrow> flv_item \<Rightarrow> bytes \<Rightarrow> flv_parser \<Rightarrow> bool" where
  "loop_starts fs s v0 v1 rest p \<longleftrightarrow> at_tag fs rest p \<and> last_tag p = None \<and> flv_tags p = [] \<and>
     fp_parsed_length p = head_size s v0 v1 \<and> tag_read s (script_tag (fp_manager p)) \<and>
     tag_read v0 (video_audio_tag0 (fp_manager p)) \<and> tag_read v1 (video_audio_tag1 (fp_manager p))"

definition head_items_ok :: "bytes \<Rightarrow> flv_item \<Rightarrow> flv_item \<Rightarrow> flv_item \<Rightarrow> bool" where
  "head_items_ok hdr s v0 v1 \<longleftrightarrow> length hdr = 9 \<and> (\<forall>it \<in> {s, v0, v1}. item_ok it \<and> it_data it \<noteq> []) \<and>
     head_size s v0 v1 \<le> BUFFER_SIZE"

lemma ParseFile_starts:
  assumes "fresh fs (hdr @ item_bytes s @ item_bytes v0 @ item_bytes v1 @ rest) p" "head_items_ok hdr s v0 v1"
    and "GetFileSize (fp_file p) fs = (sz, (fp_file p)\<lparr>f_stat_size := sz\<rparr>)"
  obtains q where "loop_starts fs s v0 v1 rest q"
    "\<forall>fuel. ParseFile fuel fs n p =
       ebind (ParseFile_loop fuel fs (if sz > n then n else size_sub sz 4) True q) (\<lambda>p. Inr (int (fp_parsed_length p), p))"
proof -
  let ?p = "p\<lparr>fp_file := (fp_file p)\<lparr>f_stat_size := sz\<rparr>\<rparr>"
  have f: "fresh fs (hdr @ item_bytes s @ item_bytes v0 @ item_bytes v1 @ rest) ?p" using assms(1) by (simp only: fresh_stat)
  obtain q where q: "ParseFile_head fs ?p = Inr (True, q)" "fp_parsed_length q = head_size s v0 v1"
    "tag_read s (script_tag (fp_manager q))" "tag_read v0 (video_audio_tag0 (fp_manager q))"
    "tag_read v1 (video_audio_tag1 (fp_manager q))"
    "fp_status q = TAG_HEADER" "last_tag q = None" "flv_tags q = []" "stream fs rest (fp_file q) (fp_buffer q)"
    by (rule ParseFile_head_ok [OF f]) (use assms(2) in \<open>auto simp: head_items_ok_def\<close>)
  have "loop_starts fs s v0 v1 rest (q\<lparr>current_tag := Some FlvTag_new\<rparr>)"
    using q by (simp add: loop_starts_def at_tag_def)
  then show ?thesis by (rule that) (simp add: ParseFile_def assms(3) q(1))
qed

lemma collected_at_tag: "collected fs it rest p p' \<Longrightarrow> at_tag fs rest p'"
  by (auto simp: collected_def at_tag_def)

text \<open>After the first tag behind the head.\<close>

lemma runs_past_first:
  assumes "loop_starts fs s v0 v1 (item_bytes m @ rest) q" "item_ok m" "it_data m \<noteq> []" "head_size s v0 v1 \<le> BUFFER_SIZE"
    and "head_size s v0 v1 < len"
  obtains r t where "runs_to fs len q r" "at_tag fs rest r" "last_tag r = Some t" "tag_read m t" "flv_tags r = [t]"
    "fp_parsed_length r = head_size s v0 v1 + length (item_bytes m)" "fp_manager r = fp_manager q"
proof -
  have q: "at_tag fs (item_bytes m @ rest) q" "last_tag q = None" "fp_parsed_length q < len" "fp_parsed_length q < 2 ^ 62"
    "flv_tags q = []" "fp_parsed_length q = head_size s v0 v1"
    using assms(1,4,5) by (simp_all add: loop_starts_def BUFFER_SIZE_def)
  obtain r where r: "runs_to fs len q r" "collected fs m rest q r"
    using runs_first_tag [OF q(1) assms(2,3) q(2-4)] by blast
  from r(2) obtain t f b where "r = q\<lparr>fp_file := f, fp_buffer := b, fp_status := TAG_HEADER,
       current_tag := Some FlvTag_new, last_tag := Some t, flv_tags := flv_tags q @ [t],
       fp_parsed_length := fp_parsed_length q + 15 + length (it_data m)\<rparr>" "tag_complete t" "tag_item t = m"
    unfolding collected_def by blast
  then show ?thesis
    by (intro that [OF r(1) collected_at_tag [OF r(2)], of t])
      (simp_all add: tag_read_def q(5,6) item_bytes_split(3) [OF assms(2)])
qed

lemma GetFileSize_of:
  assumes "fs path = Some xs" "xs \<noteq> []"
  shows "GetFileSize (fp_file (FlvManager_of path fs)) fs =
    (length xs, (fp_file (FlvManager_of path fs))\<lparr>f_stat_size := length xs\<rparr>)"
  using fresh_of [where fs = fs and path = path, OF assms(1)] assms by (simp add: GetFileSize_def Let_def)

lemma runs_fuel:
  assumes "\<forall>fuel \<ge> k. ParseFile_loop fuel fs len True q = Inr r"
    and "\<forall>fuel. ParseFile fuel fs n p = ebind (ParseFile_loop fuel fs len True q) (\<lambda>p. Inr (int (fp_parsed_length p), p))"
  shows "\<forall>fuel \<ge> k. ParseFile fuel fs n p = Inr (int (fp_parsed_length r), r)"
  using assms by simp

text \<open>
  C22: of a well-formed file with two or more tags behind its head, which fits into the first filling of
  the buffer, 30000 bytes, only the first is collected. The head is read as it is, whatever the sizes of the tags and of the pieces they are read
  in; then the second tag, although it holds the right size of the first, fails the
  check, and \<^verbatim>\<open>ParseFile\<close> returns the length up to it as if that were all.
\<close>

theorem ParseFile_stops_at_second_tag:
  assumes "fs path = Some (hdr @ item_bytes s @ item_bytes v0 @ item_bytes v1 @ item_bytes m1 @ item_bytes m2 @ rest)"
    and "head_items_ok hdr s v0 v1" "item_ok m1" "it_data m1 \<noteq> []" "item_ok m2"
    and "it_prev m2 = 11 + of_nat (length (it_data m1))" "length (it_data m1) + 11 < 2 ^ 24"
    and "length (the (fs path)) \<le> n" "n \<le> 2 ^ 62"
  shows "\<exists>k p. (\<forall>fuel \<ge> k. ParseFile fuel fs n (FlvManager_of path fs) = Inr (int (head_size s v0 v1 + length (item_bytes m1)), p)) \<and>
    map tag_item (flv_tags p) = [m1] \<and> tag_item (script_tag (fp_manager p)) = s \<and>
    tag_item (video_audio_tag0 (fp_manager p)) = v0 \<and> tag_item (video_audio_tag1 (fp_manager p)) = v1"
proof -
  let ?xs = "hdr @ item_bytes s @ item_bytes v0 @ item_bytes v1 @ item_bytes m1 @ item_bytes m2 @ rest"
  let ?len = "length ?xs - 4"
  have ne: "?xs \<noteq> []" and hs: "head_size s v0 v1 \<le> BUFFER_SIZE" using assms(2) by (auto simp: head_items_ok_def)
  have xs: "length ?xs = head_size s v0 v1 + length (item_bytes m1) + length (item_bytes m2) + length rest"
    using assms(2) by (simp add: head_items_ok_def head_size_def)
  have len: "(if length ?xs > n then n else size_sub (length ?xs) 4) = ?len"
    using assms(1,8,9) xs item_bytes_split(3) [OF assms(5)] by (simp add: size_sub_eq size_mod_def)
  have lt: "head_size s v0 v1 + length (item_bytes m1) < ?len" using xs item_bytes_split(3) [OF assms(5)] by simp
  obtain q where q: "loop_starts fs s v0 v1 (item_bytes m1 @ item_bytes m2 @ rest) q"
    and run: "\<forall>fuel. ParseFile fuel fs n (FlvManager_of path fs) =
       ebind (ParseFile_loop fuel fs (if length ?xs > n then n else size_sub (length ?xs) 4) True q) (\<lambda>p. Inr (int (fp_parsed_length p), p))"
    by (rule ParseFile_starts [where n = n, OF fresh_of(1) [where fs = fs and path = path, OF assms(1)] assms(2) GetFileSize_of [where fs = fs and path = path, OF assms(1) ne]])
  have "head_size s v0 v1 < ?len" using lt by simp
  then obtain r t where r: "runs_to fs ?len q r" "at_tag fs (item_bytes m2 @ rest) r" "last_tag r = Some t" "tag_read m1 t"
    "flv_tags r = [t]" "fp_parsed_length r = head_size s v0 v1 + length (item_bytes m1)" "fp_manager r = fp_manager q"
    by (rule runs_past_first [OF q assms(3,4) hs])
  have t: "tag_complete t" "tag_item t = m1" using r(4) by (simp_all add: tag_read_def)
  have "unat (it_prev m2) = 11 + length (it_data m1)"
    using assms(6,7) by (simp add: unat_word_ariths unat_of_nat)
  moreover have "unat (GetCurrentTagSize t) = 11 + length (it_data m1)"
    using length_data_item [OF t(1)] t(2) by (simp add: unat_GetCurrentTagSize)
  ultimately have "GetCurrentTagSize t = it_prev m2" "unat (it_prev m2) < 2 ^ 24"
    using assms(7) by (simp_all add: word_unat_eq_iff)
  from stops_at_next_tag [OF r(1,2) assms(5) r(3) this] lt r(6) obtain k z where
    z: "\<forall>fuel \<ge> k. ParseFile_loop fuel fs ?len True q = Inr z" "flv_tags z = [t]"
      "fp_parsed_length z = head_size s v0 v1 + length (item_bytes m1)" "fp_manager z = fp_manager q"
    using r(5,7) by auto
  have "\<forall>fuel \<ge> k. ParseFile fuel fs n (FlvManager_of path fs) = Inr (int (fp_parsed_length z), z)"
    by (rule runs_fuel [OF z(1) run [unfolded len]])
  then show ?thesis
    using z t q by (intro exI [of _ k] exI [of _ z]) (simp add: loop_starts_def tag_read_def)
qed

text \<open>A file with one tag behind its head, opened by the constructor and by \<^verbatim>\<open>SetFilePath\<close>.\<close>

lemma constructor_reads_to_end:
  assumes "fs path = Some (hdr @ item_bytes s @ item_bytes v0 @ item_bytes v1 @ item_bytes m @ trailer)"
    and "head_items_ok hdr s v0 v1" "item_ok m" "it_data m \<noteq> []" "length trailer = 4"
    and "length (the (fs path)) \<le> n"
  shows "\<exists>k p. (\<forall>fuel \<ge> k. ParseFile fuel fs n (FlvManager_of path fs) = Inr (int (length (the (fs path))) - 4, p)) \<and>
      map tag_item (flv_tags p) = [m]"
proof -
  let ?xs = "hdr @ item_bytes s @ item_bytes v0 @ item_bytes v1 @ item_bytes m @ trailer"
  have ne: "?xs \<noteq> []" and hs: "head_size s v0 v1 \<le> BUFFER_SIZE" using assms(2) by (auto simp: head_items_ok_def)
  have mlen: "length (item_bytes m) = 15 + length (it_data m)" "length (it_data m) < 2 ^ 24"
    using item_bytes_split(3) [OF assms(3)] assms(3) by (simp_all add: item_ok_def)
  have xs: "length ?xs = head_size s v0 v1 + length (item_bytes m) + 4"
    using assms(2,5) by (simp add: head_items_ok_def head_size_def)
  have small: "length ?xs < size_mod" using xs mlen hs by (simp add: size_mod_def BUFFER_SIZE_def)
  have len: "(if length ?xs > n then n else size_sub (length ?xs) 4) = head_size s v0 v1 + length (item_bytes m)"
    using assms(1,6) xs small by (simp add: size_sub_eq)
  obtain q where q: "loop_starts fs s v0 v1 (item_bytes m @ trailer) q"
    and run: "\<forall>fuel. ParseFile fuel fs n (FlvManager_of path fs) =
       ebind (ParseFile_loop fuel fs (if length ?xs > n then n else size_sub (length ?xs) 4) True q) (\<lambda>p. Inr (int (fp_parsed_length p), p))"
    by (rule ParseFile_starts [where n = n, OF fresh_of(1) [where fs = fs and path = path, OF assms(1)] assms(2)
        GetFileSize_of [where fs = fs and path = path, OF assms(1) ne]])
  have "head_size s v0 v1 < head_size s v0 v1 + length (item_bytes m)" using mlen by simp
  then obtain r t where r: "runs_to fs (head_size s v0 v1 + length (item_bytes m)) q r" "tag_read m t"
    "flv_tags r = [t]" "fp_parsed_length r = head_size s v0 v1 + length (item_bytes m)"
    by (rule runs_past_first [OF q assms(3,4) hs])
  obtain k where "\<forall>fuel \<ge> k. ParseFile_loop fuel fs (head_size s v0 v1 + length (item_bytes m)) True q = Inr r"
    using runs_to_end [OF r(1)] r(4) by auto
  from runs_fuel [OF this run [unfolded len]]
  show "\<exists>k p. (\<forall>fuel \<ge> k. ParseFile fuel fs n (FlvManager_of path fs) = Inr (int (length (the (fs path))) - 4, p)) \<and>
      map tag_item (flv_tags p) = [m]"
    using r(2-4) xs assms(1) by (intro exI [of _ k] exI [of _ r]) (simp add: tag_read_def)
qed

lemma SetFilePath_diverges:
  assumes "fs path = Some (hdr @ item_bytes s @ item_bytes v0 @ item_bytes v1 @ item_bytes m @ trailer)"
    and "head_items_ok hdr s v0 v1" "item_ok m" "it_data m \<noteq> []" "length trailer = 4"
    and "fs [] = None"
  shows "\<exists>q. SetFilePath path fs (FlvManager_of [] fs) = (True, q) \<and> (\<forall>fuel. ParseFile fuel fs n q = Inl Diverges)"
proof -
  let ?xs = "hdr @ item_bytes s @ item_bytes v0 @ item_bytes v1 @ item_bytes m @ trailer"
  have hs: "head_size s v0 v1 \<le> BUFFER_SIZE" using assms(2) by (auto simp: head_items_ok_def)
  have mlen: "length (item_bytes m) = 15 + length (it_data m)" "length (it_data m) < 2 ^ 24"
    using item_bytes_split(3) [OF assms(3)] assms(3) by (simp_all add: item_ok_def)
  let ?p = "FlvManager_of [] fs"
  have none: "f_file (fp_file ?p) = None" "f_path (fp_file ?p) = []" "f_stat_size (fp_file ?p) = 0"
    using assms(6) by (simp_all add: FlvManager_of_def File_of_def fopen_def OpenModeToString_def)
  obtain f where f: "File_Open path O_RDONLY (fp_file ?p) fs = (True, f, fs)" "reading fs ?xs f" "f_path f = []" "f_stat_size f = 0"
    using reading_open [where fs = fs and path = path, OF assms(1) none(1)] none(2,3) by auto
  have set: "SetFilePath path fs ?p = (True, ?p\<lparr>fp_file := f\<rparr>)" by (simp add: SetFilePath_def f(1))
  have "buf_ok (Buffer_sized BUFFER_SIZE)" by (rule Buffer_sized_ok) (simp add: BUFFER_SIZE_def max_size_def)
  then have fr: "fresh fs ?xs (?p\<lparr>fp_file := f\<rparr>)"
    using f(2) by (simp add: fresh_def FlvManager_of_def stream_def Buffer_sized_def readable_def BUFFER_SIZE_def)
  have gs: "GetFileSize (fp_file (?p\<lparr>fp_file := f\<rparr>)) fs = (0, (fp_file (?p\<lparr>fp_file := f\<rparr>))\<lparr>f_stat_size := 0\<rparr>)"
    using f(3,4) assms(6) by (simp add: GetFileSize_def)
  show "\<exists>q. SetFilePath path fs (FlvManager_of [] fs) = (True, q) \<and> (\<forall>fuel. ParseFile fuel fs n q = Inl Diverges)"
  proof (intro exI [of _ "?p\<lparr>fp_file := f\<rparr>"] conjI set allI)
    fix fuel
    obtain q where q: "loop_starts fs s v0 v1 (item_bytes m @ trailer) q"
      and run: "\<forall>fuel. ParseFile fuel fs n (?p\<lparr>fp_file := f\<rparr>) =
       ebind (ParseFile_loop fuel fs (if 0 > n then n else size_sub 0 4) True q) (\<lambda>p. Inr (int (fp_parsed_length p), p))"
      by (rule ParseFile_starts [where n = n, OF fr assms(2) gs])
    have len: "(if 0 > n then n else size_sub 0 4) = 2 ^ 64 - 4" by (simp add: size_sub_def size_mod_def)
    have lt: "head_size s v0 v1 < 2 ^ 64 - 4" using hs by (simp add: BUFFER_SIZE_def)
    obtain r where r: "runs_to fs (2 ^ 64 - 4) q r" "at_tag fs trailer r"
      "fp_parsed_length r = head_size s v0 v1 + length (item_bytes m)"
      by (rule runs_past_first [OF q assms(3,4) hs lt])
    have "fp_parsed_length q < 2 ^ 64 - 4" "fp_parsed_length r < 2 ^ 64 - 4"
      using q lt r(3) mlen hs by (simp_all add: loop_starts_def BUFFER_SIZE_def)
    then have "ParseFile_loop fuel fs (2 ^ 64 - 4) True q = Inl Diverges"
      by (rule runs_then_waits [OF r(1,2), rotated]) (simp add: assms(5))
    then show "ParseFile fuel fs n (?p\<lparr>fp_file := f\<rparr>) = Inl Diverges"
      using run len by simp
  qed
qed

text \<open>
  C23: how a file is given decides whether its parsing ends. Take a well-formed file with exactly one tag behind
  its head, where the head fits into the first filling of the buffer (a file with more tags is not read to its end anyhow). Given to the constructor, the
  file is read up to the size of its last tag, the four bytes at its end that \<^verbatim>\<open>ParseFile\<close> leaves out, and that tag is
  collected. The same file given to \<^verbatim>\<open>SetFilePath\<close> is never done, whatever the fuel: \<^verbatim>\<open>Open\<close> does not store the path, so the size of the
  file is taken to be 0 and the length to parse wraps around to almost 2^64; behind the
  tag the loop waits for a header that never comes.
\<close>

theorem SetFilePath_never_ends:
  assumes "fs path = Some (hdr @ item_bytes s @ item_bytes v0 @ item_bytes v1 @ item_bytes m @ trailer)"
    and "head_items_ok hdr s v0 v1" "item_ok m" "it_data m \<noteq> []" "length trailer = 4"
    and "fs [] = None" "length (the (fs path)) \<le> n"
  shows "(\<exists>k p. (\<forall>fuel \<ge> k. ParseFile fuel fs n (FlvManager_of path fs) = Inr (int (length (the (fs path))) - 4, p)) \<and>
      map tag_item (flv_tags p) = [m]) \<and>
    (\<exists>q. SetFilePath path fs (FlvManager_of [] fs) = (True, q) \<and> (\<forall>fuel. ParseFile fuel fs n q = Inl Diverges))"
  by (intro conjI constructor_reads_to_end [where fs = fs and path = path, OF assms(1-5,7)]
    SetFilePath_diverges [where fs = fs and path = path, OF assms(1-6)])

section \<open>Files for the witnesses\<close>

definition sample_item :: flv_item where
  "sample_item = tag_item sample_tag"

lemma sample_item: "item_ok sample_item" "it_data sample_item = [0x17, 1, 2]" "length (item_bytes sample_item) = 18"
proof -
  show "item_ok sample_item" using tag_item_ok(1) [OF sample_tag_complete] by (simp add: sample_item_def)
  then show "it_data sample_item = [0x17, 1, 2]" "length (item_bytes sample_item) = 18"
    using item_bytes_split(3) by (simp_all add: sample_item_def tag_item_def sample_tag_def readable_def)
qed

lemma sample_head: "head_items_ok DEFAULT_HEADER sample_item sample_item sample_item" "head_size sample_item sample_item sample_item = 63"
  by (simp_all add: head_items_ok_def head_size_def sample_item BUFFER_SIZE_def DEFAULT_HEADER_def)

definition sample_file :: "bytes \<Rightarrow> bytes" where
  "sample_file rest = DEFAULT_HEADER @ item_bytes sample_item @ item_bytes sample_item @ item_bytes sample_item @
     item_bytes sample_item @ rest"

theorem ParseFile_stops_at_second_tag_witness:
  "\<exists>k p. (\<forall>fuel \<ge> k. ParseFile fuel [lit ''f'' \<mapsto> sample_file (item_bytes (sample_item\<lparr>it_prev := 14\<rparr>) @ [0, 0, 0, 14])] 1000
       (FlvManager_of (lit ''f'') [lit ''f'' \<mapsto> sample_file (item_bytes (sample_item\<lparr>it_prev := 14\<rparr>) @ [0, 0, 0, 14])]) = Inr (81, p)) \<and>
     map tag_item (flv_tags p) = [sample_item]"
proof -
  let ?m = "sample_item\<lparr>it_prev := 14\<rparr>"
  let ?fs = "[lit ''f'' \<mapsto> sample_file (item_bytes ?m @ [0, 0, 0, 14])]"
  have m: "item_ok ?m" using sample_item(1) by (simp add: item_ok_def)
  have "length (item_bytes ?m) = 18" using item_bytes_split(3) [OF m] sample_item(2) by simp
  then have len: "length (the (?fs (lit ''f''))) \<le> 1000" by (simp add: sample_file_def sample_item DEFAULT_HEADER_def)
  have fl: "?fs (lit ''f'') = Some (DEFAULT_HEADER @ item_bytes sample_item @ item_bytes sample_item @ item_bytes sample_item @
      item_bytes sample_item @ item_bytes ?m @ [0, 0, 0, 14])" by (simp add: sample_file_def)
  have d: "it_data sample_item \<noteq> []" "it_prev ?m = 11 + of_nat (length (it_data sample_item))"
    "length (it_data sample_item) + 11 < 2 ^ 24" "(1000 :: nat) \<le> 2 ^ 62" by (simp_all add: sample_item)
  obtain k p where r: "\<forall>fuel \<ge> k. ParseFile fuel ?fs 1000 (FlvManager_of (lit ''f'') ?fs) =
      Inr (int (head_size sample_item sample_item sample_item + length (item_bytes sample_item)), p)"
    "map tag_item (flv_tags p) = [sample_item]"
    using ParseFile_stops_at_second_tag [where fs = ?fs and path = "lit ''f''",
      OF fl sample_head(1) sample_item(1) d(1) m d(2,3) len d(4)]
    by (elim exE conjE) (rule that)
  have "int (head_size sample_item sample_item sample_item + length (item_bytes sample_item)) = 81"
    by (simp add: sample_head sample_item)
  with r show ?thesis by (intro exI [of _ k] exI [of _ p]) simp
qed

theorem SetFilePath_never_ends_witness:
  "\<exists>q. SetFilePath (lit ''f'') [lit ''f'' \<mapsto> sample_file [0, 0, 0, 14]] (FlvManager_of [] [lit ''f'' \<mapsto> sample_file [0, 0, 0, 14]]) = (True, q) \<and>
     (\<forall>fuel. ParseFile fuel [lit ''f'' \<mapsto> sample_file [0, 0, 0, 14]] 1000 q = Inl Diverges)"
proof -
  let ?fs = "[lit ''f'' \<mapsto> sample_file [0, 0, 0, 14]]"
  have len: "length (the (?fs (lit ''f''))) \<le> 1000" by (simp add: sample_file_def sample_item DEFAULT_HEADER_def)
  have fl: "?fs (lit ''f'') = Some (DEFAULT_HEADER @ item_bytes sample_item @ item_bytes sample_item @ item_bytes sample_item @
      item_bytes sample_item @ [0, 0, 0, 14])" by (simp add: sample_file_def)
  have d: "it_data sample_item \<noteq> []" "length [0, 0, 0, 14 :: byte] = 4" "?fs [] = None" by (simp_all add: sample_item lit_def)
  show ?thesis
    using SetFilePath_never_ends [where fs = ?fs and path = "lit ''f''",
      OF fl sample_head(1) sample_item(1) d(1,2,3) len] by (rule conjunct2)
qed

end
