(* ===== verification/Decimal.thy ===== *)
theory Decimal
  imports Prelude
begin

text \<open>
  Decimal numbers as \<open>printf\<close> and \<open>std::to_string\<close> write them, and \<open>snprintf\<close>'s truncation. A
  reader of decimal numbers shows that different numbers have different texts.
\<close>

definition decimal_digit :: "nat \<Rightarrow> byte" where
  "decimal_digit d = of_nat (48 + d)"

fun decimal :: "nat \<Rightarrow> bytes" where
  "decimal n = (if n < 10 then [decimal_digit n] else decimal (n div 10) @ [decimal_digit (n mod 10)])"

declare decimal.simps [simp del]

definition MINUS :: byte where "MINUS = 0x2d"

definition decimal_int :: "int \<Rightarrow> bytes" where
  "decimal_int i = (if i < 0 then MINUS # decimal (nat (- i)) else decimal (nat i))"

text \<open>\<open>snprintf(buf, size, ...)\<close> keeps at most \<open>size - 1\<close> characters.\<close>

definition snprintf :: "nat \<Rightarrow> bytes \<Rightarrow> bytes" where
  "snprintf n text = take (n - 1) text"

lemma snprintf_fits: "length text < n \<Longrightarrow> snprintf n text = text"
  by (simp add: snprintf_def)

section \<open>Reading back\<close>

definition decimal_read :: "bytes \<Rightarrow> nat" where
  "decimal_read = foldl (\<lambda>a d. a * 10 + (unat d - 48)) 0"

lemma unat_decimal_digit: "d < 10 \<Longrightarrow> unat (decimal_digit d) = 48 + d"
  unfolding decimal_digit_def by (rule of_nat_inverse [OF refl]) simp

lemma decimal_read_decimal: "decimal_read (decimal n) = n"
proof (induction n rule: decimal.induct)
  case (1 n)
  show ?case
  proof (cases "n < 10")
    case True
    then show ?thesis by (subst decimal.simps) (simp add: decimal_read_def unat_decimal_digit)
  next
    case False
    with 1 have "decimal_read (decimal (n div 10)) = n div 10" by simp
    with False show ?thesis by (subst decimal.simps) (simp add: decimal_read_def unat_decimal_digit)
  qed
qed

lemma decimal_inj: "decimal m = decimal n \<Longrightarrow> m = n"
  by (metis decimal_read_decimal)

definition is_digit :: "byte \<Rightarrow> bool" where
  "is_digit c \<longleftrightarrow> 48 \<le> unat c \<and> unat c < 58"

lemma decimal_digits: "c \<in> set (decimal n) \<Longrightarrow> is_digit c"
proof (induction n rule: decimal.induct)
  case (1 n)
  have d: "is_digit (decimal_digit d)" if "d < 10" for d
    using that by (simp add: is_digit_def unat_decimal_digit)
  from 1 d [of n] d [of "n mod 10"] show ?case
    by (cases "n < 10") (auto simp: decimal.simps [of n])
qed

lemma decimal_length: "n < 10 ^ k \<Longrightarrow> 0 < k \<Longrightarrow> length (decimal n) \<le> k"
proof (induction k arbitrary: n)
  case 0
  then show ?case by simp
next
  case (Suc k)
  show ?case
  proof (cases "n < 10")
    case True
    then show ?thesis by (subst decimal.simps) simp
  next
    case False
    then have "k \<noteq> 0" using Suc.prems by (cases k) auto
    moreover have "n div 10 < 10 ^ k" using Suc.prems by (simp add: less_mult_imp_div_less mult.commute)
    ultimately have "length (decimal (n div 10)) \<le> k" using Suc.IH by simp
    with False show ?thesis by (subst decimal.simps) simp
  qed
qed

lemma decimal_nonempty: "decimal n \<noteq> []"
  by (subst decimal.simps) simp

text \<open>A text that ends in a separator and a number determines the number.\<close>

lemma separated_inj:
  assumes "xs @ c # decimal m = ys @ c # decimal n" "\<not> is_digit c"
  shows "m = n"
proof -
  have "c \<notin> set (decimal m)" "c \<notin> set (decimal n)" using assms(2) decimal_digits by auto
  then have "takeWhile (\<lambda>x. x \<noteq> c) (rev (xs @ c # decimal m)) = rev (decimal m)"
    "takeWhile (\<lambda>x. x \<noteq> c) (rev (ys @ c # decimal n)) = rev (decimal n)" by simp_all
  with assms(1) have "decimal m = decimal n" by simp
  then show ?thesis by (rule decimal_inj)
qed

end
