(* ===== verification/InetAddress.thy ===== *)
theory InetAddress
  imports Decimal
begin

text \<open>
  \<^verbatim>\<open>network/InetAddress.{h,cpp}\<close> and the conversions of \<^verbatim>\<open>network/SocketOps.cpp\<close> it uses. The union of
  \<^verbatim>\<open>sockaddr_in\<close> and \<^verbatim>\<open>sockaddr_in6\<close> has the family and the port in the same place, the two
  addresses in different ones. \<open>inet_ntop\<close>, \<open>inet_pton\<close> and \<open>gethostbyname\<close> are arguments.
\<close>

type_synonym u16 = "16 word"

definition AF_INET :: nat where "AF_INET = 2"
definition AF_INET6 :: nat where "AF_INET6 = 10"

record inet_address =
  sa_family :: nat
  sin_port :: u16
  sin_addr :: bytes
  sin6_addr :: bytes
  ia_family :: nat

text \<open>The byte order of the machine is little-endian; ports are stored big-endian.\<close>

definition htons :: "u16 \<Rightarrow> u16" where
  "htons p = of_nat (unat p mod 256 * 256 + unat p div 256)"

definition Htons :: "int \<Rightarrow> int" where
  "Htons port = uint (htons (word_of_int port))"

definition InetAddress_port :: "u16 \<Rightarrow> bool \<Rightarrow> inet_address" where
  "InetAddress_port port ipv6 =
     \<lparr>sa_family = (if ipv6 then AF_INET6 else AF_INET), sin_port = word_of_int (Htons (uint port)),
      sin_addr = replicate 4 0, sin6_addr = replicate 16 0, ia_family = (if ipv6 then AF_INET6 else AF_INET)\<rparr>"

definition InetAddress_of :: "inet_address \<Rightarrow> inet_address" where
  "InetAddress_of addr = addr\<lparr>ia_family := AF_INET6\<rparr>"

text \<open>\<open>inet_pton\<close> gives 0 for a text that is no address; then the name is looked up.\<close>

definition NameToAddr4 :: "(bytes \<Rightarrow> (int \<times> bytes)) \<Rightarrow> (bytes \<Rightarrow> bytes option) \<Rightarrow> bytes \<Rightarrow> bytes \<Rightarrow> bool \<times> bytes" where
  "NameToAddr4 pton lookup name addr =
     (let (r, a) = pton name; addr = (if r = 1 then a else addr) in
      if r = 0 then (case lookup name of Some h \<Rightarrow> (True, h) | None \<Rightarrow> (False, addr)) else (True, addr))"

definition NameToAddr6 :: "bytes \<Rightarrow> bytes \<Rightarrow> bytes" where
  "NameToAddr6 name addr = addr"

definition InetAddress_name :: "(bytes \<Rightarrow> (int \<times> bytes)) \<Rightarrow> (bytes \<Rightarrow> bytes option) \<Rightarrow> bytes \<Rightarrow> u16 \<Rightarrow> bool \<Rightarrow> inet_address" where
  "InetAddress_name pton lookup addr port ipv6 =
     (let a = InetAddress_port port ipv6 in
      if ipv6 then a\<lparr>sin6_addr := NameToAddr6 addr (sin6_addr a)\<rparr>
      else a\<lparr>sin_addr := snd (NameToAddr4 pton lookup addr (sin_addr a))\<rparr>)"

definition COLON :: byte where "COLON = 0x3a"

text \<open>\<open>%hd\<close> prints the 16 bits as a signed number.\<close>

definition ToIpPort :: "(nat \<Rightarrow> bytes \<Rightarrow> bytes) \<Rightarrow> inet_address \<Rightarrow> bytes" where
  "ToIpPort ntop a =
     (if sa_family a \<noteq> AF_INET \<and> sa_family a \<noteq> AF_INET6 then []
      else let ip = (if sa_family a = AF_INET then ntop AF_INET (sin_addr a) else ntop AF_INET6 (sin6_addr a)) in
        ip @ snprintf (64 - length ip) (COLON # decimal_int (sint (htons (sin_port a)))))"

definition GetFamily :: "inet_address \<Rightarrow> nat" where
  "GetFamily a = ia_family a"

section \<open>Ports\<close>

lemma unat_htons: "unat (htons p) = unat p mod 256 * 256 + unat p div 256"
proof -
  have "unat p < 65536" using unsigned_less [of p] by simp
  then have "unat p div 256 < 256" by simp
  moreover have "unat p mod 256 * 256 \<le> 255 * 256" by simp
  ultimately have "unat p mod 256 * 256 + unat p div 256 < 65536" by linarith
  then show ?thesis unfolding htons_def by (intro of_nat_inverse [OF refl]) simp
qed

lemma htons_htons [simp]: "htons (htons p) = p"
proof -
  have "unat p < 65536" using unsigned_less [of p] by simp
  then have "unat p div 256 < 256" by simp
  then have "(unat p mod 256 * 256 + unat p div 256) mod 256 * 256 + (unat p mod 256 * 256 + unat p div 256) div 256 = unat p"
    by simp
  then have "unat (htons (htons p)) = unat p" by (simp add: unat_htons)
  then show ?thesis by (simp add: word_unat_eq_iff)
qed

lemma InetAddress_port_fields [simp]:
  "sa_family (InetAddress_port port ipv6) = (if ipv6 then AF_INET6 else AF_INET)"
  "sin_addr (InetAddress_port port ipv6) = replicate 4 0" "sin6_addr (InetAddress_port port ipv6) = replicate 16 0"
  by (simp_all add: InetAddress_port_def)

lemma sin_port_port: "htons (sin_port (InetAddress_port port ipv6)) = port"
  by (simp add: InetAddress_port_def Htons_def)

text \<open>The texts \<open>inet_ntop\<close> makes are at most 45 characters long.\<close>

definition ntop_ok :: "(nat \<Rightarrow> bytes \<Rightarrow> bytes) \<Rightarrow> bool" where
  "ntop_ok ntop \<longleftrightarrow> (\<forall>f a. length (ntop f a) \<le> 45)"

lemma sint_u16: "sint (p :: u16) = (if unat p < 2 ^ 15 then int (unat p) else int (unat p) - 2 ^ 16)"
proof -
  define n where "n = unat p"
  have u: "uint p = int n" by (simp add: n_def)
  have lt: "n < 65536" using unsigned_less [of p] by (simp add: n_def)
  have "sint p = (int n + 32768) mod 65536 - 32768"
    by (simp add: sint_uint signed_take_bit_eq_take_bit_shift take_bit_eq_mod u)
  moreover have "(n + 32768) mod 65536 = (if n < 32768 then n + 32768 else n - 32768)"
    using lt by (simp add: mod_if)
  then have "int ((n + 32768) mod 65536) = (if n < 32768 then int n + 32768 else int n - 32768)" by simp
  then have "(int n + 32768) mod 65536 = (if n < 32768 then int n + 32768 else int n - 32768)" by (simp add: zmod_int)
  ultimately have "sint p = (if n < 32768 then int n else int n - 65536)" by simp
  then show ?thesis unfolding n_def [symmetric] by simp
qed

lemma decimal_int_length:
  assumes "\<bar>i\<bar> < 10 ^ k" "0 < k"
  shows "length (decimal_int i) \<le> Suc k"
proof -
  have "nat \<bar>i\<bar> < 10 ^ k" using assms(1) by (simp add: nat_less_iff)
  then have "length (decimal (nat \<bar>i\<bar>)) \<le> k" using assms(2) by (rule decimal_length)
  then show ?thesis by (cases "i < 0") (simp_all add: decimal_int_def)
qed

lemma port_text_length: "length (decimal_int (sint (p :: u16))) \<le> 6"
proof -
  have "\<bar>sint p\<bar> < 10 ^ 5" using sint_lt [of p] sint_ge [of p] by simp
  from decimal_int_length [OF this] show ?thesis by simp
qed

lemma ToIpPort_whole:
  assumes "ntop_ok ntop" "sa_family a = AF_INET \<or> sa_family a = AF_INET6"
  shows "ToIpPort ntop a = (if sa_family a = AF_INET then ntop AF_INET (sin_addr a) else ntop AF_INET6 (sin6_addr a)) @
    COLON # decimal_int (sint (htons (sin_port a)))"
proof -
  let ?ip = "if sa_family a = AF_INET then ntop AF_INET (sin_addr a) else ntop AF_INET6 (sin6_addr a)"
  have "length ?ip \<le> 45" using assms(1) by (simp add: ntop_ok_def)
  then have "length (COLON # decimal_int (sint (htons (sin_port a)))) < 64 - length ?ip"
    using port_text_length [of "htons (sin_port a)"] by simp
  with assms(2) show ?thesis by (auto simp: ToIpPort_def Let_def snprintf_fits)
qed

lemma ToIpPort_length:
  assumes "ntop_ok ntop"
  shows "length (ToIpPort ntop a) \<le> 52"
proof (cases "sa_family a = AF_INET \<or> sa_family a = AF_INET6")
  case True
  have "length (ntop f x) \<le> 45" for f x using assms by (simp add: ntop_ok_def)
  from this [of AF_INET "sin_addr a"] this [of AF_INET6 "sin6_addr a"] show ?thesis
    using port_text_length [of "htons (sin_port a)"] by (simp add: ToIpPort_whole [OF assms True])
next
  case False
  then show ?thesis by (simp add: ToIpPort_def)
qed

text \<open>
  The text of an address ends in its port only for ports below 32768. The others are
  printed as negative numbers, the port minus 65536.
\<close>

lemma ToIpPort_port:
  assumes "ntop_ok ntop"
  shows "ToIpPort ntop (InetAddress_port port ipv6) =
    ntop (if ipv6 then AF_INET6 else AF_INET) (replicate (if ipv6 then 16 else 4) 0) @
      (if unat port < 2 ^ 15 then COLON # decimal (unat port) else COLON # MINUS # decimal (2 ^ 16 - unat port))"
proof -
  let ?a = "InetAddress_port port ipv6"
  have f: "sa_family ?a = AF_INET \<or> sa_family ?a = AF_INET6" by simp
  have "unat port < 65536" using unsigned_less [of port] by simp
  then have "nat (65536 - int (unat port)) = 65536 - unat port" by linarith
  with \<open>unat port < 65536\<close> have "decimal_int (sint port) =
      (if unat port < 2 ^ 15 then decimal (unat port) else MINUS # decimal (2 ^ 16 - unat port))"
    unfolding decimal_int_def sint_u16 by (simp del: uint_nat of_nat_unat)
  then show ?thesis
    by (simp add: ToIpPort_whole [OF assms f] sin_port_port AF_INET_def AF_INET6_def)
qed

end
