(* ===== verification/EventLoop.thy ===== *)
theory EventLoop
  imports Prelude
begin

text \<open>
  \<^verbatim>\<open>network/EventLoop.{h,cpp}\<close>, \<^verbatim>\<open>EventLoopThread.cpp\<close> and \<^verbatim>\<open>EventLoopThreadPool.cpp\<close>: the turn of a
  loop (events, then the functions other threads gave it), the thread a loop lives in, and the
  pool that hands loops out in turn. The functions are data of a type \<open>'f\<close>, executed by an
  argument; the thread's start and end are a step relation of two threads.
\<close>

section \<open>EventLoop\<close>

record 'f event_loop =
  pending_func :: "'f list"
  looping :: bool
  thread_tid :: int

definition EventLoop_new :: "int \<Rightarrow> 'f event_loop" where
  "EventLoop_new tid = \<lparr>pending_func = [], looping = False, thread_tid = tid\<rparr>"

definition RunInLoop :: "'f \<Rightarrow> 'f event_loop \<Rightarrow> 'f event_loop" where
  "RunInLoop f l = l\<lparr>pending_func := pending_func l @ [f]\<rparr>"

definition Stop :: "'f event_loop \<Rightarrow> 'f event_loop" where
  "Stop l = l\<lparr>looping := False\<rparr>"

definition IsInLoopThread :: "int \<Rightarrow> 'f event_loop \<Rightarrow> bool" where
  "IsInLoopThread tid l \<longleftrightarrow> tid = thread_tid l"

text \<open>A range-based \<open>for\<close> that calls something for every element.\<close>

fun for_each :: "('a \<Rightarrow> 's \<Rightarrow> 's result) \<Rightarrow> 'a list \<Rightarrow> 's \<Rightarrow> 's result" where
  "for_each f [] s = Inr s"
| "for_each f (x # xs) s = ebind (f x s) (for_each f xs)"

lemma for_each_beside:
  "for_each (\<lambda>x (l, s). ebind (f x s) (\<lambda>s. Inr (l, s))) xs (l, s) = ebind (for_each f xs s) (\<lambda>s. Inr (l, s))"
proof (induction xs arbitrary: s)
  case (Cons x xs)
  then show ?case by (cases "f x s") simp_all
qed simp

definition HandleActiveChannel :: "('c \<Rightarrow> 'f event_loop \<times> 's \<Rightarrow> ('f event_loop \<times> 's) result) \<Rightarrow> 'c list \<Rightarrow>
    'f event_loop \<times> 's \<Rightarrow> ('f event_loop \<times> 's) result" where
  "HandleActiveChannel handle active_channels = for_each handle active_channels"

text \<open>The functions are swapped out first: one that is given to the loop meanwhile waits for the next turn.\<close>

definition HandlePendingFunc :: "('f \<Rightarrow> 'f event_loop \<times> 's \<Rightarrow> ('f event_loop \<times> 's) result) \<Rightarrow>
    'f event_loop \<times> 's \<Rightarrow> ('f event_loop \<times> 's) result" where
  "HandlePendingFunc run = (\<lambda>(l, s). for_each run (pending_func l) (l\<lparr>pending_func := []\<rparr>, s))"

text \<open>\<open>poll\<close> is \<open>multiplexing_base_->LoopOnce\<close>: the channels it reports.\<close>

definition Loop_turn :: "('s \<Rightarrow> 'c list \<times> 's) \<Rightarrow> ('c \<Rightarrow> 'f event_loop \<times> 's \<Rightarrow> ('f event_loop \<times> 's) result) \<Rightarrow>
    ('f \<Rightarrow> 'f event_loop \<times> 's \<Rightarrow> ('f event_loop \<times> 's) result) \<Rightarrow> 'f event_loop \<times> 's \<Rightarrow> ('f event_loop \<times> 's) result" where
  "Loop_turn poll handle run = (\<lambda>(l, s).
     let (active_channels, s) = poll s in
     ebind (HandleActiveChannel handle active_channels (l, s)) (HandlePendingFunc run))"

fun Loop_turns :: "nat \<Rightarrow> ('s \<Rightarrow> 'c list \<times> 's) \<Rightarrow> ('c \<Rightarrow> 'f event_loop \<times> 's \<Rightarrow> ('f event_loop \<times> 's) result) \<Rightarrow>
    ('f \<Rightarrow> 'f event_loop \<times> 's \<Rightarrow> ('f event_loop \<times> 's) result) \<Rightarrow> 'f event_loop \<times> 's \<Rightarrow> ('f event_loop \<times> 's) result" where
  "Loop_turns fuel poll handle run (l, s) =
     (if \<not> looping l then Inr (l, s)
      else case fuel of 0 \<Rightarrow> Inl Diverges
      | Suc fuel \<Rightarrow> ebind (Loop_turn poll handle run (l, s)) (Loop_turns fuel poll handle run))"

definition EventLoop_Loop :: "nat \<Rightarrow> ('s \<Rightarrow> 'c list \<times> 's) \<Rightarrow> ('c \<Rightarrow> 'f event_loop \<times> 's \<Rightarrow> ('f event_loop \<times> 's) result) \<Rightarrow>
    ('f \<Rightarrow> 'f event_loop \<times> 's \<Rightarrow> ('f event_loop \<times> 's) result) \<Rightarrow> 'f event_loop \<times> 's \<Rightarrow> ('f event_loop \<times> 's) result" where
  "EventLoop_Loop fuel poll handle run = (\<lambda>(l, s). Loop_turns fuel poll handle run (l\<lparr>looping := True\<rparr>, s))"

text \<open>A function that may give more functions to the loop: the old ones are done, in order, the new ones wait.\<close>

definition gives :: "('f \<Rightarrow> 's \<Rightarrow> ('f list \<times> 's) result) \<Rightarrow> 'f \<Rightarrow> 'f event_loop \<times> 's \<Rightarrow> ('f event_loop \<times> 's) result" where
  "gives act f = (\<lambda>(l, s). ebind (act f s) (\<lambda>(new, s). Inr (l\<lparr>pending_func := pending_func l @ new\<rparr>, s)))"

fun act_all :: "('f \<Rightarrow> 's \<Rightarrow> ('f list \<times> 's) result) \<Rightarrow> 'f list \<Rightarrow> 's \<Rightarrow> ('f list \<times> 's) result" where
  "act_all act [] s = Inr ([], s)"
| "act_all act (f # fs) s = ebind (act f s) (\<lambda>(new, s). ebind (act_all act fs s) (\<lambda>(more, s). Inr (new @ more, s)))"

lemma for_each_gives:
  "for_each (gives act) fs (l, s) = ebind (act_all act fs s) (\<lambda>(new, s). Inr (l\<lparr>pending_func := pending_func l @ new\<rparr>, s))"
proof (induction fs arbitrary: l s)
  case Nil
  then show ?case by simp
next
  case (Cons f fs)
  then show ?case by (cases "act f s") (auto simp: gives_def ebind_assoc case_prod_unfold)
qed

lemma HandlePendingFunc_gives:
  "HandlePendingFunc (gives act) (l, s) =
     ebind (act_all act (pending_func l) s) (\<lambda>(new, s). Inr (l\<lparr>pending_func := new\<rparr>, s))"
  by (simp add: HandlePendingFunc_def for_each_gives)

section \<open>EventLoopThread\<close>

text \<open>
  Where the thread that owns the object is, and where the loop's own thread is. In \<open>Start\<close> the owner, with the
  mutex, looks at \<open>loop_\<close> (\<open>O_checking\<close>) or has given the mutex up in \<open>Wait\<close> (\<open>O_asleep\<close>).
\<close>

datatype owner_pc = O_new | O_checking | O_asleep | O_returned | O_joining | O_gone
datatype loop_pc = T_none | T_created | T_published | T_looping | T_left | T_done

record loop_thread =
  owner_at :: owner_pc
  loop_at :: loop_pc
  loop_set :: bool
  loop_runs :: bool

definition EventLoopThread_new :: loop_thread where
  "EventLoopThread_new = \<lparr>owner_at = O_new, loop_at = T_none, loop_set = False, loop_runs = False\<rparr>"

text \<open>
  \<open>Start\<close> creates the thread and waits while \<open>loop_\<close> is null; \<open>ThreadFunc\<close> sets it and wakes the
  owner, enters \<open>Loop\<close>, which sets \<open>looping_\<close> first, and clears \<open>loop_\<close> behind it; the destructor calls \<open>Stop\<close> and joins.
  A wait can end without a signal.
\<close>

definition wake_owner :: "owner_pc \<Rightarrow> owner_pc" where
  "wake_owner ow = (if ow = O_asleep then O_checking else ow)"

inductive thread_step :: "loop_thread \<Rightarrow> loop_thread \<Rightarrow> bool" where
  starts: "owner_at s = O_new \<Longrightarrow> thread_step s (s\<lparr>owner_at := O_checking, loop_at := T_created\<rparr>)"
| sleeps: "owner_at s = O_checking \<Longrightarrow> \<not> loop_set s \<Longrightarrow> thread_step s (s\<lparr>owner_at := O_asleep\<rparr>)"
| wakes: "owner_at s = O_asleep \<Longrightarrow> thread_step s (s\<lparr>owner_at := O_checking\<rparr>)"
| returns: "owner_at s = O_checking \<Longrightarrow> loop_set s \<Longrightarrow> thread_step s (s\<lparr>owner_at := O_returned\<rparr>)"
| publishes: "loop_at s = T_created \<Longrightarrow>
    thread_step s (s\<lparr>loop_at := T_published, loop_set := True, owner_at := wake_owner (owner_at s)\<rparr>)"
| enters: "loop_at s = T_published \<Longrightarrow> thread_step s (s\<lparr>loop_at := T_looping, loop_runs := True\<rparr>)"
| turns: "loop_at s = T_looping \<Longrightarrow> loop_runs s \<Longrightarrow> thread_step s s"
| leaves: "loop_at s = T_looping \<Longrightarrow> \<not> loop_runs s \<Longrightarrow> thread_step s (s\<lparr>loop_at := T_left\<rparr>)"
| clears: "loop_at s = T_left \<Longrightarrow> thread_step s (s\<lparr>loop_at := T_done, loop_set := False\<rparr>)"
| destroys: "owner_at s = O_returned \<Longrightarrow> loop_set s \<Longrightarrow> thread_step s (s\<lparr>owner_at := O_joining, loop_runs := False\<rparr>)"
| skips: "owner_at s = O_returned \<Longrightarrow> \<not> loop_set s \<Longrightarrow> thread_step s (s\<lparr>owner_at := O_gone\<rparr>)"
| joins: "owner_at s = O_joining \<Longrightarrow> loop_at s = T_done \<Longrightarrow> thread_step s (s\<lparr>owner_at := O_gone\<rparr>)"

inductive_cases thread_stepE: "thread_step s s'"

text \<open>\<open>Start\<close> returns a loop that exists, nobody sleeps over its coming, and the loop ends before the destructor does.\<close>

definition thread_ok :: "loop_thread \<Rightarrow> bool" where
  "thread_ok s \<longleftrightarrow> (loop_set s \<longleftrightarrow> loop_at s \<in> {T_published, T_looping, T_left}) \<and> (loop_runs s \<longrightarrow> loop_at s = T_looping) \<and>
     (case owner_at s of
       O_new \<Rightarrow> loop_at s = T_none
     | O_checking \<Rightarrow> loop_at s \<in> {T_created, T_published} \<or> loop_at s = T_looping \<and> loop_runs s
     | O_asleep \<Rightarrow> loop_at s = T_created
     | O_returned \<Rightarrow> loop_at s = T_published \<or> loop_at s = T_looping \<and> loop_runs s
     | O_joining \<Rightarrow> loop_at s \<in> {T_published, T_looping, T_left, T_done}
     | O_gone \<Rightarrow> loop_at s = T_done)"

lemma thread_step_ok: "thread_step s s' \<Longrightarrow> thread_ok s \<Longrightarrow> thread_ok s'"
  by (induction rule: thread_step.induct) (auto simp: thread_ok_def wake_owner_def split: owner_pc.splits)

lemma thread_reachable_ok: "thread_step\<^sup>*\<^sup>* EventLoopThread_new s \<Longrightarrow> thread_ok s"
proof (induction rule: rtranclp_induct)
  case base
  show ?case by (simp add: thread_ok_def EventLoopThread_new_def)
next
  case (step s s')
  then show ?case by (blast intro: thread_step_ok)
qed

text \<open>The destructor waits for a loop that goes on, or that will set \<open>looping_\<close> again.\<close>

definition hangs :: "loop_thread \<Rightarrow> bool" where
  "hangs s \<longleftrightarrow> owner_at s = O_joining \<and> (loop_at s = T_published \<or> loop_at s = T_looping \<and> loop_runs s)"

lemmas thread_more = converse_rtranclp_into_rtranclp [where r = thread_step]

lemma hangs_for_ever: "thread_step\<^sup>*\<^sup>* s s' \<Longrightarrow> hangs s \<Longrightarrow> hangs s'"
  by (induction rule: rtranclp_induct) (auto simp: hangs_def wake_owner_def elim: thread_stepE)

text \<open>What is left of a loop that has been told to stop: it leaves, clears, and is joined.\<close>

definition ends_in :: "loop_thread \<Rightarrow> nat" where
  "ends_in s = (case loop_at s of T_looping \<Rightarrow> 3 | T_left \<Rightarrow> 2 | T_done \<Rightarrow> 1 | _ \<Rightarrow> 0)"

definition stopping :: "loop_thread \<Rightarrow> bool" where
  "stopping s \<longleftrightarrow> owner_at s = O_joining \<and> \<not> loop_runs s \<and> loop_at s \<in> {T_looping, T_left, T_done}"

lemma stopping_goes_on:
  assumes "stopping s"
  shows "\<exists>s'. thread_step s s'" "thread_step s s' \<Longrightarrow> owner_at s' = O_gone \<or> stopping s' \<and> ends_in s' < ends_in s"
proof -
  show "\<exists>s'. thread_step s s'" using assms by (auto simp: stopping_def intro: leaves clears joins)
  show "thread_step s s' \<Longrightarrow> owner_at s' = O_gone \<or> stopping s' \<and> ends_in s' < ends_in s"
    using assms by (auto simp: stopping_def ends_in_def elim!: thread_stepE)
qed

lemma thread_gone_stays: "thread_ok s \<Longrightarrow> owner_at s = O_gone \<Longrightarrow> \<not> thread_step s s'"
  by (auto simp: thread_ok_def elim!: thread_stepE)

lemma stopping_run: "thread_step\<^sup>*\<^sup>* s s' \<Longrightarrow> thread_ok s \<Longrightarrow> stopping s \<Longrightarrow> owner_at s' = O_gone \<and> thread_ok s' \<or> stopping s' \<and> thread_ok s'"
  by (induction rule: rtranclp_induct) (use thread_gone_stays stopping_goes_on(2) thread_step_ok in blast)+

lemma stopping_ends:
  assumes "thread_ok s" "stopping s"
  shows "\<forall>s'. thread_step\<^sup>*\<^sup>* s s' \<longrightarrow> owner_at s' = O_gone \<or>
    (\<exists>t. thread_step s' t) \<and> (\<forall>t. thread_step s' t \<longrightarrow> owner_at t = O_gone \<or> ends_in t < ends_in s')"
  using stopping_run [OF _ assms] stopping_goes_on by metis

text \<open>
  C27: a loop in a thread of its own. The wake-up of \<^verbatim>\<open>Start\<close> is never missed: it sleeps only while the thread has
  not made its loop yet, and it returns a loop that exists and does not end by itself. The destructor is done only after the
  loop's thread is. But it need not be done: \<^verbatim>\<open>Start\<close> returns when the
  thread has made its loop, before it calls \<^verbatim>\<open>Loop\<close>; when the destructor calls \<^verbatim>\<open>Stop\<close> in
  between, \<^verbatim>\<open>Loop\<close> sets \<^verbatim>\<open>looping_\<close> again behind it, and the join never returns, under no schedule. When the
  stop comes later, the join returns under every schedule, after at most three more steps.
\<close>

theorem loop_thread_ends:
  assumes "thread_step\<^sup>*\<^sup>* EventLoopThread_new s"
  shows "(owner_at s = O_asleep \<longrightarrow> loop_at s = T_created) \<and>
    (owner_at s = O_returned \<longrightarrow> loop_set s \<and> (loop_at s = T_published \<or> loop_at s = T_looping \<and> loop_runs s)) \<and>
    (owner_at s = O_gone \<longrightarrow> loop_at s = T_done) \<and>
    (owner_at s = O_returned \<longrightarrow> (\<exists>s'. thread_step s s' \<and> owner_at s' = O_joining \<and>
      (if loop_at s = T_published then \<forall>s''. thread_step\<^sup>*\<^sup>* s' s'' \<longrightarrow> owner_at s'' = O_joining
       else ends_in s' = 3 \<and> (\<forall>s''. thread_step\<^sup>*\<^sup>* s' s'' \<longrightarrow> owner_at s'' = O_gone \<or>
         (\<exists>t. thread_step s'' t) \<and> (\<forall>t. thread_step s'' t \<longrightarrow> owner_at t = O_gone \<or> ends_in t < ends_in s'')))))"
proof -
  have ok: "thread_ok s" by (rule thread_reachable_ok [OF assms])
  have "\<exists>s'. thread_step s s' \<and> owner_at s' = O_joining \<and>
      (if loop_at s = T_published then \<forall>s''. thread_step\<^sup>*\<^sup>* s' s'' \<longrightarrow> owner_at s'' = O_joining
       else ends_in s' = 3 \<and> (\<forall>s''. thread_step\<^sup>*\<^sup>* s' s'' \<longrightarrow> owner_at s'' = O_gone \<or>
         (\<exists>t. thread_step s'' t) \<and> (\<forall>t. thread_step s'' t \<longrightarrow> owner_at t = O_gone \<or> ends_in t < ends_in s'')))"
    if r: "owner_at s = O_returned"
  proof -
    let ?d = "s\<lparr>owner_at := O_joining, loop_runs := False\<rparr>"
    have d: "thread_step s ?d" using ok r by (intro destroys) (auto simp: thread_ok_def)
    have okd: "thread_ok ?d" by (rule thread_step_ok [OF d ok])
    show ?thesis
    proof (cases "loop_at s = T_published")
      case True
      then have "hangs ?d" by (simp add: hangs_def)
      then show ?thesis using d True hangs_for_ever by (intro exI [of _ ?d]) (auto simp: hangs_def)
    next
      case False
      then have "stopping ?d" "ends_in ?d = 3" using ok r by (auto simp: stopping_def ends_in_def thread_ok_def)
      with d False stopping_ends [OF okd] show ?thesis by (intro exI [of _ ?d]) simp
    qed
  qed
  with ok show ?thesis by (auto simp: thread_ok_def)
qed

theorem loop_thread_ends_witness:
  "\<exists>s s'. thread_step\<^sup>*\<^sup>* EventLoopThread_new s \<and> thread_step s s' \<and> {s''. thread_step\<^sup>*\<^sup>* s' s''} \<subseteq> {s''. owner_at s'' = O_joining}"
proof -
  let ?s = "\<lambda>ow lo st. \<lparr>owner_at = ow, loop_at = lo, loop_set = st, loop_runs = False\<rparr>"
  have 1: "thread_step EventLoopThread_new (?s O_checking T_created False)"
    using starts [of EventLoopThread_new] by (simp add: EventLoopThread_new_def)
  have 2: "thread_step (?s O_checking T_created False) (?s O_asleep T_created False)"
    using sleeps [of "?s O_checking T_created False"] by simp
  have 3: "thread_step (?s O_asleep T_created False) (?s O_checking T_published True)"
    using publishes [of "?s O_asleep T_created False"] by (simp add: wake_owner_def)
  have 4: "thread_step (?s O_checking T_published True) (?s O_returned T_published True)"
    using returns [of "?s O_checking T_published True"] by simp
  have run: "thread_step\<^sup>*\<^sup>* EventLoopThread_new (?s O_returned T_published True)"
    by (intro thread_more [OF 1] thread_more [OF 2] thread_more [OF 3] thread_more [OF 4] rtranclp.rtrancl_refl)
  with loop_thread_ends [OF run] show ?thesis by auto
qed

section \<open>EventLoopThreadPool\<close>

text \<open>Loops are numbered; the base loop is one of them.\<close>

record loop_pool =
  base_loop :: nat
  next_thread_id :: int
  thread_num :: int
  pool_loops :: "nat list"

definition EventLoopThreadPool_new :: "nat \<Rightarrow> loop_pool" where
  "EventLoopThreadPool_new loop = \<lparr>base_loop = loop, next_thread_id = 0, thread_num = 0, pool_loops = []\<rparr>"

definition SetThreadNum :: "int \<Rightarrow> loop_pool \<Rightarrow> loop_pool" where
  "SetThreadNum n p = p\<lparr>thread_num := n\<rparr>"

text \<open>\<open>fresh\<close> is the number of the first loop the new threads make.\<close>

definition Pool_Start :: "nat \<Rightarrow> loop_pool \<Rightarrow> loop_pool" where
  "Pool_Start fresh p = p\<lparr>pool_loops := pool_loops p @ [fresh..<fresh + nat (thread_num p)]\<rparr>"

definition GetNextLoop :: "loop_pool \<Rightarrow> (nat \<times> loop_pool) result" where
  "GetNextLoop p =
     (if thread_num p = 0 then Inr (base_loop p, p)
      else if \<not> nat (next_thread_id p) < length (pool_loops p) then Inl OutOfBounds
      else Inr (pool_loops p ! nat (next_thread_id p), p\<lparr>next_thread_id := (next_thread_id p + 1) mod thread_num p\<rparr>))"

definition pool_ok :: "loop_pool \<Rightarrow> bool" where
  "pool_ok p \<longleftrightarrow> (thread_num p = 0 \<or> 0 < thread_num p \<and> length (pool_loops p) = nat (thread_num p) \<and>
     0 \<le> next_thread_id p \<and> next_thread_id p < thread_num p)"

lemma pool_started: "0 \<le> n \<Longrightarrow> pool_ok (Pool_Start fresh (SetThreadNum n (EventLoopThreadPool_new loop)))"
  by (auto simp: pool_ok_def Pool_Start_def SetThreadNum_def EventLoopThreadPool_new_def)

lemma GetNextLoop_ok:
  assumes "pool_ok p"
  shows "\<exists>l p'. GetNextLoop p = Inr (l, p') \<and> pool_ok p' \<and> pool_loops p' = pool_loops p \<and> thread_num p' = thread_num p \<and>
    base_loop p' = base_loop p \<and>
    (thread_num p = 0 \<longrightarrow> l = base_loop p \<and> p' = p) \<and>
    (thread_num p \<noteq> 0 \<longrightarrow> l = pool_loops p ! nat (next_thread_id p) \<and> next_thread_id p' = (next_thread_id p + 1) mod thread_num p)"
  using assms by (auto simp: GetNextLoop_def pool_ok_def nat_less_iff)

lemma GetNextLoop_base: "thread_num p = 0 \<Longrightarrow> GetNextLoop p = Inr (base_loop p, p)"
  by (simp add: GetNextLoop_def)

text \<open>The loops that \<open>k\<close> calls give.\<close>

fun next_loops :: "nat \<Rightarrow> loop_pool \<Rightarrow> nat list result" where
  "next_loops 0 p = Inr []"
| "next_loops (Suc k) p = ebind (GetNextLoop p) (\<lambda>(l, p). ebind (next_loops k p) (\<lambda>ls. Inr (l # ls)))"

lemma next_loops_turn:
  "pool_ok p \<Longrightarrow> thread_num p \<noteq> 0 \<Longrightarrow> next_loops k p =
     Inr (map (\<lambda>i. pool_loops p ! ((nat (next_thread_id p) + i) mod nat (thread_num p))) [0..<k])"
proof (induction k arbitrary: p)
  case 0
  then show ?case by simp
next
  case (Suc k)
  let ?n = "thread_num p" and ?i = "next_thread_id p"
  obtain l p' where r: "GetNextLoop p = Inr (l, p')" "pool_ok p'" "pool_loops p' = pool_loops p" "thread_num p' = ?n"
    "l = pool_loops p ! nat ?i" "next_thread_id p' = (?i + 1) mod ?n"
    using GetNextLoop_ok [OF Suc.prems(1)] Suc.prems(2) by blast
  have b: "0 < ?n" "0 \<le> ?i" "?i < ?n" using Suc.prems by (auto simp: pool_ok_def)
  have "nat ((?i + 1) mod ?n) = Suc (nat ?i) mod nat ?n"
    using b by (simp add: nat_mod_distrib nat_add_distrib)
  then have shift: "(nat ((?i + 1) mod ?n) + i) mod nat ?n = Suc (nat ?i + i) mod nat ?n" for i
    by (simp add: mod_simps)
  have "nat ?i mod nat ?n = nat ?i" using b by simp
  then show ?case
    using Suc.IH [OF r(2)] Suc.prems(2) r by (simp add: shift map_upt_Suc del: upt_Suc)
qed

text \<open>
  The pool hands its loops out in turn: the k-th connection gets loop k modulo the number of
  threads, and the server's own loop when there are no threads.
\<close>

lemma round_robin:
  assumes "0 \<le> n"
  shows "next_loops k (Pool_Start fresh (SetThreadNum n (EventLoopThreadPool_new loop))) =
    Inr (map (\<lambda>i. if n = 0 then loop else fresh + i mod nat n) [0..<k])"
proof -
  let ?p = "Pool_Start fresh (SetThreadNum n (EventLoopThreadPool_new loop))"
  have f: "thread_num ?p = n" "next_thread_id ?p = 0" "base_loop ?p = loop" "pool_loops ?p = [fresh..<fresh + nat n]"
    by (simp_all add: Pool_Start_def SetThreadNum_def EventLoopThreadPool_new_def)
  show ?thesis
  proof (cases "n = 0")
    case True
    have "GetNextLoop ?p = Inr (loop, ?p)" using GetNextLoop_base [of ?p] True f(1,3) by simp
    then have "next_loops k ?p = Inr (replicate k loop)" by (induction k) simp_all
    then show ?thesis using True by (simp add: map_replicate_const)
  next
    case False
    then have "0 < nat n" using assms by simp
    then have "[fresh..<fresh + nat n] ! (i mod nat n) = fresh + i mod nat n" for i by simp
    with next_loops_turn [OF pool_started [OF assms]] False show ?thesis by (simp add: f)
  qed
qed

end
