(* ===== verification/TcpServer.thy ===== *)
theory TcpServer
  imports TcpConnection InetAddress EventLoop
begin

text \<open>
  \<^verbatim>\<open>network/TcpServer.{h,cpp}\<close> and \<^verbatim>\<open>Acceptor.{h,cpp}\<close>: accepted connections, the map that owns them,
  and the functions queued on the loops they live in. A shared pointer is the connection's position in
  \<open>ts_objs\<close>; an object is alive as long as the map, a function bound to it or a user of the
  server has a shared pointer to it. \<^verbatim>\<open>SendInLoop\<close> is bound to a plain \<open>this\<close>.
\<close>

section \<open>State\<close>

datatype func = Func_Established nat | Func_SendInLoop nat bytes

record tcp_server =
  server_name :: bytes
  connection_map :: "(bytes \<times> nat) list"
  connection_id :: nat
  thread_pool :: loop_pool
  ts_objs :: "tcp_connection list"
  ts_loop :: "nat list"
  ts_pending :: "func list list"

text \<open>What the user of the server gives it: the connection callback, and which pointers it holds.\<close>

record 'u hooks =
  hk_connection :: "'u conn_callback option"
  hk_held :: "'u \<Rightarrow> nat \<Rightarrow> bool"

text \<open>The server with \<open>n\<close> threads, after \<open>Start\<close>; loop 0 is the one it was made with.\<close>

definition TcpServer_new :: "bytes \<Rightarrow> tcp_server" where
  "TcpServer_new name = \<lparr>server_name = name, connection_map = [], connection_id = 0, thread_pool = EventLoopThreadPool_new 0,
     ts_objs = [], ts_loop = [], ts_pending = [[]]\<rparr>"

definition Server_SetThreadNum :: "int \<Rightarrow> tcp_server \<Rightarrow> tcp_server" where
  "Server_SetThreadNum num ts = ts\<lparr>thread_pool := SetThreadNum num (thread_pool ts)\<rparr>"

definition Server_Start :: "tcp_server \<Rightarrow> tcp_server" where
  "Server_Start ts = ts\<lparr>thread_pool := Pool_Start (length (ts_pending ts)) (thread_pool ts),
     ts_pending := ts_pending ts @ replicate (nat (thread_num (thread_pool ts))) []\<rparr>"

section \<open>Operations\<close>

definition DASH :: byte where "DASH = 0x2d"
definition HASH :: byte where "HASH = 0x23"

definition ConnectionName :: "(nat \<Rightarrow> bytes \<Rightarrow> bytes) \<Rightarrow> bytes \<Rightarrow> inet_address \<Rightarrow> nat \<Rightarrow> bytes" where
  "ConnectionName ntop name address number = name @ snprintf 64 (DASH # ToIpPort ntop address @ HASH # decimal number)"

definition Server_RunInLoop :: "nat \<Rightarrow> func \<Rightarrow> tcp_server \<Rightarrow> tcp_server" where
  "Server_RunInLoop l f ts = ts\<lparr>ts_pending := (ts_pending ts)[l := ts_pending ts ! l @ [f]]\<rparr>"

definition OnNewConnection :: "(nat \<Rightarrow> bytes \<Rightarrow> bytes) \<Rightarrow> int \<Rightarrow> inet_address \<Rightarrow> tcp_server \<Rightarrow> tcp_server result" where
  "OnNewConnection ntop sockfd address ts =
     (let name = ConnectionName ntop (server_name ts) address (connection_id ts);
          ts = ts\<lparr>connection_id := connection_id ts + 1\<rparr> in
      ebind (GetNextLoop (thread_pool ts)) (\<lambda>(io_loop, pool).
      let p = length (ts_objs ts);
          ts = ts\<lparr>thread_pool := pool, ts_objs := ts_objs ts @ [TcpConnection_new name sockfd], ts_loop := ts_loop ts @ [io_loop],
            connection_map := map_set name p (connection_map ts)\<rparr> in
      Inr (Server_RunInLoop io_loop (Func_Established p) ts)))"

text \<open>\<open>accept(2)\<close> gives the descriptor and the peer's address; a failure is asserted not to happen.\<close>

definition Acceptor_OnReadable :: "(nat \<Rightarrow> bytes \<Rightarrow> bytes) \<Rightarrow> int \<times> inet_address \<Rightarrow> tcp_server \<Rightarrow> tcp_server result" where
  "Acceptor_OnReadable ntop accepted ts =
     (let (fd, address) = accepted in
      if \<not> fd \<ge> 0 then Inl AssertFailed else OnNewConnection ntop fd address ts)"

definition OnCloseConnection :: "tcp_connection \<Rightarrow> tcp_server \<Rightarrow> tcp_server" where
  "OnCloseConnection c ts = ts\<lparr>connection_map := map_erase (GetConnectionName c) (connection_map ts)\<rparr>"

text \<open>\<open>Send\<close> on a connection of the server, from its loop's thread or from another one.\<close>

definition Server_Send :: "bool \<Rightarrow> sys_send \<Rightarrow> nat \<Rightarrow> bytes \<Rightarrow> tcp_server \<Rightarrow> tcp_server result" where
  "Server_Send in_loop sys p data ts =
     ebind (Send in_loop sys None data (ts_objs ts ! p) ()) (\<lambda>(task, c, _).
     let ts = ts\<lparr>ts_objs := (ts_objs ts)[p := c]\<rparr> in
     Inr (case task of Some d \<Rightarrow> Server_RunInLoop (ts_loop ts ! p) (Func_SendInLoop p d) ts | None \<Rightarrow> ts))"

text \<open>The peer closed: the connection's \<open>OnClose\<close> with the two callbacks the server installed.\<close>

definition Server_close :: "'u hooks \<Rightarrow> nat \<Rightarrow> tcp_server \<times> 'u \<Rightarrow> (tcp_server \<times> 'u) result" where
  "Server_close h p = (\<lambda>(ts, u).
     ebind (OnClose (map_option (\<lambda>f c (ts, u). ebind (f c u) (\<lambda>(c, u). Inr (c, (ts, u)))) (hk_connection h))
              (Some (\<lambda>c (ts, u). Inr (c, (OnCloseConnection c ts, u)))) (ts_objs ts ! p) (ts, u)) (\<lambda>(c, (ts, u)).
     Inr (ts\<lparr>ts_objs := (ts_objs ts)[p := c]\<rparr>, u)))"

text \<open>\<open>batch\<close>: the functions of this turn, which are destroyed together at its end.\<close>

definition alive :: "'u hooks \<Rightarrow> func list \<Rightarrow> nat \<Rightarrow> tcp_server \<times> 'u \<Rightarrow> bool" where
  "alive h batch p = (\<lambda>(ts, u). p \<in> snd ` set (connection_map ts) \<or> Func_Established p \<in> set batch \<or>
     (\<exists>q \<in> set (ts_pending ts). Func_Established p \<in> set q) \<or> hk_held h u p)"

definition run_func :: "'u hooks \<Rightarrow> (nat \<Rightarrow> sys_send) \<Rightarrow> func list \<Rightarrow> func \<Rightarrow> tcp_server \<times> 'u \<Rightarrow> (tcp_server \<times> 'u) result" where
  "run_func h sys batch f = (\<lambda>(ts, u). case f of
       Func_Established p \<Rightarrow>
         ebind (Established (hk_connection h) (ts_objs ts ! p) u) (\<lambda>(c, u). Inr (ts\<lparr>ts_objs := (ts_objs ts)[p := c]\<rparr>, u))
     | Func_SendInLoop p data \<Rightarrow>
         if \<not> alive h batch p (ts, u) then Inl UseAfterFree
         else ebind (SendInLoop (sys p) None data (ts_objs ts ! p) ()) (\<lambda>(c, _). Inr (ts\<lparr>ts_objs := (ts_objs ts)[p := c]\<rparr>, u)))"

text \<open>\<open>HandlePendingFunc\<close> of one loop.\<close>

definition Server_turn :: "'u hooks \<Rightarrow> (nat \<Rightarrow> sys_send) \<Rightarrow> nat \<Rightarrow> tcp_server \<times> 'u \<Rightarrow> (tcp_server \<times> 'u) result" where
  "Server_turn h sys l = (\<lambda>(ts, u).
     let batch = ts_pending ts ! l in
     for_each (run_func h sys batch) batch (ts\<lparr>ts_pending := (ts_pending ts)[l := []]\<rparr>, u))"

text \<open>The turn of one loop is \<^verbatim>\<open>EventLoop::HandlePendingFunc\<close> on that loop's functions.\<close>

lemma Server_turn_HandlePendingFunc:
  assumes "pending_func lp = ts_pending ts ! l"
  shows "HandlePendingFunc (\<lambda>f (lp, s). ebind (run_func h sys (ts_pending ts ! l) f s) (\<lambda>s. Inr (lp, s)))
      (lp, (ts\<lparr>ts_pending := (ts_pending ts)[l := []]\<rparr>, u)) =
    ebind (Server_turn h sys l (ts, u)) (\<lambda>s. Inr (lp\<lparr>pending_func := []\<rparr>, s))"
  unfolding HandlePendingFunc_def prod.case assms for_each_beside by (simp add: Server_turn_def Let_def)

section \<open>Names\<close>

lemma ConnectionName_whole:
  assumes "ntop_ok ntop" "i < 10 ^ 9"
  shows "ConnectionName ntop name address i = (name @ DASH # ToIpPort ntop address) @ HASH # decimal i"
proof -
  have "length (decimal i) \<le> 9" by (rule decimal_length) (use assms(2) in simp_all)
  then have "length (DASH # ToIpPort ntop address @ HASH # decimal i) < 64"
    using ToIpPort_length [OF assms(1), of address] by simp
  from snprintf_fits [OF this] show ?thesis by (simp add: ConnectionName_def)
qed

lemma names_differ:
  assumes "ntop_ok ntop" "i < 10 ^ 9" "j < 10 ^ 9" "ConnectionName ntop name a i = ConnectionName ntop name b j"
  shows "i = j"
proof -
  have "\<not> is_digit HASH" by (simp add: is_digit_def HASH_def)
  with assms show ?thesis
    using separated_inj [of "name @ DASH # ToIpPort ntop a" HASH i "name @ DASH # ToIpPort ntop b" j]
    by (simp add: ConnectionName_whole)
qed

section \<open>The queues\<close>

text \<open>How often a function is queued, on all loops together.\<close>

definition queued :: "func \<Rightarrow> func list list \<Rightarrow> nat" where
  "queued f qs = sum_list (map (\<lambda>q. count_list q f) qs)"

lemma queued_append: "queued f (qs @ rs) = queued f qs + queued f rs"
  by (simp add: queued_def)

lemma queued_update: "l < length qs \<Longrightarrow> queued f (qs[l := q]) + count_list (qs ! l) f = queued f qs + count_list q f"
proof (induction qs arbitrary: l)
  case (Cons r qs)
  then show ?case by (cases l) (auto simp: queued_def)
qed simp

lemma queued_pos: "0 < queued f qs \<longleftrightarrow> (\<exists>q \<in> set qs. f \<in> set q)"
  by (induction qs) (auto simp: queued_def count_list_0_iff)

section \<open>Invariant\<close>

text \<open>\<open>rest\<close>: the functions of the current turn that are still to run.\<close>

definition objs_ok :: "(nat \<Rightarrow> bytes \<Rightarrow> bytes) \<Rightarrow> tcp_server \<Rightarrow> bool" where
  "objs_ok ntop ts \<longleftrightarrow> length (ts_objs ts) = connection_id ts \<and> connection_id ts \<le> 10 ^ 9 \<and> length (ts_loop ts) = connection_id ts \<and>
     (\<forall>p < connection_id ts. ts_loop ts ! p < length (ts_pending ts) \<and>
       (\<exists>a. conn_name (ts_objs ts ! p) = ConnectionName ntop (server_name ts) a p))"

definition pool_known :: "tcp_server \<Rightarrow> bool" where
  "pool_known ts \<longleftrightarrow> pool_ok (thread_pool ts) \<and> base_loop (thread_pool ts) < length (ts_pending ts) \<and>
     (\<forall>l \<in> set (pool_loops (thread_pool ts)). l < length (ts_pending ts))"

definition owns_open :: "tcp_server \<Rightarrow> bool" where
  "owns_open ts \<longleftrightarrow> map_sorted (connection_map ts) \<and> (\<forall>k p. map_find k (connection_map ts) = Some p \<longleftrightarrow>
     p < connection_id ts \<and> conn_name (ts_objs ts ! p) = k \<and> conn_status (ts_objs ts ! p) \<noteq> DISCONNECTED)"

definition queues_ok :: "func list \<Rightarrow> tcp_server \<Rightarrow> bool" where
  "queues_ok rest ts \<longleftrightarrow> (\<forall>p. count_list rest (Func_Established p) + queued (Func_Established p) (ts_pending ts) =
     (if p < connection_id ts \<and> conn_status (ts_objs ts ! p) = CONNECTING then 1 else 0)) \<and>
     (\<forall>p d. Func_SendInLoop p d \<in> set rest \<or> 0 < queued (Func_SendInLoop p d) (ts_pending ts) \<longrightarrow> p < connection_id ts)"

definition server_ok :: "(nat \<Rightarrow> bytes \<Rightarrow> bytes) \<Rightarrow> func list \<Rightarrow> tcp_server \<Rightarrow> bool" where
  "server_ok ntop rest ts \<longleftrightarrow> objs_ok ntop ts \<and> pool_known ts \<and> owns_open ts \<and> queues_ok rest ts"

lemma names_distinct:
  assumes "ntop_ok ntop" "objs_ok ntop ts" "p < connection_id ts" "q < connection_id ts"
    and "conn_name (ts_objs ts ! p) = conn_name (ts_objs ts ! q)"
  shows "p = q"
proof -
  obtain a b where "conn_name (ts_objs ts ! p) = ConnectionName ntop (server_name ts) a p"
    "conn_name (ts_objs ts ! q) = ConnectionName ntop (server_name ts) b q"
    using assms(2) [unfolded objs_ok_def] assms(3,4) by blast
  moreover have "p < 10 ^ 9" "q < 10 ^ 9" using assms(2-4) by (auto simp: objs_ok_def)
  ultimately show ?thesis using names_differ [OF assms(1)] assms(5) by metis
qed

text \<open>A connection that changes, but neither its name nor whether it is connecting or closed.\<close>

definition same_stage :: "tcp_connection \<Rightarrow> tcp_connection \<Rightarrow> bool" where
  "same_stage c c' \<longleftrightarrow> conn_name c' = conn_name c \<and> (conn_status c' = DISCONNECTED \<longleftrightarrow> conn_status c = DISCONNECTED) \<and>
     (conn_status c' = CONNECTING \<longleftrightarrow> conn_status c = CONNECTING)"

lemma same_stage_ok:
  assumes "server_ok ntop rest ts" "p < connection_id ts" "same_stage (ts_objs ts ! p) c"
  shows "server_ok ntop rest (ts\<lparr>ts_objs := (ts_objs ts)[p := c]\<rparr>)"
proof -
  have len: "length (ts_objs ts) = connection_id ts" using assms(1) by (simp add: server_ok_def objs_ok_def)
  have nm: "conn_name ((ts_objs ts)[p := c] ! q) = conn_name (ts_objs ts ! q)" for q
    using assms(2,3) len by (cases "q = p") (simp_all add: same_stage_def)
  have st: "(conn_status ((ts_objs ts)[p := c] ! q) = DISCONNECTED) = (conn_status (ts_objs ts ! q) = DISCONNECTED)"
    "(conn_status ((ts_objs ts)[p := c] ! q) = CONNECTING) = (conn_status (ts_objs ts ! q) = CONNECTING)" for q
    using assms(2,3) len by (cases "q = p"; simp add: same_stage_def)+
  show ?thesis using assms(1)
    by (simp add: server_ok_def objs_ok_def pool_known_def owns_open_def queues_ok_def nm st)
qed

lemma drop_send_ok: "server_ok ntop (Func_SendInLoop p d # rest) ts \<Longrightarrow> server_ok ntop rest ts"
  by (auto simp: server_ok_def queues_ok_def)

text \<open>A connection leaves the connecting stage when its function has run.\<close>

lemma established_ok:
  assumes "server_ok ntop (Func_Established p # rest) ts" "conn_name c = conn_name (ts_objs ts ! p)"
    and "conn_status c \<noteq> DISCONNECTED" "conn_status c \<noteq> CONNECTING"
  shows "server_ok ntop rest (ts\<lparr>ts_objs := (ts_objs ts)[p := c]\<rparr>)" "p < connection_id ts"
proof -
  have q: "count_list (Func_Established p # rest) (Func_Established x) + queued (Func_Established x) (ts_pending ts) =
      (if x < connection_id ts \<and> conn_status (ts_objs ts ! x) = CONNECTING then 1 else 0)" for x
    using assms(1) by (simp add: server_ok_def queues_ok_def)
  from q [of p] have p: "p < connection_id ts" "conn_status (ts_objs ts ! p) = CONNECTING" by (simp_all split: if_splits)
  then show "p < connection_id ts" by simp
  have len: "length (ts_objs ts) = connection_id ts" using assms(1) by (simp add: server_ok_def objs_ok_def)
  have nm: "conn_name ((ts_objs ts)[p := c] ! x) = conn_name (ts_objs ts ! x)" for x
    using assms(2) p(1) len by (cases "x = p") simp_all
  have st: "(conn_status ((ts_objs ts)[p := c] ! x) = DISCONNECTED) = (conn_status (ts_objs ts ! x) = DISCONNECTED)" for x
    using assms(3) p len by (cases "x = p") simp_all
  have "count_list rest (Func_Established x) + queued (Func_Established x) (ts_pending ts) =
      (if x < connection_id ts \<and> conn_status ((ts_objs ts)[p := c] ! x) = CONNECTING then 1 else 0)" for x
    using q [of x] assms(4) p len by (cases "x = p") simp_all
  then show "server_ok ntop rest (ts\<lparr>ts_objs := (ts_objs ts)[p := c]\<rparr>)"
    using assms(1) by (simp add: server_ok_def objs_ok_def pool_known_def owns_open_def queues_ok_def nm st)
qed

text \<open>A connection that closes leaves the map.\<close>

lemma closed_ok:
  assumes "ntop_ok ntop" "server_ok ntop rest ts" "p < connection_id ts" "conn_name c = conn_name (ts_objs ts ! p)"
    and "conn_status c = DISCONNECTED" "conn_status (ts_objs ts ! p) \<noteq> CONNECTING"
  shows "server_ok ntop rest (ts\<lparr>connection_map := map_erase (conn_name c) (connection_map ts), ts_objs := (ts_objs ts)[p := c]\<rparr>)"
proof -
  have ok: "objs_ok ntop ts" "pool_known ts" "owns_open ts" "queues_ok rest ts" using assms(2) by (simp_all add: server_ok_def)
  have len: "length (ts_objs ts) = connection_id ts" using ok(1) by (simp add: objs_ok_def)
  have nm: "conn_name ((ts_objs ts)[p := c] ! x) = conn_name (ts_objs ts ! x)" for x
    using assms(3,4) len by (cases "x = p") simp_all
  have st: "(conn_status ((ts_objs ts)[p := c] ! x) = CONNECTING) = (conn_status (ts_objs ts ! x) = CONNECTING)"
    "(conn_status ((ts_objs ts)[p := c] ! x) \<noteq> DISCONNECTED) = (x \<noteq> p \<and> conn_status (ts_objs ts ! x) \<noteq> DISCONNECTED)" for x
    using assms(3,5,6) len by (cases "x = p"; simp)+
  have so: "map_sorted (connection_map ts)" using ok(3) by (simp add: owns_open_def)
  have "map_find k (map_erase (conn_name c) (connection_map ts)) = Some x \<longleftrightarrow>
      x < connection_id ts \<and> conn_name (ts_objs ts ! x) = k \<and> x \<noteq> p \<and> conn_status (ts_objs ts ! x) \<noteq> DISCONNECTED" for k x
    using ok(3) names_distinct [OF assms(1) ok(1) _ assms(3)] assms(3,4)
    by (auto simp: map_find_erase [OF so] owns_open_def)
  then have "owns_open (ts\<lparr>connection_map := map_erase (conn_name c) (connection_map ts), ts_objs := (ts_objs ts)[p := c]\<rparr>)"
    using so by (simp add: owns_open_def nm st map_erase_sorted)
  with ok show ?thesis by (simp add: server_ok_def objs_ok_def pool_known_def queues_ok_def nm st)
qed

section \<open>Steps\<close>

text \<open>A connection callback may shut the connection down, but closes none and renames none.\<close>

definition hooks_ok :: "'u hooks \<Rightarrow> bool" where
  "hooks_ok h \<longleftrightarrow> (\<forall>cb. hk_connection h = Some cb \<longrightarrow> (\<forall>c u c' u'. cb c u = Inr (c', u') \<longrightarrow> same_stage c c'))"

lemma call_stage: "hooks_ok h \<Longrightarrow> call (hk_connection h) c u = Inr (c', u') \<Longrightarrow> same_stage c c'"
  by (auto simp: call_def hooks_ok_def same_stage_def split: option.splits)

lemma on_channel_stage: "conn_name (on_channel f c) = conn_name c" "conn_status (on_channel f c) = conn_status c"
  by (simp_all add: on_channel_def split: prod.split)

lemma Established_stage:
  assumes "hooks_ok h" "Established (hk_connection h) c u = Inr (c', u')"
  shows "conn_name c' = conn_name c" "conn_status c' \<noteq> DISCONNECTED" "conn_status c' \<noteq> CONNECTING"
  using call_stage [OF assms(1) assms(2) [unfolded Established_def Let_def]]
  by (simp_all add: same_stage_def on_channel_stage)

lemma Shutdown_stage: "same_stage c (Shutdown c)"
  by (simp add: same_stage_def Shutdown_def Socket_ShutdownWrite_def Let_def)

lemma stage_trans: "same_stage a b \<Longrightarrow> same_stage b c \<Longrightarrow> same_stage a c"
  by (simp add: same_stage_def)

lemma Socket_Send_stage: "Socket_Send sys data c = (n, e, c') \<Longrightarrow> same_stage c c'"
  by (auto simp: Socket_Send_def same_stage_def split: prod.splits)

lemma send_now_stage:
  assumes "send_now sys None data c () = Inr (n, b, c', u)"
  shows "same_stage c c'"
proof -
  obtain m e c1 where s: "Socket_Send sys data c = (m, e, c1)" by (metis prod_cases3)
  note 1 = Socket_Send_stage [OF s]
  show ?thesis using assms s 1 stage_trans [OF 1 Shutdown_stage]
    by (auto simp: send_now_def call_def Let_def same_stage_def split: if_splits)
qed

lemma SendInLoop_stage:
  assumes "SendInLoop sys None data c () = Inr (c', u)"
  shows "same_stage c c'"
proof (cases "conn_status c = DISCONNECTED \<or> conn_status c = DISCONNECTING")
  case True
  then show ?thesis using assms by (auto simp: SendInLoop_def same_stage_def)
next
  case False
  then obtain n b c1 v where 1: "send_now sys None data c () = Inr (n, b, c1, v)"
    using assms unfolding SendInLoop_def by (cases "send_now sys None data c ()") auto
  have "same_stage c1 c'" using assms False 1 unfolding SendInLoop_def
    by (cases "AppendData (drop n data) (send_buffer c1)")
      (auto simp: Let_def same_stage_def on_channel_stage split: if_splits)
  with send_now_stage [OF 1] show ?thesis by (rule stage_trans)
qed

text \<open>A function is queued on a loop.\<close>

lemma queue_send_ok:
  assumes "server_ok ntop rest ts" "p < connection_id ts"
  shows "server_ok ntop rest (Server_RunInLoop (ts_loop ts ! p) (Func_SendInLoop p d) ts)"
proof -
  let ?l = "ts_loop ts ! p" and ?qs = "ts_pending ts"
  have l: "?l < length ?qs" using assms by (simp add: server_ok_def objs_ok_def)
  have "queued f (?qs[?l := ?qs ! ?l @ [Func_SendInLoop p d]]) = queued f ?qs + (if f = Func_SendInLoop p d then 1 else 0)" for f
    using queued_update [OF l, of f "?qs ! ?l @ [Func_SendInLoop p d]"] by auto
  then show ?thesis using assms
    by (auto simp: server_ok_def objs_ok_def pool_known_def owns_open_def queues_ok_def Server_RunInLoop_def)
qed

text \<open>An accepted connection: its name is new, and its function is queued once.\<close>

definition accepted :: "bytes \<Rightarrow> int \<Rightarrow> nat \<Rightarrow> loop_pool \<Rightarrow> tcp_server \<Rightarrow> tcp_server" where
  "accepted name fd l pool ts = ts\<lparr>connection_id := connection_id ts + 1, thread_pool := pool,
     ts_objs := ts_objs ts @ [TcpConnection_new name fd], ts_loop := ts_loop ts @ [l],
     connection_map := map_set name (connection_id ts) (connection_map ts),
     ts_pending := (ts_pending ts)[l := ts_pending ts ! l @ [Func_Established (connection_id ts)]]\<rparr>"

lemma accepted_objs:
  assumes "objs_ok ntop ts" "connection_id ts < 10 ^ 9" "l < length (ts_pending ts)"
  shows "objs_ok ntop (accepted (ConnectionName ntop (server_name ts) a (connection_id ts)) fd l pool ts)"
proof -
  let ?n = "connection_id ts"
  have len: "length (ts_objs ts) = ?n" "length (ts_loop ts) = ?n" using assms(1) by (simp_all add: objs_ok_def)
  have "(ts_loop ts @ [l]) ! p < length (ts_pending ts) \<and>
      (\<exists>b. conn_name ((ts_objs ts @ [TcpConnection_new (ConnectionName ntop (server_name ts) a ?n) fd]) ! p) =
        ConnectionName ntop (server_name ts) b p)" if "p < ?n + 1" for p
  proof (cases "p = ?n")
    case True
    then show ?thesis using len assms(3) by (auto simp: nth_append TcpConnection_new_def)
  next
    case False
    then have "p < ?n" using that by simp
    then show ?thesis using len assms(1) by (simp add: nth_append objs_ok_def)
  qed
  then show ?thesis using assms(2) len by (simp add: objs_ok_def accepted_def)
qed

lemma accepted_owns:
  assumes "ntop_ok ntop" "objs_ok ntop ts" "owns_open ts" "connection_id ts < 10 ^ 9"
    and name: "name = ConnectionName ntop (server_name ts) a (connection_id ts)"
  shows "owns_open (accepted name fd l pool ts)"
proof -
  let ?n = "connection_id ts" and ?os = "ts_objs ts @ [TcpConnection_new name fd]"
  have len: "length (ts_objs ts) = ?n" using assms(2) by (simp add: objs_ok_def)
  have so: "map_sorted (connection_map ts)" using assms(3) by (simp add: owns_open_def)
  have old: "conn_name (ts_objs ts ! q) \<noteq> name" if q: "q < ?n" for q
  proof
    assume eq: "conn_name (ts_objs ts ! q) = name"
    obtain b where "conn_name (ts_objs ts ! q) = ConnectionName ntop (server_name ts) b q"
      using assms(2) q unfolding objs_ok_def by blast
    with eq name have "q = ?n" using names_differ [OF assms(1) _ assms(4)] q assms(4) by (metis order_less_trans)
    with q show False by simp
  qed
  have "map_find k (map_set name ?n (connection_map ts)) = Some q \<longleftrightarrow>
      q < ?n + 1 \<and> conn_name (?os ! q) = k \<and> conn_status (?os ! q) \<noteq> DISCONNECTED" for k q
  proof (cases "q = ?n")
    case True
    have "map_find k (connection_map ts) \<noteq> Some ?n" using assms(3) by (auto simp: owns_open_def)
    then show ?thesis using True len by (auto simp: map_find_set [OF so] nth_append TcpConnection_new_def)
  next
    case False
    then show ?thesis using len old [of q] assms(3)
      by (auto simp: map_find_set [OF so] nth_append owns_open_def)
  qed
  then show ?thesis using map_set_sorted [OF so] by (simp add: owns_open_def accepted_def)
qed

lemma accepted_queues:
  assumes "objs_ok ntop ts" "queues_ok rest ts" "l < length (ts_pending ts)"
  shows "queues_ok rest (accepted name fd l pool ts)"
proof -
  let ?n = "connection_id ts" and ?qs = "ts_pending ts"
  let ?os = "ts_objs ts @ [TcpConnection_new name fd]"
  have len: "length (ts_objs ts) = ?n" using assms(1) by (simp add: objs_ok_def)
  have q: "queued f (?qs[l := ?qs ! l @ [Func_Established ?n]]) = queued f ?qs + (if f = Func_Established ?n then 1 else 0)" for f
    using queued_update [OF assms(3), of f "?qs ! l @ [Func_Established ?n]"] by auto
  have 1: "count_list rest (Func_Established p) + queued (Func_Established p) (?qs[l := ?qs ! l @ [Func_Established ?n]]) =
      (if p < ?n + 1 \<and> conn_status (?os ! p) = CONNECTING then 1 else 0)" for p
    using assms(2) len by (cases "p < ?n") (auto simp: queues_ok_def nth_append TcpConnection_new_def q)
  have 2: "p < ?n + 1" if "Func_SendInLoop p d \<in> set rest \<or> 0 < queued (Func_SendInLoop p d) ?qs" for p d
  proof -
    have "p < ?n" using assms(2) that unfolding queues_ok_def by blast
    then show ?thesis by simp
  qed
  have 3: "queued (Func_SendInLoop p d) (?qs[l := ?qs ! l @ [Func_Established ?n]]) = queued (Func_SendInLoop p d) ?qs" for p d
    by (simp add: q)
  let ?ts = "accepted name fd l pool ts"
  have f: "connection_id ?ts = ?n + 1" "ts_objs ?ts = ?os" "ts_pending ?ts = ?qs[l := ?qs ! l @ [Func_Established ?n]]"
    by (simp_all add: accepted_def)
  show ?thesis unfolding queues_ok_def f 3 using 1 2 by blast
qed

lemma accept_step:
  assumes "ntop_ok ntop" "server_ok ntop rest ts" "connection_id ts < 10 ^ 9" "0 \<le> fd"
  obtains ts' where "Acceptor_OnReadable ntop (fd, a) ts = Inr ts'" "server_ok ntop rest ts'"
proof -
  have ok: "objs_ok ntop ts" "pool_known ts" "owns_open ts" "queues_ok rest ts" using assms(2) by (simp_all add: server_ok_def)
  have "pool_ok (thread_pool ts)" using ok(2) by (simp add: pool_known_def)
  from GetNextLoop_ok [OF this] obtain l pool where g: "GetNextLoop (thread_pool ts) = Inr (l, pool)" "pool_ok pool"
    "pool_loops pool = pool_loops (thread_pool ts)" "thread_num pool = thread_num (thread_pool ts)"
    "base_loop pool = base_loop (thread_pool ts)"
    "thread_num (thread_pool ts) = 0 \<longrightarrow> l = base_loop (thread_pool ts)"
    "thread_num (thread_pool ts) \<noteq> 0 \<longrightarrow> l = pool_loops (thread_pool ts) ! nat (next_thread_id (thread_pool ts))" by blast
  have l: "l < length (ts_pending ts)"
  proof (cases "thread_num (thread_pool ts) = 0")
    case True
    then show ?thesis using g(6) ok(2) by (simp add: pool_known_def)
  next
    case False
    then have "nat (next_thread_id (thread_pool ts)) < length (pool_loops (thread_pool ts))"
      using ok(2) by (auto simp: pool_known_def pool_ok_def nat_less_iff)
    then show ?thesis using g(7) False ok(2) by (simp add: pool_known_def)
  qed
  let ?name = "ConnectionName ntop (server_name ts) a (connection_id ts)"
  have len: "length (ts_objs ts) = connection_id ts" using ok(1) by (simp add: objs_ok_def)
  have "Acceptor_OnReadable ntop (fd, a) ts = Inr (accepted ?name fd l pool ts)"
    using assms(4) by (simp add: Acceptor_OnReadable_def OnNewConnection_def Let_def g(1) accepted_def len Server_RunInLoop_def)
  moreover have "pool_known (accepted ?name fd l pool ts)"
    using ok(2) g(2,3,5) by (simp add: pool_known_def accepted_def)
  ultimately show thesis using that accepted_objs [OF ok(1) assms(3) l] accepted_owns [OF assms(1) ok(1,3) assms(3) refl]
    accepted_queues [OF ok(1,4) l] by (simp add: server_ok_def)
qed

lemma run_func_step:
  assumes "hooks_ok h" "server_ok ntop (f # rest) ts" "run_func h sys batch f (ts, u) = Inr (ts', u')"
  shows "server_ok ntop rest ts'"
proof (cases f)
  case (Func_Established p)
  obtain c where e: "Established (hk_connection h) (ts_objs ts ! p) u = Inr (c, u')" "ts' = ts\<lparr>ts_objs := (ts_objs ts)[p := c]\<rparr>"
    using assms(3) Func_Established by (auto simp: run_func_def elim!: ebind_pairE)
  show ?thesis unfolding e(2)
    by (rule established_ok(1) [OF assms(2) [unfolded Func_Established] Established_stage [OF assms(1) e(1)]])
next
  case (Func_SendInLoop p d)
  obtain c v where e: "SendInLoop (sys p) None d (ts_objs ts ! p) () = Inr (c, v)" "ts' = ts\<lparr>ts_objs := (ts_objs ts)[p := c]\<rparr>"
    using assms(3) Func_SendInLoop by (auto simp: run_func_def split: if_splits elim!: ebind_pairE)
  have "p < connection_id ts" using assms(2) Func_SendInLoop by (auto simp: server_ok_def queues_ok_def)
  then show ?thesis unfolding e(2)
    using drop_send_ok [OF assms(2) [unfolded Func_SendInLoop]] SendInLoop_stage [OF e(1)] by (intro same_stage_ok)
qed

lemma batch_step:
  assumes "hooks_ok h"
  shows "server_ok ntop fs ts \<Longrightarrow> for_each (run_func h sys batch) fs (ts, u) = Inr (ts', u') \<Longrightarrow> server_ok ntop [] ts'"
proof (induction fs arbitrary: ts u)
  case Nil
  then show ?case by simp
next
  case (Cons f fs)
  obtain t v where r: "run_func h sys batch f (ts, u) = Inr (t, v)" "for_each (run_func h sys batch) fs (t, v) = Inr (ts', u')"
    using Cons.prems(2) by (cases "run_func h sys batch f (ts, u)") auto
  show ?case by (rule Cons.IH [OF run_func_step [OF assms Cons.prems(1) r(1)] r(2)])
qed

lemma turn_step:
  assumes "hooks_ok h" "server_ok ntop [] ts" "l < length (ts_pending ts)" "Server_turn h sys l (ts, u) = Inr (ts', u')"
  shows "server_ok ntop [] ts'"
proof -
  let ?qs = "ts_pending ts"
  have q: "queued f (?qs[l := []]) + count_list (?qs ! l) f = queued f ?qs" for f
    using queued_update [OF assms(3), of f "[]"] by simp
  have "server_ok ntop (?qs ! l) (ts\<lparr>ts_pending := ?qs[l := []]\<rparr>)"
  proof -
    have 1: "count_list (?qs ! l) (Func_Established p) + queued (Func_Established p) (?qs[l := []]) =
        (if p < connection_id ts \<and> conn_status (ts_objs ts ! p) = CONNECTING then 1 else 0)" for p
      using assms(2) q [of "Func_Established p"] by (simp add: server_ok_def queues_ok_def)
    have 2: "p < connection_id ts" if "Func_SendInLoop p d \<in> set (?qs ! l) \<or> 0 < queued (Func_SendInLoop p d) (?qs[l := []])" for p d
    proof -
      have "0 < queued (Func_SendInLoop p d) ?qs"
        using that q [of "Func_SendInLoop p d"] by (auto simp: count_list_0_iff intro: gr0I)
      then show ?thesis using assms(2) by (auto simp: server_ok_def queues_ok_def)
    qed
    from assms(2) 1 2 show ?thesis
      by (auto simp: server_ok_def objs_ok_def pool_known_def owns_open_def queues_ok_def)
  qed
  from batch_step [OF assms(1) this] show ?thesis using assms(4) by (simp add: Server_turn_def Let_def)
qed

lemma close_step:
  assumes "ntop_ok ntop" "hooks_ok h" "server_ok ntop [] ts" "p < connection_id ts" "conn_status (ts_objs ts ! p) \<noteq> CONNECTING"
    and "Server_close h p (ts, u) = Inr (ts', u')"
  obtains c where "same_stage (on_channel DisableAll ((ts_objs ts ! p)\<lparr>conn_status := DISCONNECTED\<rparr>)) c"
    "ts' = ts\<lparr>connection_map := map_erase (conn_name c) (connection_map ts), ts_objs := (ts_objs ts)[p := c]\<rparr>" "server_ok ntop [] ts'"
proof -
  let ?c = "on_channel DisableAll ((ts_objs ts ! p)\<lparr>conn_status := DISCONNECTED\<rparr>)"
  have e: "thesis" if "ebind r (\<lambda>a. Inr (f a)) = Inr y" "\<And>a. r = Inr a \<Longrightarrow> f a = y \<Longrightarrow> thesis"
    for r :: "(tcp_connection \<times> 'u) result" and f y thesis using that by (cases r) auto
  obtain c where c: "call (hk_connection h) ?c u = Inr (c, u')"
    "ts' = ts\<lparr>connection_map := map_erase (conn_name c) (connection_map ts), ts_objs := (ts_objs ts)[p := c]\<rparr>"
    using assms(6) by (auto simp: Server_close_def OnClose_def call_def Let_def OnCloseConnection_def GetConnectionName_def
      ebind_assoc case_prod_unfold split: option.splits elim!: e)
  note s = call_stage [OF assms(2) c(1)]
  have n: "conn_name c = conn_name (ts_objs ts ! p)" "conn_status c = DISCONNECTED"
    using s by (simp_all add: same_stage_def on_channel_stage)
  show thesis by (rule that [OF s c(2)]) (unfold c(2), rule closed_ok [OF assms(1,3,4) n assms(5)])
qed

lemma send_step:
  assumes "server_ok ntop [] ts" "p < connection_id ts" "Server_Send b sys p d ts = Inr ts'"
  shows "server_ok ntop [] ts'"
proof -
  let ?c = "ts_objs ts ! p"
  obtain task c v where s: "Send b sys None d ?c () = Inr (task, c, v)"
    "ts' = (let t = ts\<lparr>ts_objs := (ts_objs ts)[p := c]\<rparr> in
       case task of Some d \<Rightarrow> Server_RunInLoop (ts_loop t ! p) (Func_SendInLoop p d) t | None \<Rightarrow> t)"
    using assms(3) by (auto simp: Server_Send_def Let_def elim!: ebind_case3E)
  have "same_stage ?c c" using s(1) SendInLoop_stage [of sys d ?c c]
    by (auto simp: Send_def same_stage_def split: if_splits elim!: ebind_pairE)
  note 1 = same_stage_ok [OF assms(1,2) this]
  show ?thesis
  proof (cases task)
    case None
    then show ?thesis using s(2) 1 by simp
  next
    case (Some e)
    then show ?thesis using s(2) queue_send_ok [OF 1, of p e] assms(2) by simp
  qed
qed

text \<open>
  What the threads of a server do, one thing at a time: accept, a turn of a loop, a connection's end
  of stream (its channel is watched once its function has run), a \<open>Send\<close> of the user from any thread.
\<close>

inductive server_step :: "(nat \<Rightarrow> bytes \<Rightarrow> bytes) \<Rightarrow> 'u hooks \<Rightarrow> tcp_server \<times> 'u \<Rightarrow> tcp_server \<times> 'u \<Rightarrow> bool" for ntop h where
  srv_accepts: "connection_id ts < 10 ^ 9 \<Longrightarrow> Acceptor_OnReadable ntop a ts = Inr ts' \<Longrightarrow> server_step ntop h (ts, u) (ts', u)"
| srv_turns: "l < length (ts_pending ts) \<Longrightarrow> Server_turn h sys l (ts, u) = Inr s' \<Longrightarrow> server_step ntop h (ts, u) s'"
| srv_closes: "p < connection_id ts \<Longrightarrow> conn_status (ts_objs ts ! p) \<noteq> CONNECTING \<Longrightarrow> Server_close h p (ts, u) = Inr s' \<Longrightarrow>
    server_step ntop h (ts, u) s'"
| srv_sends: "p < connection_id ts \<Longrightarrow> Server_Send b sys p d ts = Inr ts' \<Longrightarrow> server_step ntop h (ts, u) (ts', u')"

definition Server_started :: "bytes \<Rightarrow> int \<Rightarrow> tcp_server" where
  "Server_started name n = Server_Start (Server_SetThreadNum n (TcpServer_new name))"

lemma started_ok: "0 \<le> n \<Longrightarrow> server_ok ntop [] (Server_started name n)"
  by (auto simp: server_ok_def objs_ok_def pool_known_def owns_open_def queues_ok_def queued_def Server_started_def
    Server_Start_def Server_SetThreadNum_def TcpServer_new_def pool_ok_def Pool_Start_def SetThreadNum_def EventLoopThreadPool_new_def
    map_find_None)

lemma server_step_ok:
  assumes "ntop_ok ntop" "hooks_ok h"
  shows "server_step ntop h s s' \<Longrightarrow> server_ok ntop [] (fst s) \<Longrightarrow> server_ok ntop [] (fst s')"
proof (induction rule: server_step.induct)
  case (srv_accepts ts a ts' u)
  obtain fd ad where a: "a = (fd, ad)" by (cases a)
  have fd: "0 \<le> fd" using srv_accepts(2) by (simp add: a Acceptor_OnReadable_def split: if_splits)
  obtain t where "Acceptor_OnReadable ntop (fd, ad) ts = Inr t" "server_ok ntop [] t"
    using accept_step [OF assms(1) srv_accepts(3) [simplified] srv_accepts(1) fd] by blast
  with srv_accepts(2) a show ?case by simp
next
  case (srv_turns l ts sys u s')
  then show ?case using turn_step [OF assms(2), of ntop ts l sys u "fst s'" "snd s'"] by simp
next
  case (srv_closes p ts u s')
  then show ?case using close_step [OF assms, of ts p u "fst s'" "snd s'"] by (metis fst_conv prod.collapse)
next
  case (srv_sends p ts b sys d ts' u u')
  then show ?case using send_step by simp
qed

lemma server_reachable_ok:
  assumes "ntop_ok ntop" "hooks_ok h" "0 \<le> n" "(server_step ntop h)\<^sup>*\<^sup>* (Server_started name n, u) s"
  shows "server_ok ntop [] (fst s)"
  using assms(4) by (induction rule: rtranclp_induct) (simp_all add: started_ok assms(3) server_step_ok [OF assms(1,2)])

section \<open>Properties\<close>

text \<open>
  C24: in every state a server can reach, whatever its number of threads and whatever they do in which order, the map
  holds exactly the accepted connections that have not been closed, each under its own name;
  no two connections ever have the same name; and a connection waits for its
  \<^verbatim>\<open>Established\<close>, queued exactly once, as long as it is connecting and no longer. A user's callback may
  shut its connection down; the bound on the connections is where the name may outgrow its buffer.
\<close>

theorem connection_map_holds_the_open:
  assumes "ntop_ok ntop" "hooks_ok h" "0 \<le> n" "(server_step ntop h)\<^sup>*\<^sup>* (Server_started name n, u) (ts, u')"
  shows "(map_find k (connection_map ts) = Some p \<longleftrightarrow>
      p < connection_id ts \<and> conn_name (ts_objs ts ! p) = k \<and> conn_status (ts_objs ts ! p) \<noteq> DISCONNECTED) \<and>
    (p < connection_id ts \<and> q < connection_id ts \<and> conn_name (ts_objs ts ! p) = conn_name (ts_objs ts ! q) \<longrightarrow> p = q) \<and>
    queued (Func_Established p) (ts_pending ts) = (if p < connection_id ts \<and> conn_status (ts_objs ts ! p) = CONNECTING then 1 else 0)"
proof -
  have ok: "server_ok ntop [] ts" using server_reachable_ok [OF assms] by simp
  then have "objs_ok ntop ts" "owns_open ts" "queues_ok [] ts" by (simp_all add: server_ok_def)
  then show ?thesis using names_distinct [OF assms(1)] by (simp add: owns_open_def queues_ok_def)
qed

lemma on_channel_recv: "recv_buffer (on_channel f c) = recv_buffer c"
  by (simp add: on_channel_def split: prod.split)

text \<open>A server with one connection, which was accepted and has become connected.\<close>

definition lone_hooks :: "unit hooks" where
  "lone_hooks = \<lparr>hk_connection = None, hk_held = \<lambda>_ _. False\<rparr>"

definition accepted_one :: "tcp_server \<Rightarrow> tcp_server result" where
  "accepted_one = Acceptor_OnReadable (\<lambda>_ _. []) (7, InetAddress_port 80 False)"

lemma lone_hooks_ok: "hooks_ok lone_hooks" by (simp add: hooks_ok_def lone_hooks_def)

lemma no_name_ok: "ntop_ok (\<lambda>_ _. [])" by (simp add: ntop_ok_def)

lemma one_connection:
  obtains ts0 ts where "accepted_one (Server_started [] 1) = Inr ts0" "Server_turn lone_hooks (\<lambda>_ _. (0, EPIPE)) 1 (ts0, ()) = Inr (ts, ())"
    "(server_step (\<lambda>_ _. []) lone_hooks)\<^sup>*\<^sup>* (Server_started [] 1, ()) (ts, ())"
    "connection_id ts = 1" "conn_status (ts_objs ts ! 0) = CONNECTED" "ts_loop ts = [1]" "ts_pending ts = [[], []]"
    "recv_buffer (ts_objs ts ! 0) = Buffer_new"
proof -
  obtain ts0 where 0: "accepted_one (Server_started [] 1) = Inr ts0" "connection_id ts0 = 1" "ts_pending ts0 = [[], [Func_Established 0]]"
      "ts_loop ts0 = [1]" "length (ts_objs ts0) = 1" "recv_buffer (ts_objs ts0 ! 0) = Buffer_new"
    by (simp add: accepted_one_def Acceptor_OnReadable_def OnNewConnection_def Server_started_def Server_Start_def Server_SetThreadNum_def
      TcpServer_new_def Pool_Start_def SetThreadNum_def EventLoopThreadPool_new_def GetNextLoop_def Let_def Server_RunInLoop_def TcpConnection_new_def)
  obtain ts where t: "Server_turn lone_hooks (\<lambda>_ _. (0, EPIPE)) 1 (ts0, ()) = Inr (ts, ())"
      "connection_id ts = 1" "conn_status (ts_objs ts ! 0) = CONNECTED" "ts_loop ts = [1]" "ts_pending ts = [[], []]"
      "recv_buffer (ts_objs ts ! 0) = Buffer_new"
    by (simp add: Server_turn_def 0 Let_def run_func_def Established_def lone_hooks_def call_def on_channel_stage on_channel_recv)
  have "server_step (\<lambda>_ _. []) lone_hooks (Server_started [] 1, ()) (ts0, ())"
    by (rule srv_accepts [OF _ 0(1) [unfolded accepted_one_def]])
      (simp add: Server_started_def Server_Start_def Server_SetThreadNum_def TcpServer_new_def)
  moreover have "server_step (\<lambda>_ _. []) lone_hooks (ts0, ()) (ts, ())"
    by (rule srv_turns [OF _ t(1)]) (simp add: 0)
  ultimately have r: "(server_step (\<lambda>_ _. []) lone_hooks)\<^sup>*\<^sup>* (Server_started [] 1, ()) (ts, ())" by auto
  show thesis by (rule that [OF 0(1) t(1) r t(2-)])
qed

theorem connection_map_holds_the_open_witness:
  "\<exists>ts k. (server_step (\<lambda>_ _. []) lone_hooks)\<^sup>*\<^sup>* (Server_started [] 1, ()) (ts, ()) \<and> map_find k (connection_map ts) = Some 0 \<and>
     conn_status (ts_objs ts ! 0) = CONNECTED"
proof -
  obtain ts0 ts where o: "(server_step (\<lambda>_ _. []) lone_hooks)\<^sup>*\<^sup>* (Server_started [] 1, ()) (ts, ())"
    "connection_id ts = 1" "conn_status (ts_objs ts ! 0) = CONNECTED" by (rule one_connection)
  have "map_find (conn_name (ts_objs ts ! 0)) (connection_map ts) = Some 0"
    using connection_map_holds_the_open [OF no_name_ok lone_hooks_ok _ o(1), of "conn_name (ts_objs ts ! 0)" 0] o(2,3) by simp
  with o show ?thesis by blast
qed

text \<open>
  C25: a \<^verbatim>\<open>Send\<close> from another thread can run on a connection that no longer exists. The queued \<^verbatim>\<open>SendInLoop\<close>
  is bound to a plain \<^verbatim>\<open>this\<close>; when the peer closes before the loop gets to it,
  the server erases its shared pointer, and unless the user still has one, the next turn of the
  connection's loop uses the connection after it was freed.
\<close>

theorem queued_send_outlives_connection:
  assumes "ntop_ok ntop" "hooks_ok h" "0 \<le> n" "(server_step ntop h)\<^sup>*\<^sup>* (Server_started name n, u0) (ts, u)"
    and "p < connection_id ts" "conn_status (ts_objs ts ! p) = CONNECTED" "ts_pending ts ! (ts_loop ts ! p) = []"
    and "Server_Send False sys p data ts = Inr ts1" "Server_close h p (ts1, u) = Inr (ts2, u2)" "\<not> hk_held h u2 p"
  shows "Server_turn h sys' (ts_loop ts ! p) (ts2, u2) = Inl UseAfterFree"
proof -
  let ?l = "ts_loop ts ! p" and ?f = "Func_SendInLoop p data"
  have ok: "server_ok ntop [] ts" using server_reachable_ok [OF assms(1-4)] by simp
  have ok1: "server_ok ntop [] ts1" by (rule send_step [OF ok assms(5,8)])
  have o: "length (ts_objs ts) = connection_id ts" "?l < length (ts_pending ts)" using ok assms(5) by (simp_all add: server_ok_def objs_ok_def)
  have 1: "ts1 = Server_RunInLoop ?l ?f ts" using assms(6,8) by (simp add: Server_Send_def Send_def Let_def)
  have s1: "ts_objs ts1 = ts_objs ts" "connection_id ts1 = connection_id ts" by (simp_all add: 1 Server_RunInLoop_def)
  obtain c where c: "same_stage (on_channel DisableAll ((ts_objs ts ! p)\<lparr>conn_status := DISCONNECTED\<rparr>)) c"
    "ts2 = ts1\<lparr>connection_map := map_erase (conn_name c) (connection_map ts1), ts_objs := (ts_objs ts1)[p := c]\<rparr>" "server_ok ntop [] ts2"
    using close_step [OF assms(1,2) ok1 _ _ assms(9)] assms(5,6) s1 by auto
  have p2: "ts_pending ts2 ! ?l = [?f]" "length (ts_pending ts2) = length (ts_pending ts)"
    using o(2) assms(7) by (simp_all add: c(2) 1 Server_RunInLoop_def)
  have closed: "conn_status (ts_objs ts2 ! p) = DISCONNECTED"
    using c(1) o(1) assms(5) by (simp add: c(2) s1 same_stage_def on_channel_stage)
  have own: "owns_open ts2" "queues_ok [] ts2" using c(3) by (simp_all add: server_ok_def)
  have "p \<notin> snd ` set (connection_map ts2)"
  proof
    assume "p \<in> snd ` set (connection_map ts2)"
    then obtain k where "(k, p) \<in> set (connection_map ts2)" by auto
    then have "map_find k (connection_map ts2) = Some p"
      using own(1) by (simp add: owns_open_def map_find_def map_sorted_distinct)
    with own(1) closed show False by (simp add: owns_open_def)
  qed
  moreover have "queued (Func_Established p) (ts_pending ts2) = 0" using own(2) closed by (simp add: queues_ok_def)
  then have "\<forall>q \<in> set (ts_pending ts2). Func_Established p \<notin> set q" using queued_pos [of "Func_Established p" "ts_pending ts2"] by auto
  then have "\<forall>q \<in> set ((ts_pending ts2)[?l := []]). Func_Established p \<notin> set q" by (auto dest!: set_update_subset_insert [THEN subsetD])
  ultimately have "\<not> alive h [?f] p (ts2\<lparr>ts_pending := (ts_pending ts2)[?l := []]\<rparr>, u2)" using assms(10) by (simp add: alive_def)
  then show ?thesis by (simp add: Server_turn_def p2 run_func_def)
qed

theorem queued_send_outlives_connection_witness:
  "\<exists>ts ts1 ts2. (server_step (\<lambda>_ _. []) lone_hooks)\<^sup>*\<^sup>* (Server_started [] 1, ()) (ts, ()) \<and>
     Server_Send False (\<lambda>d. (0, EPIPE)) 0 [65] ts = Inr ts1 \<and> Server_close lone_hooks 0 (ts1, ()) = Inr (ts2, ()) \<and>
     Server_turn lone_hooks (\<lambda>_ _. (0, EPIPE)) 1 (ts2, ()) = Inl UseAfterFree"
proof -
  obtain ts0 ts where o: "(server_step (\<lambda>_ _. []) lone_hooks)\<^sup>*\<^sup>* (Server_started [] 1, ()) (ts, ())"
    "connection_id ts = 1" "conn_status (ts_objs ts ! 0) = CONNECTED" "ts_loop ts = [1]" "ts_pending ts = [[], []]" by (rule one_connection)
  obtain ts1 where 1: "Server_Send False (\<lambda>d. (0, EPIPE)) 0 [65] ts = Inr ts1"
    using o(3) by (simp add: Server_Send_def Send_def)
  obtain ts2 where 2: "Server_close lone_hooks 0 (ts1, ()) = Inr (ts2, ())"
    by (simp add: Server_close_def OnClose_def call_def lone_hooks_def Let_def)
  have "Server_turn lone_hooks (\<lambda>_ _. (0, EPIPE)) (ts_loop ts ! 0) (ts2, ()) = Inl UseAfterFree"
    by (rule queued_send_outlives_connection [OF no_name_ok lone_hooks_ok _ o(1) _ o(3) _ 1 2])
      (simp_all add: o lone_hooks_def)
  with o(1,4) 1 2 show ?thesis by auto
qed

end
