(* ===== verification/TcpClient.thy ===== *)
theory TcpClient
  imports TcpServer
begin

text \<open>
  \<^verbatim>\<open>network/Connector.{h,cpp}\<close> and \<^verbatim>\<open>TcpClient.{h,cpp}\<close>: a connection made from this side. The connector
  connects a socket and waits, with a channel of its own, until it can be written; the client owns
  the connection that comes of it. \<open>socket(2)\<close> and \<open>connect(2)\<close> are arguments. The parameter of
  \<^verbatim>\<open>RemoveConnection\<close> is a reference, to the client's own member when \<^verbatim>\<open>DisConnect\<close> calls it.
\<close>

section \<open>Connector\<close>

datatype connector_status = CN_DISCONNECTED | CN_CONNECTING | CN_CONNECTED

datatype connect_errno = NO_ERROR | EINTR | EISCONN | EAGAIN | ECONNREFUSED | EBADF | EALREADY | OTHER_CONNECT_ERRNO

text \<open>\<open>cn_calls\<close>: the \<open>epoll_ctl\<close> calls; \<open>cn_closed\<close>: the descriptors that were closed.\<close>

record connector =
  cn_status :: connector_status
  cn_connect :: bool
  cn_channel :: "channel option"
  cn_calls :: "epoll_call list"
  cn_closed :: "int list"

definition Connector_new :: connector where
  "Connector_new = \<lparr>cn_status = CN_DISCONNECTED, cn_connect = False, cn_channel = None, cn_calls = [], cn_closed = []\<rparr>"

definition socketops_Close :: "int \<Rightarrow> connector \<Rightarrow> connector" where
  "socketops_Close sockfd c = c\<lparr>cn_closed := cn_closed c @ [sockfd]\<rparr>"

definition Retry :: "int \<Rightarrow> connector \<Rightarrow> connector" where
  "Retry sockfd c = (socketops_Close sockfd c)\<lparr>cn_status := CN_DISCONNECTED\<rparr>"

definition Connecting :: "int \<Rightarrow> connector \<Rightarrow> connector" where
  "Connecting sockfd c =
     (let c = c\<lparr>cn_status := CN_CONNECTING\<rparr>;
          (ch, calls) = EnableWritable (Channel_new_default sockfd) (cn_calls c) in
      c\<lparr>cn_channel := Some ch, cn_calls := calls\<rparr>)"

text \<open>\<open>sys\<close>: the new descriptor, and what \<open>connect(2)\<close> said.\<close>

definition Connector_Connect :: "int \<times> connect_errno \<Rightarrow> connector \<Rightarrow> connector" where
  "Connector_Connect sys c =
     (let c = c\<lparr>cn_connect := True\<rparr>; (sockfd, save_errno) = sys in
      if save_errno \<in> {NO_ERROR, EINTR, EISCONN} then Connecting sockfd c
      else if save_errno \<in> {EAGAIN, ECONNREFUSED} then Retry sockfd c
      else socketops_Close sockfd c)"

definition RemoveAndResetChannel :: "connector \<Rightarrow> (int \<times> connector) result" where
  "RemoveAndResetChannel c = (case cn_channel c of
       None \<Rightarrow> Inl NullPointer
     | Some ch \<Rightarrow> let (ch, calls) = DisableAll ch (cn_calls c) in Inr (ch_fd ch, c\<lparr>cn_channel := None, cn_calls := calls\<rparr>))"

definition Connector_Disconnect :: "connector \<Rightarrow> connector result" where
  "Connector_Disconnect c =
     (let c = c\<lparr>cn_connect := False\<rparr> in
      if cn_status c = CN_CONNECTING then
        ebind (RemoveAndResetChannel (c\<lparr>cn_status := CN_DISCONNECTED\<rparr>)) (\<lambda>(_, c). Inr c)
      else Inr c)"

definition Connector_destroy :: "connector \<Rightarrow> connector result" where
  "Connector_destroy c = Connector_Disconnect c"

definition Connector_ReConnect :: "int \<times> connect_errno \<Rightarrow> connector \<Rightarrow> connector" where
  "Connector_ReConnect sys c = Connector_Connect sys (c\<lparr>cn_status := CN_DISCONNECTED, cn_connect := True\<rparr>)"

definition HandleWrite :: "(int \<Rightarrow> 's \<Rightarrow> 's result) option \<Rightarrow> connector \<times> 's \<Rightarrow> (connector \<times> 's) result" where
  "HandleWrite connection_callback = (\<lambda>(c, s).
     if cn_status c = CN_CONNECTING then
       ebind (RemoveAndResetChannel c) (\<lambda>(sockfd, c).
       let c = c\<lparr>cn_status := CN_CONNECTED\<rparr> in
       case connection_callback of
         Some f \<Rightarrow> ebind (f sockfd s) (\<lambda>s. Inr (c, s))
       | None \<Rightarrow> Inr (c, s))
     else Inr (c, s))"

section \<open>TcpClient\<close>

record tcp_client =
  client_name :: bytes
  connection_ptr :: "nat option"
  connector_of :: connector
  client_connection_id :: nat
  client_retry :: bool
  client_connect :: bool
  client_objs :: "tcp_connection list"
  client_pending :: nat

definition TcpClient_new :: "bytes \<Rightarrow> tcp_client" where
  "TcpClient_new name = \<lparr>client_name = name, connection_ptr = None, connector_of = Connector_new, client_connection_id = 0,
     client_retry = False, client_connect = False, client_objs = [], client_pending = 0\<rparr>"

definition Client_Connect :: "tcp_client \<Rightarrow> tcp_client" where
  "Client_Connect tc = tc\<lparr>client_connect := True, client_pending := client_pending tc + 1\<rparr>"

definition Client_run_pending :: "int \<times> connect_errno \<Rightarrow> tcp_client \<Rightarrow> tcp_client" where
  "Client_run_pending sys tc = tc\<lparr>client_pending := client_pending tc - 1, connector_of := Connector_Connect sys (connector_of tc)\<rparr>"

definition SetReConnect :: "bool \<Rightarrow> tcp_client \<Rightarrow> tcp_client" where
  "SetReConnect open tc = tc\<lparr>client_retry := True\<rparr>"

text \<open>\<open>peer\<close>: what \<open>getpeername\<close> gives for the descriptor.\<close>

definition Client_OnNewConnection :: "(nat \<Rightarrow> bytes \<Rightarrow> bytes) \<Rightarrow> (int \<Rightarrow> inet_address) \<Rightarrow> 'u conn_callback option \<Rightarrow> int \<Rightarrow>
    tcp_client \<times> 'u \<Rightarrow> (tcp_client \<times> 'u) result" where
  "Client_OnNewConnection ntop peer connection_callback sockfd = (\<lambda>(tc, u).
     let address = InetAddress_of (peer sockfd);
         name = ConnectionName ntop (client_name tc) address (client_connection_id tc);
         tc = tc\<lparr>client_connection_id := client_connection_id tc + 1\<rparr>;
         p = length (client_objs tc);
         tc = tc\<lparr>client_objs := client_objs tc @ [TcpConnection_new name sockfd], connection_ptr := Some p\<rparr> in
     ebind (Established connection_callback (client_objs tc ! p) u) (\<lambda>(c, u).
     Inr (tc\<lparr>client_objs := (client_objs tc)[p := c]\<rparr>, u)))"

text \<open>The connector's channel is writable.\<close>

definition Client_HandleWrite :: "(nat \<Rightarrow> bytes \<Rightarrow> bytes) \<Rightarrow> (int \<Rightarrow> inet_address) \<Rightarrow> 'u conn_callback option \<Rightarrow>
    tcp_client \<times> 'u \<Rightarrow> (tcp_client \<times> 'u) result" where
  "Client_HandleWrite ntop peer connection_callback = (\<lambda>(tc, u).
     ebind (HandleWrite (Some (Client_OnNewConnection ntop peer connection_callback)) (connector_of tc, (tc, u))) (\<lambda>(cn, (tc, u)).
     Inr (tc\<lparr>connector_of := cn\<rparr>, u)))"

text \<open>A \<open>const TcpConnectionPtr&\<close>: a pointer of the caller's, or the member \<open>connection_ptr_\<close> itself.\<close>

datatype ptr_ref = Temporary "nat option" | Member

primrec deref :: "ptr_ref \<Rightarrow> tcp_client \<Rightarrow> nat option" where
  "deref (Temporary p) tc = p"
| "deref Member tc = connection_ptr tc"

definition RemoveConnection :: "int \<times> connect_errno \<Rightarrow> 'u conn_callback option \<Rightarrow> ptr_ref \<Rightarrow> tcp_client \<times> 'u \<Rightarrow> (tcp_client \<times> 'u) result" where
  "RemoveConnection sys connection_callback ptr = (\<lambda>(tc, u).
     if deref ptr tc = connection_ptr tc then
       let tc = tc\<lparr>connection_ptr := None\<rparr> in
       ebind (case deref ptr tc of
           None \<Rightarrow> Inl NullPointer
         | Some p \<Rightarrow> ebind (ConnectDestroyed connection_callback (client_objs tc ! p) u) (\<lambda>(c, u).
             Inr (tc\<lparr>client_objs := (client_objs tc)[p := c]\<rparr>, u))) (\<lambda>(tc, u).
       if client_retry tc \<and> client_connect tc
       then Inr (tc\<lparr>connector_of := Connector_ReConnect sys (connector_of tc)\<rparr>, u)
       else Inr (tc, u))
     else Inr (tc, u))"

definition DisConnect :: "int \<times> connect_errno \<Rightarrow> 'u conn_callback option \<Rightarrow> tcp_client \<times> 'u \<Rightarrow> (tcp_client \<times> 'u) result" where
  "DisConnect sys connection_callback = (\<lambda>(tc, u).
     RemoveConnection sys connection_callback Member (tc\<lparr>client_connect := False\<rparr>, u))"

text \<open>The destructor.\<close>

definition TcpClient_delete :: "int \<times> connect_errno \<Rightarrow> 'u conn_callback option \<Rightarrow> tcp_client \<times> 'u \<Rightarrow> (tcp_client \<times> 'u) result" where
  "TcpClient_delete sys connection_callback = DisConnect sys connection_callback"

text \<open>The peer closed the connection \<open>p\<close>: its \<open>OnClose\<close> with the client's two callbacks.\<close>

definition Client_close :: "int \<times> connect_errno \<Rightarrow> 'u conn_callback option \<Rightarrow> nat \<Rightarrow> tcp_client \<times> 'u \<Rightarrow> (tcp_client \<times> 'u) result" where
  "Client_close sys connection_callback p = (\<lambda>(tc, u).
     ebind (OnClose (map_option (\<lambda>f c (tc, u). ebind (f c u) (\<lambda>(c, u). Inr (c, (tc, u)))) connection_callback)
              (Some (\<lambda>c (tc, u). ebind (RemoveConnection sys connection_callback (Temporary (Some p)) (tc\<lparr>client_objs := (client_objs tc)[p := c]\<rparr>, u))
                (\<lambda>(tc, u). Inr (client_objs tc ! p, (tc, u))))) (client_objs tc ! p) (tc, u)) (\<lambda>(c, (tc, u)).
     Inr (tc\<lparr>client_objs := (client_objs tc)[p := c]\<rparr>, u)))"

section \<open>What the connector watches\<close>

definition connector_ok :: "connector \<Rightarrow> bool" where
  "connector_ok c \<longleftrightarrow> (cn_status c = CN_CONNECTING \<longleftrightarrow> cn_channel c \<noteq> None) \<and> (case cn_channel c of
       None \<Rightarrow> interest (cn_calls c) = (\<lambda>_. None)
     | Some ch \<Rightarrow> ch_status ch = CHANNEL_STATUS_ADDED \<and> interest (cn_calls c) = [ch_fd ch \<mapsto> EPOLLOUT])"

lemma connector_idle: "cn_status c \<noteq> CN_CONNECTING \<Longrightarrow> connector_ok c \<longleftrightarrow> cn_channel c = None \<and> interest (cn_calls c) = (\<lambda>_. None)"
  by (auto simp: connector_ok_def)

lemma connector_ok_new: "connector_ok Connector_new"
  by (auto simp: connector_ok_def Connector_new_def)

text \<open>A fresh channel is added with the one event asked for; a disabled one is removed.\<close>

lemma EnableWritable_fresh:
  "EnableWritable (Channel_new_default fd) calls =
     ((Channel_new_default fd)\<lparr>ch_ep_event := EPOLLOUT, ch_status := CHANNEL_STATUS_ADDED\<rparr>, calls @ [(EPOLL_CTL_ADD, fd, EPOLLOUT)])"
  by (simp add: EnableWritable_def UpdateChannel_def UpdateChannelInternal_def Channel_new_default_def Channel_new_def
    GetChannelStatus_def GetEpollEvent_def SetChannelStatus_def)

lemma DisableAll_removes:
  "DisableAll ch calls = (ch\<lparr>ch_ep_event := 0, ch_status := CHANNEL_STATUS_NEW\<rparr>, calls @ [(EPOLL_CTL_DEL, ch_fd ch, 0)])"
  by (simp add: DisableAll_def UpdateChannel_def GetChannelStatus_def RemoveChannel_def SetChannelStatus_def)

lemma Channel_new_default_fd [simp]: "ch_fd (Channel_new_default fd) = fd"
  by (simp add: Channel_new_default_def Channel_new_def)

lemma Connecting_fields:
  "cn_status (Connecting fd c) = CN_CONNECTING" "cn_calls (Connecting fd c) = cn_calls c @ [(EPOLL_CTL_ADD, fd, EPOLLOUT)]"
  "\<exists>ch. cn_channel (Connecting fd c) = Some ch \<and> ch_fd ch = fd \<and> ch_status ch = CHANNEL_STATUS_ADDED"
  by (simp_all add: Connecting_def EnableWritable_fresh)

lemma Connecting_ok:
  assumes "connector_ok c" "cn_channel c = None"
  shows "connector_ok (Connecting fd c)"
proof -
  obtain ch where ch: "cn_channel (Connecting fd c) = Some ch" "ch_fd ch = fd" "ch_status ch = CHANNEL_STATUS_ADDED"
    using Connecting_fields(3) by blast
  show ?thesis using assms ch by (auto simp: connector_ok_def Connecting_fields)
qed

lemma Connect_ok:
  assumes "connector_ok c" "cn_status c \<noteq> CN_CONNECTING"
  shows "connector_ok (Connector_Connect sys c)"
proof -
  have n: "cn_channel c = None" using assms by (simp add: connector_ok_def)
  have "connector_ok (c\<lparr>cn_connect := True\<rparr>)" using assms by (simp add: connector_idle)
  from Connecting_ok [OF this] n have "connector_ok (Connecting fd (c\<lparr>cn_connect := True\<rparr>))" for fd by simp
  moreover have "connector_ok (Retry fd (c\<lparr>cn_connect := True\<rparr>))" "connector_ok (socketops_Close fd (c\<lparr>cn_connect := True\<rparr>))" for fd
    using assms by (simp_all add: connector_idle Retry_def socketops_Close_def)
  ultimately show ?thesis by (simp add: Connector_Connect_def Let_def split: prod.split)
qed

lemma RemoveAndResetChannel_ok:
  assumes "connector_ok c" "cn_status c = CN_CONNECTING" "st \<noteq> CN_CONNECTING"
  obtains fd c' where "RemoveAndResetChannel c = Inr (fd, c')" "connector_ok (c'\<lparr>cn_status := st\<rparr>)"
proof -
  obtain ch where ch: "cn_channel c = Some ch" "interest (cn_calls c) = [ch_fd ch \<mapsto> EPOLLOUT]" using assms(1,2) by (auto simp: connector_ok_def)
  let ?c = "c\<lparr>cn_channel := None, cn_calls := cn_calls c @ [(EPOLL_CTL_DEL, ch_fd ch, 0)]\<rparr>"
  have "RemoveAndResetChannel c = Inr (ch_fd ch, ?c)" by (simp add: RemoveAndResetChannel_def ch(1) DisableAll_removes)
  moreover have "connector_ok (?c\<lparr>cn_status := st\<rparr>)" using assms(3) ch(2) by (simp add: connector_ok_def)
  ultimately show thesis by (rule that)
qed

lemma Disconnect_ok:
  assumes "connector_ok c"
  obtains c' where "Connector_Disconnect c = Inr c'" "connector_ok c'"
proof (cases "cn_status c = CN_CONNECTING")
  case False
  with assms show thesis by (intro that [of "c\<lparr>cn_connect := False\<rparr>"]) (simp_all add: Connector_Disconnect_def connector_idle)
next
  case True
  then obtain ch where ch: "cn_channel c = Some ch" "interest (cn_calls c) = [ch_fd ch \<mapsto> EPOLLOUT]" using assms by (auto simp: connector_ok_def)
  show thesis
    by (rule that [of "c\<lparr>cn_connect := False, cn_status := CN_DISCONNECTED, cn_channel := None, cn_calls := cn_calls c @ [(EPOLL_CTL_DEL, ch_fd ch, 0)]\<rparr>"])
      (use ch True in \<open>simp_all add: Connector_Disconnect_def RemoveAndResetChannel_def DisableAll_removes connector_ok_def\<close>)
qed

lemma HandleWrite_ok:
  assumes "connector_ok c"
  obtains c' where "HandleWrite None (c, s) = Inr (c', s)" "connector_ok c'"
proof (cases "cn_status c = CN_CONNECTING")
  case False
  with assms show thesis by (intro that) (simp_all add: HandleWrite_def)
next
  case True
  obtain fd c' where r: "RemoveAndResetChannel c = Inr (fd, c')" "connector_ok (c'\<lparr>cn_status := CN_CONNECTED\<rparr>)"
    by (rule RemoveAndResetChannel_ok [OF assms True, of CN_CONNECTED]) simp
  show thesis by (rule that [OF _ r(2)]) (simp add: HandleWrite_def True r(1))
qed

text \<open>What can happen to a connector whose user does not connect again while it is connecting.\<close>

inductive connector_step :: "connector \<Rightarrow> connector \<Rightarrow> bool" where
  connects: "cn_status c \<noteq> CN_CONNECTING \<Longrightarrow> connector_step c (Connector_Connect sys c)"
| reconnects: "cn_status c \<noteq> CN_CONNECTING \<Longrightarrow> connector_step c (Connector_ReConnect sys c)"
| disconnects: "Connector_Disconnect c = Inr c' \<Longrightarrow> connector_step c c'"
| writable: "HandleWrite None (c, ()) = Inr (c', ()) \<Longrightarrow> connector_step c c'"

lemma connector_step_ok: "connector_step c c' \<Longrightarrow> connector_ok c \<Longrightarrow> connector_ok c'"
proof (induction rule: connector_step.induct)
  case (connects c sys)
  then show ?case by (intro Connect_ok)
next
  case (reconnects c sys)
  then have "connector_ok (c\<lparr>cn_status := CN_DISCONNECTED, cn_connect := True\<rparr>)" by (auto simp: connector_ok_def)
  then show ?case unfolding Connector_ReConnect_def by (rule Connect_ok) simp
next
  case (disconnects c c')
  then show ?case using Disconnect_ok [of c] by (metis sum.inject(2))
next
  case (writable c c')
  then show ?case using HandleWrite_ok [of c "()"] by (metis sum.inject(2) prod.inject)
qed

lemma connector_reachable_ok: "connector_step\<^sup>*\<^sup>* Connector_new c \<Longrightarrow> connector_ok c"
  by (induction rule: rtranclp_induct) (simp_all add: connector_ok_new connector_step_ok)

text \<open>
  C36: a connector that is not asked to connect again while it is connecting has a channel exactly while
  it is connecting, and the kernel watches that channel's descriptor for writing and nothing else;
  neither stopping it nor a late event on the socket ever goes through the empty channel pointer.
\<close>

theorem connector_watches_its_channel:
  assumes "connector_step\<^sup>*\<^sup>* Connector_new c"
  shows "(cn_status c = CN_CONNECTING \<longleftrightarrow> cn_channel c \<noteq> None) \<and>
    interest (cn_calls c) = (case cn_channel c of None \<Rightarrow> (\<lambda>_. None) | Some ch \<Rightarrow> [ch_fd ch \<mapsto> EPOLLOUT]) \<and>
    (\<exists>c'. Connector_Disconnect c = Inr c' \<and> interest (cn_calls c') = (\<lambda>_. None)) \<and>
    (\<exists>c'. HandleWrite None (c, ()) = Inr (c', ()) \<and> interest (cn_calls c') = (\<lambda>_. None))"
proof -
  have ok: "connector_ok c" by (rule connector_reachable_ok [OF assms])
  obtain c1 where 1: "Connector_Disconnect c = Inr c1" "connector_ok c1" by (rule Disconnect_ok [OF ok])
  have s1: "cn_status c1 \<noteq> CN_CONNECTING" using 1(1)
    by (auto simp: Connector_Disconnect_def RemoveAndResetChannel_def Let_def split: if_splits option.splits prod.splits)
  obtain c2 where 2: "HandleWrite None (c, ()) = Inr (c2, ())" "connector_ok c2" by (rule HandleWrite_ok [OF ok])
  have s2: "cn_status c2 \<noteq> CN_CONNECTING" using 2(1)
    by (auto simp: HandleWrite_def Let_def split: if_splits elim!: ebind_pairE)
  from ok 1 2 s1 s2 show ?thesis by (auto simp: connector_idle) (auto simp: connector_ok_def split: option.splits)
qed

theorem connector_watches_its_channel_witness:
  "interest (cn_calls (Connector_Connect (9, NO_ERROR) Connector_new)) = [9 \<mapsto> EPOLLOUT]"
proof -
  have "connector_step\<^sup>*\<^sup>* Connector_new (Connector_Connect (9, NO_ERROR) Connector_new)"
    by (rule r_into_rtranclp, rule connects) (simp add: Connector_new_def)
  from connector_watches_its_channel [OF this] show ?thesis
    by (auto simp: Connector_Connect_def Connecting_def EnableWritable_fresh)
qed

text \<open>
  \<^verbatim>\<open>DisConnect\<close>, and with it the destructor of a client, always calls a method on a null pointer, whether
  the client is connected or not. It passes its own member by reference to
  \<^verbatim>\<open>RemoveConnection\<close>, which finds the two pointers equal, empties the member and then uses the reference.
\<close>

lemma DisConnect_uses_null:
  "DisConnect sys connection_callback (tc, u) = Inl NullPointer \<and> TcpClient_delete sys connection_callback (tc, u) = Inl NullPointer"
  by (simp add: TcpClient_delete_def DisConnect_def RemoveConnection_def)

text \<open>
  A client that is told to connect twice, before the first attempt is complete, loses the channel of the first
  one: the kernel goes on watching a descriptor whose channel has been destroyed, and no
  descriptor has been closed or handed on.
\<close>

lemma second_connect_dangles:
  assumes "fd \<noteq> fd'"
  shows "\<exists>tc. tc = Client_run_pending (fd', NO_ERROR) (Client_run_pending (fd, NO_ERROR) (Client_Connect (Client_Connect (TcpClient_new name)))) \<and>
    interest (cn_calls (connector_of tc)) fd = Some EPOLLOUT \<and> map_option ch_fd (cn_channel (connector_of tc)) = Some fd' \<and>
    cn_closed (connector_of tc) = [] \<and> client_objs tc = []"
proof -
  let ?c1 = "Connecting fd (Connector_new\<lparr>cn_connect := True\<rparr>)"
  let ?c2 = "Connecting fd' (?c1\<lparr>cn_connect := True\<rparr>)"
  have "cn_closed (Connecting x c) = cn_closed c" for x c by (simp add: Connecting_def EnableWritable_fresh)
  moreover obtain ch where "cn_channel ?c2 = Some ch" "ch_fd ch = fd'" using Connecting_fields(3) by blast
  ultimately show ?thesis using assms
    by (simp add: Client_run_pending_def Client_Connect_def TcpClient_new_def Connector_Connect_def Connecting_fields Connector_new_def interest_def)
qed

end
