(* ===== verification/Logger.thy ===== *)
theory Logger
  imports Decimal Format
begin

text \<open>
  \<^verbatim>\<open>utils/Logger.{h,cpp}\<close>, \<^verbatim>\<open>LoggerStream.cpp\<close> and \<^verbatim>\<open>Timestamp.cpp\<close>: a statement \<^verbatim>\<open>LOG_INFO << ...\<close>
  makes a line in a buffer of 512 bytes and hands it to the output when the statement ends. The
  text of the second is kept per thread. The lemmas give the line exactly and say when it fits,
  and that the line of a viewer's request, which holds the path it asked for, need not.
\<close>

section \<open>Levels\<close>

datatype log_level = DEBUG | INFO | WARN | ERROR | FATAL

primrec level_code :: "log_level \<Rightarrow> nat" where
  "level_code DEBUG = 0"
| "level_code INFO = 1"
| "level_code WARN = 2"
| "level_code ERROR = 3"
| "level_code FATAL = 4"

instantiation log_level :: linorder
begin

definition less_eq_log_level :: "log_level \<Rightarrow> log_level \<Rightarrow> bool" where
  "less_eq_log_level a b \<longleftrightarrow> level_code a \<le> level_code b"

definition less_log_level :: "log_level \<Rightarrow> log_level \<Rightarrow> bool" where
  "less_log_level a b \<longleftrightarrow> level_code a < level_code b"

instance
proof
  show "x = y" if "x \<le> y" "y \<le> x" for x y :: log_level
    using that by (cases x; cases y) (simp_all add: less_eq_log_level_def)
qed (auto simp: less_eq_log_level_def less_log_level_def)

end

definition LogLevelStr :: "log_level \<Rightarrow> bytes" where
  "LogLevelStr l = [lit ''DEBUG '', lit ''INFO  '', lit ''WARN  '', lit ''ERROR '', lit ''FATAL ''] ! level_code l"

section \<open>Time\<close>

definition UsPerSecond :: nat where "UsPerSecond = 1000 * 1000"

definition Timestamp_Now :: "nat \<times> nat \<Rightarrow> nat" where
  "Timestamp_Now time = UsPerSecond * fst time + snd time"

text \<open>\<open>gmtime_r\<close>: the year is found by counting years off, the month by counting months off.\<close>

record tm =
  tm_year :: nat
  tm_mon :: nat
  tm_mday :: nat
  tm_hour :: nat
  tm_min :: nat
  tm_sec :: nat

definition leap :: "nat \<Rightarrow> bool" where
  "leap y \<longleftrightarrow> y mod 4 = 0 \<and> (y mod 100 \<noteq> 0 \<or> y mod 400 = 0)"

definition year_length :: "nat \<Rightarrow> nat" where
  "year_length y = (if leap y then 366 else 365)"

definition month_lengths :: "nat \<Rightarrow> nat list" where
  "month_lengths y = [31, if leap y then 29 else 28, 31, 30, 31, 30, 31, 31, 30, 31, 30, 31]"

function year_of :: "nat \<Rightarrow> nat \<Rightarrow> nat \<times> nat" where
  "year_of y d = (if d < year_length y then (y, d) else year_of (y + 1) (d - year_length y))"
  by pat_completeness auto
termination by (relation "measure snd") (auto simp: year_length_def split: if_splits)

declare year_of.simps [simp del]

fun month_of :: "nat list \<Rightarrow> nat \<Rightarrow> nat \<Rightarrow> nat \<times> nat" where
  "month_of [] m d = (m, d)"
| "month_of (n # ns) m d = (if d < n then (m, d) else month_of ns (m + 1) (d - n))"

definition gmtime :: "nat \<Rightarrow> tm" where
  "gmtime s = (let (y, d) = year_of 1970 (s div 86400); (m, d) = month_of (month_lengths y) 0 d in
     \<lparr>tm_year = y - 1900, tm_mon = m, tm_mday = d + 1, tm_hour = s mod 86400 div 3600,
      tm_min = s mod 3600 div 60, tm_sec = s mod 60\<rparr>)"

text \<open>\<open>%4d\<close> fills with blanks, \<open>%02d\<close> and \<open>%06d\<close> with zeros.\<close>

definition padded :: "char \<Rightarrow> nat \<Rightarrow> nat \<Rightarrow> bytes" where
  "padded c w n = (let t = decimal n in replicate (w - length t) (of_char c) @ t)"

definition date_text :: "nat \<Rightarrow> bytes" where
  "date_text second = (let t = gmtime second in
     padded CHR '' '' 4 (tm_year t + 1900) @ padded CHR ''0'' 2 (tm_mon t + 1) @ padded CHR ''0'' 2 (tm_mday t) @ lit '' '' @
     padded CHR ''0'' 2 (tm_hour t) @ lit '':'' @ padded CHR ''0'' 2 (tm_min t) @ lit '':'' @ padded CHR ''0'' 2 (tm_sec t))"

section \<open>The buffer of a line\<close>

definition DEFAULT_LOGGER_BUFFER_SIZE :: nat where "DEFAULT_LOGGER_BUFFER_SIZE = 512"

text \<open>The first \<open>length_\<close> bytes of the array; a copy beyond its end is out of bounds.\<close>

definition LoggerBuffer_new :: bytes where "LoggerBuffer_new = []"

definition LoggerBuffer_Append :: "bytes \<Rightarrow> bytes \<Rightarrow> bytes result" where
  "LoggerBuffer_Append data b =
     (if length b + length data > DEFAULT_LOGGER_BUFFER_SIZE then Inl OutOfBounds else Inr (b @ data))"

datatype piece = Str bytes | Chr byte | Number int | Unsigned nat

fun piece_text :: "piece \<Rightarrow> bytes" where
  "piece_text (Str s) = s"
| "piece_text (Chr c) = [c]"
| "piece_text (Number i) = decimal_int i"
| "piece_text (Unsigned n) = decimal n"

fun Stream_put :: "piece list \<Rightarrow> bytes \<Rightarrow> bytes result" where
  "Stream_put [] b = Inr b"
| "Stream_put (p # ps) b = ebind (LoggerBuffer_Append (piece_text p) b) (Stream_put ps)"

section \<open>Statements\<close>

record log_thread =
  last_second :: u32
  time_str :: bytes

definition log_thread_new :: log_thread where
  "log_thread_new = \<lparr>last_second = 0, time_str = replicate 64 0\<rparr>"

text \<open>\<open>snprintf(buffer + i, size - i, ...)\<close>, with the terminating zero.\<close>

definition print_at :: "nat \<Rightarrow> bytes \<Rightarrow> bytes \<Rightarrow> bytes" where
  "print_at i text buffer = (let t = snprintf (length buffer - i) text in
     take i buffer @ t @ [0] @ drop (i + length t + 1) buffer)"

definition FormatTime :: "nat \<Rightarrow> log_thread \<Rightarrow> bytes \<Rightarrow> (log_thread \<times> bytes) result" where
  "FormatTime us_since_epoch th stream =
     (let second = us_since_epoch div UsPerSecond; us = us_since_epoch mod UsPerSecond in
      ebind (if int second \<noteq> sint (last_second th) then
           let text = date_text second;
               th = th\<lparr>last_second := of_nat second, time_str := print_at 0 text (time_str th)\<rparr> in
           if length text \<noteq> 17 then Inl AssertFailed else Inr th
         else Inr th) (\<lambda>th.
      let text = lit ''.'' @ padded CHR ''0'' 6 us @ lit '' ''; th = th\<lparr>time_str := print_at 17 text (time_str th)\<rparr> in
      if length text \<noteq> 8 then Inl AssertFailed
      else ebind (Stream_put [Str (take (17 + 8) (time_str th))] stream) (\<lambda>stream. Inr (th, stream))))"

definition Logger_new :: "log_level \<Rightarrow> nat \<Rightarrow> log_thread \<Rightarrow> (log_thread \<times> bytes) result" where
  "Logger_new level now th =
     ebind (FormatTime now th LoggerBuffer_new) (\<lambda>(th, stream).
     ebind (Stream_put [Number 123456, Chr (of_char CHR '' ''), Str (take 6 (LogLevelStr level))] stream) (\<lambda>stream. Inr (th, stream)))"

definition Finish :: "bytes \<Rightarrow> int \<Rightarrow> bytes \<Rightarrow> bytes result" where
  "Finish file_name line = Stream_put [Str (lit '' - ''), Str file_name, Chr (of_char CHR '':''), Number line, Chr 10]"

definition g_loglevel_default :: log_level where "g_loglevel_default = INFO"

definition SetLogLevel :: "log_level \<Rightarrow> log_level \<Rightarrow> log_level" where
  "SetLogLevel level g_loglevel = level"

text \<open>What a statement does: nothing below the level that is set; a fatal one ends the program.\<close>

datatype log_effect = Quiet | Wrote bytes | Aborted bytes

definition log_statement :: "log_level \<Rightarrow> log_level \<Rightarrow> nat \<Rightarrow> bytes \<Rightarrow> int \<Rightarrow> piece list \<Rightarrow> log_thread \<Rightarrow>
    (log_effect \<times> log_thread) result" where
  "log_statement g_loglevel level now file_name line ps th =
     (if \<not> g_loglevel \<le> level then Inr (Quiet, th)
      else ebind (Logger_new level now th) (\<lambda>(th, stream).
      ebind (Stream_put ps stream) (\<lambda>stream.
      ebind (Finish file_name line stream) (\<lambda>stream.
      Inr (if level = FATAL then Aborted stream else Wrote stream, th)))))"

section \<open>The date\<close>

text \<open>A year has at least 365 days.\<close>

lemma year_bound: "y \<le> n \<Longrightarrow> d < 365 * (n + 1 - y) \<Longrightarrow>
    y \<le> fst (year_of y d) \<and> fst (year_of y d) \<le> n \<and> snd (year_of y d) < year_length (fst (year_of y d))"
proof (induction y d rule: year_of.induct)
  case (1 y d)
  show ?case
  proof (cases "d < year_length y")
    case True
    then show ?thesis using 1(2) by (simp add: year_of.simps)
  next
    case False
    have "365 \<le> year_length y" by (simp add: year_length_def)
    then have "y + 1 \<le> n" "d - year_length y < 365 * (n + 1 - (y + 1))" using 1(2,3) False by linarith+
    then show ?thesis using 1(1) [OF False] False by (simp add: year_of.simps [of y d])
  qed
qed

lemma month_bound: "d < sum_list ns \<Longrightarrow> fst (month_of ns m d) < m + length ns \<and> (\<exists>n \<in> set ns. snd (month_of ns m d) < n)"
proof (induction ns m d rule: month_of.induct)
  case (2 n ns m d)
  then show ?case by (cases "d < n") auto
qed simp

lemma month_lengths_sum: "sum_list (month_lengths y) = year_length y"
  by (simp add: month_lengths_def year_length_def)

text \<open>A bound, in the year 9994, below which the year has four digits.\<close>

definition last_time :: nat where "last_time = 253234079999"

lemma gmtime_bounds:
  assumes "s \<le> last_time"
  shows "tm_year (gmtime s) + 1900 < 10000" "tm_year (gmtime s) + 1900 \<ge> 1970" "tm_mon (gmtime s) < 12" "tm_mday (gmtime s) \<le> 31"
    "tm_hour (gmtime s) < 24" "tm_min (gmtime s) < 60" "tm_sec (gmtime s) < 60"
proof -
  have "s div 86400 < 2930950" using assms by (simp add: last_time_def less_mult_imp_div_less)
  then have y: "1970 \<le> fst (year_of 1970 (s div 86400))" "fst (year_of 1970 (s div 86400)) \<le> 9999"
    "snd (year_of 1970 (s div 86400)) < year_length (fst (year_of 1970 (s div 86400)))"
    using year_bound [of 1970 9999 "s div 86400"] by simp_all
  define y d where "y = fst (year_of 1970 (s div 86400))" and "d = snd (year_of 1970 (s div 86400))"
  have yd: "year_of 1970 (s div 86400) = (y, d)" by (simp add: y_def d_def)
  have "d < sum_list (month_lengths y)" using y(3) by (simp add: month_lengths_sum y_def d_def)
  obtain m0 d0 where md: "month_of (month_lengths y) 0 d = (m0, d0)" by fastforce
  have f: "tm_year (gmtime s) = y - 1900" "tm_mon (gmtime s) = m0" "tm_mday (gmtime s) = d0 + 1"
    "tm_hour (gmtime s) = s mod 86400 div 3600" "tm_min (gmtime s) = s mod 3600 div 60" "tm_sec (gmtime s) = s mod 60"
    by (simp_all only: gmtime_def yd prod.case md Let_def tm.simps)
  have ml: "length (month_lengths y) = 12" "\<forall>n \<in> set (month_lengths y). n \<le> 31" by (simp_all add: month_lengths_def)
  from month_bound [OF \<open>d < _\<close>, of 0, unfolded md ml(1)] ml(2) have m: "m0 < 12" "d0 < 31" by (fastforce, fastforce)
  show "tm_year (gmtime s) + 1900 < 10000" "tm_year (gmtime s) + 1900 \<ge> 1970" "tm_mon (gmtime s) < 12" "tm_mday (gmtime s) \<le> 31"
    using m y(1,2) unfolding y_def [symmetric] by (simp_all add: f)
  show "tm_hour (gmtime s) < 24" "tm_min (gmtime s) < 60" "tm_sec (gmtime s) < 60"
    by (simp_all add: f less_mult_imp_div_less)
qed

lemma padded_length: "n < 10 ^ w \<Longrightarrow> 0 < w \<Longrightarrow> length (padded c w n) = w"
  using decimal_length [of n w] by (simp add: padded_def Let_def)

lemma date_text_length: "s \<le> last_time \<Longrightarrow> length (date_text s) = 17"
  using gmtime_bounds [of s] by (simp add: date_text_def Let_def padded_length)

section \<open>The line\<close>

definition us_text :: "nat \<Rightarrow> bytes" where
  "us_text us = lit ''.'' @ padded CHR ''0'' 6 us @ lit '' ''"

definition line_text :: "log_level \<Rightarrow> nat \<Rightarrow> bytes \<Rightarrow> int \<Rightarrow> piece list \<Rightarrow> bytes" where
  "line_text level now file_name line ps = date_text (now div UsPerSecond) @ us_text (now mod UsPerSecond) @
     lit ''123456 '' @ LogLevelStr level @ concat (map piece_text ps) @ lit '' - '' @ file_name @ lit '':'' @ decimal_int line @ [10]"

text \<open>What a thread keeps: the text of the second it wrote last, if it wrote any.\<close>

definition cache_ok :: "log_thread \<Rightarrow> bool" where
  "cache_ok th \<longleftrightarrow> length (time_str th) = 64 \<and> (last_second th \<noteq> 0 \<longrightarrow>
     0 \<le> sint (last_second th) \<and> take 17 (time_str th) = date_text (nat (sint (last_second th))))"

lemma cache_new: "cache_ok log_thread_new"
  by (simp add: cache_ok_def log_thread_new_def)

text \<open>Clock readings after the first second of 1970, and before the seconds need more than 31 bits.\<close>

definition clock_ok :: "nat \<Rightarrow> bool" where
  "clock_ok now \<longleftrightarrow> 0 < now div UsPerSecond \<and> now div UsPerSecond < 2 ^ 31"

lemma Stream_put_spec: "Stream_put ps b =
    (if length b + length (concat (map piece_text ps)) \<le> 512 \<or> ps = [] then Inr (b @ concat (map piece_text ps)) else Inl OutOfBounds)"
proof (induction ps arbitrary: b)
  case Nil
  then show ?case by simp
next
  case (Cons p ps)
  show ?case
  proof (cases "512 < length b + length (piece_text p)")
    case True
    then show ?thesis by (simp add: LoggerBuffer_Append_def DEFAULT_LOGGER_BUFFER_SIZE_def)
  next
    case False
    then show ?thesis using Cons.IH [of "b @ piece_text p"]
      by (auto simp: LoggerBuffer_Append_def DEFAULT_LOGGER_BUFFER_SIZE_def)
  qed
qed

lemma print_at_length: "i + length text < length buffer \<Longrightarrow> length (print_at i text buffer) = length buffer"
  by (simp add: print_at_def snprintf_fits Let_def)

lemma print_at_take: "i + length text < length buffer \<Longrightarrow> take (i + length text) (print_at i text buffer) = take i buffer @ text"
  by (simp add: print_at_def snprintf_fits Let_def)

lemma print_at_keeps: "i + length text < length buffer \<Longrightarrow> take i (print_at i text buffer) = take i buffer"
  by (simp add: print_at_def snprintf_fits Let_def)

lemma us_text_length: "length (us_text (now mod UsPerSecond)) = 8"
  by (simp add: us_text_def padded_length UsPerSecond_def)

lemma sint_second: "n < 2 ^ 31 \<Longrightarrow> sint (of_nat n :: u32) = int n"
proof -
  assume n: "n < 2 ^ 31"
  then have u: "uint (of_nat n :: u32) = int n" by (simp add: uint_nat of_nat_inverse [OF refl])
  have "sint (of_nat n :: u32) = (int n + 2 ^ 31) mod 2 ^ 32 - 2 ^ 31"
    by (simp add: sint_uint signed_take_bit_eq_take_bit_shift take_bit_eq_mod u del: uint_nat)
  with n show ?thesis by simp
qed

lemma FormatTime_line:
  assumes "cache_ok th" "clock_ok now"
  obtains th' where "FormatTime now th [] = Inr (th', date_text (now div UsPerSecond) @ us_text (now mod UsPerSecond))" "cache_ok th'"
proof -
  let ?s = "now div UsPerSecond" and ?u = "us_text (now mod UsPerSecond)"
  have s: "0 < ?s" "?s < 2 ^ 31" using assms(2) by (simp_all add: clock_ok_def)
  have d: "length (date_text ?s) = 17" using s(2) by (intro date_text_length) (simp add: last_time_def)
  note u = us_text_length [of now]
  define t where "t = (if int ?s \<noteq> sint (last_second th) then th\<lparr>last_second := of_nat ?s, time_str := print_at 0 (date_text ?s) (time_str th)\<rparr> else th)"
  have t: "length (time_str t) = 64" "take 17 (time_str t) = date_text ?s" "last_second t = of_nat ?s"
  proof -
    have len: "length (time_str th) = 64" using assms(1) by (simp add: cache_ok_def)
    show "length (time_str t) = 64" using len d by (simp add: t_def print_at_length)
    have "last_second th = of_nat ?s" if "int ?s = sint (last_second th)"
      using arg_cong [where f = "of_int :: int \<Rightarrow> u32", OF that] by simp
    then show "last_second t = of_nat ?s" by (simp add: t_def)
    show "take 17 (time_str t) = date_text ?s"
    proof (cases "int ?s = sint (last_second th)")
      case True
      then have "last_second th \<noteq> 0" using s(1) by (auto simp: UsPerSecond_def)
      with assms(1) True [symmetric] show ?thesis by (simp add: cache_ok_def t_def)
    next
      case False
      then show ?thesis using print_at_take [of 0 "date_text ?s" "time_str th"] len d by (simp add: t_def)
    qed
  qed
  define t' where "t' = t\<lparr>time_str := print_at 17 ?u (time_str t)\<rparr>"
  have w: "take 25 (time_str t') = date_text ?s @ ?u"
    using print_at_take [of 17 ?u "time_str t"] t(1,2) u by (simp add: t'_def)
  have e: "(if int ?s \<noteq> sint (last_second th) then if length (date_text ?s) \<noteq> 17 then Inl AssertFailed
      else Inr (th\<lparr>last_second := of_nat ?s, time_str := print_at 0 (date_text ?s) (time_str th)\<rparr>) else Inr th) = Inr t"
    using d by (simp add: t_def)
  have "FormatTime now th [] = Inr (t', date_text ?s @ ?u)"
    unfolding FormatTime_def Let_def e us_text_def [symmetric] using u w t(1) print_at_length [of 17 ?u "time_str t"]
    by (simp add: t'_def Stream_put_spec d)
  moreover have "cache_ok t'"
    using t u sint_second [OF s(2)] print_at_length [of 17 ?u "time_str t"] print_at_keeps [of 17 ?u "time_str t"]
    by (simp add: cache_ok_def t'_def)
  ultimately show thesis by (rule that)
qed

lemma LogLevelStr_length [simp]: "length (LogLevelStr l) = 6"
  by (cases l) (simp_all add: LogLevelStr_def)

lemma log_statement_line:
  assumes "cache_ok th" "clock_ok now" "g \<le> level"
  obtains th' where "cache_ok th'" "log_statement g level now file_name line ps th =
    (if length (line_text level now file_name line ps) \<le> 512
     then Inr ((if level = FATAL then Aborted else Wrote) (line_text level now file_name line ps), th') else Inl OutOfBounds)"
proof -
  let ?h = "date_text (now div UsPerSecond) @ us_text (now mod UsPerSecond)"
  obtain t where f: "FormatTime now th [] = Inr (t, ?h)" "cache_ok t" by (rule FormatTime_line [OF assms(1,2)])
  have "length (date_text (now div UsPerSecond)) = 17"
    using assms(2) by (intro date_text_length) (simp add: clock_ok_def last_time_def)
  then have h: "length ?h = 25" using us_text_length [of now] by simp
  have p: "piece_text (Number 123456) @ piece_text (Chr (of_char CHR '' '')) = lit ''123456 ''"
    by (simp add: decimal_int_def decimal.simps decimal_digit_def lit_def of_char_def)
  have p6: "length (decimal_int 123456) = 6" by (simp add: decimal_int_def decimal.simps)
  have n: "Logger_new level now th = Inr (t, ?h @ lit ''123456 '' @ LogLevelStr level)"
    using h p p6 by (simp add: Logger_new_def LoggerBuffer_new_def f(1) Stream_put_spec)
  have e: "log_statement g level now file_name line ps th =
    (if length (line_text level now file_name line ps) \<le> 512
     then Inr ((if level = FATAL then Aborted else Wrote) (line_text level now file_name line ps), t) else Inl OutOfBounds)"
    using assms(3) h by (simp add: log_statement_def n Finish_def Stream_put_spec line_text_def lit_def)
  show thesis by (rule that [OF f(2) e])
qed

text \<open>The statements of one thread: level, clock reading, file, line and pieces of each.\<close>

type_synonym log_call = "log_level \<times> nat \<times> bytes \<times> int \<times> piece list"

fun log_run :: "log_level \<Rightarrow> log_call list \<Rightarrow> log_thread \<Rightarrow> bytes list result" where
  "log_run g [] th = Inr []"
| "log_run g ((level, now, file_name, line, ps) # calls) th =
     ebind (log_statement g level now file_name line ps th) (\<lambda>(effect, th). case effect of
       Quiet \<Rightarrow> log_run g calls th
     | Wrote text \<Rightarrow> ebind (log_run g calls th) (\<lambda>texts. Inr (text # texts))
     | Aborted text \<Rightarrow> Inr [text])"

fun call_text :: "log_call \<Rightarrow> bytes" where
  "call_text (level, now, file_name, line, ps) = line_text level now file_name line ps"

fun call_ok :: "log_call \<Rightarrow> bool" where
  "call_ok (level, now, file_name, line, ps) \<longleftrightarrow> clock_ok now \<and> level \<noteq> FATAL \<and> length (line_text level now file_name line ps) \<le> 512"

lemma log_run_lines: "cache_ok th \<Longrightarrow> \<forall>c \<in> set calls. call_ok c \<Longrightarrow>
    log_run g calls th = Inr (map call_text (filter (\<lambda>(level, _). g \<le> level) calls))"
proof (induction g calls th rule: log_run.induct)
  case (2 g level now file_name line ps calls th)
  show ?case
  proof (cases "g \<le> level")
    case False
    then have s: "log_statement g level now file_name line ps th = Inr (Quiet, th)" by (simp add: log_statement_def)
    from 2(1) [OF refl 2(3)] 2(4) False s show ?thesis by simp
  next
    case True
    have ok: "clock_ok now" "level \<noteq> FATAL" "length (line_text level now file_name line ps) \<le> 512" using 2(4) by simp_all
    obtain t where t: "cache_ok t" "log_statement g level now file_name line ps th = Inr (Wrote (line_text level now file_name line ps), t)"
      using log_statement_line [OF 2(3) ok(1) True, of file_name line ps] ok(2,3) by auto
    from 2(2) [OF refl t(1)] 2(4) True t(2) show ?thesis by simp
  qed
qed simp

text \<open>
  C34: the lines a thread writes. Whatever the order of its clock readings, as long as they are
  in the range of a 32-bit second, the text of the time kept from one line to the next never
  shows in the lines: every statement at or above the level that is set writes
  its own time, level, pieces, file and line number, the others write nothing, as long as no
  line is longer than the buffer of 512 bytes.
\<close>

theorem log_lines:
  assumes "\<forall>c \<in> set calls. call_ok c"
  shows "log_run g calls log_thread_new = Inr (map call_text (filter (\<lambda>(level, _). g \<le> level) calls))"
  by (rule log_run_lines [OF cache_new assms])

lemma clock_2020: "clock_ok 1600000000000000"
  by (simp add: clock_ok_def UsPerSecond_def)

theorem log_lines_witness:
  "\<exists>t. log_run INFO [(DEBUG, 1600000000000000, [], 1, []), (INFO, 1600000000000000, lit ''a.cpp'', 7, [Number 5])] log_thread_new = Inr [t]"
proof -
  have l: "length (date_text 1600000000) = 17" by (rule date_text_length) (simp add: last_time_def)
  have "log_run INFO [(DEBUG, 1600000000000000, [], 1, []), (INFO, 1600000000000000, lit ''a.cpp'', 7, [Number 5])] log_thread_new =
      Inr (map call_text (filter (\<lambda>(level, _). INFO \<le> level)
        [(DEBUG, 1600000000000000, [], 1, []), (INFO, 1600000000000000, lit ''a.cpp'', 7, [Number 5])]))"
    using l us_text_length [of 1600000000000000]
    by (intro log_lines) (simp add: clock_2020 line_text_def UsPerSecond_def decimal_int_def decimal.simps)
  then show ?thesis by (simp add: less_eq_log_level_def)
qed

section \<open>The line of a request\<close>

text \<open>What \<^verbatim>\<open>OnClientMessage\<close> of \<^verbatim>\<open>main.cpp\<close> logs about a request whose stream it found or did not find.\<close>

definition request_log :: "bool \<Rightarrow> log_level \<Rightarrow> nat \<Rightarrow> bytes \<Rightarrow> bytes \<Rightarrow> log_thread \<Rightarrow> (log_effect \<times> log_thread) result" where
  "request_log found g now name connection_data th =
     ebind (GetUrl connection_data) (\<lambda>url.
     if found then log_statement g INFO now (lit ''main.cpp'') 83
       [Str (lit ''connection: ''), Str name, Str (lit '', request url: ''), Str url, Str (lit '' success'')] th
     else log_statement g INFO now (lit ''main.cpp'') 91
       [Str (lit ''connection: ''), Str name, Str (lit '', request url: ''), Str url, Str (lit '' failed'')] th)"

lemma request_line_length:
  assumes "clock_ok now"
  shows "length (line_text INFO now (lit ''main.cpp'') 83 [Str (lit ''connection: ''), Str name, Str (lit '', request url: ''), Str url,
      Str (lit '' success'')]) = length name + length url + 88"
    "length (line_text INFO now (lit ''main.cpp'') 91 [Str (lit ''connection: ''), Str name, Str (lit '', request url: ''), Str url,
      Str (lit '' failed'')]) = length name + length url + 87"
proof -
  have "length (date_text (now div UsPerSecond)) = 17"
    using assms by (intro date_text_length) (simp add: clock_ok_def last_time_def)
  then show "length (line_text INFO now (lit ''main.cpp'') 83 [Str (lit ''connection: ''), Str name, Str (lit '', request url: ''), Str url,
      Str (lit '' success'')]) = length name + length url + 88"
    "length (line_text INFO now (lit ''main.cpp'') 91 [Str (lit ''connection: ''), Str name, Str (lit '', request url: ''), Str url,
      Str (lit '' failed'')]) = length name + length url + 87"
    using us_text_length [of now] by (simp_all add: line_text_def decimal_int_def decimal.simps)
qed

text \<open>
  C35: a request writes behind the end of the log buffer, which lives on the stack,
  exactly when the name of its connection and the path it asks for are
  together longer than 424 bytes (425 when no such stream exists). The path is the viewer's choice, and the
  line is on at the default level.
\<close>

theorem long_request_overflows_log:
  assumes "SPACE \<notin> set m" "SPACE \<notin> set p" "p \<noteq> []" "length m + length p + length rest + 3 \<le> max_size"
    and "cache_ok th" "clock_ok now"
  shows "request_log found g_loglevel_default now name (m @ SPACE # SLASH # p @ SPACE # rest) th = Inl OutOfBounds \<longleftrightarrow>
    length name + length (strip_slash p) > (if found then 424 else 425)"
proof -
  have g: "g_loglevel_default \<le> INFO" by (simp add: g_loglevel_default_def)
  note l = log_statement_line [OF assms(5,6) g]
  let ?ps = "\<lambda>t. [Str (lit ''connection: ''), Str name, Str (lit '', request url: ''), Str (strip_slash p), Str (lit t)]"
  show ?thesis
  proof (cases found)
    case True
    show ?thesis by (rule l [of "lit ''main.cpp''" 83 "?ps '' success''"])
      (simp add: request_log_def GetUrl_of_request [OF assms(1-4)] True request_line_length [OF assms(6)])
  next
    case False
    show ?thesis by (rule l [of "lit ''main.cpp''" 91 "?ps '' failed''"])
      (simp add: request_log_def GetUrl_of_request [OF assms(1-4)] False request_line_length [OF assms(6)])
  qed
qed

theorem long_request_overflows_log_witness:
  "request_log False g_loglevel_default 1600000000000000 [] (lit ''GET'' @ SPACE # SLASH # replicate 426 97 @ SPACE # []) log_thread_new =
    Inl OutOfBounds"
proof -
  have "SPACE \<notin> set (replicate 426 (97 :: byte))" by simp
  moreover have "length (lit ''GET'') + length (replicate 426 (97 :: byte)) + length [] + 3 \<le> max_size" by (simp add: max_size_def)
  moreover have "strip_slash (replicate 426 97) = replicate 426 97" by (simp add: strip_slash_def)
  ultimately show ?thesis
    using long_request_overflows_log [of "lit ''GET''" "replicate 426 97" "[]" log_thread_new 1600000000000000 False "[]"]
    by (simp add: cache_new clock_2020 lit_def of_char_def)
qed

end
