(* ===== verification/Mysql.thy ===== *)
theory Mysql
  imports StdMap
begin

text \<open>
  \<^verbatim>\<open>mysql/Field.{h,cpp}\<close>, \<^verbatim>\<open>QueryResult.{h,cpp}\<close>, \<^verbatim>\<open>DbMysql.{h,cpp}\<close> and \<^verbatim>\<open>mapper/UserMapper.cpp\<close>: the rows of a query one at a
  time, the connection to the database and the look-up of a publisher's password. The MySQL client library is
  an argument: its result is of a type \<open>'r\<close> with \<open>mysql_fetch_row\<close>, and what its functions return
  is a record of answers. Its handle is null, live or freed: \<open>mysql_close\<close> frees
  it, \<open>mysql_init\<close> makes a live one of a null one and writes into any other.
\<close>

section \<open>Field\<close>

datatype data_type = DATA_TYPE_UNKNOWN | DATA_TYPE_INTEGER | DATA_TYPE_STRING | DATA_TYPE_BOOL | DATA_TYPE_FLOAT

record field =
  field_type :: data_type
  field_data :: bytes
  nullptr_data :: bool

definition Field_new :: field where
  "Field_new = \<lparr>field_type = DATA_TYPE_UNKNOWN, field_data = [], nullptr_data = True\<rparr>"

definition SetDataType :: "data_type \<Rightarrow> field \<Rightarrow> field" where
  "SetDataType t f = f\<lparr>field_type := t\<rparr>"

definition SetData :: "bytes \<Rightarrow> nat \<Rightarrow> field \<Rightarrow> field" where
  "SetData data len f = f\<lparr>field_data := take len data\<rparr>"

definition SetNullptr :: "bool \<Rightarrow> field \<Rightarrow> field" where
  "SetNullptr b f = f\<lparr>nullptr_data := b\<rparr>"

definition GetString :: "field \<Rightarrow> bytes" where
  "GetString f = field_data f"

text \<open>What a C string reader sees of it.\<close>

definition GetCStr :: "field \<Rightarrow> bytes" where
  "GetCStr f = takeWhile (\<lambda>c. c \<noteq> 0) (field_data f @ [0])"

section \<open>QueryResult\<close>

datatype native_type = FIELD_TYPE_TIMESTAMP | FIELD_TYPE_DATE | FIELD_TYPE_TIME | FIELD_TYPE_DATETIME | FIELD_TYPE_YEAR
  | FIELD_TYPE_STRING | FIELD_TYPE_VAR_STRING | FIELD_TYPE_BLOB | FIELD_TYPE_SET | FIELD_TYPE_NULL
  | FIELD_TYPE_TINY | FIELD_TYPE_SHORT | FIELD_TYPE_LONG | FIELD_TYPE_INT24 | FIELD_TYPE_LONGLONG | FIELD_TYPE_ENUM
  | FIELD_TYPE_DECIMAL | FIELD_TYPE_FLOAT | FIELD_TYPE_DOUBLE | FIELD_TYPE_OTHER

fun ConvertNativeType :: "native_type \<Rightarrow> data_type" where
  "ConvertNativeType FIELD_TYPE_TIMESTAMP = DATA_TYPE_STRING"
| "ConvertNativeType FIELD_TYPE_DATE = DATA_TYPE_STRING"
| "ConvertNativeType FIELD_TYPE_TIME = DATA_TYPE_STRING"
| "ConvertNativeType FIELD_TYPE_DATETIME = DATA_TYPE_STRING"
| "ConvertNativeType FIELD_TYPE_YEAR = DATA_TYPE_STRING"
| "ConvertNativeType FIELD_TYPE_STRING = DATA_TYPE_STRING"
| "ConvertNativeType FIELD_TYPE_VAR_STRING = DATA_TYPE_STRING"
| "ConvertNativeType FIELD_TYPE_BLOB = DATA_TYPE_STRING"
| "ConvertNativeType FIELD_TYPE_SET = DATA_TYPE_STRING"
| "ConvertNativeType FIELD_TYPE_NULL = DATA_TYPE_STRING"
| "ConvertNativeType FIELD_TYPE_TINY = DATA_TYPE_INTEGER"
| "ConvertNativeType FIELD_TYPE_SHORT = DATA_TYPE_INTEGER"
| "ConvertNativeType FIELD_TYPE_LONG = DATA_TYPE_INTEGER"
| "ConvertNativeType FIELD_TYPE_INT24 = DATA_TYPE_INTEGER"
| "ConvertNativeType FIELD_TYPE_LONGLONG = DATA_TYPE_INTEGER"
| "ConvertNativeType FIELD_TYPE_ENUM = DATA_TYPE_INTEGER"
| "ConvertNativeType FIELD_TYPE_DECIMAL = DATA_TYPE_FLOAT"
| "ConvertNativeType FIELD_TYPE_FLOAT = DATA_TYPE_FLOAT"
| "ConvertNativeType FIELD_TYPE_DOUBLE = DATA_TYPE_FLOAT"
| "ConvertNativeType FIELD_TYPE_OTHER = DATA_TYPE_UNKNOWN"

record 'r query_result =
  field_map :: "(bytes \<times> nat) list"
  q_fields :: "field list option"
  q_res :: "'r option"
  num_fields :: nat
  num_rows :: nat

type_synonym row = "bytes option list"
type_synonym 'r fetch = "'r \<Rightarrow> row option \<times> 'r"

definition EndQuery :: "'r query_result \<Rightarrow> 'r query_result" where
  "EndQuery q = q\<lparr>q_fields := None, q_res := None\<rparr>"

definition QueryResult_destroy :: "'r query_result \<Rightarrow> 'r query_result" where
  "QueryResult_destroy q = EndQuery q"

definition set_field :: "bytes option \<Rightarrow> field \<Rightarrow> field" where
  "set_field d f = (case d of Some data \<Rightarrow> SetData data (length data) (SetNullptr False f) | None \<Rightarrow> SetData [] 0 (SetNullptr True f))"

text \<open>The loop over the columns: \<open>row[i]\<close> and \<open>fields_[i]\<close>.\<close>

fun set_fields :: "nat \<Rightarrow> nat \<Rightarrow> row \<Rightarrow> field list \<Rightarrow> field list result" where
  "set_fields i 0 row fs = Inr fs"
| "set_fields i (Suc n) row fs =
     (if \<not> i < length row \<or> \<not> i < length fs then Inl OutOfBounds
      else set_fields (i + 1) n row (fs[i := set_field (row ! i) (fs ! i)]))"

definition NextRow :: "'r fetch \<Rightarrow> 'r query_result \<Rightarrow> (bool \<times> 'r query_result) result" where
  "NextRow fetch_row q = (case q_res q of
       None \<Rightarrow> Inr (False, q)
     | Some res \<Rightarrow> (let (row, res) = fetch_row res; q = q\<lparr>q_res := Some res\<rparr> in
         (case row of
           None \<Rightarrow> Inr (False, EndQuery q)
         | Some row \<Rightarrow> (case q_fields q of
             None \<Rightarrow> Inl NullPointer
           | Some fs \<Rightarrow> ebind (set_fields 0 (num_fields q) row fs) (\<lambda>fs. Inr (True, q\<lparr>q_fields := Some fs\<rparr>))))))"

definition map_emplace :: "'k::linorder \<Rightarrow> 'v \<Rightarrow> ('k \<times> 'v) list \<Rightarrow> ('k \<times> 'v) list" where
  "map_emplace k v m = (if map_find k m = None then map_set k v m else m)"

text \<open>
  \<open>columns\<close> are the \<^verbatim>\<open>MYSQL_FIELD\<close>s that can be read behind the pointer \<^verbatim>\<open>mysql_fetch_field\<close> returns, and
  \<open>fields[i]\<close> beyond them is out of bounds. The documentation of that function promises one, the column at its
  cursor; in the library's present layout the columns of a result lie in one array, and
  they can all be read. \<open>fields_->SetDataType\<close> in the loop is the first field's.
\<close>

fun name_fields :: "nat \<Rightarrow> nat \<Rightarrow> (bytes \<times> native_type) list \<Rightarrow> (bytes \<times> nat) list \<times> field list \<Rightarrow> ((bytes \<times> nat) list \<times> field list) result" where
  "name_fields i 0 columns s = Inr s"
| "name_fields i (Suc n) columns (fmap, fs) =
     (if \<not> i < length columns \<or> fs = [] then Inl OutOfBounds
      else name_fields (i + 1) n columns (map_emplace (fst (columns ! i)) i fmap,
        fs[0 := SetDataType (ConvertNativeType (snd (columns ! i))) (fs ! 0)]))"

definition QueryResult_new :: "'r fetch \<Rightarrow> (bytes \<times> native_type) list \<Rightarrow> 'r \<Rightarrow> nat \<Rightarrow> nat \<Rightarrow> 'r query_result result" where
  "QueryResult_new fetch_row columns res n rows =
     ebind (name_fields 0 n columns ([], replicate n Field_new)) (\<lambda>(fmap, fs).
     ebind (NextRow fetch_row \<lparr>field_map = fmap, q_fields = Some fs, q_res = Some res, num_fields = n, num_rows = rows\<rparr>) (\<lambda>(_, q). Inr q))"

text \<open>\<open>operator[]\<close>: a name that is no column's gets the entry 0.\<close>

definition Result_field :: "bytes \<Rightarrow> 'r query_result \<Rightarrow> (field \<times> 'r query_result) result" where
  "Result_field field_name q =
     (let (i, fmap) = map_index 0 field_name (field_map q); q = q\<lparr>field_map := fmap\<rparr> in
      case q_fields q of None \<Rightarrow> Inl NullPointer
      | Some fs \<Rightarrow> if \<not> i < length fs then Inl OutOfBounds else Inr (fs ! i, q))"

section \<open>DbMysql\<close>

datatype handle = Null_handle | Live_handle | Freed_handle

definition mysql_init :: "handle \<Rightarrow> handle result" where
  "mysql_init h = (if h = Freed_handle then Inl UseAfterFree else Inr Live_handle)"

definition mysql_close :: "handle \<Rightarrow> handle result" where
  "mysql_close h = (case h of Null_handle \<Rightarrow> Inr h | Live_handle \<Rightarrow> Inr Freed_handle | Freed_handle \<Rightarrow> Inl UseAfterFree)"

record database_info =
  db_host :: bytes
  db_user :: bytes
  db_passwd :: bytes
  db_name :: bytes

text \<open>
  The answers of the server: to a connection, to a statement, and the result of a query with what can be read of its columns at
  once, their number (\<^verbatim>\<open>mysql_field_count\<close>) and the number of rows.
\<close>

record 'r mysql_server =
  real_connect :: "database_info \<Rightarrow> bool"
  real_query :: "bytes \<Rightarrow> int"
  store_result :: "bytes \<Rightarrow> ('r \<times> (bytes \<times> native_type) list \<times> nat \<times> nat) option"
  server_gone :: bool

record db_mysql =
  db_info :: database_info
  inited :: bool
  mysql :: handle

definition DbMysql_new :: db_mysql where
  "DbMysql_new = \<lparr>db_info = \<lparr>db_host = [], db_user = [], db_passwd = [], db_name = []\<rparr>, inited = False, mysql = Null_handle\<rparr>"

definition DbMysql_delete :: "db_mysql \<Rightarrow> db_mysql result" where
  "DbMysql_delete db = (if mysql db \<noteq> Null_handle \<and> inited db then ebind (mysql_close (mysql db)) (\<lambda>h. Inr (db\<lparr>mysql := h\<rparr>)) else Inr db)"

definition Initialize :: "'r mysql_server \<Rightarrow> database_info \<Rightarrow> db_mysql \<Rightarrow> (bool \<times> db_mysql) result" where
  "Initialize srv info db =
     ebind (if inited db then ebind (mysql_close (mysql db)) (\<lambda>h. Inr (db\<lparr>mysql := h\<rparr>)) else Inr db) (\<lambda>db.
     let db = db\<lparr>db_info := info\<rparr> in
     ebind (mysql_init (mysql db)) (\<lambda>h.
     let db = db\<lparr>mysql := h\<rparr> in
     if real_connect srv info then Inr (True, db\<lparr>inited := True\<rparr>)
     else ebind (mysql_close (mysql db)) (\<lambda>h. Inr (False, db\<lparr>mysql := h\<rparr>))))"

definition with_connection :: "'r mysql_server \<Rightarrow> db_mysql \<Rightarrow> (bool \<times> db_mysql) result" where
  "with_connection srv db = (if \<not> inited db then Initialize srv (db_info db) db else Inr (True, db))"

definition Query :: "'r fetch \<Rightarrow> 'r mysql_server \<Rightarrow> bytes \<Rightarrow> db_mysql \<Rightarrow> ('r query_result option \<times> db_mysql) result" where
  "Query fetch_row srv sql db =
     ebind (with_connection srv db) (\<lambda>(ok, db).
     if \<not> ok then Inr (None, db)
     else if mysql db = Freed_handle then Inl UseAfterFree
     else if real_query srv sql = 0 then (case store_result srv sql of
         Some (res, columns, n, rows) \<Rightarrow> ebind (QueryResult_new fetch_row columns res n rows) (\<lambda>q. Inr (Some q, db))
       | None \<Rightarrow> Inr (None, db))
     else Inr (None, db))"

definition Execute :: "'r mysql_server \<Rightarrow> bytes \<Rightarrow> db_mysql \<Rightarrow> (bool \<times> db_mysql) result" where
  "Execute srv sql db =
     ebind (with_connection srv db) (\<lambda>(ok, db).
     if \<not> ok then Inr (False, db)
     else if mysql db = Freed_handle then Inl UseAfterFree
     else if real_query srv sql = 0 then Inr (True, db)
     else if server_gone srv then
       ebind (Initialize srv (db_info db) db) (\<lambda>(ok, db). Inr (ok \<and> real_query srv sql = 0, db))
     else Inr (False, db))"

section \<open>UserMapper\<close>

definition UserMapper_Initialize :: "'r mysql_server \<Rightarrow> database_info \<Rightarrow> db_mysql \<Rightarrow> (bool \<times> db_mysql) result" where
  "UserMapper_Initialize server info db = Initialize server info db"

definition user_query :: bytes where "user_query = lit ''select user, passwd from live_user''"

text \<open>The \<open>do ... while (NextRow())\<close> loop; every turn but the last takes a row.\<close>

fun find_user :: "nat \<Rightarrow> 'r fetch \<Rightarrow> bytes \<Rightarrow> 'r query_result \<Rightarrow> bytes option result" where
  "find_user fuel fetch_row username q =
     ebind (Result_field (lit ''user'') q) (\<lambda>(f, q).
     if GetString f = username then
       ebind (Result_field (lit ''passwd'') q) (\<lambda>(f, q). Inr (Some (GetString f)))
     else ebind (NextRow fetch_row q) (\<lambda>(next_row, q).
       if \<not> next_row then Inr None
       else case fuel of 0 \<Rightarrow> Inl Diverges | Suc fuel \<Rightarrow> find_user fuel fetch_row username q))"

definition GetPasswdByUser :: "nat \<Rightarrow> 'r fetch \<Rightarrow> 'r mysql_server \<Rightarrow> bytes \<Rightarrow> db_mysql \<Rightarrow> (bytes \<times> db_mysql) result" where
  "GetPasswdByUser fuel fetch_row srv username db =
     ebind (Query fetch_row srv user_query db) (\<lambda>(result, db). case result of
       None \<Rightarrow> Inr ([], db)
     | Some q \<Rightarrow> ebind (find_user fuel fetch_row username q) (\<lambda>p. Inr (case p of Some p \<Rightarrow> p | None \<Rightarrow> [], db)))"

section \<open>Rows\<close>

text \<open>\<open>mysql_fetch_row\<close> gives the rows of a result one after the other, and then null.\<close>

definition fetch_ok :: "('r \<Rightarrow> row list) \<Rightarrow> 'r fetch \<Rightarrow> bool" where
  "fetch_ok rows fetch_row \<longleftrightarrow> (\<forall>r. case rows r of [] \<Rightarrow> fst (fetch_row r) = None
     | row # later \<Rightarrow> fst (fetch_row r) = Some row \<and> rows (snd (fetch_row r)) = later)"

lemma fetch_none: "fetch_ok rows fetch_row \<Longrightarrow> rows r = [] \<Longrightarrow> fst (fetch_row r) = None"
  unfolding fetch_ok_def by (drule spec [of _ r]) simp

lemma fetch_some:
  assumes "fetch_ok rows fetch_row" "rows r = row # later"
  obtains r' where "fetch_row r = (Some row, r')" "rows r' = later"
proof -
  have "fst (fetch_row r) = Some row" "rows (snd (fetch_row r)) = later"
    using assms unfolding fetch_ok_def by (auto dest: spec [of _ r])
  then show thesis by (intro that [of "snd (fetch_row r)"]) (simp_all add: prod_eq_iff)
qed

lemma set_fields_all: "i + n = length row \<Longrightarrow> length fs = length row \<Longrightarrow>
    set_fields i n row fs = Inr (take i fs @ map2 set_field (drop i row) (drop i fs))"
proof (induction i n row fs rule: set_fields.induct)
  case (2 i n row fs)
  then have i: "i < length row" "i < length fs" by simp_all
  have "drop i row = row ! i # drop (i + 1) row" "drop i fs = fs ! i # drop (i + 1) fs"
    using i by (simp_all add: Cons_nth_drop_Suc)
  moreover have "take (i + 1) (fs[i := x]) = take i fs @ [x]" for x
    using i by (simp add: take_Suc_conv_app_nth)
  ultimately show ?case using 2 i by simp
qed simp

lemma NextRow_row:
  assumes "q_res q = Some r" "fetch_row r = (Some row, r')" "q_fields q = Some fs" "length fs = num_fields q" "length row = num_fields q"
  shows "NextRow fetch_row q = Inr (True, q\<lparr>q_res := Some r', q_fields := Some (map2 set_field row fs)\<rparr>)"
  using assms set_fields_all [of 0 "num_fields q" row fs] by (simp add: NextRow_def)

lemma NextRow_end:
  assumes "q_res q = Some r" "fst (fetch_row r) = None"
  shows "NextRow fetch_row q = Inr (False, EndQuery q)"
  using assms by (cases "fetch_row r") (simp add: NextRow_def EndQuery_def)

lemma set_field_type [simp]: "field_type (set_field d f) = field_type f"
  by (simp add: set_field_def SetData_def SetNullptr_def split: option.splits)

text \<open>The text of a column of a row; a null is an empty text.\<close>

definition column_text :: "bytes option \<Rightarrow> bytes" where
  "column_text d = (case d of Some x \<Rightarrow> x | None \<Rightarrow> [])"

lemma set_field_text [simp]: "GetString (set_field d f) = column_text d"
  by (simp add: set_field_def GetString_def SetData_def SetNullptr_def column_text_def split: option.splits)

section \<open>The shape of a result\<close>

text \<open>What a field says of its column in the current row: nothing for a null.\<close>

definition field_value :: "field \<Rightarrow> bytes option" where
  "field_value f = (if nullptr_data f then None else Some (GetString f))"

lemma set_field_value [simp]: "field_value (set_field d f) = d"
  by (simp add: field_value_def set_field_def GetString_def SetData_def SetNullptr_def split: option.splits)

text \<open>The first column of a name.\<close>

fun name_index :: "bytes \<Rightarrow> bytes list \<Rightarrow> nat option" where
  "name_index k [] = None"
| "name_index k (x # xs) = (if x = k then Some 0 else map_option Suc (name_index k xs))"

lemma name_index_snoc: "name_index k (xs @ [x]) =
    (case name_index k xs of Some i \<Rightarrow> Some i | None \<Rightarrow> if x = k then Some (length xs) else None)"
  by (induction xs) (auto split: option.splits)

lemma name_index_less: "name_index k xs = Some i \<Longrightarrow> i < length xs"
  by (induction xs arbitrary: i) (auto split: if_splits)

text \<open>The column a name stands for: the first of that name, and the first of all when there is none.\<close>

definition column_of :: "bytes list \<Rightarrow> bytes \<Rightarrow> nat" where
  "column_of names k = (case name_index k names of Some i \<Rightarrow> i | None \<Rightarrow> 0)"

lemma column_of_less: "names \<noteq> [] \<Longrightarrow> column_of names k < length names"
  by (auto simp: column_of_def dest: name_index_less split: option.splits)

text \<open>
  A result that stands at the first row of \<open>cur\<close>, or has ended when there is none: its entries for
  names lead to the first columns, its fields show the row, and the library still has the later ones.
\<close>

definition stands_at :: "('r \<Rightarrow> row list) \<Rightarrow> bytes list \<Rightarrow> data_type list \<Rightarrow> row list \<Rightarrow> 'r query_result \<Rightarrow> bool" where
  "stands_at rows names types cur q \<longleftrightarrow> map_sorted (field_map q) \<and> num_fields q = length types \<and>
     (\<forall>k. fst (map_index 0 k (field_map q)) = column_of names k) \<and>
     (case cur of [] \<Rightarrow> q_fields q = None \<and> q_res q = None
      | row # later \<Rightarrow> \<exists>fs r. q_fields q = Some fs \<and> q_res q = Some r \<and> map field_type fs = types \<and>
          map field_value fs = row \<and> rows r = later \<and> (\<forall>row \<in> set later. length row = length types))"

lemma stands_EndQuery: "stands_at rows names types cur q \<Longrightarrow> stands_at rows names types [] (EndQuery q)"
  by (simp add: stands_at_def EndQuery_def)

text \<open>A call of \<open>NextRow\<close> on a result that has not ended moves to what the library gives next.\<close>

lemma NextRow_moves:
  assumes "fetch_ok rows fetch_row" "q_res q = Some r" "q_fields q = Some fs" "map field_type fs = types" "num_fields q = length types"
    and "\<forall>row \<in> set (rows r). length row = length types" "map_sorted (field_map q)"
    and "\<forall>k. fst (map_index 0 k (field_map q)) = column_of names k"
  obtains q' where "NextRow fetch_row q = Inr (rows r \<noteq> [], q')" "stands_at rows names types (rows r) q'"
proof (cases "rows r")
  case Nil
  have e: "NextRow fetch_row q = Inr (False, EndQuery q)"
    by (rule NextRow_end [where r = r]) (fact assms(2), rule fetch_none [OF assms(1) Nil])
  show thesis by (rule that [of "EndQuery q"]) (use assms Nil e in \<open>simp_all add: stands_at_def EndQuery_def\<close>)
next
  case (Cons row later)
  obtain r' where r': "fetch_row r = (Some row, r')" "rows r' = later" by (rule fetch_some [OF assms(1) Cons])
  have len: "length row = length types" "length fs = length types" using assms(4,6) Cons by auto
  have t: "map field_type (map2 set_field row fs) = types" "map field_value (map2 set_field row fs) = row"
    using len assms(4) by (auto simp: list_eq_iff_nth_eq)
  note e = NextRow_row [where fetch_row = fetch_row and q = q and r = r and row = row and r' = r' and fs = fs, OF assms(2) r'(1) assms(3)]
  have n: "length fs = num_fields q" "length row = num_fields q" using len assms(5) by simp_all
  show thesis by (rule that [OF _ _]) (use e [OF n] Cons in simp, use assms t Cons r'(2) in \<open>simp add: stands_at_def\<close>)
qed

lemma NextRow_stands:
  assumes "fetch_ok rows fetch_row" "stands_at rows names types cur q"
  obtains q' where "NextRow fetch_row q = Inr (tl cur \<noteq> [], q')" "stands_at rows names types (tl cur) q'"
proof (cases cur)
  case Nil
  then show thesis using assms(2) by (intro that [of q]) (simp_all add: NextRow_def stands_at_def)
next
  case (Cons row later)
  then obtain fs r where r: "q_fields q = Some fs" "q_res q = Some r" "map field_type fs = types" "rows r = later"
      "num_fields q = length types" "map_sorted (field_map q)" "\<forall>k. fst (map_index 0 k (field_map q)) = column_of names k"
      "\<forall>row \<in> set (rows r). length row = length types"
    using assms(2) by (auto simp: stands_at_def)
  obtain q' where q': "NextRow fetch_row q = Inr (rows r \<noteq> [], q')" "stands_at rows names types (rows r) q'"
    by (rule NextRow_moves [OF assms(1) r(2,1,3,5,8,6,7)])
  show thesis by (rule that) (use q' Cons r(4) in simp_all)
qed

lemma Result_field_stands:
  assumes "stands_at rows names types cur q" "names \<noteq> []" "length names = length types"
  shows "case cur of [] \<Rightarrow> Result_field k q = Inl NullPointer
    | row # later \<Rightarrow> \<exists>f q'. Result_field k q = Inr (f, q') \<and> field_value f = row ! column_of names k \<and> stands_at rows names types cur q'"
proof -
  let ?m = "snd (map_index 0 k (field_map q))"
  have so: "map_sorted (field_map q)" and i: "\<And>k. fst (map_index 0 k (field_map q)) = column_of names k"
    using assms(1) by (simp_all add: stands_at_def)
  have f: "fst (map_index 0 k' ?m) = column_of names k'" for k'
    using i [of k'] i [of k] by (auto simp: map_index_value map_index_find [OF so] split: option.splits if_splits)
  have q': "stands_at rows names types cur (q\<lparr>field_map := ?m\<rparr>)"
    using assms(1) f map_index_sorted [OF so] by (simp add: stands_at_def split: list.splits)
  show ?thesis
  proof (cases cur)
    case Nil
    then show ?thesis using assms(1) by (simp add: stands_at_def Result_field_def Let_def case_prod_unfold)
  next
    case (Cons row later)
    then obtain fs where fs: "q_fields q = Some fs" "map field_type fs = types" "map field_value fs = row"
      using assms(1) by (auto simp: stands_at_def)
    have l: "column_of names k < length fs" using column_of_less [OF assms(2), of k] assms(3) fs(2) by auto
    then have "Result_field k q = Inr (fs ! column_of names k, q\<lparr>field_map := ?m\<rparr>)"
      using fs(1) i by (simp add: Result_field_def Let_def case_prod_unfold)
    then show ?thesis using q' l fs(3) Cons by auto
  qed
qed

section \<open>The constructor\<close>

text \<open>The columns give the types: the first field gets the last column's, the others keep theirs.\<close>

definition column_types :: "(bytes \<times> native_type) list \<Rightarrow> data_type list" where
  "column_types columns = (if columns = [] then []
     else ConvertNativeType (snd (last columns)) # replicate (length columns - 1) DATA_TYPE_UNKNOWN)"

lemma name_fields_short:
  "i \<le> length columns \<Longrightarrow> length columns < i + n \<Longrightarrow> name_fields i n columns s = Inl OutOfBounds"
  by (induction i n columns s rule: name_fields.induct) auto

lemma name_fields_ok:
  assumes "i + n \<le> length columns" "fs \<noteq> []" "map_sorted m" "\<forall>k. map_find k m = name_index k (map fst (take i columns))"
  obtains m' fs' where "name_fields i n columns (m, fs) = Inr (m', fs')" "map_sorted m'"
    "\<forall>k. map_find k m' = name_index k (map fst (take (i + n) columns))"
    "map field_type fs' = (if n = 0 then map field_type fs
       else ConvertNativeType (snd (columns ! (i + n - 1))) # tl (map field_type fs))"
  using assms
proof (induction n arbitrary: i m fs thesis)
  case (Suc n)
  let ?m = "map_emplace (fst (columns ! i)) i m" and ?t = "ConvertNativeType (snd (columns ! i))"
  let ?fs = "fs[0 := SetDataType ?t (fs ! 0)]"
  have i: "i < length columns" "(i + 1) + n \<le> length columns" using Suc.prems(2) by simp_all
  obtain f fs1 where fs: "fs = f # fs1" using Suc.prems(3) by (cases fs) auto
  have ty: "map field_type ?fs = ?t # tl (map field_type fs)" "?fs \<noteq> []" by (simp_all add: fs SetDataType_def)
  have m: "map_sorted ?m" using Suc.prems(4) by (simp add: map_emplace_def map_set_sorted)
  have f: "\<forall>k. map_find k ?m = name_index k (map fst (take (i + 1) columns))"
    using Suc.prems(4,5) i(1) by (auto simp: map_emplace_def map_find_set take_Suc_conv_app_nth name_index_snoc split: option.splits)
  obtain m' fs' where r: "name_fields (i + 1) n columns (?m, ?fs) = Inr (m', fs')" "map_sorted m'"
      "\<forall>k. map_find k m' = name_index k (map fst (take (i + 1 + n) columns))"
      "map field_type fs' = (if n = 0 then map field_type ?fs else ConvertNativeType (snd (columns ! (i + 1 + n - 1))) # tl (map field_type ?fs))"
    by (rule Suc.IH [OF _ i(2) ty(2) m f])
  have "map field_type fs' = ConvertNativeType (snd (columns ! (i + n))) # tl (map field_type fs)"
    using r(4) ty(1) by (cases n) simp_all
  moreover have "name_fields i (Suc n) columns (m, fs) = Inr (m', fs')" using r(1) i(1) Suc.prems(3) by simp
  ultimately show ?case using Suc.prems(1) r(2,3) by simp
qed simp

lemma QueryResult_new_stands:
  assumes "fetch_ok rows fetch_row" "0 < n" "n \<le> length columns" "\<forall>row \<in> set (rows res). length row = n"
  obtains q where "QueryResult_new fetch_row columns res n m = Inr q"
    "stands_at rows (map fst (take n columns)) (column_types (take n columns)) (rows res) q"
proof -
  let ?cs = "take n columns"
  have z: "0 + n \<le> length columns" "replicate n Field_new \<noteq> []" "map_sorted ([] :: (bytes \<times> nat) list)"
    "\<forall>k. map_find k ([] :: (bytes \<times> nat) list) = name_index k (map fst (take 0 columns))"
    using assms(2,3) by (simp_all add: map_find_def)
  obtain fm fs where r: "name_fields 0 n columns ([], replicate n Field_new) = Inr (fm, fs)" "map_sorted fm"
      "\<forall>k. map_find k fm = name_index k (map fst (take (0 + n) columns))"
      "map field_type fs = (if n = 0 then map field_type (replicate n Field_new)
         else ConvertNativeType (snd (columns ! (0 + n - 1))) # tl (map field_type (replicate n Field_new)))"
    by (rule name_fields_ok [OF z])
  have len: "length (column_types ?cs) = n" using assms(2,3) by (auto simp: column_types_def)
  have "last ?cs = columns ! (n - 1)" using assms(2,3) by (subst last_conv_nth) auto
  then have t: "map field_type fs = column_types ?cs" "num_fields q = n \<Longrightarrow> num_fields q = length (column_types ?cs)" for q :: "'a query_result"
    using r(4) assms(2,3) len by (auto simp: column_types_def Field_new_def min_def)
  let ?q = "\<lparr>field_map = fm, q_fields = Some fs, q_res = Some res, num_fields = n, num_rows = m\<rparr>"
  have f: "\<forall>k. fst (map_index 0 k (field_map ?q)) = column_of (map fst ?cs) k"
    using r(3) by (simp add: map_index_value column_of_def)
  obtain q where q: "NextRow fetch_row ?q = Inr (rows res \<noteq> [], q)" "stands_at rows (map fst ?cs) (column_types ?cs) (rows res) q"
    by (rule NextRow_moves [where q = ?q, OF assms(1) _ _ t(1) _ _ _ f]) (use assms(4) len r(2) in simp_all)
  show thesis by (rule that [OF _ q(2)]) (simp add: QueryResult_new_def r(1) q(1))
qed

section \<open>A user of a result\<close>

text \<open>What its user does with a result, and what comes back.\<close>

datatype result_op = Next_row | Column bytes | End_query

datatype result_out = Moved bool | Value "bytes option"

fun result_run :: "'r fetch \<Rightarrow> result_op list \<Rightarrow> 'r query_result \<Rightarrow> (result_out list \<times> 'r query_result) result" where
  "result_run fetch_row [] q = Inr ([], q)"
| "result_run fetch_row (Next_row # ops) q =
     ebind (NextRow fetch_row q) (\<lambda>(b, q). ebind (result_run fetch_row ops q) (\<lambda>(out, q). Inr (Moved b # out, q)))"
| "result_run fetch_row (Column k # ops) q =
     ebind (Result_field k q) (\<lambda>(f, q). ebind (result_run fetch_row ops q) (\<lambda>(out, q). Inr (Value (field_value f) # out, q)))"
| "result_run fetch_row (End_query # ops) q = result_run fetch_row ops (EndQuery q)"

text \<open>
  The specification: a cursor over the rows of the table. A column can be read only while it
  stands at a row; \<open>None\<close> is the access after the last.
\<close>

fun cursor_run :: "bytes list \<Rightarrow> result_op list \<Rightarrow> row list \<Rightarrow> (result_out list \<times> row list) option" where
  "cursor_run names [] cur = Some ([], cur)"
| "cursor_run names (Next_row # ops) cur = map_option (apfst (Cons (Moved (tl cur \<noteq> [])))) (cursor_run names ops (tl cur))"
| "cursor_run names (Column k # ops) [] = None"
| "cursor_run names (Column k # ops) (row # later) =
     map_option (apfst (Cons (Value (row ! column_of names k)))) (cursor_run names ops (row # later))"
| "cursor_run names (End_query # ops) cur = cursor_run names ops []"

lemma result_run_is_cursor:
  assumes "fetch_ok rows fetch_row" "names \<noteq> []" "length names = length types"
  shows "stands_at rows names types cur q \<Longrightarrow> case cursor_run names ops cur of
      None \<Rightarrow> result_run fetch_row ops q = Inl NullPointer
    | Some (out, cur') \<Rightarrow> \<exists>q'. result_run fetch_row ops q = Inr (out, q') \<and> stands_at rows names types cur' q'"
proof (induction ops arbitrary: q cur)
  case (Cons op ops)
  show ?case
  proof (cases op)
    case Next_row
    obtain q' where n: "NextRow fetch_row q = Inr (tl cur \<noteq> [], q')" "stands_at rows names types (tl cur) q'"
      by (rule NextRow_stands [OF assms(1) Cons.prems])
    then show ?thesis using Cons.IH [OF n(2)] Next_row by (auto split: option.splits)
  next
    case (Column k)
    show ?thesis
    proof (cases cur)
      case Nil
      then show ?thesis using Result_field_stands [OF Cons.prems assms(2,3), of k] Column by simp
    next
      case (Cons row later)
      then obtain f q' where f: "Result_field k q = Inr (f, q')" "field_value f = row ! column_of names k" "stands_at rows names types cur q'"
        using Result_field_stands [OF Cons.prems assms(2,3), of k] by auto
      show ?thesis using Cons.IH [OF f(3)] f(1,2) Column \<open>cur = row # later\<close> by (auto split: option.splits)
    qed
  next
    case End_query
    then show ?thesis using Cons.IH [OF stands_EndQuery [OF Cons.prems]] by (auto split: option.splits)
  qed
qed simp

section \<open>Properties\<close>

text \<open>
  C37: a result is a cursor over the rows of its query, whatever its user does with it, in which order. Reading a column by its name
  gives the value of the first column of that name in the current row (of the first of all, when there is none of that
  name); \<open>NextRow\<close> says whether there is another row. The only fault is the null pointer, and it occurs exactly when a
  column is read after the rows have run out or \<open>EndQuery\<close> was called. The code sets the type
  of the first field in every turn of its loop, so that the first field has the type of the last column, and the others
  have none. All this needs all the columns to be readable behind the pointer of \<^verbatim>\<open>mysql_fetch_field\<close>; with the one its documentation
  promises, the constructor of a result of two columns reads out of bounds.
\<close>

theorem result_types:
  assumes "fetch_ok rows fetch_row" "0 < n" "\<forall>row \<in> set (rows res). length row = n"
  shows "if length columns < n then QueryResult_new fetch_row columns res n m = Inl OutOfBounds
    else case cursor_run (map fst (take n columns)) ops (rows res) of
      None \<Rightarrow> ebind (QueryResult_new fetch_row columns res n m) (result_run fetch_row ops) = Inl NullPointer
    | Some (out, cur) \<Rightarrow> \<exists>q. ebind (QueryResult_new fetch_row columns res n m) (result_run fetch_row ops) = Inr (out, q) \<and>
        (case cur of [] \<Rightarrow> q_fields q = None \<and> q_res q = None
         | row # later \<Rightarrow> \<exists>fs r. q_fields q = Some fs \<and> q_res q = Some r \<and> map field_value fs = row \<and> rows r = later \<and>
             map field_type fs = ConvertNativeType (snd (columns ! (n - 1))) # replicate (n - 1) DATA_TYPE_UNKNOWN)"
proof (cases "length columns < n")
  case True
  then show ?thesis by (simp add: QueryResult_new_def name_fields_short)
next
  case False
  then have n: "n \<le> length columns" by simp
  let ?names = "map fst (take n columns)" and ?types = "column_types (take n columns)"
  obtain q where q: "QueryResult_new fetch_row columns res n m = Inr q" "stands_at rows ?names ?types (rows res) q"
    by (rule QueryResult_new_stands [OF assms(1,2) n assms(3)])
  have ne: "take n columns \<noteq> []" using assms(2) n by auto
  have l: "?names \<noteq> []" "length ?names = length ?types" using assms(2) n ne by (auto simp: column_types_def)
  have ty: "?types = ConvertNativeType (snd (columns ! (n - 1))) # replicate (n - 1) DATA_TYPE_UNKNOWN"
    using assms(2) n ne by (simp add: column_types_def last_conv_nth min_def)
  from result_run_is_cursor [OF assms(1) l q(2), of ops] show ?thesis
    unfolding if_not_P [OF False] q(1) ty by (fastforce simp: stands_at_def split: option.splits list.splits)
qed

text \<open>The simplest library: a result is the list of its rows.\<close>

definition list_fetch :: "row list fetch" where
  "list_fetch rows = (case rows of [] \<Rightarrow> (None, []) | row # rows \<Rightarrow> (Some row, rows))"

lemma list_fetch_ok: "fetch_ok (\<lambda>rows. rows) list_fetch"
  by (simp add: fetch_ok_def list_fetch_def split: list.splits)

theorem result_types_witness:
  "\<exists>q. ebind (QueryResult_new list_fetch [(lit ''id'', FIELD_TYPE_LONG), (lit ''user'', FIELD_TYPE_VAR_STRING)]
      [[Some [49], Some [97]], [Some [50], None]] 2 2) (result_run list_fetch [Column (lit ''user''), Next_row, Column (lit ''user'')]) =
    Inr ([Value (Some [97]), Moved True, Value None], q)"
proof -
  let ?cs = "[(lit ''id'', FIELD_TYPE_LONG), (lit ''user'', FIELD_TYPE_VAR_STRING)]"
  have c: "cursor_run (map fst (take 2 ?cs)) [Column (lit ''user''), Next_row, Column (lit ''user'')]
      [[Some [49], Some [97]], [Some [50], None]] = Some ([Value (Some [97]), Moved True, Value None], [[Some [50], None]])"
    by (simp add: column_of_def lit_def of_char_def)
  show ?thesis
    using result_types [OF list_fetch_ok, of 2 "[[Some [49], Some [97]], [Some [50], None]]" ?cs 2
      "[Column (lit ''user''), Next_row, Column (lit ''user'')]"] unfolding c by auto
qed

lemma find_user_rows:
  assumes "fetch_ok rows fetch_row"
  shows "\<lbrakk>q_res q = Some r; q_fields q = Some fs; length fs = 2; num_fields q = 2; map_find (lit ''user'') (field_map q) = Some 0;
      map_find (lit ''passwd'') (field_map q) = Some 1; \<forall>row \<in> set (rows r). length row = 2; length (rows r) \<le> fuel\<rbrakk> \<Longrightarrow>
    find_user fuel fetch_row username q = Inr (if GetString (fs ! 0) = username then Some (GetString (fs ! 1))
      else map_option (\<lambda>row. column_text (row ! 1)) (find (\<lambda>row. column_text (row ! 0) = username) (rows r)))"
proof (induction fuel arbitrary: q r fs)
  case (0 q r fs)
  have n: "NextRow fetch_row q = Inr (False, EndQuery q)"
    by (rule NextRow_end [where r = r and fetch_row = fetch_row and q = q, OF 0(1) fetch_none [OF assms]]) (use 0 in simp)
  have "rows r = []" using 0 by simp
  then show ?case using 0 by (simp add: Result_field_def map_index_def n)
next
  case (Suc fuel q r fs)
  have u: "Result_field (lit ''user'') q = Inr (fs ! 0, q)" "Result_field (lit ''passwd'') q = Inr (fs ! 1, q)"
    using Suc.prems by (simp_all add: Result_field_def map_index_def)
  show ?case
  proof (cases "rows r")
    case Nil
    have "NextRow fetch_row q = Inr (False, EndQuery q)"
      by (rule NextRow_end [where r = r and fetch_row = fetch_row and q = q, OF Suc.prems(1) fetch_none [OF assms Nil]])
    then show ?thesis using Nil by (simp add: u)
  next
    case (Cons row later)
    obtain r' where r': "fetch_row r = (Some row, r')" "rows r' = later" by (rule fetch_some [OF assms Cons])
    have row: "length row = 2" using Suc.prems(7) Cons by simp
    let ?fs = "map2 set_field row fs"
    let ?q = "q\<lparr>q_res := Some r', q_fields := Some ?fs\<rparr>"
    have n: "NextRow fetch_row q = Inr (True, ?q)"
      by (rule NextRow_row [where r = r and fetch_row = fetch_row and q = q and row = row and r' = r' and fs = fs, OF Suc.prems(1) r'(1) Suc.prems(2)]) (use Suc.prems row in simp_all)
    have t: "GetString (?fs ! 0) = column_text (row ! 0)" "GetString (?fs ! 1) = column_text (row ! 1)"
      using row Suc.prems(3) by simp_all
    have "find_user fuel fetch_row username ?q = Inr (if GetString (?fs ! 0) = username then Some (GetString (?fs ! 1))
        else map_option (\<lambda>row. column_text (row ! 1)) (find (\<lambda>row. column_text (row ! 0) = username) (rows r')))"
      by (rule Suc.IH) (use Suc.prems row Cons r' in simp_all)
    then show ?thesis unfolding Cons t r'(2) by (simp add: u n)
  qed
qed

lemma user_result:
  assumes "fetch_ok rows fetch_row" "\<forall>row \<in> set (rows res). length row = 2"
  shows "\<exists>q. QueryResult_new fetch_row ((lit ''user'', t1) # (lit ''passwd'', t2) # others) res 2 n = Inr q \<and>
    field_map q = [(lit ''passwd'', 1), (lit ''user'', 0)] \<and> num_fields q = 2 \<and> (case rows res of
      [] \<Rightarrow> q_fields q = None | row # later \<Rightarrow> \<exists>r fs. q_res q = Some r \<and> rows r = later \<and> q_fields q = Some fs \<and> length fs = 2 \<and>
        GetString (fs ! 0) = column_text (row ! 0) \<and> GetString (fs ! 1) = column_text (row ! 1))"
proof -
  let ?cs = "(lit ''user'', t1) # (lit ''passwd'', t2) # others" and ?m = "[(lit ''passwd'', 1), (lit ''user'', 0 :: nat)]"
  have m: "map_emplace (lit ''passwd'') 1 [(lit ''user'', 0 :: nat)] = ?m" "map_emplace (lit ''user'') 0 [] = [(lit ''user'', 0 :: nat)]"
    by (simp_all add: map_emplace_def map_find_def lit_def of_char_def less_list_code)
  have "\<exists>fs. name_fields 0 2 ?cs ([], replicate 2 Field_new) = Inr (?m, fs) \<and> length fs = 2"
    by (simp add: numeral_2_eq_2 m [simplified])
  then obtain fs where fs: "name_fields 0 2 ?cs ([], replicate 2 Field_new) = Inr (?m, fs)" "length fs = 2" by blast
  let ?q = "\<lparr>field_map = ?m, q_fields = Some fs, q_res = Some res, num_fields = 2, num_rows = n\<rparr>"
  show ?thesis
  proof (cases "rows res")
    case Nil
    have "NextRow fetch_row ?q = Inr (False, EndQuery ?q)"
      by (rule NextRow_end [where r = res and fetch_row = fetch_row and q = ?q, OF _ fetch_none [OF assms(1) Nil]]) simp
    then show ?thesis using Nil by (simp add: QueryResult_new_def fs(1) EndQuery_def)
  next
    case (Cons row later)
    obtain r' where r': "fetch_row res = (Some row, r')" "rows r' = later" by (rule fetch_some [OF assms(1) Cons])
    have row: "length row = 2" using assms(2) Cons by simp
    have "NextRow fetch_row ?q = Inr (True, ?q\<lparr>q_res := Some r', q_fields := Some (map2 set_field row fs)\<rparr>)"
      by (rule NextRow_row [where r = res and fetch_row = fetch_row and q = ?q and row = row and r' = r' and fs = fs, OF _ r'(1)]) (use fs(2) row in simp_all)
    then show ?thesis using Cons r'(2) row fs(2) by (simp add: QueryResult_new_def fs(1))
  qed
qed

text \<open>
  A connected database whose user table gives \<open>res\<close>, and a library whose \<^verbatim>\<open>mysql_fetch_field\<close> points to
  both columns, one behind the other.
\<close>

definition has_users :: "'r mysql_server \<Rightarrow> 'r \<Rightarrow> db_mysql \<Rightarrow> bool" where
  "has_users srv res db \<longleftrightarrow> inited db \<and> mysql db = Live_handle \<and> real_query srv user_query = 0 \<and>
     (\<exists>t1 t2 others n. store_result srv user_query = Some (res, (lit ''user'', t1) # (lit ''passwd'', t2) # others, 2, n))"

text \<open>
  C38: looking up a password gives the one of the first row with that user name, and an
  empty one when there is none, which a caller cannot tell from an empty password. When the table has
  no rows at all the constructor has already ended the result, and the first access goes through a null pointer. The loop
  ends within as many turns as there are rows. That both columns can be read behind the pointer of
  \<^verbatim>\<open>mysql_fetch_field\<close> is part of \<open>has_users\<close>: the documentation of that function promises one.
\<close>

theorem GetPasswdByUser_spec:
  assumes "fetch_ok rows fetch_row" "has_users srv res db" "\<forall>row \<in> set (rows res). length row = 2" "length (rows res) \<le> fuel"
  shows "GetPasswdByUser fuel fetch_row srv username db =
    (if rows res = [] then Inl NullPointer
     else Inr (case find (\<lambda>row. column_text (row ! 0) = username) (rows res) of
         Some row \<Rightarrow> column_text (row ! 1) | None \<Rightarrow> [], db))"
proof -
  obtain t1 t2 others n where st: "store_result srv user_query = Some (res, (lit ''user'', t1) # (lit ''passwd'', t2) # others, 2, n)"
    using assms(2) by (auto simp: has_users_def)
  obtain q where q: "QueryResult_new fetch_row ((lit ''user'', t1) # (lit ''passwd'', t2) # others) res 2 n = Inr q"
      "field_map q = [(lit ''passwd'', 1), (lit ''user'', 0)]" "num_fields q = 2" and rest: "case rows res of
      [] \<Rightarrow> q_fields q = None | row # later \<Rightarrow> \<exists>r fs. q_res q = Some r \<and> rows r = later \<and> q_fields q = Some fs \<and> length fs = 2 \<and>
        GetString (fs ! 0) = column_text (row ! 0) \<and> GetString (fs ! 1) = column_text (row ! 1)"
    using user_result [OF assms(1,3)] by blast
  have "Query fetch_row srv user_query db = Inr (Some q, db)"
    using assms(2) by (simp add: Query_def with_connection_def has_users_def st q(1))
  then have g: "GetPasswdByUser fuel fetch_row srv username db =
      ebind (find_user fuel fetch_row username q) (\<lambda>p. Inr (case p of Some p \<Rightarrow> p | None \<Rightarrow> [], db))"
    by (simp add: GetPasswdByUser_def)
  have k: "map_find (lit ''user'') (field_map q) = Some 0" "map_find (lit ''passwd'') (field_map q) = Some 1"
    by (simp_all add: q(2) map_find_def lit_def of_char_def)
  show ?thesis
  proof (cases "rows res")
    case Nil
    have "find_user fuel fetch_row username q = Inl NullPointer"
      using rest Nil by (cases fuel) (simp_all add: Result_field_def map_index_def k Let_def)
    then show ?thesis using Nil g by simp
  next
    case (Cons row later)
    then obtain r fs where r: "q_res q = Some r" "rows r = later" "q_fields q = Some fs" "length fs = 2"
      "GetString (fs ! 0) = column_text (row ! 0)" "GetString (fs ! 1) = column_text (row ! 1)" using rest by auto
    have "find_user fuel fetch_row username q = Inr (if GetString (fs ! 0) = username then Some (GetString (fs ! 1))
        else map_option (\<lambda>row. column_text (row ! 1)) (find (\<lambda>row. column_text (row ! 0) = username) (rows r)))"
      by (rule find_user_rows [OF assms(1) r(1,3,4) q(3) k]) (use assms(3,4) Cons r(2) in simp_all)
    then show ?thesis unfolding g Cons r(2,5,6) by (simp split: option.split)
  qed
qed

definition users_server :: "row list mysql_server" where
  "users_server = \<lparr>real_connect = \<lambda>_. True, real_query = \<lambda>_. 0,
     store_result = \<lambda>_. Some ([[Some [97], Some [1]], [Some [98], Some [2]]], [(lit ''user'', FIELD_TYPE_VAR_STRING), (lit ''passwd'', FIELD_TYPE_VAR_STRING)], 2, 2),
     server_gone = False\<rparr>"

theorem GetPasswdByUser_spec_witness:
  "\<exists>db. has_users users_server [[Some [97], Some [1]], [Some [98], Some [2]]] db \<and>
     GetPasswdByUser 2 list_fetch users_server [98] db = Inr ([2], db)"
proof -
  let ?db = "DbMysql_new\<lparr>inited := True, mysql := Live_handle\<rparr>"
  have h: "has_users users_server [[Some [97], Some [1]], [Some [98], Some [2]]] ?db"
    by (simp add: has_users_def users_server_def DbMysql_new_def)
  have "GetPasswdByUser 2 list_fetch users_server [98] ?db = Inr ([2], ?db)"
    using GetPasswdByUser_spec [OF list_fetch_ok h, of 2 "[98]"] by (simp add: column_text_def)
  with h show ?thesis by blast
qed

text \<open>
  No object can be initialized twice. \<^verbatim>\<open>Initialize\<close> closes the old connection, or its own failed
  one, but keeps the pointer, and \<^verbatim>\<open>mysql_init\<close> writes into it. So after any first
  attempt a second one uses freed memory; and so do a query or a statement after a failed attempt, and a statement that finds the server gone and reconnects.
\<close>

lemma Initialize_twice_uses_freed:
  assumes "Initialize srv info DbMysql_new = Inr (ok, db)"
  shows "Initialize srv' info' db = Inl UseAfterFree \<and>
    (\<not> ok \<longrightarrow> Query fetch_row srv' sql db = Inl UseAfterFree \<and> Execute srv' sql db = Inl UseAfterFree) \<and>
    (ok \<and> real_query srv' sql \<noteq> 0 \<and> server_gone srv' \<longrightarrow> Execute srv' sql db = Inl UseAfterFree)"
proof -
  have f: "mysql db = (if ok then Live_handle else Freed_handle)" "inited db = ok"
    using assms by (auto simp: Initialize_def DbMysql_new_def mysql_init_def mysql_close_def Let_def split: if_splits)
  have i: "Initialize srv' info' db = Inl UseAfterFree" for info'
    by (cases ok) (simp_all add: Initialize_def f mysql_close_def mysql_init_def Let_def)
  show ?thesis using i by (simp add: Query_def Execute_def with_connection_def f)
qed

end
