(* ===== verification/ThreadPool.thy ===== *)
theory ThreadPool
  imports Prelude
begin

text \<open>
  \<^verbatim>\<open>thread/Thread.{h,cpp}\<close> and \<^verbatim>\<open>ThreadPool.{h,cpp}\<close>, with the mutex and the condition of
  \<^verbatim>\<open>Mutex.h\<close> and \<^verbatim>\<open>Condition.h\<close>: a thread is started once and joined once; the workers of a pool take tasks from its
  queue under the mutex and wait on the condition when there are none. What a thread does while it holds
  the mutex is one step, what it does without is another; the steps of all threads are interleaved.
  Tasks are data of a type \<open>'t\<close>. A waiter goes on when it is woken, and takes the mutex again as a step of its own; that it may also wake
  for no reason is a step of the system, not of the worker, and nothing that is shown to end relies on it.
\<close>

section \<open>Thread\<close>

record thread =
  th_started :: bool
  th_joined :: bool

definition Thread_new :: thread where
  "Thread_new = \<lparr>th_started = False, th_joined = False\<rparr>"

text \<open>A failed \<open>pthread_create\<close> is logged as fatal, which aborts.\<close>

definition Thread_Start :: "bool \<Rightarrow> thread \<Rightarrow> thread result" where
  "Thread_Start created t =
     (if th_started t then Inl AssertFailed
      else if created then Inr (t\<lparr>th_started := True\<rparr>) else Inl AssertFailed)"

definition Thread_Join :: "thread \<Rightarrow> thread result" where
  "Thread_Join t =
     (if \<not> (th_started t \<and> \<not> th_joined t) then Inl AssertFailed else Inr (t\<lparr>th_joined := True\<rparr>))"

text \<open>What the new thread executes; its argument is the thread's attributes.\<close>

definition ThreadAttr_ThreadFunction :: "('s \<Rightarrow> 's) option \<Rightarrow> 's \<Rightarrow> 's" where
  "ThreadAttr_ThreadFunction arg s = (case arg of Some func \<Rightarrow> func s | None \<Rightarrow> s)"

text \<open>Whether the destructor detaches the thread.\<close>

definition Thread_destroy :: "thread \<Rightarrow> bool" where
  "Thread_destroy t \<longleftrightarrow> th_started t \<and> \<not> th_joined t"

section \<open>ThreadPool\<close>

text \<open>Where a worker is: before the test of \<open>started_\<close>, before \<open>TakeATask\<close>, waiting, with a task or none in hand, or done.\<close>

datatype 't worker = W_test | W_take | W_wait | W_task "'t option" | W_done

text \<open>Where the thread is that stops the pool: \<open>Joining i\<close> has joined the first \<open>i\<close> threads.\<close>

datatype stopper = Idle | Joining nat

record 't task_pool =
  tp_started :: bool
  tp_thread_num :: int
  tp_threads :: "thread list"
  tp_workers :: "'t worker list"
  tp_deque :: "'t list"
  tp_pushing :: "'t list"
  tp_stopper :: stopper
  tp_inline :: "'t list"
  tp_pooled :: "'t list"

definition ThreadPool_new :: "'t task_pool" where
  "ThreadPool_new = \<lparr>tp_started = False, tp_thread_num = 0, tp_threads = [], tp_workers = [], tp_deque = [], tp_pushing = [],
     tp_stopper = Idle, tp_inline = [], tp_pooled = []\<rparr>"

definition Pool_SetThreadNum :: "int \<Rightarrow> 't task_pool \<Rightarrow> 't task_pool result" where
  "Pool_SetThreadNum num p = (if tp_started p then Inl AssertFailed else Inr (p\<lparr>tp_thread_num := num\<rparr>))"

text \<open>\<open>threads_.emplace_back(...); threads_[i]->Start();\<close> a new thread starts when its own object is the one at \<open>i\<close>.\<close>

fun start_threads :: "nat \<Rightarrow> nat \<Rightarrow> 't task_pool \<Rightarrow> 't task_pool result" where
  "start_threads i 0 p = Inr p"
| "start_threads i (Suc n) p =
     (let ts = tp_threads p @ [Thread_new] in
      ebind (Thread_Start True (ts ! i)) (\<lambda>t.
      start_threads (i + 1) n (p\<lparr>tp_threads := ts[i := t], tp_workers := tp_workers p @ [W_test]\<rparr>)))"

definition ThreadPool_Start :: "'t task_pool \<Rightarrow> 't task_pool result" where
  "ThreadPool_Start p =
     (if tp_started p then Inl AssertFailed else start_threads 0 (nat (tp_thread_num p)) (p\<lparr>tp_started := True\<rparr>))"

text \<open>\<open>cond_.WakeUpAll()\<close> and \<open>WakeUpOne()\<close>: waiters go back to \<open>TakeATask\<close>.\<close>

definition WakeUpAll :: "'t worker list \<Rightarrow> 't worker list" where
  "WakeUpAll = map (\<lambda>w. if w = W_wait then W_take else w)"

fun WakeUpOne :: "'t worker list \<Rightarrow> 't worker list" where
  "WakeUpOne [] = []"
| "WakeUpOne (w # ws) = (if w = W_wait then W_take # ws else w # WakeUpOne ws)"

definition Stop_begin :: "'t task_pool \<Rightarrow> 't task_pool" where
  "Stop_begin p = p\<lparr>tp_started := False, tp_workers := WakeUpAll (tp_workers p), tp_stopper := Joining 0\<rparr>"

text \<open>The destructor begins to stop a pool that runs; it returns when the joins of \<open>Stop\<close> have.\<close>

definition ThreadPool_destroy :: "'t task_pool \<Rightarrow> 't task_pool" where
  "ThreadPool_destroy p = (if tp_started p then Stop_begin p else p)"

text \<open>\<open>Run\<close> looks at the queue without the mutex: it runs the task, or goes on to push it.\<close>

definition Run_test :: "'t \<Rightarrow> 't task_pool \<Rightarrow> 't task_pool" where
  "Run_test task p =
     (if tp_deque p = [] then p\<lparr>tp_inline := tp_inline p @ [task]\<rparr> else p\<lparr>tp_pushing := task # tp_pushing p\<rparr>)"

definition Run_push :: "'t \<Rightarrow> 't task_pool \<Rightarrow> 't task_pool" where
  "Run_push task p = p\<lparr>tp_pushing := remove1 task (tp_pushing p), tp_deque := tp_deque p @ [task], tp_workers := WakeUpOne (tp_workers p)\<rparr>"

definition TakeATask :: "'t task_pool \<Rightarrow> 't worker \<times> 't list" where
  "TakeATask p =
     (if tp_started p \<and> tp_deque p = [] then (W_wait, tp_deque p)
      else case tp_deque p of [] \<Rightarrow> (W_task None, []) | task # tasks \<Rightarrow> (W_task (Some task), tasks))"

text \<open>One step of the worker \<open>i\<close>, in its \<open>ThreadFunction\<close>; one that waits has none before it is woken.\<close>

definition worker_step :: "nat \<Rightarrow> 't task_pool \<Rightarrow> 't task_pool" where
  "worker_step i p = (case tp_workers p ! i of
       W_test \<Rightarrow> p\<lparr>tp_workers := (tp_workers p)[i := if tp_started p then W_take else W_done]\<rparr>
     | W_take \<Rightarrow> let (w, tasks) = TakeATask p in p\<lparr>tp_deque := tasks, tp_workers := (tp_workers p)[i := w]\<rparr>
     | W_wait \<Rightarrow> p
     | W_task (Some task) \<Rightarrow> p\<lparr>tp_pooled := tp_pooled p @ [task], tp_workers := (tp_workers p)[i := W_test]\<rparr>
     | W_task None \<Rightarrow> p\<lparr>tp_workers := (tp_workers p)[i := W_test]\<rparr>
     | W_done \<Rightarrow> p)"

text \<open>What \<^verbatim>\<open>pthread_cond_wait(3)\<close> allows: the wait of worker \<open>i\<close> returns without a signal.\<close>

definition Spurious_wakeup :: "nat \<Rightarrow> 't task_pool \<Rightarrow> 't task_pool" where
  "Spurious_wakeup i p = p\<lparr>tp_workers := (tp_workers p)[i := W_take]\<rparr>"

text \<open>The join of thread \<open>i\<close> returns when its function has.\<close>

definition Stop_join :: "nat \<Rightarrow> 't task_pool \<Rightarrow> 't task_pool result" where
  "Stop_join i p =
     (if i < length (tp_threads p)
      then ebind (Thread_Join (tp_threads p ! i)) (\<lambda>t. Inr (p\<lparr>tp_threads := (tp_threads p)[i := t], tp_stopper := Joining (i + 1)\<rparr>))
      else Inr (p\<lparr>tp_stopper := Idle\<rparr>))"

text \<open>A step is labelled with the task that a thread has called \<open>Run\<close> with, and a run with all of them, in order.\<close>

inductive pool_step :: "'t list \<Rightarrow> 't task_pool \<Rightarrow> 't task_pool \<Rightarrow> bool" where
  runs: "pool_step [task] p (Run_test task p)"
| pushes: "task \<in> set (tp_pushing p) \<Longrightarrow> pool_step [] p (Run_push task p)"
| works: "i < length (tp_workers p) \<Longrightarrow> tp_workers p ! i \<notin> {W_done, W_wait} \<Longrightarrow> pool_step [] p (worker_step i p)"
| wakes: "i < length (tp_workers p) \<Longrightarrow> tp_workers p ! i = W_wait \<Longrightarrow> pool_step [] p (Spurious_wakeup i p)"
| stops: "tp_started p \<Longrightarrow> pool_step [] p (Stop_begin p)"
| pool_joins: "tp_stopper p = Joining i \<Longrightarrow> i < length (tp_workers p) \<longrightarrow> tp_workers p ! i = W_done \<Longrightarrow> Stop_join i p = Inr p' \<Longrightarrow>
    pool_step [] p p'"

inductive pool_run :: "'t task_pool \<Rightarrow> 't list \<Rightarrow> 't task_pool \<Rightarrow> bool" where
  run_nil: "pool_run p [] p"
| run_snoc: "pool_run p ts p' \<Longrightarrow> pool_step us p' p'' \<Longrightarrow> pool_run p (ts @ us) p''"

lemma pool_run_append: "pool_run q us r \<Longrightarrow> pool_run p ts q \<Longrightarrow> pool_run p (ts @ us) r"
  by (induction rule: pool_run.induct) (auto intro: run_snoc simp flip: append_assoc)

lemma pool_run_step: "pool_step us p q \<Longrightarrow> pool_run p us q"
  using run_snoc [OF run_nil] by fastforce

section \<open>Invariant\<close>

lemma start_threads_all: "length (tp_threads p) = i \<Longrightarrow> start_threads i n p =
    Inr (p\<lparr>tp_threads := tp_threads p @ replicate n (Thread_new\<lparr>th_started := True\<rparr>), tp_workers := tp_workers p @ replicate n W_test\<rparr>)"
proof (induction n arbitrary: i p)
  case 0
  then show ?case by simp
next
  case (Suc n)
  let ?t = "Thread_new\<lparr>th_started := True\<rparr>"
  let ?p = "p\<lparr>tp_threads := tp_threads p @ [?t], tp_workers := tp_workers p @ [W_test]\<rparr>"
  have "start_threads i (Suc n) p = start_threads (i + 1) n ?p"
    using Suc.prems by (auto simp: Let_def Thread_Start_def Thread_new_def nth_append list_update_append)
  moreover have "length (tp_threads ?p) = i + 1" using Suc.prems by simp
  from Suc.IH [OF this] have "start_threads (i + 1) n ?p = Inr (p\<lparr>tp_threads := tp_threads p @ replicate (Suc n) ?t,
      tp_workers := tp_workers p @ replicate (Suc n) W_test\<rparr>)" by simp
  ultimately show ?case by (simp only:)
qed

definition pool_inv :: "nat \<Rightarrow> 't list \<Rightarrow> 't task_pool \<Rightarrow> bool" where
  "pool_inv n ts p \<longleftrightarrow> tp_inline p = ts \<and> tp_deque p = [] \<and> tp_pushing p = [] \<and> tp_pooled p = [] \<and> length (tp_workers p) = n \<and> length (tp_threads p) = n \<and>
     (\<forall>k < n. th_started (tp_threads p ! k)) \<and> (\<forall>k < n. \<forall>t. tp_workers p ! k \<noteq> W_task (Some t)) \<and>
     (\<not> tp_started p \<longrightarrow> (\<forall>k < n. tp_workers p ! k \<noteq> W_wait)) \<and>
     (case tp_stopper p of
        Idle \<Rightarrow> \<forall>k < n. if tp_started p then \<not> th_joined (tp_threads p ! k) else th_joined (tp_threads p ! k) \<and> tp_workers p ! k = W_done
      | Joining i \<Rightarrow> \<not> tp_started p \<and> i \<le> n \<and> (\<forall>k < n. th_joined (tp_threads p ! k) \<longleftrightarrow> k < i) \<and> (\<forall>k < i. tp_workers p ! k = W_done))"

definition ThreadPool_started :: "int \<Rightarrow> 't task_pool result" where
  "ThreadPool_started n = ebind (Pool_SetThreadNum n ThreadPool_new) ThreadPool_Start"

lemma started_inv: "\<exists>p. ThreadPool_started n = Inr p \<and> tp_started p \<and> pool_inv (nat n) [] p"
  by (simp add: ThreadPool_started_def Pool_SetThreadNum_def ThreadPool_Start_def ThreadPool_new_def start_threads_all pool_inv_def Thread_new_def)

lemma worker_step_inv:
  assumes "pool_inv n ts p" "i < n" "tp_workers p ! i \<notin> {W_done, W_wait}"
  shows "pool_inv n ts (worker_step i p)"
proof -
  have e: "tp_deque p = []" using assms(1) by (simp add: pool_inv_def)
  obtain w where w: "worker_step i p = p\<lparr>tp_workers := (tp_workers p)[i := w]\<rparr>" "\<And>t. w \<noteq> W_task (Some t)" "\<not> tp_started p \<Longrightarrow> w \<noteq> W_wait"
  proof (cases "tp_workers p ! i")
    case W_task
    then show thesis using assms(1,2) by (intro that [of W_test]) (auto simp: worker_step_def pool_inv_def split: option.splits)
  next
    case W_take
    then show thesis using e
      by (intro that [of "if tp_started p then W_wait else W_task None"]) (simp_all add: worker_step_def TakeATask_def Let_def)
  qed (use that assms(3) in \<open>simp_all add: worker_step_def\<close>)
  have n: "\<not> k < n \<or> k \<noteq> i" if "tp_stopper p = Joining j" "k < j" for k j
    using assms that by (auto simp: pool_inv_def)
  have idle: "tp_started p" if "tp_stopper p = Idle" using assms that by (auto simp: pool_inv_def split: if_splits)
  show ?thesis using assms(1,2) w(2,3) n idle
    by (auto simp: w(1) pool_inv_def nth_list_update split: stopper.splits if_splits)
qed

lemma join_inv:
  assumes "pool_inv n ts p" "tp_stopper p = Joining i" "i < length (tp_workers p) \<longrightarrow> tp_workers p ! i = W_done" "Stop_join i p = Inr p'"
  shows "pool_inv n ts p'"
proof (cases "i < n")
  case True
  then have p': "p' = p\<lparr>tp_threads := (tp_threads p)[i := (tp_threads p ! i)\<lparr>th_joined := True\<rparr>], tp_stopper := Joining (i + 1)\<rparr>"
    using assms by (auto simp: Stop_join_def Thread_Join_def pool_inv_def split: if_splits)
  show ?thesis using assms(1-3) True by (auto simp: p' pool_inv_def nth_list_update less_Suc_eq)
next
  case False
  then have "p' = p\<lparr>tp_stopper := Idle\<rparr>" "i = n" using assms by (auto simp: Stop_join_def pool_inv_def)
  then show ?thesis using assms(1,2) by (auto simp: pool_inv_def)
qed

lemma pool_step_inv: "pool_step us p p' \<Longrightarrow> pool_inv n ts p \<Longrightarrow> pool_inv n (ts @ us) p'"
proof (induction rule: pool_step.induct)
  case (runs task p)
  then show ?case by (simp add: Run_test_def pool_inv_def split: stopper.splits)
next
  case (pushes task p)
  then show ?case by (simp add: pool_inv_def)
next
  case (works i p)
  then have "i < n" by (simp add: pool_inv_def)
  from worker_step_inv [OF works(3) this works(2)] show ?case by simp
next
  case (wakes i p)
  then have "tp_started p" "i < n" "\<not> (tp_stopper p = Joining j \<and> i < j)" for j by (auto simp: pool_inv_def)
  with wakes show ?case by (auto simp: Spurious_wakeup_def pool_inv_def nth_list_update split: stopper.splits)
next
  case (stops p)
  then show ?case by (auto simp: Stop_begin_def pool_inv_def WakeUpAll_def split: stopper.splits)
next
  case (pool_joins p i p')
  from join_inv [OF pool_joins(4,1,2,3)] show ?case by simp
qed

lemma pool_run_inv: "pool_run p us p' \<Longrightarrow> pool_inv n ts p \<Longrightarrow> pool_inv n (ts @ us) p'"
  by (induction rule: pool_run.induct) (auto dest: pool_step_inv)

lemma pool_run_from_start:
  assumes "ThreadPool_started n = Inr p" "pool_run p ts p'"
  shows "pool_inv (nat n) ts p'"
proof -
  have "pool_inv (nat n) [] p" using started_inv [of n] assms(1) by (metis sum.inject(2))
  from pool_run_inv [OF assms(2) this] show ?thesis by simp
qed

section \<open>Properties\<close>

text \<open>
  C39: a pool never runs a task in a worker. \<^verbatim>\<open>Run\<close> queues a task only when the queue is not empty, and nothing else
  fills the queue; so over any run of any number of workers and callers, with the pool stopped or not, the tasks that \<^verbatim>\<open>Run\<close> was called
  with are exactly those that have been executed by their callers, in that order, the queue is empty, nobody is about to queue
  a task, and no worker has executed or holds one.
\<close>

theorem tasks_never_reach_the_pool:
  assumes "ThreadPool_started n = Inr p" "pool_run p ts p'"
  shows "tp_inline p' = ts \<and> tp_deque p' = [] \<and> tp_pooled p' = [] \<and> tp_pushing p' = [] \<and>
    (\<forall>t. W_task (Some t) \<notin> set (tp_workers p'))"
  using pool_run_from_start [OF assms] by (auto simp: pool_inv_def in_set_conv_nth)

text \<open>A pool of \<open>n\<close> workers, the first of which has come to wait.\<close>

lemma first_worker_waits:
  assumes "0 < n"
  obtains p p' :: "'t task_pool" where "ThreadPool_started n = Inr p" "pool_run p [] p'" "tp_workers p' ! 0 = W_wait"
    "tp_started p'" "tp_deque p' = []" "tp_inline p' = []" "length (tp_workers p') = nat n"
proof -
  obtain p :: "'t task_pool" where p: "ThreadPool_started n = Inr p" "tp_started p" "pool_inv (nat n) [] p" "tp_workers p = replicate (nat n) W_test"
    using started_inv [of n] by (auto simp: ThreadPool_started_def Pool_SetThreadNum_def ThreadPool_Start_def ThreadPool_new_def start_threads_all)
  have n: "0 < nat n" using assms by simp
  let ?p1 = "worker_step 0 p" and ?p2 = "worker_step 0 (worker_step 0 p)"
  have e: "tp_deque p = []" "tp_inline p = []" "length (tp_workers p) = nat n" using p(3) by (simp_all add: pool_inv_def)
  have 1: "tp_workers ?p1 ! 0 = W_take" "tp_started ?p1" "tp_deque ?p1 = []" "tp_inline ?p1 = []" "length (tp_workers ?p1) = nat n"
    using p e n by (simp_all add: worker_step_def)
  have 2: "tp_workers ?p2 ! 0 = W_wait" "tp_started ?p2" "tp_deque ?p2 = []" "tp_inline ?p2 = []" "length (tp_workers ?p2) = nat n"
    using 1 n by (simp_all add: worker_step_def [of 0 ?p1] TakeATask_def)
  have "pool_step [] p ?p1" "pool_step [] ?p1 ?p2" by (rule works; use p e n 1 in simp)+
  then have "pool_run p ([] @ []) ?p2" by (intro pool_run_append [OF pool_run_step pool_run_step])
  with p(1) 2 show ?thesis using that by simp
qed

theorem tasks_never_reach_the_pool_witness:
  "\<exists>p :: nat task_pool. \<exists>p'. ThreadPool_started 1 = Inr p \<and> pool_run p [7] p' \<and> tp_inline p' = [7] \<and> tp_workers p' = [W_wait] \<and> tp_pooled p' = []"
proof -
  obtain p p1 :: "nat task_pool" where p: "ThreadPool_started 1 = Inr p" "pool_run p [] p1" "tp_workers p1 ! 0 = W_wait"
    "tp_deque p1 = []" "length (tp_workers p1) = nat 1"
    by (rule first_worker_waits [of 1]) simp_all
  let ?q = "Run_test 7 p1"
  have "pool_run p ([] @ [7]) ?q" by (rule run_snoc [OF p(2) runs])
  then have r: "pool_run p [7] ?q" by simp
  have "tp_workers p1 = [W_wait]" using p(3,5) by (cases "tp_workers p1") simp_all
  then have "tp_workers ?q = [W_wait]" by (simp add: Run_test_def)
  with tasks_never_reach_the_pool [OF p(1) r] p(1) r show ?thesis by blast
qed

text \<open>How much the threads still have to do when the pool is being stopped.\<close>

fun to_do :: "'t worker \<Rightarrow> nat" where
  "to_do W_done = 0"
| "to_do W_test = 1"
| "to_do (W_task t) = 2"
| "to_do W_take = 3"
| "to_do W_wait = 4"

definition remaining :: "'t task_pool \<Rightarrow> nat" where
  "remaining p = sum_list (map to_do (tp_workers p)) +
     (case tp_stopper p of Idle \<Rightarrow> 0 | Joining i \<Rightarrow> length (tp_workers p) + 1 - i)"

text \<open>The steps of the workers and of the joining thread alone: no wait returns by itself.\<close>

inductive drain_step :: "'t task_pool \<Rightarrow> 't task_pool \<Rightarrow> bool" where
  drain_works: "i < length (tp_workers p) \<Longrightarrow> tp_workers p ! i \<notin> {W_done, W_wait} \<Longrightarrow> drain_step p (worker_step i p)"
| drain_joins: "tp_stopper p = Joining i \<Longrightarrow> i < length (tp_workers p) \<longrightarrow> tp_workers p ! i = W_done \<Longrightarrow> Stop_join i p = Inr p' \<Longrightarrow>
    drain_step p p'"

lemma drain_pool_step: "drain_step p p' \<Longrightarrow> pool_step [] p p'"
  by (induction rule: drain_step.induct) (blast intro: works pool_joins)+

lemma sum_list_update_less:
  "i < length xs \<Longrightarrow> f y < f (xs ! i) \<Longrightarrow> sum_list (map f (xs[i := y])) < (sum_list (map f xs) :: nat)"
proof (induction xs arbitrary: i)
  case (Cons x xs)
  then show ?case by (cases i) auto
qed simp

lemma drain_decreases:
  assumes "drain_step p p'" "pool_inv n ts p" "\<not> tp_started p"
  shows "remaining p' < remaining p \<and> \<not> tp_started p'"
  using assms
proof (induction rule: drain_step.induct)
  case (drain_works i p)
  have e: "tp_deque p = []" and nw: "tp_workers p ! i \<noteq> W_wait" using drain_works by (simp_all add: pool_inv_def)
  obtain w where w: "worker_step i p = p\<lparr>tp_workers := (tp_workers p)[i := w]\<rparr>" "to_do w < to_do (tp_workers p ! i)"
  proof (cases "tp_workers p ! i")
    case W_test
    then show thesis using drain_works(4) by (intro that [of W_done]) (simp_all add: worker_step_def)
  next
    case W_take
    then show thesis using drain_works(4) e
      by (intro that [of "W_task None"]) (simp_all add: worker_step_def TakeATask_def)
  next
    case (W_task t)
    have "t = None" using drain_works(1,3) W_task by (cases t) (auto simp: pool_inv_def)
    then show thesis using W_task by (intro that [of W_test]) (simp_all add: worker_step_def)
  qed (use nw drain_works(2) in simp_all)
  show ?case using sum_list_update_less [where f = to_do, OF drain_works(1) w(2)] drain_works(4)
    by (cases "tp_stopper p") (simp_all add: remaining_def w(1))
next
  case (drain_joins p i p')
  have i: "i \<le> length (tp_workers p)" "length (tp_threads p) = length (tp_workers p)" using drain_joins by (auto simp: pool_inv_def)
  show ?case using drain_joins(1,3,5) i
    by (auto simp: Stop_join_def Thread_Join_def remaining_def split: if_splits)
qed

lemma drain_progress:
  assumes "pool_inv n ts p" "tp_stopper p = Joining i"
  shows "\<exists>p'. drain_step p p'"
proof (cases "i < n \<and> tp_workers p ! i \<noteq> W_done")
  case True
  then have "tp_workers p ! i \<noteq> W_wait" using assms by (simp add: pool_inv_def)
  with True assms have "drain_step p (worker_step i p)" by (intro drain_works) (simp_all add: pool_inv_def)
  then show ?thesis by blast
next
  case False
  have "\<exists>p'. Stop_join i p = Inr p'" using assms by (auto simp: Stop_join_def Thread_Join_def pool_inv_def)
  with False assms show ?thesis by (auto simp: pool_inv_def intro: drain_joins)
qed

lemma pool_step_num: "pool_step us p p' \<Longrightarrow> tp_thread_num p' = tp_thread_num p"
  by (induction rule: pool_step.induct)
    (auto simp: Run_test_def Run_push_def worker_step_def Spurious_wakeup_def Stop_begin_def Stop_join_def Let_def case_prod_unfold result_simps
      split: worker.splits option.splits if_splits)

lemma pool_run_num: "pool_run p us p' \<Longrightarrow> tp_thread_num p' = tp_thread_num p"
  by (induction rule: pool_run.induct) (simp_all add: pool_step_num)

lemma drain_reachable: "drain_step\<^sup>*\<^sup>* p q \<Longrightarrow> pool_inv n ts p \<Longrightarrow> \<not> tp_started p \<Longrightarrow> pool_inv n ts q \<and> \<not> tp_started q \<and> pool_run p [] q"
proof (induction rule: rtranclp_induct)
  case base
  then show ?case by (simp add: run_nil)
next
  case (step q q')
  then have q: "pool_inv n ts q" "\<not> tp_started q" "pool_run p [] q" by simp_all
  have "pool_run p ([] @ []) q'" by (rule run_snoc [OF q(3) drain_pool_step [OF step.hyps(2)]])
  with pool_step_inv [OF drain_pool_step [OF step.hyps(2)] q(1)] drain_decreases [OF step.hyps(2) q(1,2)] show ?case by simp
qed

lemma drain_to_idle: "pool_inv n ts p \<Longrightarrow> \<not> tp_started p \<Longrightarrow> \<exists>q. drain_step\<^sup>*\<^sup>* p q \<and> tp_stopper q = Idle"
proof (induction "remaining p" arbitrary: p rule: less_induct)
  case less
  show ?case
  proof (cases "tp_stopper p")
    case (Joining i)
    from drain_progress [OF less.prems(1) Joining] obtain p' where d: "drain_step p p'" by blast
    note m = drain_decreases [OF d less.prems]
    have "pool_inv n ts p'" using pool_step_inv [OF drain_pool_step [OF d] less.prems(1)] by simp
    from less.hyps [of p'] this m obtain q where "drain_step\<^sup>*\<^sup>* p' q" "tp_stopper q = Idle" by blast
    with d show ?thesis by (meson converse_rtranclp_into_rtranclp)
  qed blast
qed

text \<open>A pool that has been stopped keeps its old threads, and \<^verbatim>\<open>Start\<close> begins with the first of them.\<close>

lemma stopped_pool_stays:
  assumes "pool_inv n ts q" "\<not> tp_started q" "0 < n" "tp_thread_num q = int n"
  shows "ThreadPool_Start q = Inl AssertFailed"
proof -
  obtain m where m: "n = Suc m" using assms(3) by (metis gr0_implies_Suc)
  have "th_started (tp_threads q ! 0)" "tp_threads q \<noteq> []" using assms(1) m by (auto simp: pool_inv_def)
  then have "start_threads 0 (Suc m) (q\<lparr>tp_started := True\<rparr>) = Inl AssertFailed"
    by (simp add: Thread_Start_def nth_append Let_def)
  then show ?thesis using assms(2,4) m by (simp only: ThreadPool_Start_def nat_int if_False)
qed

lemma started_num: "ThreadPool_started n = Inr p \<Longrightarrow> tp_thread_num p = n"
  by (auto simp: ThreadPool_started_def Pool_SetThreadNum_def ThreadPool_Start_def ThreadPool_new_def start_threads_all)

text \<open>
  C40: stopping a pool always ends, and ends it for good. From every state in which a thread has begun to stop it, wherever
  the workers are, also those that were waiting or about to wait, and without any wait returning by itself: until every thread has been joined a
  worker or the joins can make a step, each step brings the end nearer, and so the end is reached. After that the
  pool cannot be started again: it would start the first of its old threads, which asserts that it was never started.
\<close>

theorem stop_always_ends:
  assumes "ThreadPool_started n = Inr p" "pool_run p ts p'" "tp_stopper p' = Joining i"
  shows "(\<exists>q. drain_step\<^sup>*\<^sup>* p' q \<and> tp_stopper q = Idle) \<and>
    (\<forall>q. drain_step\<^sup>*\<^sup>* p' q \<longrightarrow>
      (tp_stopper q \<noteq> Idle \<longrightarrow> (\<exists>q'. drain_step q q')) \<and> (\<forall>q'. drain_step q q' \<longrightarrow> remaining q' < remaining q) \<and>
      (tp_stopper q = Idle \<and> 0 < n \<longrightarrow> ThreadPool_Start q = Inl AssertFailed))"
proof -
  have inv: "pool_inv (nat n) ts p'" by (rule pool_run_from_start [OF assms(1,2)])
  then have ns: "\<not> tp_started p'" using assms(3) by (simp add: pool_inv_def)
  have "(tp_stopper q \<noteq> Idle \<longrightarrow> (\<exists>q'. drain_step q q')) \<and> (\<forall>q'. drain_step q q' \<longrightarrow> remaining q' < remaining q) \<and>
      (tp_stopper q = Idle \<and> 0 < n \<longrightarrow> ThreadPool_Start q = Inl AssertFailed)" if q: "drain_step\<^sup>*\<^sup>* p' q" for q
  proof -
    have r: "pool_inv (nat n) ts q" "\<not> tp_started q" "pool_run p' [] q" using drain_reachable [OF q inv ns] by simp_all
    have num: "tp_thread_num q = n" using started_num [OF assms(1)] pool_run_num [OF assms(2)] pool_run_num [OF r(3)] by simp
    show ?thesis
      using drain_progress [OF r(1)] drain_decreases [OF _ r(1,2)] stopped_pool_stays [OF r(1,2)] num
      by (cases "tp_stopper q") auto
  qed
  with drain_to_idle [OF inv ns] show ?thesis by blast
qed

theorem stop_always_ends_witness:
  "\<exists>p' q :: nat task_pool. tp_workers p' ! 0 = W_wait \<and> drain_step\<^sup>*\<^sup>* (Stop_begin p') q \<and> tp_stopper q = Idle \<and>
     ThreadPool_Start q = Inl AssertFailed"
proof -
  obtain p p' :: "nat task_pool" where p: "ThreadPool_started 2 = Inr p" "pool_run p [] p'" "tp_workers p' ! 0 = W_wait" "tp_started p'"
    by (rule first_worker_waits [of 2]) simp_all
  have r: "pool_run p ([] @ []) (Stop_begin p')" by (rule run_snoc [OF p(2) stops [OF p(4)]])
  have "tp_stopper (Stop_begin p') = Joining 0" by (simp add: Stop_begin_def)
  from stop_always_ends [OF p(1) r this] p(3) show ?thesis by auto
qed

end
