(* ===== verification/LoopQueue.thy ===== *)
theory LoopQueue
  imports EventLoop
begin

text \<open>
  \<^verbatim>\<open>EventLoop::RunInLoop\<close> and \<^verbatim>\<open>HandlePendingFunc\<close> as several threads execute them, one access to the mutex or to
  \<^verbatim>\<open>pending_func_\<close> at a time, with \<^verbatim>\<open>thread/Mutex.{h,cpp}\<close> and \<^verbatim>\<open>CurrentThread.{h,cpp}\<close>. The other models treat the two
  operations as atomic; here that is a theorem. Thread 0 is the loop's own; a function it
  runs may call \<^verbatim>\<open>RunInLoop\<close> like any other thread.
\<close>

section \<open>Mutex\<close>

text \<open>The holder of \<^verbatim>\<open>pthread_mutex_t\<close>; locking waits until there is none.\<close>

type_synonym mutex = "nat option"

definition Mutex_new :: mutex where "Mutex_new = None"

definition Mutex_free :: "mutex \<Rightarrow> bool" where
  "Mutex_free m \<longleftrightarrow> m = None"

definition Mutex_Lock :: "nat \<Rightarrow> mutex \<Rightarrow> mutex" where
  "Mutex_Lock t m = Some t"

definition Mutex_Unlock :: "mutex \<Rightarrow> mutex" where
  "Mutex_Unlock m = None"

text \<open>The guard locks when it is built and unlocks when it goes out of scope.\<close>

definition MutexLockGuard_new :: "nat \<Rightarrow> mutex \<Rightarrow> mutex" where
  "MutexLockGuard_new t m = Mutex_Lock t m"

definition MutexLockGuard_destroy :: "mutex \<Rightarrow> mutex" where
  "MutexLockGuard_destroy m = Mutex_Unlock m"

section \<open>CurrentThread\<close>

text \<open>\<open>t_cached_tid\<close> is 0 until the thread asks for its number; \<open>gettid\<close> is what the system says.\<close>

definition CacheTid :: "int \<Rightarrow> int \<Rightarrow> int" where
  "CacheTid gettid t_cached_tid = gettid"

definition GetTid :: "int \<Rightarrow> int \<Rightarrow> int \<times> int" where
  "GetTid gettid t_cached_tid =
     (let t_cached_tid = (if t_cached_tid = 0 then CacheTid gettid t_cached_tid else t_cached_tid) in (t_cached_tid, t_cached_tid))"

lemma GetTid_cached: "c = 0 \<or> c = tid \<Longrightarrow> GetTid tid c = (tid, tid)"
  by (auto simp: GetTid_def CacheTid_def)

lemma IsInLoopThread_GetTid:
  "c = 0 \<or> c = tid \<Longrightarrow> IsInLoopThread (fst (GetTid tid c)) (EventLoop_new owner) \<longleftrightarrow> tid = owner"
  by (simp add: GetTid_cached IsInLoopThread_def EventLoop_new_def)

section \<open>The steps\<close>

text \<open>
  Where a thread is in \<^verbatim>\<open>RunInLoop\<close>: not in it, before the guard, behind it, inside \<^verbatim>\<open>push_back\<close> with the
  contents it has read, behind it. \<^verbatim>\<open>push_back\<close> and \<^verbatim>\<open>swap\<close> are not atomic: each reads \<^verbatim>\<open>pending_func_\<close> in one step and
  writes it in another.
\<close>

datatype 'f call_pc = C_out | C_wants 'f | C_holds 'f | C_read 'f "'f list" | C_pushed

text \<open>Where the loop is in \<^verbatim>\<open>HandlePendingFunc\<close>: not in it, before the guard, behind it, inside \<^verbatim>\<open>swap\<close>, behind it, in the \<open>for\<close>, in a function.\<close>

datatype queue_pc = Q_out | Q_wants | Q_holds | Q_took | Q_swapped | Q_for | Q_in_func

text \<open>\<open>lq_given\<close> and \<open>lq_done\<close> record the functions pushed and those called, in order.\<close>

record 'f loop_queue =
  lq_mutex :: mutex
  lq_pending :: "'f list"
  lq_local :: "'f list"
  lq_calls :: "nat \<Rightarrow> 'f call_pc"
  lq_loop :: queue_pc
  lq_given :: "'f list"
  lq_done :: "'f list"

definition LoopQueue_new :: "'f loop_queue" where
  "LoopQueue_new = \<lparr>lq_mutex = Mutex_new, lq_pending = [], lq_local = [], lq_calls = (\<lambda>_. C_out), lq_loop = Q_out, lq_given = [], lq_done = []\<rparr>"

text \<open>The steps of a call of \<^verbatim>\<open>RunInLoop\<close>, behind its begin.\<close>

inductive call_step :: "nat \<Rightarrow> 'f loop_queue \<Rightarrow> 'f loop_queue \<Rightarrow> bool" for t where
  call_lock: "lq_calls s t = C_wants f \<Longrightarrow> Mutex_free (lq_mutex s) \<Longrightarrow>
    call_step t s (s\<lparr>lq_mutex := MutexLockGuard_new t (lq_mutex s), lq_calls := (lq_calls s)(t := C_holds f)\<rparr>)"
| call_read: "lq_calls s t = C_holds f \<Longrightarrow>
    call_step t s (s\<lparr>lq_calls := (lq_calls s)(t := C_read f (lq_pending s))\<rparr>)"
| call_push: "lq_calls s t = C_read f fs \<Longrightarrow>
    call_step t s (s\<lparr>lq_pending := fs @ [f], lq_given := lq_given s @ [f], lq_calls := (lq_calls s)(t := C_pushed)\<rparr>)"
| call_unlock: "lq_calls s t = C_pushed \<Longrightarrow>
    call_step t s (s\<lparr>lq_mutex := MutexLockGuard_destroy (lq_mutex s), lq_calls := (lq_calls s)(t := C_out)\<rparr>)"

text \<open>The steps of the loop in \<^verbatim>\<open>HandlePendingFunc\<close>; the vector it swaps in is new, so it is empty.\<close>

inductive handle_step :: "'f loop_queue \<Rightarrow> 'f loop_queue \<Rightarrow> bool" where
  handle_begin: "lq_loop s = Q_out \<Longrightarrow> lq_calls s 0 = C_out \<Longrightarrow> handle_step s (s\<lparr>lq_local := [], lq_loop := Q_wants\<rparr>)"
| handle_lock: "lq_loop s = Q_wants \<Longrightarrow> Mutex_free (lq_mutex s) \<Longrightarrow>
    handle_step s (s\<lparr>lq_mutex := MutexLockGuard_new 0 (lq_mutex s), lq_loop := Q_holds\<rparr>)"
| handle_take: "lq_loop s = Q_holds \<Longrightarrow> handle_step s (s\<lparr>lq_local := lq_pending s, lq_loop := Q_took\<rparr>)"
| handle_swap: "lq_loop s = Q_took \<Longrightarrow> handle_step s (s\<lparr>lq_pending := [], lq_loop := Q_swapped\<rparr>)"
| handle_unlock: "lq_loop s = Q_swapped \<Longrightarrow> handle_step s (s\<lparr>lq_mutex := MutexLockGuard_destroy (lq_mutex s), lq_loop := Q_for\<rparr>)"
| handle_call: "lq_loop s = Q_for \<Longrightarrow> lq_local s = f # fs \<Longrightarrow>
    handle_step s (s\<lparr>lq_local := fs, lq_done := lq_done s @ [f], lq_loop := Q_in_func\<rparr>)"
| handle_return: "lq_loop s = Q_in_func \<Longrightarrow> lq_calls s 0 = C_out \<Longrightarrow> handle_step s (s\<lparr>lq_loop := Q_for\<rparr>)"
| handle_end: "lq_loop s = Q_for \<Longrightarrow> lq_local s = [] \<Longrightarrow> handle_step s (s\<lparr>lq_loop := Q_out\<rparr>)"

text \<open>
  A call begins in any thread that is in none; in the loop's own thread only inside a function
  or outside \<^verbatim>\<open>HandlePendingFunc\<close>, where the handlers of the events run.
\<close>

inductive queue_step :: "'f loop_queue \<Rightarrow> 'f loop_queue \<Rightarrow> bool" where
  queue_begin: "lq_calls s t = C_out \<Longrightarrow> (t = 0 \<longrightarrow> lq_loop s = Q_in_func \<or> lq_loop s = Q_out) \<Longrightarrow>
    queue_step s (s\<lparr>lq_calls := (lq_calls s)(t := C_wants f)\<rparr>)"
| queue_call: "call_step t s s' \<Longrightarrow> queue_step s s'"
| queue_handle: "handle_step s s' \<Longrightarrow> queue_step s s'"

section \<open>Mutual exclusion\<close>

text \<open>Who is between taking the mutex and giving it back, a thread in \<open>RunInLoop\<close> or the loop.\<close>

primrec pc_inside :: "'f call_pc \<Rightarrow> bool" where
  "pc_inside C_out = False"
| "pc_inside (C_wants f) = False"
| "pc_inside (C_holds f) = True"
| "pc_inside (C_read f fs) = True"
| "pc_inside C_pushed = True"

definition loop_inside :: "queue_pc \<Rightarrow> bool" where
  "loop_inside q \<longleftrightarrow> q = Q_holds \<or> q = Q_took \<or> q = Q_swapped"

definition inside :: "'f loop_queue \<Rightarrow> nat \<Rightarrow> bool" where
  "inside s t \<longleftrightarrow> pc_inside (lq_calls s t) \<or> t = 0 \<and> loop_inside (lq_loop s)"

definition lock_ok :: "'f loop_queue \<Rightarrow> bool" where
  "lock_ok s \<longleftrightarrow> (\<forall>t. inside s t \<longleftrightarrow> lq_mutex s = Some t) \<and>
     (lq_calls s 0 = C_out \<or> lq_loop s = Q_in_func \<or> lq_loop s = Q_out)"

lemmas guard_defs = MutexLockGuard_new_def MutexLockGuard_destroy_def Mutex_Lock_def Mutex_Unlock_def Mutex_free_def

lemmas lock_defs = lock_ok_def inside_def loop_inside_def guard_defs

lemma call_step_lock: "call_step t s s' \<Longrightarrow> lock_ok s \<Longrightarrow> lock_ok s'"
proof (induction rule: call_step.induct)
  case (call_lock s f)
  then show ?case by (simp add: lock_defs) fastforce
next
  case (call_read s f)
  then show ?case by (simp add: lock_defs) fastforce
next
  case (call_push s f fs)
  then show ?case by (simp add: lock_defs) fastforce
next
  case (call_unlock s)
  then have holder: "inside s u \<longleftrightarrow> u = t" for u
    by (metis inside_def lock_ok_def option.inject pc_inside.simps(5))
  have "\<not> inside (s\<lparr>lq_mutex := MutexLockGuard_destroy (lq_mutex s), lq_calls := (lq_calls s)(t := C_out)\<rparr>) u" for u
    using holder [of u] holder [of 0] call_unlock by (auto simp: lock_defs)
  with call_unlock show ?case by (auto simp: lock_ok_def guard_defs)
qed

lemma lock_free_inside: "lock_ok s \<Longrightarrow> lq_mutex s = None \<Longrightarrow> \<not> inside s t"
  by (simp add: lock_ok_def)

lemma handle_step_lock: "handle_step s s' \<Longrightarrow> lock_ok s \<Longrightarrow> lock_ok s'"
proof (induction rule: handle_step.induct)
  case (handle_begin s)
  then show ?case by (simp add: lock_defs)
next
  case (handle_lock s)
  then show ?case using lock_free_inside [of s] by (auto simp: lock_defs)
next
  case (handle_take s)
  then show ?case by (simp add: lock_defs)
next
  case (handle_swap s)
  then show ?case by (simp add: lock_defs)
next
  case (handle_unlock s)
  then have holder: "inside s u \<longleftrightarrow> u = 0" for u
    by (metis inside_def lock_ok_def loop_inside_def option.inject)
  moreover have "lq_calls s 0 = C_out"
    using handle_unlock by (simp add: lock_ok_def)
  ultimately have "\<not> pc_inside (lq_calls s u)" for u
    by (metis inside_def pc_inside.simps(1))
  with \<open>lq_calls s 0 = C_out\<close> show ?case by (simp add: lock_defs)
qed (simp_all add: lock_defs)

section \<open>The functions are kept\<close>

text \<open>The functions that the \<open>for\<close> still has to call; inside \<open>swap\<close> the new ones are still pending.\<close>

definition batch :: "'f loop_queue \<Rightarrow> 'f list" where
  "batch s = (if lq_loop s = Q_took then [] else lq_local s)"

definition data_ok :: "'f loop_queue \<Rightarrow> bool" where
  "data_ok s \<longleftrightarrow> (\<forall>t f fs. lq_calls s t = C_read f fs \<longrightarrow> fs = lq_pending s) \<and>
     (lq_loop s = Q_took \<longrightarrow> lq_local s = lq_pending s) \<and>
     (lq_loop s = Q_wants \<or> lq_loop s = Q_holds \<or> lq_loop s = Q_out \<longrightarrow> lq_local s = []) \<and>
     lq_given s = lq_done s @ batch s @ lq_pending s"

lemma inside_alone: "lock_ok s \<Longrightarrow> inside s t \<Longrightarrow> inside s u \<Longrightarrow> u = t"
  by (simp add: lock_ok_def)

lemma pc_inside_alone:
  assumes "lock_ok s" "pc_inside (lq_calls s t)"
  shows "pc_inside (lq_calls s u) \<Longrightarrow> u = t" and "\<not> loop_inside (lq_loop s)"
proof -
  show "pc_inside (lq_calls s u) \<Longrightarrow> u = t"
    using assms inside_alone [of s t u] by (simp add: inside_def)
  show "\<not> loop_inside (lq_loop s)"
  proof
    assume "loop_inside (lq_loop s)"
    then have "t = 0" "lq_loop s \<noteq> Q_in_func" "lq_loop s \<noteq> Q_out"
      using assms inside_alone [of s t 0] by (auto simp: inside_def loop_inside_def)
    with assms show False by (auto simp: lock_ok_def)
  qed
qed

lemma call_step_data: "call_step t s s' \<Longrightarrow> lock_ok s \<Longrightarrow> data_ok s \<Longrightarrow> data_ok s'"
proof (induction rule: call_step.induct)
  case (call_push s f fs)
  then have pc: "pc_inside (lq_calls s t)" by simp
  have alone: "lq_calls s u = C_read g gs \<Longrightarrow> u = t" for u g gs
    using pc_inside_alone(1) [OF call_push(2) pc, of u] by simp
  have "lq_loop s \<noteq> Q_took"
    using pc_inside_alone(2) [OF call_push(2) pc] by (simp add: loop_inside_def)
  moreover have "fs = lq_pending s"
    using call_push by (auto simp: data_ok_def)
  ultimately show ?case
    using call_push(3) alone by (auto simp: data_ok_def batch_def)
qed (auto simp: data_ok_def batch_def)

lemma loop_inside_reads: "lock_ok s \<Longrightarrow> loop_inside (lq_loop s) \<Longrightarrow> lq_calls s t \<noteq> C_read f fs"
  using pc_inside_alone(2) [of s t] by fastforce

lemma handle_step_data: "handle_step s s' \<Longrightarrow> lock_ok s \<Longrightarrow> data_ok s \<Longrightarrow> data_ok s'"
proof (induction rule: handle_step.induct)
  case (handle_swap s)
  then show ?case using loop_inside_reads [of s] by (simp add: data_ok_def batch_def loop_inside_def)
next
  case (handle_call s f fs)
  then show ?case by (simp add: data_ok_def batch_def)
qed (simp_all add: data_ok_def batch_def)

text \<open>Only finitely many threads are in a call.\<close>

definition callers :: "'f loop_queue \<Rightarrow> nat set" where
  "callers s = {t. lq_calls s t \<noteq> C_out}"

definition queue_ok :: "'f loop_queue \<Rightarrow> bool" where
  "queue_ok s \<longleftrightarrow> lock_ok s \<and> data_ok s \<and> finite (callers s)"

lemma queue_new_ok: "queue_ok LoopQueue_new"
  by (simp add: queue_ok_def callers_def data_ok_def batch_def lock_defs LoopQueue_new_def Mutex_new_def)

lemma finite_callers_upd:
  "finite (callers s) \<Longrightarrow> lq_calls s' = (lq_calls s)(t := c) \<Longrightarrow> finite (callers s')"
  by (rule finite_subset [of _ "insert t (callers s)"]) (auto simp: callers_def split: if_splits)

lemma call_step_ok: "call_step t s s' \<Longrightarrow> queue_ok s \<Longrightarrow> queue_ok s'"
proof -
  assume step: "call_step t s s'" and ok: "queue_ok s"
  from step have "\<exists>c. lq_calls s' = (lq_calls s)(t := c)" by cases auto
  with ok have "finite (callers s')" by (auto simp: queue_ok_def intro: finite_callers_upd)
  with step ok show ?thesis
    using call_step_lock call_step_data by (auto simp: queue_ok_def)
qed

lemma handle_step_calls: "handle_step s s' \<Longrightarrow> lq_calls s' = lq_calls s"
  by (induction rule: handle_step.induct) simp_all

lemma handle_step_ok: "handle_step s s' \<Longrightarrow> queue_ok s \<Longrightarrow> queue_ok s'"
  using handle_step_lock [of s s'] handle_step_data [of s s'] handle_step_calls [of s s']
  by (simp add: queue_ok_def callers_def)

lemma queue_begin_ok:
  assumes "queue_ok s" "lq_calls s t = C_out" "t = 0 \<longrightarrow> lq_loop s = Q_in_func \<or> lq_loop s = Q_out"
  shows "queue_ok (s\<lparr>lq_calls := (lq_calls s)(t := C_wants f)\<rparr>)"
proof -
  let ?s = "s\<lparr>lq_calls := (lq_calls s)(t := C_wants f)\<rparr>"
  have "inside ?s u = inside s u" for u
    using assms(2) by (simp add: inside_def)
  then have "lock_ok ?s" using assms by (auto simp: queue_ok_def lock_ok_def)
  moreover have "data_ok ?s" using assms(1) by (auto simp: queue_ok_def data_ok_def batch_def)
  moreover have "finite (callers ?s)"
    using assms(1) by (auto simp: queue_ok_def intro: finite_callers_upd)
  ultimately show ?thesis by (simp add: queue_ok_def)
qed

lemma queue_step_ok: "queue_step s s' \<Longrightarrow> queue_ok s \<Longrightarrow> queue_ok s'"
  by (induction rule: queue_step.induct) (auto intro: call_step_ok handle_step_ok queue_begin_ok)

lemma queue_reachable_ok: "queue_step\<^sup>*\<^sup>* LoopQueue_new s \<Longrightarrow> queue_ok s"
  by (induction rule: rtranclp_induct) (auto intro: queue_step_ok queue_new_ok)

section \<open>The atomic operations\<close>

text \<open>
  What the other models take the two operations for: \<open>RunInLoop\<close> in one step, the functions
  taken out in one step, and called one by one. The second component is the batch in the
  loop's hands, the third the functions called.
\<close>

inductive atomic_step :: "'f event_loop \<times> 'f list \<times> 'f list \<Rightarrow> 'f event_loop \<times> 'f list \<times> 'f list \<Rightarrow> bool" where
  atomic_give: "atomic_step (l, b, d) (RunInLoop f l, b, d)"
| atomic_take: "atomic_step (l, [], d) (l\<lparr>pending_func := []\<rparr>, pending_func l, d)"
| atomic_call: "atomic_step (l, f # b, d) (l, b, d @ [f])"

definition atomic_of :: "'f loop_queue \<Rightarrow> 'f event_loop \<times> 'f list \<times> 'f list" where
  "atomic_of s = ((EventLoop_new 0)\<lparr>pending_func := lq_pending s\<rparr>, batch s, lq_done s)"

lemma call_step_atomic:
  "call_step t s s' \<Longrightarrow> queue_ok s \<Longrightarrow> atomic_step\<^sup>=\<^sup>= (atomic_of s) (atomic_of s')"
proof (induction rule: call_step.induct)
  case (call_push s f fs)
  then have "fs = lq_pending s" by (auto simp: queue_ok_def data_ok_def)
  then show ?case using atomic_give [of "(EventLoop_new 0)\<lparr>pending_func := fs\<rparr>" "batch s" "lq_done s" f]
    by (auto simp: atomic_of_def batch_def RunInLoop_def)
qed (simp_all add: atomic_of_def batch_def)

lemma handle_step_atomic:
  "handle_step s s' \<Longrightarrow> queue_ok s \<Longrightarrow> atomic_step\<^sup>=\<^sup>= (atomic_of s) (atomic_of s')"
proof (induction rule: handle_step.induct)
  case (handle_swap s)
  then show ?case using atomic_take [of "(EventLoop_new 0)\<lparr>pending_func := lq_pending s\<rparr>" "lq_done s"]
    by (simp add: atomic_of_def batch_def queue_ok_def data_ok_def)
next
  case (handle_call s f fs)
  then show ?case using atomic_call [of _ f fs] by (simp add: atomic_of_def batch_def)
qed (simp_all add: atomic_of_def batch_def queue_ok_def data_ok_def)

lemma queue_step_atomic:
  "queue_step s s' \<Longrightarrow> queue_ok s \<Longrightarrow> atomic_step\<^sup>=\<^sup>= (atomic_of s) (atomic_of s')"
proof (induction rule: queue_step.induct)
  case (queue_begin s t f)
  then show ?case by (simp add: atomic_of_def batch_def)
next
  case (queue_call t s s')
  then show ?case by (rule call_step_atomic)
next
  case (queue_handle s s')
  then show ?case by (rule handle_step_atomic)
qed

lemma queue_reachable_atomic:
  "queue_step\<^sup>*\<^sup>* LoopQueue_new s \<Longrightarrow> atomic_step\<^sup>*\<^sup>* (atomic_of LoopQueue_new) (atomic_of s)"
proof (induction rule: rtranclp_induct)
  case (step s s')
  then have "atomic_step\<^sup>=\<^sup>= (atomic_of s) (atomic_of s')"
    by (intro queue_step_atomic queue_reachable_ok)
  with step show ?case by (auto intro: rtranclp.rtrancl_into_rtrancl)
qed simp

text \<open>The model of a turn in \<^verbatim>\<open>EventLoop.cpp\<close> is such a sequence of steps, whatever the functions give.\<close>

lemma atomic_gives: "atomic_step\<^sup>*\<^sup>* (l, b, d) (l\<lparr>pending_func := pending_func l @ new\<rparr>, b, d)"
proof (induction new arbitrary: l)
  case (Cons f new)
  then show ?case using atomic_give [of l b d f] Cons [of "RunInLoop f l"]
    by (simp add: RunInLoop_def converse_rtranclp_into_rtranclp)
qed simp

lemma for_each_gives_atomic:
  "\<exists>l'. for_each (gives (\<lambda>f d. Inr (new f, d @ [f]))) fs (l, d) = Inr (l', d @ fs) \<and> atomic_step\<^sup>*\<^sup>* (l, fs, d) (l', [], d @ fs)"
proof (induction fs arbitrary: l d)
  case (Cons f fs)
  let ?l = "l\<lparr>pending_func := pending_func l @ new f\<rparr>"
  obtain l' where l': "for_each (gives (\<lambda>f d. Inr (new f, d @ [f]))) fs (?l, d @ [f]) = Inr (l', (d @ [f]) @ fs)"
      "atomic_step\<^sup>*\<^sup>* (?l, fs, d @ [f]) (l', [], (d @ [f]) @ fs)"
    using Cons [of ?l "d @ [f]"] by blast
  have "atomic_step\<^sup>*\<^sup>* (l, f # fs, d) (?l, fs, d @ [f])"
    by (rule converse_rtranclp_into_rtranclp [OF atomic_call atomic_gives])
  with l'(2) have "atomic_step\<^sup>*\<^sup>* (l, f # fs, d) (l', [], d @ f # fs)" by simp
  moreover have "for_each (gives (\<lambda>f d. Inr (new f, d @ [f]))) (f # fs) (l, d) = Inr (l', d @ f # fs)"
    using l'(1) by (simp add: gives_def [of _ f])
  ultimately show ?case by blast
qed simp

lemma HandlePendingFunc_atomic:
  "\<exists>l'. HandlePendingFunc (gives (\<lambda>f d. Inr (new f, d @ [f]))) (l, d) = Inr (l', d @ pending_func l) \<and>
     atomic_step\<^sup>*\<^sup>* (l, [], d) (l', [], d @ pending_func l)"
proof -
  let ?l = "l\<lparr>pending_func := []\<rparr>"
  obtain l' where l': "for_each (gives (\<lambda>f d. Inr (new f, d @ [f]))) (pending_func l) (?l, d) = Inr (l', d @ pending_func l)"
      "atomic_step\<^sup>*\<^sup>* (?l, pending_func l, d) (l', [], d @ pending_func l)"
    using for_each_gives_atomic by blast
  have "atomic_step\<^sup>*\<^sup>* (l, [], d) (l', [], d @ pending_func l)"
    by (rule converse_rtranclp_into_rtranclp [OF atomic_take l'(2)])
  with l'(1) show ?thesis by (auto simp: HandlePendingFunc_def)
qed

section \<open>Nothing waits for ever\<close>

text \<open>
  The steps that finish what is begun: no call begins, and the loop enters \<open>HandlePendingFunc\<close>
  only when something is pending.
\<close>

inductive work_step :: "'f loop_queue \<Rightarrow> 'f loop_queue \<Rightarrow> bool" where
  work_call: "call_step t s s' \<Longrightarrow> work_step s s'"
| work_handle: "handle_step s s' \<Longrightarrow> lq_loop s \<noteq> Q_out \<or> lq_pending s \<noteq> [] \<Longrightarrow> work_step s s'"

definition queue_idle :: "'f loop_queue \<Rightarrow> bool" where
  "queue_idle s \<longleftrightarrow> callers s = {} \<and> lq_loop s = Q_out \<and> lq_pending s = []"

text \<open>How many steps are left at most; a call that has not pushed yet can cause a whole round of the loop.\<close>

primrec call_left :: "'f call_pc \<Rightarrow> nat" where
  "call_left C_out = 0"
| "call_left (C_wants f) = 20"
| "call_left (C_holds f) = 19"
| "call_left (C_read f fs) = 18"
| "call_left C_pushed = 1"

primrec loop_left :: "queue_pc \<Rightarrow> nat" where
  "loop_left Q_out = 0"
| "loop_left Q_wants = 5"
| "loop_left Q_holds = 4"
| "loop_left Q_took = 3"
| "loop_left Q_swapped = 2"
| "loop_left Q_for = 1"
| "loop_left Q_in_func = 2"

definition round_left :: "'f loop_queue \<Rightarrow> nat" where
  "round_left s = (if lq_pending s \<noteq> [] \<and> lq_loop s \<in> {Q_out, Q_swapped, Q_for, Q_in_func} then 6 else 0)"

definition calls_left :: "'f loop_queue \<Rightarrow> nat" where
  "calls_left s = (\<Sum>t\<in>callers s. call_left (lq_calls s t))"

definition work_left :: "'f loop_queue \<Rightarrow> nat" where
  "work_left s = calls_left s + 10 * length (lq_pending s) + 3 * length (batch s) + loop_left (lq_loop s) + round_left s"

lemma calls_left_upd:
  assumes "queue_ok s" "lq_calls s' = (lq_calls s)(t := c)" "lq_calls s t \<noteq> C_out"
  shows "calls_left s' + call_left (lq_calls s t) = calls_left s + call_left c"
proof -
  have fin: "finite (callers s)" using assms(1) by (simp add: queue_ok_def)
  have outside: "(\<Sum>u\<in>callers s' - {t}. call_left (lq_calls s' u)) = (\<Sum>u\<in>callers s - {t}. call_left (lq_calls s u))"
    using assms(2) by (intro sum.cong) (auto simp: callers_def split: if_splits)
  have "calls_left s = call_left (lq_calls s t) + (\<Sum>u\<in>callers s - {t}. call_left (lq_calls s u))"
    using fin assms(3) unfolding calls_left_def by (intro sum.remove) (simp_all add: callers_def)
  moreover have "calls_left s' = call_left c + (\<Sum>u\<in>callers s' - {t}. call_left (lq_calls s' u))"
  proof (cases "c = C_out")
    case True
    with assms(2) have "t \<notin> callers s'" by (simp add: callers_def)
    with True show ?thesis by (simp add: calls_left_def)
  next
    case False
    then have "finite (callers s')" "t \<in> callers s'" "lq_calls s' t = c"
      using fin assms(2) finite_callers_upd [of s s' t c] by (auto simp: callers_def)
    then show ?thesis by (simp add: calls_left_def sum.remove)
  qed
  ultimately show ?thesis using outside by simp
qed

lemma call_step_left:
  assumes "call_step t s s'" "queue_ok s"
  shows "work_left s' < work_left s"
  using assms(1)
proof cases
  case (call_lock f)
  then have "calls_left s' + 20 = calls_left s + 19"
    using calls_left_upd [OF assms(2), of s' t "C_holds f"] by simp
  with call_lock show ?thesis by (simp add: work_left_def batch_def round_left_def)
next
  case (call_read f)
  then have "calls_left s' + 19 = calls_left s + 18"
    using calls_left_upd [OF assms(2), of s' t "C_read f (lq_pending s)"] by simp
  with call_read show ?thesis by (simp add: work_left_def batch_def round_left_def)
next
  case (call_push f fs)
  then have "fs = lq_pending s" using assms(2) by (auto simp: queue_ok_def data_ok_def)
  moreover from call_push have "calls_left s' + 18 = calls_left s + 1"
    using calls_left_upd [OF assms(2), of s' t C_pushed] by simp
  ultimately show ?thesis using call_push by (cases "lq_pending s") (simp_all add: work_left_def batch_def round_left_def)
next
  case call_unlock
  then have "calls_left s' + 1 = calls_left s"
    using calls_left_upd [OF assms(2), of s' t C_out] by simp
  with call_unlock show ?thesis by (simp add: work_left_def batch_def round_left_def)
qed

lemma handle_step_left:
  "handle_step s s' \<Longrightarrow> queue_ok s \<Longrightarrow> lq_loop s \<noteq> Q_out \<or> lq_pending s \<noteq> [] \<Longrightarrow> work_left s' < work_left s"
  by (induction rule: handle_step.induct)
    (simp_all add: work_left_def batch_def round_left_def callers_def calls_left_def queue_ok_def data_ok_def)

lemma work_step_left: "work_step s s' \<Longrightarrow> queue_ok s \<Longrightarrow> work_left s' < work_left s"
  by (induction rule: work_step.induct) (auto intro: call_step_left handle_step_left)

lemma work_step_ok: "work_step s s' \<Longrightarrow> queue_ok s \<Longrightarrow> queue_ok s'"
  by (induction rule: work_step.induct) (auto intro: call_step_ok handle_step_ok)

lemma work_run_left: "(work_step ^^ n) s s' \<Longrightarrow> queue_ok s \<Longrightarrow> queue_ok s' \<and> n + work_left s' \<le> work_left s"
proof (induction n arbitrary: s')
  case (Suc n)
  then obtain m where m: "(work_step ^^ n) s m" "work_step m s'" by auto
  with Suc have "queue_ok m" "n + work_left m \<le> work_left s" by auto
  with m(2) show ?case using work_step_ok [of m s'] work_step_left [of m s'] by simp
qed simp

text \<open>The holder of the mutex can always go on, and when there is none so can everybody else.\<close>

lemma inside_moves: "queue_ok s \<Longrightarrow> inside s t \<Longrightarrow> \<exists>s'. work_step s s'"
proof -
  assume ok: "queue_ok s" and "inside s t"
  then consider f where "lq_calls s t = C_holds f" | f fs where "lq_calls s t = C_read f fs" | "lq_calls s t = C_pushed"
    | "lq_loop s = Q_holds" | "lq_loop s = Q_took" | "lq_loop s = Q_swapped"
    by (cases "lq_calls s t") (auto simp: inside_def loop_inside_def)
  then show ?thesis
  proof cases
    case 1
    then show ?thesis by (blast intro: work_call call_read)
  next
    case 2
    then show ?thesis by (blast intro: work_call call_push)
  next
    case 3
    then show ?thesis by (blast intro: work_call call_unlock)
  next
    case 4
    then show ?thesis using work_handle [OF handle_take] by fastforce
  next
    case 5
    then show ?thesis using work_handle [OF handle_swap] by fastforce
  next
    case 6
    then show ?thesis using work_handle [OF handle_unlock] by fastforce
  qed
qed

lemma caller_moves:
  assumes "queue_ok s" "lq_calls s t \<noteq> C_out"
  shows "\<exists>s'. work_step s s'"
proof (cases "lq_mutex s")
  case (Some u)
  then have "inside s u" using assms(1) by (simp add: queue_ok_def lock_ok_def)
  with assms(1) show ?thesis by (rule inside_moves)
next
  case None
  then have "\<not> inside s t" using assms(1) by (simp add: queue_ok_def lock_ok_def)
  then obtain f where "lq_calls s t = C_wants f"
    using assms(2) by (cases "lq_calls s t") (auto simp: inside_def)
  with None show ?thesis by (blast intro: work_call call_lock Mutex_free_def [THEN iffD2])
qed

lemma loop_moves:
  assumes "queue_ok s" "callers s = {}" "lq_loop s \<noteq> Q_out \<or> lq_pending s \<noteq> []"
  shows "\<exists>s'. work_step s s'"
proof -
  have out: "lq_calls s t = C_out" for t using assms(2) by (auto simp: callers_def)
  show ?thesis
  proof (cases "loop_inside (lq_loop s)")
    case True
    then have "inside s 0" by (simp add: inside_def)
    with assms(1) show ?thesis by (rule inside_moves)
  next
    case False
    then have "\<not> inside s t" for t by (simp add: inside_def out)
    then have "Mutex_free (lq_mutex s)" using assms(1) by (auto simp: queue_ok_def lock_ok_def Mutex_free_def)
    with False out assms(3) have "\<exists>s'. handle_step s s'"
      by (cases "lq_loop s"; cases "lq_local s")
        (auto simp: loop_inside_def intro: handle_step.intros)
    with assms(3) show ?thesis by (blast intro: work_handle)
  qed
qed

lemma stuck_queue_idle: "queue_ok s \<Longrightarrow> \<not> (\<exists>s'. work_step s s') \<Longrightarrow> queue_idle s"
  using caller_moves [of s] loop_moves [of s] by (auto simp: queue_idle_def callers_def)

lemma queue_idle_free: "queue_ok s \<Longrightarrow> queue_idle s \<Longrightarrow> lq_mutex s = None"
  by (cases "lq_mutex s") (auto simp: queue_ok_def lock_ok_def inside_def loop_inside_def queue_idle_def callers_def)

lemma queue_idle_done: "queue_ok s \<Longrightarrow> queue_idle s \<Longrightarrow> lq_done s = lq_given s"
  by (simp add: queue_idle_def queue_ok_def data_ok_def batch_def)

section \<open>Properties\<close>

text \<open>
  C7: However the threads interleave, at most one of them is between taking and releasing the
  mutex, and the queue goes through states that the atomic \<open>RunInLoop\<close> and the atomic take of
  \<open>HandlePendingFunc\<close> go through: nothing is lost, doubled or reordered, although \<^verbatim>\<open>push_back\<close>
  and \<^verbatim>\<open>swap\<close> read and write the vector in separate steps. \<open>HandlePendingFunc\<close> of the model of a
  turn is a sequence of these steps, for any functions and whatever they give to the loop.
\<close>

theorem queue_refines_atomic:
  assumes "queue_step\<^sup>*\<^sup>* LoopQueue_new s"
  shows "(inside s t \<and> inside s u \<longrightarrow> t = u) \<and>
    atomic_step\<^sup>*\<^sup>* (EventLoop_new 0, [], []) (atomic_of s) \<and>
    lq_given s = lq_done s @ batch s @ lq_pending s \<and>
    (\<exists>l'. HandlePendingFunc (gives (\<lambda>f d. Inr (new f, d @ [f]))) (l, d) = Inr (l', d @ pending_func l) \<and>
      atomic_step\<^sup>*\<^sup>* (l, [], d) (l', [], d @ pending_func l))"
proof (intro conjI)
  have ok: "queue_ok s" using assms by (rule queue_reachable_ok)
  then show "inside s t \<and> inside s u \<longrightarrow> t = u" using inside_alone [of s u t] by (auto simp: queue_ok_def)
  show "lq_given s = lq_done s @ batch s @ lq_pending s" using ok by (simp add: queue_ok_def data_ok_def)
  show "atomic_step\<^sup>*\<^sup>* (EventLoop_new 0, [], []) (atomic_of s)"
    using queue_reachable_atomic [OF assms] by (simp add: atomic_of_def LoopQueue_new_def batch_def EventLoop_new_def)
qed (rule HandlePendingFunc_atomic)

text \<open>Thread 1 has pushed a function and still holds the mutex; the loop waits for it.\<close>

definition example_queue :: "nat loop_queue" where
  "example_queue = \<lparr>lq_mutex = Some 1, lq_pending = [7], lq_local = [], lq_calls = (\<lambda>_. C_out)(1 := C_pushed),
     lq_loop = Q_wants, lq_given = [7], lq_done = []\<rparr>"

lemma example_queue_reached: "queue_step\<^sup>*\<^sup>* LoopQueue_new example_queue"
proof -
  let ?a = "LoopQueue_new\<lparr>lq_calls := (\<lambda>_. C_out)(1 := C_wants 7)\<rparr> :: nat loop_queue"
  let ?b = "?a\<lparr>lq_mutex := Some 1, lq_calls := (\<lambda>_. C_out)(1 := C_holds 7)\<rparr>"
  let ?c = "?b\<lparr>lq_calls := (\<lambda>_. C_out)(1 := C_read 7 [])\<rparr>"
  let ?d = "?c\<lparr>lq_pending := [7], lq_given := [7], lq_calls := (\<lambda>_. C_out)(1 := C_pushed)\<rparr>"
  have "queue_step LoopQueue_new ?a"
    using queue_begin [of LoopQueue_new 1 "7 :: nat"] by (simp add: LoopQueue_new_def)
  moreover have "call_step 1 ?a ?b"
    using call_lock [of ?a 1 7] by (simp add: LoopQueue_new_def Mutex_new_def guard_defs)
  moreover have "call_step 1 ?b ?c"
    using call_read [of ?b 1 7] by (simp add: LoopQueue_new_def)
  moreover have "call_step 1 ?c ?d"
    using call_push [of ?c 1 7 "[]"] by (simp add: LoopQueue_new_def)
  moreover have "handle_step ?d example_queue"
    using handle_begin [of ?d] by (simp add: LoopQueue_new_def example_queue_def)
  ultimately show ?thesis
    by (meson queue_call queue_handle converse_rtranclp_into_rtranclp rtranclp.rtrancl_refl)
qed

theorem queue_refines_atomic_witness:
  "inside example_queue 1 \<and> atomic_step\<^sup>*\<^sup>* (EventLoop_new 0, [], []) (atomic_of example_queue) \<and>
    lq_given example_queue = lq_done example_queue @ batch example_queue @ lq_pending example_queue"
proof -
  have "inside example_queue 1" by (simp add: inside_def example_queue_def)
  with queue_refines_atomic [OF example_queue_reached] show ?thesis by blast
qed

lemma call_step_given: "call_step t s s' \<Longrightarrow> \<exists>new. lq_given s' = lq_given s @ new"
  by (induction rule: call_step.induct) auto

lemma work_step_given: "work_step s s' \<Longrightarrow> \<exists>new. lq_given s' = lq_given s @ new"
proof (induction rule: work_step.induct)
  case (work_handle s s')
  from work_handle(1) have "lq_given s' = lq_given s" by cases simp_all
  then show ?case by simp
qed (rule call_step_given)

lemma work_run_given: "(work_step ^^ n) s s' \<Longrightarrow> \<exists>new. lq_given s' = lq_given s @ new"
proof (induction n arbitrary: s')
  case (Suc n)
  then obtain m where "(work_step ^^ n) s m" "work_step m s'" by auto
  with Suc work_step_given [of m s'] show ?case by fastforce
qed simp

text \<open>
  C29: No deadlock and nothing forgotten: from any state the threads reach, the steps that
  finish what is begun come to an end within \<open>work_left\<close> steps under every schedule, and where
  none is possible any more no thread is in a call, the mutex is free again and every function
  ever given has been called, in the order of the pushes.
\<close>

theorem queue_work_ends:
  assumes "queue_step\<^sup>*\<^sup>* LoopQueue_new s" "(work_step ^^ n) s s'"
  shows "n \<le> work_left s \<and> (\<exists>new. lq_given s' = lq_given s @ new) \<and>
    ((\<exists>s''. work_step s' s'') \<or> queue_idle s' \<and> lq_mutex s' = None \<and> lq_done s' = lq_given s')"
proof -
  have "queue_ok s" using assms(1) by (rule queue_reachable_ok)
  then have ok: "queue_ok s'" and "n + work_left s' \<le> work_left s"
    using work_run_left [OF assms(2)] by auto
  moreover have "queue_idle s' \<Longrightarrow> lq_mutex s' = None \<and> lq_done s' = lq_given s'"
    using ok queue_idle_free queue_idle_done by auto
  ultimately show ?thesis
    using stuck_queue_idle [OF ok] work_run_given [OF assms(2)] by auto
qed

definition example_queue_later :: "nat loop_queue" where
  "example_queue_later = example_queue\<lparr>lq_mutex := None, lq_calls := (\<lambda>_. C_out)(1 := C_out)\<rparr>"

theorem queue_work_ends_witness:
  "1 \<le> work_left example_queue \<and> (\<exists>new. lq_given example_queue_later = lq_given example_queue @ new) \<and>
    ((\<exists>s''. work_step example_queue_later s'') \<or>
      queue_idle example_queue_later \<and> lq_mutex example_queue_later = None \<and> lq_done example_queue_later = lq_given example_queue_later)"
proof (rule queue_work_ends [OF example_queue_reached])
  have "call_step 1 example_queue example_queue_later"
    using call_unlock [of example_queue 1] by (simp add: example_queue_def example_queue_later_def guard_defs)
  then show "(work_step ^^ 1) example_queue example_queue_later"
    by (auto simp: relcompp_apply intro: work_call)
qed

end
