(* ===== verification/Multiplexing.thy ===== *)
theory Multiplexing
  imports Channel EventLoop
begin

text \<open>
  The waiting side of \<^verbatim>\<open>network/multiplexing/Epoll.cpp\<close>, \<^verbatim>\<open>Select.cpp\<close> and \<^verbatim>\<open>MultiplexingBase.cpp\<close>: \<open>LoopOnce\<close>, with
  \<open>epoll_wait\<close> and \<open>select\<close> as arguments, and what a turn of the loop makes of the events it reports. A
  channel is a position in the list of channels, as in the theory \<^verbatim>\<open>Channel\<close>.
\<close>

section \<open>Epoll\<close>

type_synonym epoll_event = "nat option \<times> u32"

record epoll =
  epfd :: int
  event_vector :: "epoll_event list"

definition Epoll_new :: "int \<Rightarrow> epoll" where
  "Epoll_new epoll_create = \<lparr>epfd = epoll_create, event_vector = replicate 50 (None, 0)\<rparr>"

datatype wait_errno = W_EINTR | W_OTHER

text \<open>\<open>epoll_wait(epfd, maxevents, timeout)\<close>: its value, \<open>errno\<close>, and the events it stores at the front of the vector.\<close>

type_synonym sys_epoll_wait = "int \<Rightarrow> nat \<Rightarrow> int \<Rightarrow> int \<times> wait_errno \<times> epoll_event list"

definition Epoll_LoopOnce :: "sys_epoll_wait \<Rightarrow> int \<Rightarrow> epoll \<Rightarrow> channel list \<times> nat list \<Rightarrow>
    (epoll \<times> channel list \<times> nat list) result" where
  "Epoll_LoopOnce wait timeout e = (\<lambda>(chans, active_channels).
     let (ret, err, events) = wait (epfd e) (length (event_vector e)) timeout;
         e = e\<lparr>event_vector := events @ drop (length events) (event_vector e)\<rparr> in
     if ret = -1 then if err \<noteq> W_EINTR then Inl Exited else Inr (e, chans, active_channels)
     else if ret = 0 then Inr (e, chans, active_channels)
     else if \<not> nat ret \<le> length (event_vector e) then Inl OutOfBounds
     else Inr (e, FillActiveSocketVector (take (nat ret) (event_vector e)) chans active_channels))"

text \<open>The unused helper: \<open>ptr\<close> is the channel, which \<open>epoll_call\<close> leaves out.\<close>

definition EpollControl :: "epoll_op \<Rightarrow> int \<Rightarrow> u32 \<Rightarrow> epoll_call list \<Rightarrow> epoll_call list" where
  "EpollControl ctl fd events calls =
     (if ctl = EPOLL_CTL_DEL then calls @ [(EPOLL_CTL_DEL, fd, 0)] else calls @ [(ctl, fd, events)])"

section \<open>MultiplexingBase\<close>

definition Base_LoopOnce :: "int \<Rightarrow> nat list \<Rightarrow> nat list" where
  "Base_LoopOnce timeout active_channels = active_channels"

definition Base_UpdateChannel :: "channel \<Rightarrow> channel" where
  "Base_UpdateChannel c = c"

section \<open>Select\<close>

text \<open>\<open>select(nfds, readset, writeset, (tv_sec, tv_usec))\<close>: its value and the two sets it leaves.\<close>

type_synonym sys_select = "int \<Rightarrow> int set \<Rightarrow> int set \<Rightarrow> int \<times> int \<Rightarrow> int \<times> int set \<times> int set"

definition FD_SETSIZE :: int where "FD_SETSIZE = 64"

definition Select_LoopOnce :: "sys_select \<Rightarrow> int \<Rightarrow> select_state \<Rightarrow> channel list \<times> nat list \<Rightarrow>
    (bool \<times> channel list \<times> nat list) result" where
  "Select_LoopOnce select timeout s = (\<lambda>(chans, active_channels).
     let time = (0, timeout div 1000);
         (ret, readset_select, writeset_select) = select (FD_SETSIZE + 1) (readset s) (writeset s) time in
     if ret = -1 then Inr (False, chans, active_channels)
     else ebind (Select_FillActiveSocketVector readset_select writeset_select ret s chans active_channels) (\<lambda>(chans, active_channels).
       Inr (True, chans, active_channels)))"

text \<open>The loop's 20 milliseconds become no time at all: under select it never sleeps.\<close>

lemma Select_LoopOnce_polls:
  "(\<And>n r w. select n r w (0, 0) = select' n r w (0, 0)) \<Longrightarrow> Select_LoopOnce select 20 s = Select_LoopOnce select' 20 s"
  by (simp add: Select_LoopOnce_def)

section \<open>The events of a turn\<close>

definition set_events :: "(nat \<times> u32) list \<Rightarrow> channel list \<Rightarrow> channel list" where
  "set_events evs chans = fold (\<lambda>(p, ev) chans. chans[p := SetEvent ev (chans ! p)]) evs chans"

lemma FillActive_all:
  "FillActiveSocketVector (map (\<lambda>(p, ev). (Some p, ev)) evs) chans active = (set_events evs chans, active @ map fst evs)"
  by (induction evs arbitrary: chans active) (auto simp: set_events_def)

lemma set_events_other: "q \<notin> fst ` set evs \<Longrightarrow> set_events evs chans ! q = chans ! q"
proof (induction evs arbitrary: chans)
  case (Cons e evs)
  then show ?case by (cases e) (simp add: set_events_def)
qed (simp add: set_events_def)

lemma set_events_event:
  assumes "distinct (map fst evs)" "(p, ev) \<in> set evs" "p < length chans"
  shows "set_events evs chans ! p = SetEvent ev (chans ! p)"
  using assms
proof (induction evs arbitrary: chans)
  case (Cons e evs)
  obtain q v where e: "e = (q, v)" by (cases e)
  have step: "set_events (e # evs) chans = set_events evs (chans[q := SetEvent v (chans ! q)])"
    by (simp add: set_events_def e)
  show ?case
  proof (cases "p = q")
    case True
    then have "(p, ev) \<notin> set evs" "p \<notin> fst ` set evs" using Cons.prems(1) e by (auto simp: image_iff)
    then have "ev = v" using Cons.prems(2) e by auto
    with \<open>p \<notin> fst ` set evs\<close> True Cons.prems(3) step show ?thesis by (simp add: set_events_other)
  next
    case False
    then have "(p, ev) \<in> set evs" using Cons.prems(2) e by auto
    then have "set_events evs (chans[q := SetEvent v (chans ! q)]) ! p = SetEvent ev (chans[q := SetEvent v (chans ! q)] ! p)"
      using Cons.prems e by (intro Cons.IH) auto
    with False step show ?thesis by simp
  qed
qed simp

text \<open>The callbacks a reported event asks for, the readable one first.\<close>

datatype event_call = Calls_readable nat | Calls_writable nat

definition event_calls :: "nat \<times> u32 \<Rightarrow> event_call list" where
  "event_calls = (\<lambda>(p, ev). (if ev AND EPOLLIN \<noteq> 0 then [Calls_readable p] else []) @
     (if ev AND EPOLLOUT \<noteq> 0 then [Calls_writable p] else []))"

text \<open>
  A callback works on the multiplexer, where \<^verbatim>\<open>Update\<close> of its loop ends, on the channels and on
  the rest of the program.
\<close>

type_synonym ('m, 's) channel_cb = "nat \<Rightarrow> 'm \<times> channel list \<times> 's \<Rightarrow> ('m \<times> channel list \<times> 's) result"

definition run_call :: "('m, 's) channel_cb \<Rightarrow> ('m, 's) channel_cb \<Rightarrow> event_call \<Rightarrow> 'm \<times> channel list \<times> 's \<Rightarrow> ('m \<times> channel list \<times> 's) result" where
  "run_call readable writable c = (case c of Calls_readable p \<Rightarrow> readable p | Calls_writable p \<Rightarrow> writable p)"

text \<open>\<open>HandleEventWithGuard\<close> of the channel at a position, whose owner is there.\<close>

definition handle_channel :: "('m, 's) channel_cb \<Rightarrow> ('m, 's) channel_cb \<Rightarrow> nat \<Rightarrow> 'm \<times> channel list \<times> 's \<Rightarrow> ('m \<times> channel list \<times> 's) result" where
  "handle_channel readable writable p = HandleEventWithGuard True (\<lambda>(_, chans, _). chans ! p) (Some (readable p)) (Some (writable p))"

text \<open>The events are written by \<open>LoopOnce\<close> only; a callback may change everything else.\<close>

definition keeps_events :: "('m, 's) channel_cb \<Rightarrow> bool" where
  "keeps_events cb \<longleftrightarrow> (\<forall>p m chans s m' chans' s' q.
     cb p (m, chans, s) = Inr (m', chans', s') \<longrightarrow> ch_event (chans' ! q) = ch_event (chans ! q))"

lemma keeps_eventsD: "keeps_events cb \<Longrightarrow> cb p (m, chans, s) = Inr (m', chans', s') \<Longrightarrow> ch_event (chans' ! q) = ch_event (chans ! q)"
  unfolding keeps_events_def by blast

lemma ebind_end [simp]: "ebind r (for_each f []) = r"
  by (cases r) simp_all

lemma handle_channel_calls:
  assumes "keeps_events readable" "ch_event (chans ! p) = ev"
  shows "handle_channel readable writable p (m, chans, s) = for_each (run_call readable writable) (event_calls (p, ev)) (m, chans, s)"
proof (cases "readable p (m, chans, s)")
  case (Inl e)
  then show ?thesis using assms(2)
    by (auto simp: handle_channel_def HandleEventWithGuard_def HandleEvent_def event_calls_def run_call_def)
next
  case (Inr t)
  obtain m' chans' s' where t: "t = (m', chans', s')" by (cases t)
  have "ch_event (chans' ! p) = ev" using keeps_eventsD [OF assms(1) Inr [unfolded t]] assms(2) by simp
  then show ?thesis using assms(2) Inr t
    by (auto simp: handle_channel_def HandleEventWithGuard_def HandleEvent_def event_calls_def run_call_def)
qed

lemma for_each_append: "for_each f (xs @ ys) s = ebind (for_each f xs s) (for_each f ys)"
proof (induction xs arbitrary: s)
  case (Cons x xs)
  then show ?case by (cases "f x s") simp_all
qed simp

lemma for_each_keeps:
  assumes "\<And>x s s'. x \<in> set xs \<Longrightarrow> f x s = Inr s' \<Longrightarrow> P s \<Longrightarrow> P s'"
  shows "for_each f xs s = Inr s' \<Longrightarrow> P s \<Longrightarrow> P s'"
  using assms
proof (induction xs arbitrary: s)
  case (Cons x xs)
  then obtain t where "f x s = Inr t" "for_each f xs t = Inr s'" by (cases "f x s") auto
  with Cons show ?case by (metis list.set_intros)
qed simp

lemma handle_channels_calls:
  assumes "keeps_events readable" "keeps_events writable"
  shows "\<forall>(p, ev) \<in> set evs. ch_event (chans ! p) = ev \<Longrightarrow>
    for_each (handle_channel readable writable) (map fst evs) (m, chans, s) =
      for_each (run_call readable writable) (concat (map event_calls evs)) (m, chans, s)"
proof (induction evs arbitrary: m chans s)
  case (Cons e evs)
  obtain p ev where e: "e = (p, ev)" by (cases e)
  then have 1: "handle_channel readable writable p (m, chans, s) = for_each (run_call readable writable) (event_calls e) (m, chans, s)"
    using Cons.prems by (simp add: handle_channel_calls [OF assms(1)])
  show ?case
  proof (cases "for_each (run_call readable writable) (event_calls e) (m, chans, s)")
    case (Inl f)
    then show ?thesis using 1 e by (simp add: for_each_append)
  next
    case (Inr t)
    obtain m' chans' s' where t: "t = (m', chans', s')" by (cases t)
    have "ch_event (fst (snd t) ! q) = ch_event (chans ! q)" for q
      by (rule for_each_keeps [OF _ Inr, where P = "\<lambda>t. ch_event (fst (snd t) ! q) = ch_event (chans ! q)"])
        (auto simp: run_call_def split: event_call.splits dest: keeps_eventsD [OF assms(1), of _ _ _ _ _ _ _ q] keeps_eventsD [OF assms(2), of _ _ _ _ _ _ _ q])
    then have "\<forall>(p, ev) \<in> set evs. ch_event (chans' ! p) = ev" using Cons.prems t by auto
    from Cons.IH [OF this] show ?thesis using 1 e Inr t by (simp add: for_each_append)
  qed
qed simp

section \<open>A multiplexer\<close>

text \<open>
  One turn: \<open>LoopOnce\<close> on an emptied list of active channels, then \<open>HandleActiveChannel\<close>, whose callbacks
  may register and remove channels; the list is not made again before the next turn.
\<close>

definition loop_turn :: "('m \<Rightarrow> channel list \<times> nat list \<Rightarrow> ('m \<times> channel list \<times> nat list) result) \<Rightarrow>
    ('m, 's) channel_cb \<Rightarrow> ('m, 's) channel_cb \<Rightarrow> 'm \<times> channel list \<times> 's \<Rightarrow> ('m \<times> channel list \<times> 's) result" where
  "loop_turn loop_once readable writable = (\<lambda>(m, chans, s).
     ebind (loop_once m (chans, [])) (\<lambda>(m, chans, active_channels).
     for_each (handle_channel readable writable) active_channels (m, chans, s)))"

text \<open>
  What the loop relies on, whichever subclass it has: \<open>LoopOnce\<close> gives every channel it reports the event it
  reports for it, in some order, and lists them; no channel comes twice.
\<close>

locale multiplexer =
  fixes loop_once :: "'m \<Rightarrow> channel list \<times> nat list \<Rightarrow> ('m \<times> channel list \<times> nat list) result"
    and reports :: "'m \<Rightarrow> nat \<Rightarrow> (nat \<times> u32) list \<Rightarrow> bool"
    and kept :: "'m \<Rightarrow> 'm \<Rightarrow> bool"
  assumes reports_distinct: "reports m n evs \<Longrightarrow> distinct (map fst evs)"
    and reports_range: "reports m n evs \<Longrightarrow> (p, ev) \<in> set evs \<Longrightarrow> p < n"
    and loop_once_reports: "reports m n evs \<Longrightarrow> \<exists>m'. loop_once m (chans, active) = Inr (m', set_events evs chans, active @ map fst evs) \<and> kept m m'"
begin

lemma turn_calls:
  assumes "reports m (length chans) evs" "keeps_events readable" "keeps_events writable"
  shows "\<exists>m'. kept m m' \<and> (\<forall>s. loop_turn loop_once readable writable (m, chans, s) =
    for_each (run_call readable writable) (concat (map event_calls evs)) (m', set_events evs chans, s))"
proof -
  obtain m' where m': "loop_once m (chans, []) = Inr (m', set_events evs chans, [] @ map fst evs)" "kept m m'"
    using loop_once_reports [OF assms(1)] by blast
  have "\<forall>(p, ev) \<in> set evs. ch_event (set_events evs chans ! p) = ev"
    using set_events_event [OF reports_distinct [OF assms(1)] _ reports_range [OF assms(1)]] by (auto simp: SetEvent_def)
  with m' show ?thesis
    by (intro exI [of _ m']) (simp add: loop_turn_def handle_channels_calls [OF assms(2,3)])
qed

end

subsection \<open>Epoll is one\<close>

text \<open>
  \<^verbatim>\<open>epoll_wait(2)\<close>: it stores as many events as it says, at most as many as it was asked for,
  each of another registered channel, with the pointer that was registered.
\<close>

definition wait_reports :: "sys_epoll_wait \<Rightarrow> epoll \<Rightarrow> int \<Rightarrow> nat \<Rightarrow> (nat \<times> u32) list \<Rightarrow> bool" where
  "wait_reports wait e timeout n evs \<longleftrightarrow>
     (\<exists>err. wait (epfd e) (length (event_vector e)) timeout = (int (length evs), err, map (\<lambda>(p, ev). (Some p, ev)) evs)) \<and>
     length evs \<le> length (event_vector e) \<and> distinct (map fst evs) \<and> fst ` set evs \<subseteq> {..<n}"

definition same_epoll :: "epoll \<Rightarrow> epoll \<Rightarrow> bool" where
  "same_epoll e e' \<longleftrightarrow> epfd e' = epfd e \<and> length (event_vector e') = length (event_vector e)"

lemma LoopOnce_reports:
  assumes "wait_reports wait e timeout n evs"
  shows "\<exists>e'. Epoll_LoopOnce wait timeout e (chans, active) = Inr (e', set_events evs chans, active @ map fst evs) \<and> same_epoll e e'"
proof -
  let ?v = "map (\<lambda>(p, ev). (Some p, ev)) evs"
  let ?e = "e\<lparr>event_vector := ?v @ drop (length evs) (event_vector e)\<rparr>"
  have "Epoll_LoopOnce wait timeout e (chans, active) = Inr (?e, set_events evs chans, active @ map fst evs)"
    using assms FillActive_all [of evs chans active]
    by (cases "evs = []") (auto simp: Epoll_LoopOnce_def wait_reports_def set_events_def Let_def)
  moreover have "same_epoll e ?e" using assms by (simp add: wait_reports_def same_epoll_def)
  ultimately show ?thesis by blast
qed

interpretation ep: multiplexer "Epoll_LoopOnce wait timeout" "\<lambda>e. wait_reports wait e timeout" same_epoll for wait timeout
proof
  fix m n evs p ev chans active
  show "wait_reports wait m timeout n evs \<Longrightarrow> distinct (map fst evs)" by (simp add: wait_reports_def)
  show "wait_reports wait m timeout n evs \<Longrightarrow> (p, ev) \<in> set evs \<Longrightarrow> p < n" by (force simp: wait_reports_def)
qed (rule LoopOnce_reports)

subsection \<open>Select is one\<close>

text \<open>The events of the map's channels, in the order of their descriptors; those that are not ready get none.\<close>

definition select_events :: "int set \<Rightarrow> int set \<Rightarrow> (int \<times> nat) list \<Rightarrow> (nat \<times> u32) list" where
  "select_events R W m = map (\<lambda>(fd, p). (p, let event = (if fd \<in> R then EPOLLIN else 0) in if fd \<in> W then event OR EPOLLOUT else event)) m"

text \<open>
  \<^verbatim>\<open>select(2)\<close>: it leaves the ready descriptors of each set and says how many they are. The sets hold descriptors
  of the map, and a channel is in the map once.
\<close>

definition select_reports :: "sys_select \<Rightarrow> int \<Rightarrow> select_state \<Rightarrow> nat \<Rightarrow> (nat \<times> u32) list \<Rightarrow> bool" where
  "select_reports select timeout s n evs \<longleftrightarrow>
     readset s \<union> writeset s \<subseteq> fst ` set (channel_map s) \<and> distinct (map fst (channel_map s)) \<and> distinct (map snd (channel_map s)) \<and>
     snd ` set (channel_map s) \<subseteq> {..<n} \<and>
     (\<exists>R W. R \<subseteq> readset s \<and> W \<subseteq> writeset s \<and>
       select (FD_SETSIZE + 1) (readset s) (writeset s) (0, timeout div 1000) = (int (card R + card W), R, W) \<and>
       evs = select_events R W (channel_map s))"

definition select_once :: "sys_select \<Rightarrow> int \<Rightarrow> select_state \<Rightarrow> channel list \<times> nat list \<Rightarrow> (select_state \<times> channel list \<times> nat list) result" where
  "select_once select timeout s st = ebind (Select_LoopOnce select timeout s st) (\<lambda>(_, chans, active). Inr (s, chans, active))"

lemma Select_Fill_all:
  "Select_Fill R W m n chans active =
    (n + int (length (filter (\<lambda>(fd, p). fd \<in> R) m) + length (filter (\<lambda>(fd, p). fd \<in> W) m)), set_events (select_events R W m) chans, active @ map snd m)"
proof (induction m arbitrary: n chans active)
  case (Cons e m)
  obtain fd p where "e = (fd, p)" by (cases e)
  with Cons show ?case by (simp add: select_events_def set_events_def Let_def)
qed (simp add: select_events_def set_events_def)

lemma length_filter_card:
  assumes "distinct (map fst m)" "R \<subseteq> fst ` set m"
  shows "length (filter (\<lambda>(fd, p). fd \<in> R) m) = card R"
proof -
  have "distinct (map fst (filter (\<lambda>(fd, p). fd \<in> R) m))" using assms(1) by (rule distinct_map_filter)
  then have "length (filter (\<lambda>(fd, p). fd \<in> R) m) = card (fst ` set (filter (\<lambda>(fd, p). fd \<in> R) m))"
    using distinct_card by fastforce
  also have "fst ` set (filter (\<lambda>(fd, p). fd \<in> R) m) = R" using assms(2) by (auto simp: image_iff) force
  finally show ?thesis .
qed

lemma select_once_reports:
  assumes "select_reports select timeout s n evs"
  shows "select_once select timeout s (chans, active) = Inr (s, set_events evs chans, active @ map fst evs)"
proof -
  obtain R W where r: "R \<subseteq> readset s" "W \<subseteq> writeset s"
    "select (FD_SETSIZE + 1) (readset s) (writeset s) (0, timeout div 1000) = (int (card R + card W), R, W)"
    "evs = select_events R W (channel_map s)" using assms by (auto simp: select_reports_def)
  have "length (filter (\<lambda>(fd, p). fd \<in> R) (channel_map s)) = card R" "length (filter (\<lambda>(fd, p). fd \<in> W) (channel_map s)) = card W"
    using assms r(1,2) by (auto simp: select_reports_def intro!: length_filter_card)
  moreover have "map fst evs = map snd (channel_map s)" by (simp add: r(4) select_events_def case_prod_beta comp_def)
  moreover have "int (card R + card W) \<noteq> -1" by simp
  ultimately show ?thesis
    by (simp add: select_once_def Select_LoopOnce_def r(3) Select_FillActiveSocketVector_def Select_Fill_all r(4) [symmetric])
qed

interpretation sel: multiplexer "select_once select timeout" "select_reports select timeout" "(=)" for select timeout
proof
  fix m n evs p ev chans active
  assume r: "select_reports select timeout m n evs"
  then obtain R W where "evs = select_events R W (channel_map m)" by (auto simp: select_reports_def)
  then have "map fst evs = map snd (channel_map m)" by (simp add: select_events_def case_prod_beta comp_def)
  with r show "distinct (map fst evs)" by (simp add: select_reports_def)
  have "fst ` set evs = snd ` set (channel_map m)" using \<open>map fst evs = map snd (channel_map m)\<close> by (metis list.set_map)
  with r have "fst ` set evs \<subseteq> {..<n}" by (simp add: select_reports_def)
  then show "(p, ev) \<in> set evs \<Longrightarrow> p < n" by force
  show "\<exists>m'. select_once select timeout m (chans, active) = Inr (m', set_events evs chans, active @ map fst evs) \<and> m = m'"
    using select_once_reports [OF r] by simp
qed

section \<open>Turns\<close>

definition epoll_turn :: "sys_epoll_wait \<Rightarrow> (epoll, 's) channel_cb \<Rightarrow> (epoll, 's) channel_cb \<Rightarrow> epoll \<times> channel list \<times> 's \<Rightarrow>
    (epoll \<times> channel list \<times> 's) result" where
  "epoll_turn wait = loop_turn (Epoll_LoopOnce wait 20)"

definition select_turn :: "sys_select \<Rightarrow> (select_state, 's) channel_cb \<Rightarrow> (select_state, 's) channel_cb \<Rightarrow> select_state \<times> channel list \<times> 's \<Rightarrow>
    (select_state \<times> channel list \<times> 's) result" where
  "select_turn select = loop_turn (select_once select 20)"

text \<open>
  C30: one turn of the loop with epoll calls, for the channels the kernel reports and in the order it
  reports them, the readable callback for an event with \<^verbatim>\<open>EPOLLIN\<close> and behind it the writable one for an event
  with \<^verbatim>\<open>EPOLLOUT\<close>, each once, and nothing else: no event of an earlier turn is seen again, and one that only
  says error or hang-up calls nothing. The first callback that faults ends the turn. The channels
  not reported are not touched before the callbacks run.
\<close>

theorem epoll_turn_dispatches:
  assumes "wait_reports wait e 20 (length chans) evs" "keeps_events readable" "keeps_events writable"
  shows "\<exists>e'. same_epoll e e' \<and>
    epoll_turn wait readable writable (e, chans, s) =
      for_each (run_call readable writable) (concat (map event_calls evs)) (e', set_events evs chans, s) \<and>
    (\<forall>q. q \<notin> fst ` set evs \<longrightarrow> set_events evs chans ! q = chans ! q)"
  unfolding epoll_turn_def using ep.turn_calls [OF assms] set_events_other by metis

text \<open>Two channels: the first is readable and writable, the second hung up (bit 4).\<close>

definition example_wait :: sys_epoll_wait where
  "example_wait fd maxevents timeout = (2, W_OTHER, [(Some 0, 5), (Some 1, 16)])"

definition logs :: "bool \<Rightarrow> ('m, (nat \<times> bool) list) channel_cb" where
  "logs b p = (\<lambda>(m, chans, log). Inr (m, chans, log @ [(p, b)]))"

lemma logs_keeps: "keeps_events (logs b)"
  by (auto simp: keeps_events_def logs_def)

theorem epoll_turn_dispatches_witness:
  "\<exists>e' chans'. epoll_turn example_wait (logs True) (logs False) (Epoll_new 3, [Channel_new [] 7, Channel_new [] 8], []) =
      Inr (e', chans', [(0, True), (0, False)]) \<and> ch_event (chans' ! 0) = 5 \<and> ch_event (chans' ! 1) = 16"
proof -
  let ?evs = "[(0, 5), (1, 16)]" and ?chans = "[Channel_new [] 7, Channel_new [] 8]"
  have "wait_reports example_wait (Epoll_new 3) 20 (length ?chans) ?evs"
    by (auto simp: wait_reports_def example_wait_def Epoll_new_def)
  then obtain e' where "epoll_turn example_wait (logs True) (logs False) (Epoll_new 3, ?chans, []) =
      for_each (run_call (logs True) (logs False)) (concat (map event_calls ?evs)) (e', set_events ?evs ?chans, [])"
    using epoll_turn_dispatches [of example_wait "Epoll_new 3" ?chans ?evs "logs True" "logs False" "[]"] logs_keeps by blast
  then show ?thesis
    by (simp add: event_calls_def EPOLLIN_def EPOLLOUT_def run_call_def logs_def set_events_def SetEvent_def)
qed

text \<open>An event of 0 calls nothing.\<close>

lemma event_calls_filter: "concat (map event_calls (filter (\<lambda>(p, ev). ev \<noteq> 0) evs)) = concat (map event_calls evs)"
  by (induction evs) (auto simp: event_calls_def)

text \<open>
  C31: the two multiplexers make the same calls of the same reports: when \<^verbatim>\<open>select\<close> finds ready what \<^verbatim>\<open>epoll_wait\<close> reports, in the
  order of the descriptors, a turn makes exactly the same calls under both, although \<^verbatim>\<open>Select\<close> hands every channel of
  its map to the loop, and whatever the callbacks do, to the sets of \<^verbatim>\<open>Select\<close> and to the descriptor of \<^verbatim>\<open>Epoll\<close> too. They differ in the events a channel
  keeps that is not ready: under select they are cleared, under
  epoll they are those of an earlier turn, which is what \<^verbatim>\<open>IsWriting\<close> reads. (What the callbacks register is not the same: \<open>select_EnableWritable_lost\<close>.)
\<close>

theorem backends_make_the_same_calls:
  assumes "select_reports select 20 m (length chans) evs" "wait_reports wait e 20 (length chans) (filter (\<lambda>(p, ev). ev \<noteq> 0) evs)"
    and "keeps_events s_readable" "keeps_events s_writable" "keeps_events e_readable" "keeps_events e_writable"
  shows "\<exists>e'. same_epoll e e' \<and> select_turn select s_readable s_writable (m, chans, s) =
      for_each (run_call s_readable s_writable) (concat (map event_calls evs)) (m, set_events evs chans, s) \<and>
    epoll_turn wait e_readable e_writable (e, chans, s) =
      for_each (run_call e_readable e_writable) (concat (map event_calls evs)) (e', set_events (filter (\<lambda>(p, ev). ev \<noteq> 0) evs) chans, s) \<and>
    ((q, 0) \<in> set evs \<longrightarrow> ch_event (set_events evs chans ! q) = 0 \<and> \<not> IsWriting (set_events evs chans ! q) \<and>
      set_events (filter (\<lambda>(p, ev). ev \<noteq> 0) evs) chans ! q = chans ! q)"
proof -
  obtain m' where m': "m = m'" "\<And>s. select_turn select s_readable s_writable (m, chans, s) =
      for_each (run_call s_readable s_writable) (concat (map event_calls evs)) (m', set_events evs chans, s)"
    unfolding select_turn_def using sel.turn_calls [OF assms(1,3,4)] by blast
  obtain e' where e': "same_epoll e e'" "\<And>s. epoll_turn wait e_readable e_writable (e, chans, s) =
      for_each (run_call e_readable e_writable) (concat (map event_calls evs)) (e', set_events (filter (\<lambda>(p, ev). ev \<noteq> 0) evs) chans, s)"
    unfolding epoll_turn_def using ep.turn_calls [OF assms(2,5,6)] unfolding event_calls_filter by blast
  have d: "distinct (map fst evs)" by (rule sel.reports_distinct [OF assms(1)])
  have "ch_event (set_events evs chans ! q) = 0 \<and> \<not> IsWriting (set_events evs chans ! q) \<and>
      set_events (filter (\<lambda>(p, ev). ev \<noteq> 0) evs) chans ! q = chans ! q" if q: "(q, 0) \<in> set evs"
  proof -
    have "q < length chans" by (rule sel.reports_range [OF assms(1) q])
    then have "set_events evs chans ! q = SetEvent 0 (chans ! q)" by (rule set_events_event [OF d q])
    moreover have "q \<notin> fst ` set (filter (\<lambda>(p, ev). ev \<noteq> 0) evs)"
      by (auto dest: eq_key_imp_eq_value [OF d q])
    ultimately show ?thesis by (simp add: SetEvent_def IsWriting_def set_events_other)
  qed
  with m' e' show ?thesis by blast
qed

text \<open>Two registered channels; the first is readable, and its callback under \<^verbatim>\<open>Select\<close> removes it.\<close>

definition two_watched :: select_state where
  "two_watched = \<lparr>readset = {7, 8}, writeset = {}, channel_map = [(7, 0), (8, 1)]\<rparr>"

definition removes :: "(select_state, (nat \<times> bool) list) channel_cb" where
  "removes p = (\<lambda>(m, chans, log).
     let (c, m) = Select_UpdateChannel p (SetChannelStatus CHANNEL_STATUS_DEL (chans ! p)) m in Inr (m, chans[p := c], log @ [(p, True)]))"

lemma removes_keeps: "keeps_events removes"
proof -
  have "ch_event (chans[p := SetChannelStatus CHANNEL_STATUS_NEW (SetChannelStatus CHANNEL_STATUS_DEL (chans ! p))] ! q) = ch_event (chans ! q)" for chans p q
    by (cases "p < length chans") (simp_all add: nth_list_update SetChannelStatus_def list_update_beyond)
  then show ?thesis
    by (auto simp: keeps_events_def removes_def Select_UpdateChannel_def GetChannelStatus_def SetChannelStatus_def)
qed

theorem backends_make_the_same_calls_witness:
  "\<exists>m' chans' e' chans''. select_turn (\<lambda>_ _ _ _. (1, {7}, {})) removes (logs False) (two_watched, [Channel_new [] 7, SetEvent 4 (Channel_new [] 8)], []) =
      Inr (m', chans', [(0, True)]) \<and> readset m' = {8} \<and>
    epoll_turn (\<lambda>_ _ _. (1, W_OTHER, [(Some 0, 1)])) (logs True) (logs False) (Epoll_new 3, [Channel_new [] 7, SetEvent 4 (Channel_new [] 8)], []) =
      Inr (e', chans'', [(0, True)]) \<and> \<not> IsWriting (chans' ! 1) \<and> IsWriting (chans'' ! 1)"
proof -
  let ?chans = "[Channel_new [] 7, SetEvent 4 (Channel_new [] 8)]" and ?evs = "[(0, 1), (1, 0)]"
  let ?select = "\<lambda>_ _ _ _. (1, {7 :: int}, {} :: int set)" and ?wait = "\<lambda>_ _ _. (1, W_OTHER, [(Some 0, 1)])"
  have s: "select_reports ?select 20 two_watched (length ?chans) ?evs"
    unfolding select_reports_def
    by (intro conjI exI [of _ "{7}"] exI [of _ "{}"]) (auto simp: two_watched_def select_events_def EPOLLIN_def)
  have w: "wait_reports ?wait (Epoll_new 3) 20 (length ?chans) (filter (\<lambda>(p, ev). ev \<noteq> 0) ?evs)"
    by (auto simp: wait_reports_def Epoll_new_def)
  obtain e' where "select_turn ?select removes (logs False) (two_watched, ?chans, []) =
      for_each (run_call removes (logs False)) (concat (map event_calls ?evs)) (two_watched, set_events ?evs ?chans, [])"
    "epoll_turn ?wait (logs True) (logs False) (Epoll_new 3, ?chans, []) =
      for_each (run_call (logs True) (logs False)) (concat (map event_calls ?evs)) (e', set_events (filter (\<lambda>(p, ev). ev \<noteq> 0) ?evs) ?chans, [])"
    using backends_make_the_same_calls [OF s w removes_keeps logs_keeps logs_keeps logs_keeps, where s = "[]"] by blast
  then show ?thesis
    by (simp add: event_calls_def EPOLLIN_def EPOLLOUT_def run_call_def logs_def removes_def set_events_def SetEvent_def IsWriting_def
      Select_UpdateChannel_def GetChannelStatus_def SetChannelStatus_def FdClear_def Channel_new_def two_watched_def)
qed

end
