(* ===== verification/ServerLoop.thy ===== *)
theory ServerLoop
  imports TcpServer
begin

text \<open>
  The event part of a server loop's turn, \<^verbatim>\<open>EventLoop::HandleActiveChannel\<close> on the channels of its connections. The list of
  active channels holds plain pointers into connections that the handlers of the same list may
  release, so every use of such a pointer is checked here.
\<close>

section \<open>The handlers\<close>

text \<open>A callback of the user does not see the server.\<close>

definition beside_server :: "'u conn_callback option \<Rightarrow> (tcp_server \<times> 'u) conn_callback option" where
  "beside_server cb = map_option (\<lambda>f c (ts, u). ebind (f c u) (\<lambda>(c, u). Inr (c, (ts, u)))) cb"

definition server_close_callback :: "(tcp_server \<times> 'u) conn_callback" where
  "server_close_callback = (\<lambda>c (ts, u). Inr (c, (OnCloseConnection c ts, u)))"

text \<open>\<open>channel->SetEvent\<close> for the channels that are reported.\<close>

definition report_event :: "nat \<times> u32 \<Rightarrow> tcp_server \<Rightarrow> tcp_server" where
  "report_event = (\<lambda>(p, ev) ts. ts\<lparr>ts_objs := (ts_objs ts)[p := (ts_objs ts ! p)\<lparr>conn_channel := SetEvent ev (conn_channel (ts_objs ts ! p))\<rparr>]\<rparr>)"

definition report_events :: "(nat \<times> u32) list \<Rightarrow> tcp_server \<Rightarrow> tcp_server" where
  "report_events = fold report_event"

text \<open>
  \<open>channel->HandleEventWithGuard()\<close> through the plain pointer: the channel has to be there before its
  guard can be taken. \<open>read\<close> and \<open>send\<close> answer per connection; the servers set no write-complete callback.
\<close>

definition Server_handle :: "'u hooks \<Rightarrow> 'u conn_callback option \<Rightarrow> (nat \<Rightarrow> nat \<Rightarrow> bytes option) \<Rightarrow> (nat \<Rightarrow> sys_send) \<Rightarrow> nat \<Rightarrow>
    tcp_server \<times> 'u \<Rightarrow> (tcp_server \<times> 'u) result" where
  "Server_handle h newmessage rd sys p = (\<lambda>(ts, u).
     if \<not> alive h [] p (ts, u) then Inl UseAfterFree
     else ebind (Connection_HandleEvent True (rd p) (sys p) (beside_server newmessage) (beside_server (hk_connection h))
                  (Some server_close_callback) None (ts_objs ts ! p, (ts, u))) (\<lambda>(c, (ts, u)).
       Inr (ts\<lparr>ts_objs := (ts_objs ts)[p := c]\<rparr>, u)))"

definition Server_events :: "'u hooks \<Rightarrow> 'u conn_callback option \<Rightarrow> (nat \<Rightarrow> nat \<Rightarrow> bytes option) \<Rightarrow> (nat \<Rightarrow> sys_send) \<Rightarrow> (nat \<times> u32) list \<Rightarrow>
    tcp_server \<times> 'u \<Rightarrow> (tcp_server \<times> 'u) result" where
  "Server_events h newmessage rd sys evs = (\<lambda>(ts, u).
     for_each (Server_handle h newmessage rd sys) (map fst evs) (report_events evs ts, u))"

text \<open>A whole turn: the events, then the functions.\<close>

definition Server_loop_turn :: "'u hooks \<Rightarrow> 'u conn_callback option \<Rightarrow> (nat \<Rightarrow> nat \<Rightarrow> bytes option) \<Rightarrow> (nat \<Rightarrow> sys_send) \<Rightarrow> nat \<Rightarrow> (nat \<times> u32) list \<Rightarrow>
    tcp_server \<times> 'u \<Rightarrow> (tcp_server \<times> 'u) result" where
  "Server_loop_turn h newmessage rd sys l evs s = ebind (Server_events h newmessage rd sys evs s) (Server_turn h sys l)"

text \<open>It is \<^verbatim>\<open>EventLoop::HandleActiveChannel\<close> on those channels, the loop itself untouched.\<close>

lemma Server_events_HandleActiveChannel:
  "HandleActiveChannel (\<lambda>p (lp, s). ebind (Server_handle h newmessage rd sys p s) (\<lambda>s. Inr (lp, s))) (map fst evs) (lp, (report_events evs ts, u)) =
    ebind (Server_events h newmessage rd sys evs (ts, u)) (\<lambda>s. Inr (lp, s))"
  by (simp add: HandleActiveChannel_def for_each_beside Server_events_def)

section \<open>What a handler changes\<close>

text \<open>A message callback, too, neither closes nor renames a connection.\<close>

definition message_ok :: "'u conn_callback option \<Rightarrow> bool" where
  "message_ok cb \<longleftrightarrow> (\<forall>f c u c' u'. cb = Some f \<longrightarrow> f c u = Inr (c', u') \<longrightarrow> same_stage c c')"

definition closed_as :: "tcp_connection \<Rightarrow> tcp_connection \<Rightarrow> bool" where
  "closed_as c c' \<longleftrightarrow> conn_name c' = conn_name c \<and> conn_status c' = DISCONNECTED"

lemma beside_stage:
  assumes "message_ok cb" "call (beside_server cb) c (ts, u) = Inr (c', (ts', u'))"
  shows "same_stage c c' \<and> ts' = ts"
  using assms by (auto simp: beside_server_def call_def message_ok_def same_stage_def split: option.splits elim!: ebind_pairE)

lemma hooks_message_ok: "hooks_ok h \<Longrightarrow> message_ok (hk_connection h)"
  by (auto simp: hooks_ok_def message_ok_def)

lemma OnWritable_stage:
  assumes "OnWritable sys None c s = Inr (c', s')"
  shows "same_stage c c' \<and> s' = s"
proof (cases "IsWriting (conn_channel c)")
  case False
  then show ?thesis using assms by (simp add: OnWritable_def same_stage_def)
next
  case True
  then obtain data where d: "ReadBegin_at (send_buffer c) 0 (ReadableLength (send_buffer c)) = Inr data"
    using assms by (cases "ReadBegin_at (send_buffer c) 0 (ReadableLength (send_buffer c))") (simp_all add: OnWritable_def)
  obtain n e c1 where s: "Socket_Send sys data c = (n, e, c1)" by (metis prod_cases3)
  note 1 = Socket_Send_stage [OF s]
  define c2 where "c2 = on_channel DisableWritable (c1\<lparr>send_buffer := AddReadIndex (nat n) (send_buffer c1)\<rparr>)"
  have 2: "same_stage c c2" using 1 by (simp add: c2_def same_stage_def on_channel_stage)
  have 3: "same_stage c (Shutdown c2)" using stage_trans [OF 2 Shutdown_stage] .
  show ?thesis using assms True d s 1 2 3
    by (auto simp: OnWritable_def call_def Let_def c2_def [symmetric] same_stage_def split: if_splits)
qed

lemma OnReadable_stage:
  assumes "message_ok msg" "message_ok conn"
    and "OnReadable rd (beside_server msg) (beside_server conn) (Some server_close_callback) c (ts, u) = Inr (c', (ts', u'))"
  shows "same_stage c c' \<and> ts' = ts \<or> closed_as c c' \<and> ts' = OnCloseConnection c' ts"
proof -
  obtain n b where r: "ReadFromSockfd rd (recv_buffer c) = Inr (n, b)"
    using assms(3) by (cases "ReadFromSockfd rd (recv_buffer c)") (auto simp: OnReadable_def)
  let ?c = "c\<lparr>recv_buffer := b\<rparr>"
  consider "n > 0" | "n = 0" | "n < 0" by linarith
  then show ?thesis
  proof cases
    case 1
    then have "call (beside_server msg) ?c (ts, u) = Inr (c', (ts', u'))" using assms(3) r by (simp add: OnReadable_def Let_def)
    from beside_stage [OF assms(1) this] show ?thesis by (simp add: same_stage_def)
  next
    case 2
    let ?d = "on_channel DisableAll (?c\<lparr>conn_status := DISCONNECTED\<rparr>)"
    have "ebind (call (beside_server conn) ?d (ts, u)) (\<lambda>(c, s). call (Some server_close_callback) c s) = Inr (c', (ts', u'))"
      using assms(3) r 2 by (simp add: OnReadable_def OnClose_def Let_def)
    then obtain e t v where e: "call (beside_server conn) ?d (ts, u) = Inr (e, (t, v))" "call (Some server_close_callback) e (t, v) = Inr (c', (ts', u'))"
      by (cases "call (beside_server conn) ?d (ts, u)") auto
    have "same_stage ?d e" "t = ts" using beside_stage [OF assms(2) e(1)] by simp_all
    then have "closed_as c e" by (simp add: same_stage_def closed_as_def on_channel_stage)
    with e(2) \<open>t = ts\<close> show ?thesis by (auto simp: call_def server_close_callback_def)
  next
    case 3
    then show ?thesis using assms(3) r by (auto simp: OnReadable_def Let_def same_stage_def)
  qed
qed

lemma HandleEvent_both:
  "HandleEventWithGuard True chan (Some f) (Some g) s =
    ebind (if ch_event (chan s) AND EPOLLIN \<noteq> 0 then f s else Inr s) (\<lambda>s. if ch_event (chan s) AND EPOLLOUT \<noteq> 0 then g s else Inr s)"
  unfolding HandleEventWithGuard_def HandleEvent_def option.case by simp

lemma Connection_HandleEvent_stage:
  assumes "message_ok msg" "message_ok conn"
    and "Connection_HandleEvent True rd sys (beside_server msg) (beside_server conn) (Some server_close_callback) None (c, (ts, u)) =
      Inr (c', (ts', u'))"
  shows "same_stage c c' \<and> ts' = ts \<or> closed_as c c' \<and> ts' = OnCloseConnection c' ts"
proof -
  let ?chan = "\<lambda>(c :: tcp_connection, s :: tcp_server \<times> 'a). conn_channel c"
  let ?r = "if ch_event (conn_channel c) AND EPOLLIN \<noteq> 0
    then OnReadable rd (beside_server msg) (beside_server conn) (Some server_close_callback) c (ts, u) else Inr (c, (ts, u))"
  have run: "ebind ?r (\<lambda>s. if ch_event (?chan s) AND EPOLLOUT \<noteq> 0 then (\<lambda>(c, s). OnWritable sys None c s) s else Inr s) = Inr (c', (ts', u'))"
    using assms(3) unfolding Connection_HandleEvent_def HandleEvent_both prod.case .
  then obtain d t v where d: "?r = Inr (d, (t, v))"
    "(if ch_event (conn_channel d) AND EPOLLOUT \<noteq> 0 then OnWritable sys None d (t, v) else Inr (d, (t, v))) = Inr (c', (ts', u'))"
    by (cases ?r) (auto split: if_splits)
  have 1: "same_stage c d \<and> t = ts \<or> closed_as c d \<and> t = OnCloseConnection d ts"
    using d(1) OnReadable_stage [OF assms(1,2), of rd c ts u d t v] by (auto simp: same_stage_def split: if_splits)
  have 2: "same_stage d c' \<and> ts' = t"
    using d(2) OnWritable_stage [of sys d "(t, v)" c' "(ts', u')"] by (auto simp: same_stage_def split: if_splits)
  from 1 2 show ?thesis
    by (auto simp: same_stage_def closed_as_def OnCloseConnection_def GetConnectionName_def)
qed

section \<open>A turn's events\<close>

text \<open>Open means established and not closed: what the kernel can watch for the server.\<close>

definition is_open :: "tcp_server \<Rightarrow> nat \<Rightarrow> bool" where
  "is_open ts p \<longleftrightarrow> p < connection_id ts \<and> conn_status (ts_objs ts ! p) \<noteq> CONNECTING \<and> conn_status (ts_objs ts ! p) \<noteq> DISCONNECTED"

lemma is_open_alive:
  assumes "server_ok ntop [] ts" "is_open ts p"
  shows "map_find (conn_name (ts_objs ts ! p)) (connection_map ts) = Some p" "alive h batch p (ts, u)"
proof -
  show m: "map_find (conn_name (ts_objs ts ! p)) (connection_map ts) = Some p"
    using assms by (simp add: server_ok_def owns_open_def is_open_def)
  then have "p \<in> snd ` set (connection_map ts)" by (force simp: map_find_def dest: map_of_SomeD)
  then show "alive h batch p (ts, u)" by (simp add: alive_def)
qed

lemma report_event_ok:
  assumes "server_ok ntop [] ts" "p < connection_id ts"
  shows "server_ok ntop [] (report_event (p, ev) ts)" "connection_id (report_event (p, ev) ts) = connection_id ts"
    "is_open (report_event (p, ev) ts) q = is_open ts q"
proof -
  have len: "length (ts_objs ts) = connection_id ts" using assms(1) by (simp add: server_ok_def objs_ok_def)
  show "server_ok ntop [] (report_event (p, ev) ts)"
    unfolding report_event_def prod.case by (rule same_stage_ok [OF assms]) (simp add: same_stage_def)
  show "connection_id (report_event (p, ev) ts) = connection_id ts" by (simp add: report_event_def)
  show "is_open (report_event (p, ev) ts) q = is_open ts q"
    using assms(2) len by (cases "q = p") (simp_all add: is_open_def report_event_def)
qed

lemma report_events_ok:
  "server_ok ntop [] ts \<Longrightarrow> \<forall>p \<in> fst ` set evs. p < connection_id ts \<Longrightarrow>
   server_ok ntop [] (report_events evs ts) \<and> connection_id (report_events evs ts) = connection_id ts \<and>
   (\<forall>q. is_open (report_events evs ts) q = is_open ts q)"
proof (induction evs arbitrary: ts)
  case (Cons e evs)
  obtain p ev where e: "e = (p, ev)" by (cases e)
  with Cons.prems have p: "p < connection_id ts" by simp
  note 1 = report_event_ok [OF Cons.prems(1) p, of ev]
  have "\<forall>q \<in> fst ` set evs. q < connection_id (report_event e ts)" using Cons.prems(2) 1(2) e by simp
  from Cons.IH [OF 1(1) [folded e] this] show ?case using 1 e by (simp add: report_events_def)
qed (simp add: report_events_def)

lemma handle_ok:
  assumes "ntop_ok ntop" "hooks_ok h" "message_ok msg" "server_ok ntop [] ts" "is_open ts p"
    and "Server_handle h msg rd sys p (ts, u) = Inr (ts', u')"
  shows "server_ok ntop [] ts'" "connection_id ts' = connection_id ts" "q \<noteq> p \<Longrightarrow> is_open ts' q = is_open ts q"
proof -
  let ?c = "ts_objs ts ! p"
  have p: "p < connection_id ts" "conn_status ?c \<noteq> CONNECTING" using assms(5) by (simp_all add: is_open_def)
  obtain c t v where r: "Connection_HandleEvent True (rd p) (sys p) (beside_server msg) (beside_server (hk_connection h))
      (Some server_close_callback) None (?c, (ts, u)) = Inr (c, (t, v))" "ts' = t\<lparr>ts_objs := (ts_objs t)[p := c]\<rparr>"
    using assms(6) by (auto simp: Server_handle_def split: if_splits elim!: ebind_case3E)
  note st = Connection_HandleEvent_stage [OF assms(3) hooks_message_ok [OF assms(2)] r(1)]
  have "server_ok ntop [] ts' \<and> connection_id t = connection_id ts \<and> ts_objs t = ts_objs ts"
  proof (cases "same_stage ?c c \<and> t = ts")
    case True
    then show ?thesis using same_stage_ok [OF assms(4) p(1)] r(2) by simp
  next
    case False
    with st have c: "conn_name c = conn_name ?c" "conn_status c = DISCONNECTED" "t = OnCloseConnection c ts" by (simp_all add: closed_as_def)
    from closed_ok [OF assms(1,4) p(1) c(1,2) p(2)] c(3) r(2) show ?thesis
      by (simp add: OnCloseConnection_def GetConnectionName_def)
  qed
  with r(2) show "server_ok ntop [] ts'" "connection_id ts' = connection_id ts" "q \<noteq> p \<Longrightarrow> is_open ts' q = is_open ts q"
    by (auto simp: is_open_def)
qed

lemma handles_ok:
  assumes "ntop_ok ntop" "hooks_ok h" "message_ok msg"
  shows "server_ok ntop [] ts \<Longrightarrow> distinct ps \<Longrightarrow> \<forall>p \<in> set ps. is_open ts p \<Longrightarrow>
    for_each (Server_handle h msg rd sys) ps (ts, u) = Inr (ts', u') \<Longrightarrow>
    server_ok ntop [] ts' \<and> connection_id ts' = connection_id ts \<and> (\<forall>q. q \<notin> set ps \<longrightarrow> is_open ts' q = is_open ts q)"
proof (induction ps arbitrary: ts u)
  case (Cons p ps)
  obtain t v where t: "Server_handle h msg rd sys p (ts, u) = Inr (t, v)" "for_each (Server_handle h msg rd sys) ps (t, v) = Inr (ts', u')"
    using Cons.prems(4) by (cases "Server_handle h msg rd sys p (ts, u)") auto
  have "is_open ts p" using Cons.prems(3) by simp
  note 1 = handle_ok [OF assms Cons.prems(1) this t(1)]
  have "\<forall>q \<in> set ps. is_open t q" using 1(3) Cons.prems(2,3) by (metis distinct.simps(2) list.set_intros(2))
  from Cons.IH [OF 1(1) _ this t(2)] Cons.prems(2) 1 show ?case by auto
qed simp

section \<open>Properties\<close>

text \<open>
  C26: the plain pointers a turn holds are good. In any state a server can reach, when the kernel reports different
  open connections of a loop, then at the moment the loop comes to one of them, whatever the callbacks
  and ends of stream of those before it have done, the connection is still open, owned by the
  map and so alive; its handler in turn closes no other connection, and behind it the map again holds
  exactly the connections that are not closed.
\<close>

theorem turn_uses_live_channels:
  assumes "ntop_ok ntop" "hooks_ok h" "message_ok msg" "0 \<le> n" "(server_step ntop h)\<^sup>*\<^sup>* (Server_started name n, u0) (ts, u)"
    and "distinct (map fst (before @ (p, ev) # after))" "\<forall>q \<in> fst ` set (before @ (p, ev) # after). is_open ts q"
    and "for_each (Server_handle h msg rd sys) (map fst before) (report_events (before @ (p, ev) # after) ts, u) = Inr (ts1, u1)"
    and "Server_handle h msg rd sys p (ts1, u1) = Inr (ts2, u2)"
  shows "is_open ts1 p \<and> map_find (conn_name (ts_objs ts1 ! p)) (connection_map ts1) = Some p \<and> alive h [] p (ts1, u1) \<and>
    (\<forall>q. q \<noteq> p \<longrightarrow> is_open ts2 q = is_open ts1 q) \<and>
    (map_find k (connection_map ts2) = Some q \<longleftrightarrow>
      q < connection_id ts2 \<and> conn_name (ts_objs ts2 ! q) = k \<and> conn_status (ts_objs ts2 ! q) \<noteq> DISCONNECTED)"
proof -
  let ?evs = "before @ (p, ev) # after" and ?ts = "report_events (before @ (p, ev) # after) ts"
  have ok: "server_ok ntop [] ts" using server_reachable_ok [OF assms(1,2,4,5)] by simp
  have "\<forall>q \<in> fst ` set ?evs. q < connection_id ts" using assms(7) unfolding is_open_def by blast
  note r = report_events_ok [OF ok this]
  have d: "distinct (map fst before)" "p \<notin> set (map fst before)" using assms(6) by auto
  have "\<forall>q \<in> set (map fst before). is_open ?ts q" using assms(7) r by auto
  note 1 = handles_ok [OF assms(1-3) conjunct1 [OF r] d(1) this assms(8)]
  have o: "is_open ts1 p" using 1 d(2) r assms(7) by auto
  note 2 = handle_ok [OF assms(1-3) conjunct1 [OF 1] o assms(9)]
  have "owns_open ts2" using 2(1) by (simp add: server_ok_def)
  with o 2(3) is_open_alive [OF conjunct1 [OF 1] o] show ?thesis by (simp add: owns_open_def)
qed

text \<open>The connection of the example server is reported as readable, and its peer has closed.\<close>

lemma lone_end_of_stream:
  assumes "map_find (conn_name (ts_objs ts ! 0)) (connection_map ts) = Some 0"
    "buf_ok (recv_buffer (ts_objs ts ! 0))" "length (ts_objs ts) = 1"
  obtains ts2 where "Server_handle lone_hooks None (\<lambda>_ _. Some []) (\<lambda>_ _. (0, EPIPE)) 0 (report_events [(0, 1)] ts, ()) = Inr (ts2, ())"
proof -
  let ?ts = "report_events [(0, 1)] ts"
  let ?c = "(ts_objs ts ! 0)\<lparr>conn_channel := SetEvent 1 (conn_channel (ts_objs ts ! 0))\<rparr>"
  have c: "ts_objs ?ts ! 0 = ?c" "connection_map ?ts = connection_map ts"
    using assms(3) by (simp_all add: report_events_def report_event_def)
  have "0 \<in> snd ` set (connection_map ts)" using assms(1) by (force simp: map_find_def dest: map_of_SomeD)
  then have a: "alive lone_hooks [] 0 (?ts, ())" using c(2) by (simp add: alive_def)
  have "read_contract (\<lambda>_. Some [])" by (simp add: read_contract_def)
  then obtain b where b: "ReadFromSockfd (\<lambda>_. Some []) (recv_buffer ?c) = Inr (0, b)"
    using ReadFromSockfd_ok [of "recv_buffer ?c" "\<lambda>_. Some []"] assms(2) by auto
  have kept: "ch_event (conn_channel (on_channel DisableAll d)) = ch_event (conn_channel d)" for d
    by (simp add: on_channel_def channel_ops Let_def)
  have out: "(1 :: u32) AND EPOLLOUT = 0" "(1 :: u32) AND EPOLLIN \<noteq> 0" by (simp_all add: EPOLLOUT_def EPOLLIN_def)
  show thesis
    by (rule that) (use a b kept out c in \<open>simp add: Server_handle_def Connection_HandleEvent_def HandleEvent_both OnReadable_def
      Let_def OnClose_def call_def beside_server_def lone_hooks_def server_close_callback_def SetEvent_def\<close>)
qed

theorem turn_uses_live_channels_witness:
  "\<exists>ts ts2 u. (server_step (\<lambda>_ _. []) lone_hooks)\<^sup>*\<^sup>* (Server_started [] 1, ()) (ts, ()) \<and>
     Server_handle lone_hooks None (\<lambda>_ _. Some []) (\<lambda>_ _. (0, EPIPE)) 0 (report_events [(0, 1)] ts, ()) = Inr (ts2, u) \<and>
     alive lone_hooks [] 0 (report_events [(0, 1)] ts, ())"
proof -
  obtain ts0 ts where o: "(server_step (\<lambda>_ _. []) lone_hooks)\<^sup>*\<^sup>* (Server_started [] 1, ()) (ts, ())"
    "connection_id ts = 1" "conn_status (ts_objs ts ! 0) = CONNECTED" "recv_buffer (ts_objs ts ! 0) = Buffer_new" by (rule one_connection)
  have ok: "server_ok (\<lambda>_ _. []) [] ts" using server_reachable_ok [OF no_name_ok lone_hooks_ok _ o(1)] by simp
  have open0: "is_open ts 0" using o by (simp add: is_open_def)
  have "length (ts_objs ts) = 1" using ok o(2) by (simp add: server_ok_def objs_ok_def)
  then obtain ts2 where h: "Server_handle lone_hooks None (\<lambda>_ _. Some []) (\<lambda>_ _. (0, EPIPE)) 0 (report_events [(0, 1)] ts, ()) = Inr (ts2, ())"
    using lone_end_of_stream [OF is_open_alive(1) [OF ok open0]] o(4) Buffer_new_ok by metis
  have "message_ok None" by (simp add: message_ok_def)
  have "alive lone_hooks [] 0 (report_events [(0, 1)] ts, ())"
    using turn_uses_live_channels [where before = "[]" and p = 0 and ev = 1 and after = "[]" and ?ts1.0 = "report_events [(0, 1)] ts" and ?u1.0 = "()",
      OF no_name_ok lone_hooks_ok \<open>message_ok None\<close> _ o(1) _ _ _ h] open0 by simp
  with o(1) h show ?thesis by blast
qed

section \<open>Watched again\<close>

text \<open>What the writable handler does when the kernel takes everything that waits.\<close>

lemma OnWritable_flushes:
  assumes "IsWriting (conn_channel c)" "buf_ok (send_buffer c)" "readable (send_buffer c) \<noteq> []"
    and "sys (readable (send_buffer c)) = (int (length (readable (send_buffer c))), e)" "conn_status c \<noteq> DISCONNECTING"
  obtains c1 where "OnWritable sys None c s = Inr (on_channel DisableWritable c1, s)" "conn_channel c1 = conn_channel c" "ep_calls c1 = ep_calls c"
    "conn_status c1 = conn_status c" "wire c1 = wire c @ readable (send_buffer c)" "readable (send_buffer c1) = []"
proof -
  let ?d = "readable (send_buffer c)"
  let ?c = "c\<lparr>wire := wire c @ ?d, send_buffer := AddReadIndex (length ?d) (send_buffer c)\<rparr>"
  have "ReadableLength (AddReadIndex (length ?d) (send_buffer c)) = 0" using assms(2) by simp
  moreover have "ReadableLength (send_buffer c) \<noteq> 0" using assms(2,3) length_readable [of "send_buffer c"] by (metis length_0_conv)
  ultimately have "OnWritable sys None c s = Inr (on_channel DisableWritable ?c, s)" using assms
    by (simp add: OnWritable_def ReadBegin_all Socket_Send_def Let_def call_def on_channel_stage)
  then show thesis by (rule that) (use assms(2) in simp_all)
qed

lemma on_channel_keeps: "wire (on_channel f c) = wire c" "send_buffer (on_channel f c) = send_buffer c" "recv_buffer (on_channel f c) = recv_buffer c"
  by (simp_all add: on_channel_def split: prod.split)

lemma interest_snoc2: "interest (calls @ [x, y]) = epoll_apply y (epoll_apply x (interest calls))"
  by (simp add: interest_def)

lemma disabled_then_unwritable:
  assumes "registered (conn_channel c) (ep_calls c)" "ch_status (conn_channel c) = CHANNEL_STATUS_ADDED"
    and "conn_channel c1 = conn_channel (on_channel DisableAll c)" "ep_calls c1 = ep_calls (on_channel DisableAll c)"
  shows "interest (ep_calls (on_channel DisableAll c)) (ch_fd (conn_channel c)) = None"
    "interest (ep_calls (on_channel DisableWritable c1)) (ch_fd (conn_channel c)) = Some 0"
    "ch_status (conn_channel (on_channel DisableWritable c1)) = CHANNEL_STATUS_ADDED"
  using assms by (simp_all add: on_channel_def channel_ops Let_def interest_snoc2)

text \<open>
  C28: a connection that has closed can be registered with epoll again. When the peer has ended its side and takes
  the rest of the data, both events come together: \<^verbatim>\<open>OnReadable\<close> closes the connection and removes
  its channel, but \<^verbatim>\<open>HandleEvent\<close> goes on with \<^verbatim>\<open>OnWritable\<close>, whose \<^verbatim>\<open>DisableWritable\<close> finds the status
  \<^verbatim>\<open>NEW\<close> and adds the descriptor again, for no event, which leaves error and hang-up; the connection is
  disconnected, out of the server's map, and watched, for as long as somebody else keeps it alive.
\<close>

theorem closed_is_watched_again:
  assumes "conn_status c = CONNECTED" "registered (conn_channel c) (ep_calls c)" "ch_status (conn_channel c) = CHANNEL_STATUS_ADDED"
    and "ch_event (conn_channel c) = EPOLLIN OR EPOLLOUT" "buf_ok (recv_buffer c)" "buf_ok (send_buffer c)" "readable (send_buffer c) \<noteq> []"
    and "sys (readable (send_buffer c)) = (int (length (readable (send_buffer c))), e)"
  shows "\<exists>c'. Connection_HandleEvent True (\<lambda>_. Some []) sys (beside_server msg) None (Some server_close_callback) None (c, (ts, u)) =
      Inr (c', (ts\<lparr>connection_map := map_erase (conn_name c) (connection_map ts)\<rparr>, u)) \<and>
    conn_status c' = DISCONNECTED \<and> wire c' = wire c @ readable (send_buffer c) \<and>
    interest (ep_calls c') (ch_fd (conn_channel c)) = Some 0 \<and> ch_status (conn_channel c') = CHANNEL_STATUS_ADDED"
proof -
  have "read_contract (\<lambda>_. Some [])" by (simp add: read_contract_def)
  then obtain b where b: "ReadFromSockfd (\<lambda>_. Some []) (recv_buffer c) = Inr (0, b)"
    using ReadFromSockfd_ok [OF assms(5), of "\<lambda>_. Some []"] by auto
  let ?c = "c\<lparr>recv_buffer := b, conn_status := DISCONNECTED\<rparr>" and ?ts = "ts\<lparr>connection_map := map_erase (conn_name c) (connection_map ts)\<rparr>"
  let ?d = "on_channel DisableAll ?c"
  have ev: "(EPOLLIN OR EPOLLOUT) AND EPOLLIN \<noteq> 0" "(EPOLLIN OR EPOLLOUT) AND EPOLLOUT \<noteq> 0" by (simp_all add: EPOLLIN_def EPOLLOUT_def)
  have d: "ch_event (conn_channel ?d) = EPOLLIN OR EPOLLOUT" using assms(4) by (simp add: on_channel_def channel_ops Let_def)
  have r: "OnReadable (\<lambda>_. Some []) (beside_server msg) None (Some server_close_callback) c (ts, u) = Inr (?d, (?ts, u))"
    using b by (simp add: OnReadable_def OnClose_def Let_def call_def server_close_callback_def OnCloseConnection_def GetConnectionName_def on_channel_stage)
  obtain c1 where c1: "OnWritable sys None ?d (?ts, u) = Inr (on_channel DisableWritable c1, (?ts, u))" "conn_channel c1 = conn_channel ?d"
    "ep_calls c1 = ep_calls ?d" "conn_status c1 = conn_status ?d" "wire c1 = wire ?d @ readable (send_buffer ?d)"
    by (rule OnWritable_flushes [of ?d sys e "(?ts, u)"]) (use assms d ev in \<open>simp_all add: IsWriting_def on_channel_keeps on_channel_stage\<close>)
  have w: "interest (ep_calls (on_channel DisableWritable c1)) (ch_fd (conn_channel c)) = Some 0"
    "ch_status (conn_channel (on_channel DisableWritable c1)) = CHANNEL_STATUS_ADDED"
    using disabled_then_unwritable(2,3) [of ?c c1] assms(2,3) c1(2,3) by simp_all
  have "Connection_HandleEvent True (\<lambda>_. Some []) sys (beside_server msg) None (Some server_close_callback) None (c, (ts, u)) =
      Inr (on_channel DisableWritable c1, (?ts, u))"
    using r c1(1) d ev assms(4) by (simp add: Connection_HandleEvent_def HandleEvent_both)
  then show ?thesis using w c1(4,5) by (intro exI [of _ "on_channel DisableWritable c1"]) (simp add: on_channel_keeps on_channel_stage)
qed

theorem closed_is_watched_again_witness:
  "\<exists>c c'. readable (send_buffer c) = [65] \<and> Connection_HandleEvent True (\<lambda>_. Some []) (\<lambda>d. (int (length d), OTHER_ERRNO)) (beside_server None) None
       (Some server_close_callback) None (c, (TcpServer_new [], ())) =
         Inr (c', ((TcpServer_new [])\<lparr>connection_map := map_erase (conn_name c) (connection_map (TcpServer_new []))\<rparr>, ())) \<and>
     conn_status c' = DISCONNECTED \<and> interest (ep_calls c') 7 = Some 0"
proof -
  obtain b where b: "buf_ok b" "readable b = [65]"
    using AppendData_ok [of Buffer_new "[65]"] by (auto simp: fits_def max_size_def elim: holdsE)
  let ?ch = "\<lparr>ch_name = [], ch_fd = 7, ch_status = CHANNEL_STATUS_ADDED, ch_event = EPOLLIN OR EPOLLOUT, ch_ep_event = 5, ch_tied = True\<rparr>"
  let ?c = "(TcpConnection_new [] 7)\<lparr>conn_status := CONNECTED, conn_channel := ?ch, send_buffer := b, ep_calls := [(EPOLL_CTL_ADD, 7, 1), (EPOLL_CTL_MOD, 7, 5)]\<rparr>"
  have "registered ?ch [(EPOLL_CTL_ADD, 7, 1), (EPOLL_CTL_MOD, 7, 5)]" by (simp add: registered_def interest_def)
  then obtain c' where "Connection_HandleEvent True (\<lambda>_. Some []) (\<lambda>d. (int (length d), OTHER_ERRNO)) (beside_server None) None
       (Some server_close_callback) None (?c, (TcpServer_new [], ())) =
         Inr (c', ((TcpServer_new [])\<lparr>connection_map := map_erase (conn_name ?c) (connection_map (TcpServer_new []))\<rparr>, ()))"
      "conn_status c' = DISCONNECTED" "interest (ep_calls c') (ch_fd (conn_channel ?c)) = Some 0"
    using closed_is_watched_again [of ?c "\<lambda>d. (int (length d), OTHER_ERRNO)" OTHER_ERRNO None "TcpServer_new []" "()"] b
    by (auto simp: TcpConnection_new_def)
  with b show ?thesis by (intro exI [of _ ?c] exI [of _ c']) simp
qed

end
