(* ===== verification/Sockets.thy ===== *)
theory Sockets
  imports Channel InetAddress
begin

text \<open>
  \<^verbatim>\<open>network/SocketOps.cpp\<close>, \<^verbatim>\<open>Socket.{h,cpp}\<close> and the set-up of \<^verbatim>\<open>Acceptor.cpp\<close>: what the program asks of the kernel for
  its sockets, as a trace of system calls with their answers. The kernel is an argument that
  answers a call in the light of the trace so far; \<open>sock_stages\<close> reads a trace the way the
  manual pages of \<^verbatim>\<open>socket(2)\<close>, \<^verbatim>\<open>bind(2)\<close>, \<^verbatim>\<open>listen(2)\<close>, \<^verbatim>\<open>accept(2)\<close> and \<^verbatim>\<open>close(2)\<close> describe it.
\<close>

section \<open>System calls\<close>

datatype sock_flag = SOCK_STREAM | SOCK_NONBLOCK | SOCK_CLOEXEC

datatype sock_option = SO_REUSEADDR | SO_REUSEPORT

text \<open>The number behind an address is the length passed with it; behind \<open>listen\<close> it is the backlog.\<close>

datatype sys_call =
    Sys_socket nat "sock_flag list"
  | Sys_setsockopt int sock_option int
  | Sys_bind int inet_address nat
  | Sys_listen int nat
  | Sys_connect int inet_address nat
  | Sys_accept int nat
  | Sys_getpeername int nat
  | Sys_shutdown int
  | Sys_close int

type_synonym sys_trace = "(sys_call \<times> int) list"

text \<open>The answer, and the address that \<open>accept\<close> and \<open>getpeername\<close> store.\<close>

type_synonym kernel = "sys_trace \<Rightarrow> sys_call \<Rightarrow> int \<times> inet_address"

definition sys_do :: "kernel \<Rightarrow> sys_call \<Rightarrow> sys_trace \<Rightarrow> int \<times> sys_trace" where
  "sys_do k c tr = (fst (k tr c), tr @ [(c, fst (k tr c))])"

definition sizeof_sockaddr :: nat where "sizeof_sockaddr = 16"
definition sizeof_sockaddr_in6 :: nat where "sizeof_sockaddr_in6 = 28"
definition INET6_ADDRSTRLEN :: nat where "INET6_ADDRSTRLEN = 46"

section \<open>SocketOps\<close>

definition CreateDefaultSocket :: "kernel \<Rightarrow> nat \<Rightarrow> sys_trace \<Rightarrow> int \<times> sys_trace" where
  "CreateDefaultSocket k family = sys_do k (Sys_socket family [SOCK_STREAM, SOCK_CLOEXEC])"

definition CreateNonblockSocket :: "kernel \<Rightarrow> nat \<Rightarrow> sys_trace \<Rightarrow> int \<times> sys_trace" where
  "CreateNonblockSocket k family = sys_do k (Sys_socket family [SOCK_STREAM, SOCK_NONBLOCK, SOCK_CLOEXEC])"

definition ops_Bind :: "kernel \<Rightarrow> int \<Rightarrow> inet_address \<Rightarrow> sys_trace \<Rightarrow> sys_trace result" where
  "ops_Bind k sockfd address tr =
     (let (ret, tr) = sys_do k (Sys_bind sockfd address sizeof_sockaddr_in6) tr in
      if \<not> ret \<noteq> -1 then Inl AssertFailed else Inr tr)"

definition ops_Connect :: "kernel \<Rightarrow> int \<Rightarrow> inet_address \<Rightarrow> sys_trace \<Rightarrow> int \<times> sys_trace" where
  "ops_Connect k sockfd address = sys_do k (Sys_connect sockfd address sizeof_sockaddr)"

definition ops_Listen :: "kernel \<Rightarrow> int \<Rightarrow> sys_trace \<Rightarrow> sys_trace" where
  "ops_Listen k sockfd tr = snd (sys_do k (Sys_listen sockfd 5) tr)"

definition ops_SetReusePort :: "kernel \<Rightarrow> int \<Rightarrow> sys_trace \<Rightarrow> sys_trace result" where
  "ops_SetReusePort k sockfd tr =
     (let (ret, tr) = sys_do k (Sys_setsockopt sockfd SO_REUSEPORT 1) tr in
      if \<not> ret \<noteq> -1 then Inl AssertFailed else Inr tr)"

definition ops_SetReuseAddr :: "kernel \<Rightarrow> int \<Rightarrow> sys_trace \<Rightarrow> sys_trace result" where
  "ops_SetReuseAddr k sockfd tr =
     (let (ret, tr) = sys_do k (Sys_setsockopt sockfd SO_REUSEADDR 1) tr in
      if \<not> ret \<noteq> -1 then Inl AssertFailed else Inr tr)"

definition ops_Accept :: "kernel \<Rightarrow> int \<Rightarrow> sys_trace \<Rightarrow> (int \<times> inet_address \<times> sys_trace) result" where
  "ops_Accept k sockfd tr =
     (let c = Sys_accept sockfd INET6_ADDRSTRLEN; address = snd (k tr c); (fd, tr) = sys_do k c tr in
      if \<not> fd \<ge> 0 then Inl AssertFailed else Inr (fd, address, tr))"

definition ops_Close :: "kernel \<Rightarrow> int \<Rightarrow> sys_trace \<Rightarrow> sys_trace" where
  "ops_Close k sockfd tr = snd (sys_do k (Sys_close sockfd) tr)"

definition ops_ShutdownWrite :: "kernel \<Rightarrow> int \<Rightarrow> sys_trace \<Rightarrow> sys_trace" where
  "ops_ShutdownWrite k sockfd tr = snd (sys_do k (Sys_shutdown sockfd) tr)"

text \<open>The result is not looked at: when the call fails, the address is what \<open>peer_addr\<close> was made with.\<close>

definition GetPeerAddr :: "kernel \<Rightarrow> inet_address \<Rightarrow> int \<Rightarrow> sys_trace \<Rightarrow> inet_address \<times> sys_trace" where
  "GetPeerAddr k peer_addr sockfd tr =
     (let c = Sys_getpeername sockfd sizeof_sockaddr_in6; address = snd (k tr c); (ret, tr) = sys_do k c tr in
      (if ret = 0 then address else peer_addr, tr))"

section \<open>Socket\<close>

text \<open>A \<^verbatim>\<open>Socket\<close> is its descriptor.\<close>

type_synonym socket = int

definition Socket_new :: "int \<Rightarrow> socket" where
  "Socket_new sockfd = sockfd"

text \<open>The test leaves out descriptor 0.\<close>

definition Socket_destroy :: "kernel \<Rightarrow> socket \<Rightarrow> sys_trace \<Rightarrow> sys_trace" where
  "Socket_destroy k s tr = (if s > 0 then ops_Close k s tr else tr)"

definition Socket_GetSockFd :: "socket \<Rightarrow> int" where
  "Socket_GetSockFd s = s"

definition SetSockfd :: "int \<Rightarrow> socket \<Rightarrow> socket" where
  "SetSockfd sockfd s = sockfd"

definition Socket_SetReusePort :: "kernel \<Rightarrow> socket \<Rightarrow> sys_trace \<Rightarrow> sys_trace result" where
  "Socket_SetReusePort k s = ops_SetReusePort k s"

definition Socket_SetReuseAddr :: "kernel \<Rightarrow> socket \<Rightarrow> sys_trace \<Rightarrow> sys_trace result" where
  "Socket_SetReuseAddr k s = ops_SetReuseAddr k s"

definition Socket_Bind :: "kernel \<Rightarrow> socket \<Rightarrow> inet_address \<Rightarrow> sys_trace \<Rightarrow> sys_trace result" where
  "Socket_Bind k s address = ops_Bind k s address"

definition Socket_Listen :: "kernel \<Rightarrow> socket \<Rightarrow> sys_trace \<Rightarrow> sys_trace" where
  "Socket_Listen k s = ops_Listen k s"

definition Socket_Accept :: "kernel \<Rightarrow> socket \<Rightarrow> sys_trace \<Rightarrow> (int \<times> inet_address \<times> sys_trace) result" where
  "Socket_Accept k s = ops_Accept k s"

section \<open>Acceptor\<close>

record acceptor =
  acc_name :: bytes
  acc_listenfd :: socket
  acc_channel :: channel

text \<open>The state of the loop it lives in: the calls of \<open>epoll_ctl\<close>, and the trace of the process.\<close>

definition Acceptor_new :: "kernel \<Rightarrow> bytes \<Rightarrow> inet_address \<Rightarrow> epoll_call list \<times> sys_trace \<Rightarrow>
    (acceptor \<times> epoll_call list \<times> sys_trace) result" where
  "Acceptor_new k server_name address = (\<lambda>(calls, tr).
     let name = server_name @ [0x2d] @ lit ''acceptor'';
         (fd, tr) = CreateDefaultSocket k (GetFamily address) tr;
         listenfd = Socket_new fd;
         chan = Channel_new name (Socket_GetSockFd listenfd) in
     ebind (Socket_SetReuseAddr k listenfd tr) (\<lambda>tr.
     ebind (Socket_Bind k listenfd address tr) (\<lambda>tr.
     let (chan, calls) = EnableReadable chan calls in
     Inr (\<lparr>acc_name = name, acc_listenfd = listenfd, acc_channel = chan\<rparr>, calls, tr))))"

definition Acceptor_Listen :: "kernel \<Rightarrow> acceptor \<Rightarrow> sys_trace \<Rightarrow> sys_trace" where
  "Acceptor_Listen k a = Socket_Listen k (acc_listenfd a)"

text \<open>Without a place for the address nothing is accepted.\<close>

definition Acceptor_Accept :: "kernel \<Rightarrow> acceptor \<Rightarrow> bool \<Rightarrow> sys_trace \<Rightarrow> (int \<times> inet_address option \<times> sys_trace) result" where
  "Acceptor_Accept k a has_address tr =
     (if \<not> has_address then Inr (-1, None, tr)
      else ebind (Socket_Accept k (acc_listenfd a) tr) (\<lambda>(fd, address, tr). Inr (fd, Some address, tr)))"

text \<open>The destructor's body is empty; the members go, the socket among them.\<close>

definition Acceptor_destroy :: "kernel \<Rightarrow> acceptor \<Rightarrow> sys_trace \<Rightarrow> sys_trace" where
  "Acceptor_destroy k a = Socket_destroy k (acc_listenfd a)"

lemmas socket_ops = sys_do_def CreateDefaultSocket_def CreateNonblockSocket_def ops_Bind_def ops_Connect_def ops_Listen_def
  ops_SetReusePort_def ops_SetReuseAddr_def ops_Accept_def ops_Close_def ops_ShutdownWrite_def GetPeerAddr_def
  Socket_new_def Socket_destroy_def Socket_GetSockFd_def SetSockfd_def Socket_SetReusePort_def Socket_SetReuseAddr_def
  Socket_Bind_def Socket_Listen_def Socket_Accept_def

section \<open>What the kernel makes of it\<close>

datatype sock_stage = S_fresh | S_bound inet_address | S_listening inet_address nat | S_connected

definition advance :: "int \<Rightarrow> (sock_stage \<Rightarrow> sock_stage option) \<Rightarrow> (int \<Rightarrow> sock_stage option) \<Rightarrow> int \<Rightarrow> sock_stage option" where
  "advance fd f m = (case m fd of None \<Rightarrow> m | Some st \<Rightarrow> (case f st of None \<Rightarrow> m | Some st' \<Rightarrow> m(fd := Some st')))"

fun sock_apply :: "sys_call \<times> int \<Rightarrow> (int \<Rightarrow> sock_stage option) \<Rightarrow> int \<Rightarrow> sock_stage option" where
  "sock_apply (Sys_socket family flags, r) m = (if r \<ge> 0 then m(r := Some S_fresh) else m)"
| "sock_apply (Sys_bind fd a len, r) m =
     (if r = 0 then advance fd (\<lambda>st. case st of S_fresh \<Rightarrow> Some (S_bound a) | _ \<Rightarrow> None) m else m)"
| "sock_apply (Sys_listen fd n, r) m =
     (if r = 0 then advance fd (\<lambda>st. case st of S_bound a \<Rightarrow> Some (S_listening a n) | _ \<Rightarrow> None) m else m)"
| "sock_apply (Sys_connect fd a len, r) m =
     (if r = 0 then advance fd (\<lambda>st. case st of S_fresh \<Rightarrow> Some S_connected | _ \<Rightarrow> None) m else m)"
| "sock_apply (Sys_accept fd len, r) m = (if r \<ge> 0 then m(r := Some S_connected) else m)"
| "sock_apply (Sys_close fd, r) m = (if r = 0 then m(fd := None) else m)"
| "sock_apply _ m = m"

definition sock_stages :: "sys_trace \<Rightarrow> int \<Rightarrow> sock_stage option" where
  "sock_stages tr = fold sock_apply tr (\<lambda>_. None)"

lemma sock_stages_Nil [simp]: "sock_stages [] = (\<lambda>_. None)"
  by (simp add: sock_stages_def)

lemma sock_stages_snoc [simp]: "sock_stages (tr @ [x]) = sock_apply x (sock_stages tr)"
  by (simp add: sock_stages_def)

text \<open>A kernel that has descriptors and lets the calls of a server's start succeed; a new descriptor is one that is not open.\<close>

definition kernel_grants :: "kernel \<Rightarrow> bool" where
  "kernel_grants k \<longleftrightarrow> (\<forall>tr family flags. 0 \<le> fst (k tr (Sys_socket family flags)) \<and>
       sock_stages tr (fst (k tr (Sys_socket family flags))) = None) \<and>
     (\<forall>tr fd opt on. fst (k tr (Sys_setsockopt fd opt on)) = 0) \<and>
     (\<forall>tr fd a len. fst (k tr (Sys_bind fd a len)) = 0) \<and> (\<forall>tr fd n. fst (k tr (Sys_listen fd n)) = 0)"

text \<open>The calls an acceptor makes for its socket.\<close>

definition acceptor_calls :: "int \<Rightarrow> inet_address \<Rightarrow> sys_trace" where
  "acceptor_calls fd address = [(Sys_socket (ia_family address) [SOCK_STREAM, SOCK_CLOEXEC], fd),
     (Sys_setsockopt fd SO_REUSEADDR 1, 0), (Sys_bind fd address sizeof_sockaddr_in6, 0)]"

lemma Acceptor_new_granted:
  assumes "kernel_grants k"
  obtains a fd where "Acceptor_new k name address (calls, tr) = Inr (a, calls @ [(EPOLL_CTL_ADD, fd, EPOLLIN)], tr @ acceptor_calls fd address)"
    "acc_listenfd a = fd" "0 \<le> fd" "sock_stages tr fd = None" "ch_fd (acc_channel a) = fd" "ch_ep_event (acc_channel a) = EPOLLIN"
proof -
  let ?fd = "fst (k tr (Sys_socket (ia_family address) [SOCK_STREAM, SOCK_CLOEXEC]))"
  let ?a = "\<lparr>acc_name = name @ [0x2d] @ lit ''acceptor'', acc_listenfd = ?fd, acc_channel =
      \<lparr>ch_name = name @ [0x2d] @ lit ''acceptor'', ch_fd = ?fd, ch_status = CHANNEL_STATUS_ADDED, ch_event = 0, ch_ep_event = EPOLLIN, ch_tied = False\<rparr>\<rparr>"
  have fd: "0 \<le> ?fd" "sock_stages tr ?fd = None" using assms by (simp_all add: kernel_grants_def)
  show thesis
    by (rule that [of ?a ?fd, OF _ _ fd])
      (use assms in \<open>simp_all add: Acceptor_new_def socket_ops Let_def kernel_grants_def GetFamily_def channel_ops Channel_new_def acceptor_calls_def\<close>)
qed

lemma acceptor_calls_stages: "sock_stages (tr @ acceptor_calls fd address) = (if 0 \<le> fd then (sock_stages tr)(fd := Some (S_bound address)) else
    sock_stages (tr @ acceptor_calls fd address))"
  by (auto simp: acceptor_calls_def sock_stages_def advance_def)

lemma Acceptor_Listen_granted:
  assumes "kernel_grants k" "sock_stages tr (acc_listenfd a) = Some (S_bound address)"
  shows "Acceptor_Listen k a tr = tr @ [(Sys_listen (acc_listenfd a) 5, 0)]"
    "sock_stages (Acceptor_Listen k a tr) = (sock_stages tr)(acc_listenfd a \<mapsto> S_listening address 5)"
  using assms by (simp_all add: Acceptor_Listen_def socket_ops kernel_grants_def advance_def)

text \<open>An address in use ends the process; a refused \<open>listen\<close> is not noticed.\<close>

lemma Acceptor_new_refused:
  assumes "\<And>tr fd a len. fst (k tr (Sys_bind fd a len)) = -1"
  shows "Acceptor_new k name address s = Inl AssertFailed"
  using assms by (auto simp: Acceptor_new_def socket_ops Let_def split: prod.split)

lemma Acceptor_Listen_refused:
  assumes "fst (k tr (Sys_listen (acc_listenfd a) 5)) = -1"
  shows "sock_stages (Acceptor_Listen k a tr) = sock_stages tr"
  using assms by (simp add: Acceptor_Listen_def socket_ops)

text \<open>The destructor closes the socket, unless it is descriptor 0.\<close>

lemma Socket_destroy_closes:
  assumes "\<And>tr fd. fst (k tr (Sys_close fd)) = 0"
  shows "sock_stages (Socket_destroy k s tr) s = (if 0 < s then None else sock_stages tr s)"
  using assms by (simp add: socket_ops)

text \<open>A kernel that wants the whole address refuses every IPv6 \<open>connect\<close>: 16 bytes of it are passed.\<close>

lemma Connect_too_short:
  assumes "\<And>tr fd a len. sa_family a = AF_INET6 \<Longrightarrow> len < sizeof_sockaddr_in6 \<Longrightarrow> fst (k tr (Sys_connect fd a len)) = -1"
    and "sa_family address = AF_INET6"
  shows "fst (ops_Connect k fd address tr) = -1" "sock_stages (snd (ops_Connect k fd address tr)) = sock_stages tr"
  using assms by (simp_all add: socket_ops sizeof_sockaddr_def sizeof_sockaddr_in6_def)

end
