(* ===== verification/MainProgram.thy ===== *)
theory MainProgram
  imports Sockets ServerLoop Multiplexing
begin

text \<open>
  The function \<open>main\<close> of \<^verbatim>\<open>main.cpp\<close> up to its loop: the ports from the command line, the two
  servers with their acceptors on one loop, their threads, and a turn of that loop. It ignores \<^verbatim>\<open>SIGPIPE\<close> first, which is why \<open>send\<close> on
  a broken connection is an error and not the end in the other theories. The callbacks it installs are those of the theory
  \<^verbatim>\<open>LiveServer\<close>; here they are names.
\<close>

section \<open>The command line\<close>

definition is_space :: "byte \<Rightarrow> bool" where
  "is_space c \<longleftrightarrow> c = 0x20 \<or> 9 \<le> unat c \<and> unat c \<le> 13"

definition PLUS :: byte where "PLUS = 0x2b"

text \<open>\<^verbatim>\<open>atoi(3)\<close>: blanks, a sign, digits; the rest is ignored. Outside the range of \<open>int\<close> it is undefined.\<close>

definition atoi :: "bytes \<Rightarrow> int" where
  "atoi arg =
     (let arg = dropWhile is_space arg;
          (negative, arg) = (case arg of [] \<Rightarrow> (False, []) | c # cs \<Rightarrow>
            if c = MINUS then (True, cs) else if c = PLUS then (False, cs) else (False, arg));
          n = int (decimal_read (takeWhile is_digit arg)) in
      if negative then - n else n)"

text \<open>\<open>short port = atoi(arg)\<close> keeps 16 bits, which \<open>uint16_t\<close> reads as unsigned.\<close>

definition port_of :: "bytes \<Rightarrow> u16" where
  "port_of arg = word_of_int (atoi arg)"

lemma atoi_decimal: "atoi (decimal n) = int n"
proof -
  obtain c cs where c: "decimal n = c # cs" using decimal_nonempty by (cases "decimal n") auto
  then have d: "is_digit c" using decimal_digits [of c n] by simp
  then have "\<not> is_space c" "c \<noteq> MINUS" "c \<noteq> PLUS"
    by (auto simp: is_digit_def is_space_def MINUS_def PLUS_def)
  moreover have "takeWhile is_digit (decimal n) = decimal n"
    using decimal_digits by (auto simp: takeWhile_eq_all_conv)
  ultimately show ?thesis using c by (simp add: atoi_def decimal_read_decimal del: decimal.simps) (metis decimal_read_decimal)
qed

lemma atoi_no_number: "arg = [] \<or> \<not> is_digit (hd arg) \<and> \<not> is_space (hd arg) \<and> hd arg \<noteq> MINUS \<and> hd arg \<noteq> PLUS \<Longrightarrow> atoi arg = 0"
  by (cases arg) (auto simp: atoi_def decimal_read_def)

lemma port_of_decimal: "n < 65536 \<Longrightarrow> unat (port_of (decimal n)) = n"
  unfolding port_of_def atoi_decimal by (simp add: unat_of_nat take_bit_eq_mod)

section \<open>A server with its acceptor\<close>

datatype callback = Callback_OnConnection | Callback_OnClientMessage

record server =
  sv_tcp :: tcp_server
  sv_address :: inet_address
  sv_acceptor :: acceptor
  sv_connection :: "callback option"
  sv_message :: "callback option"

definition Server_construct :: "kernel \<Rightarrow> bytes \<Rightarrow> inet_address \<Rightarrow> epoll_call list \<times> sys_trace \<Rightarrow>
    (server \<times> epoll_call list \<times> sys_trace) result" where
  "Server_construct k name address s =
     ebind (Acceptor_new k name address s) (\<lambda>(acceptor, s).
     Inr (\<lparr>sv_tcp = TcpServer_new name, sv_address = address, sv_acceptor = acceptor, sv_connection = None, sv_message = None\<rparr>, s))"

definition SetConnectionCallback :: "callback \<Rightarrow> server \<Rightarrow> server" where
  "SetConnectionCallback cb sv = sv\<lparr>sv_connection := Some cb\<rparr>"

definition SetNewMessageCallback :: "callback \<Rightarrow> server \<Rightarrow> server" where
  "SetNewMessageCallback cb sv = sv\<lparr>sv_message := Some cb\<rparr>"

definition sv_SetThreadNum :: "int \<Rightarrow> server \<Rightarrow> server" where
  "sv_SetThreadNum num sv = sv\<lparr>sv_tcp := Server_SetThreadNum num (sv_tcp sv)\<rparr>"

text \<open>The threads first, then \<open>listen\<close>.\<close>

definition sv_Start :: "kernel \<Rightarrow> server \<Rightarrow> sys_trace \<Rightarrow> server \<times> sys_trace" where
  "sv_Start k sv tr = (sv\<lparr>sv_tcp := Server_Start (sv_tcp sv)\<rparr>, Acceptor_Listen k (sv_acceptor sv) tr)"

section \<open>main\<close>

definition main_setup :: "kernel \<Rightarrow> bytes list \<Rightarrow> (server \<times> server \<times> epoll_call list \<times> sys_trace) result" where
  "main_setup k argv =
     (if length argv \<noteq> 3 then Inl Exited
      else
        let main_server_port = port_of (argv ! 1); client_server_port = port_of (argv ! 2);
            main_server_address = InetAddress_port main_server_port True;
            client_server_address = InetAddress_port client_server_port True in
        ebind (Server_construct k (lit ''main_server'') main_server_address ([], [])) (\<lambda>(main_server, s).
        ebind (Server_construct k (lit ''client_server'') client_server_address s) (\<lambda>(client_server, calls, tr).
        let main_server = SetConnectionCallback Callback_OnConnection main_server;
            client_server = SetNewMessageCallback Callback_OnClientMessage client_server;
            main_server = sv_SetThreadNum 2 main_server;
            client_server = sv_SetThreadNum 2 client_server;
            (main_server, tr) = sv_Start k main_server tr;
            (client_server, tr) = sv_Start k client_server tr in
        Inr (main_server, client_server, calls, tr))))"

lemmas server_ops = Server_construct_def SetConnectionCallback_def SetNewMessageCallback_def sv_SetThreadNum_def sv_Start_def

lemma main_wrong_arguments: "length argv \<noteq> 3 \<Longrightarrow> main_setup k argv = Inl Exited"
  by (simp add: main_setup_def)

lemma main_address_in_use:
  assumes "\<And>tr fd a len. fst (k tr (Sys_bind fd a len)) = -1" "length argv = 3"
  shows "main_setup k argv = Inl AssertFailed"
proof -
  have "Acceptor_new k name address st = Inl AssertFailed" for name address st
    by (rule Acceptor_new_refused) (rule assms(1))
  then show ?thesis by (simp add: main_setup_def assms(2) Server_construct_def Let_def)
qed

section \<open>Properties\<close>

text \<open>A server that listens on a port, with the threads and callbacks it was given.\<close>

definition serves :: "bytes \<Rightarrow> nat \<Rightarrow> callback option \<Rightarrow> callback option \<Rightarrow> server \<Rightarrow> epoll_call list \<Rightarrow> sys_trace \<Rightarrow> bool" where
  "serves name port connection message sv calls tr \<longleftrightarrow>
     sv_tcp sv = Server_started name 2 \<and> sv_connection sv = connection \<and> sv_message sv = message \<and>
     sock_stages tr (acc_listenfd (sv_acceptor sv)) = Some (S_listening (sv_address sv) 5) \<and>
     sa_family (sv_address sv) = AF_INET6 \<and> sin6_addr (sv_address sv) = replicate 16 0 \<and>
     unat (htons (sin_port (sv_address sv))) = port \<and>
     interest calls (acc_listenfd (sv_acceptor sv)) = Some EPOLLIN"

lemma interest_two:
  "fd \<noteq> fd' \<Longrightarrow> interest [(EPOLL_CTL_ADD, fd, ev), (EPOLL_CTL_ADD, fd', ev)] fd = Some ev"
  "fd \<noteq> fd' \<Longrightarrow> interest [(EPOLL_CTL_ADD, fd, ev), (EPOLL_CTL_ADD, fd', ev)] fd' = Some ev"
  by (simp_all add: interest_def)

lemma ia_family_port [simp]: "ia_family (InetAddress_port port ipv6) = (if ipv6 then AF_INET6 else AF_INET)"
  by (simp add: InetAddress_port_def)

text \<open>
  C32: with two decimal ports below 65536 on its command line, \<open>main\<close> ends its set-up with both servers
  listening: on a kernel that lets the calls succeed, the trace is exactly the two acceptors' \<^verbatim>\<open>socket\<close>,
  \<^verbatim>\<open>setsockopt(SO_REUSEADDR)\<close> and \<^verbatim>\<open>bind\<close> to the IPv6 wildcard address with all 28 bytes, and then, behind
  both, the two calls of \<^verbatim>\<open>listen\<close>; each socket is its own, listens on its server's port in network byte
  order although the port went through a signed \<^verbatim>\<open>short\<close>, and is watched for reading; each server has two
  threads, and each its callback.
\<close>

theorem main_listens:
  assumes "kernel_grants k" "n < 65536" "m < 65536"
  shows "\<exists>ms cs fd fd'. main_setup k [prog, decimal n, decimal m] = Inr (ms, cs,
      [(EPOLL_CTL_ADD, fd, EPOLLIN), (EPOLL_CTL_ADD, fd', EPOLLIN)],
      acceptor_calls fd (sv_address ms) @ acceptor_calls fd' (sv_address cs) @ [(Sys_listen fd 5, 0), (Sys_listen fd' 5, 0)]) \<and>
    serves (lit ''main_server'') n (Some Callback_OnConnection) None ms [(EPOLL_CTL_ADD, fd, EPOLLIN), (EPOLL_CTL_ADD, fd', EPOLLIN)]
      (acceptor_calls fd (sv_address ms) @ acceptor_calls fd' (sv_address cs) @ [(Sys_listen fd 5, 0), (Sys_listen fd' 5, 0)]) \<and>
    serves (lit ''client_server'') m None (Some Callback_OnClientMessage) cs [(EPOLL_CTL_ADD, fd, EPOLLIN), (EPOLL_CTL_ADD, fd', EPOLLIN)]
      (acceptor_calls fd (sv_address ms) @ acceptor_calls fd' (sv_address cs) @ [(Sys_listen fd 5, 0), (Sys_listen fd' 5, 0)])"
proof -
  let ?an = "InetAddress_port (port_of (decimal n)) True" and ?am = "InetAddress_port (port_of (decimal m)) True"
  obtain a fd where a: "Acceptor_new k (lit ''main_server'') ?an ([], []) = Inr (a, [] @ [(EPOLL_CTL_ADD, fd, EPOLLIN)], [] @ acceptor_calls fd ?an)"
    "acc_listenfd a = fd" "0 \<le> fd" by (rule Acceptor_new_granted [OF assms(1)])
  let ?t1 = "acceptor_calls fd ?an"
  have s1: "sock_stages ?t1 = [fd \<mapsto> S_bound ?an]" using acceptor_calls_stages [of "[]" fd ?an] a(3) by simp
  obtain b fd' where b: "Acceptor_new k (lit ''client_server'') ?am ([(EPOLL_CTL_ADD, fd, EPOLLIN)], ?t1) =
      Inr (b, [(EPOLL_CTL_ADD, fd, EPOLLIN)] @ [(EPOLL_CTL_ADD, fd', EPOLLIN)], ?t1 @ acceptor_calls fd' ?am)"
    "acc_listenfd b = fd'" "0 \<le> fd'" "sock_stages ?t1 fd' = None" by (rule Acceptor_new_granted [OF assms(1)])
  let ?t2 = "?t1 @ acceptor_calls fd' ?am"
  have ne: "fd \<noteq> fd'" using b(4) s1 by auto
  have s2: "sock_stages ?t2 = [fd \<mapsto> S_bound ?an, fd' \<mapsto> S_bound ?am]"
    using acceptor_calls_stages [of ?t1 fd' ?am] b(3) s1 by simp
  note l1 = Acceptor_Listen_granted [OF assms(1), of ?t2 a ?an]
  have t3: "Acceptor_Listen k a ?t2 = ?t2 @ [(Sys_listen fd 5, 0)]"
    "sock_stages (?t2 @ [(Sys_listen fd 5, 0)]) = [fd \<mapsto> S_listening ?an 5, fd' \<mapsto> S_bound ?am]"
    using l1 s2 ne a(2) by (simp_all add: fun_upd_twist)
  have t4: "Acceptor_Listen k b (?t2 @ [(Sys_listen fd 5, 0)]) = (?t2 @ [(Sys_listen fd 5, 0)]) @ [(Sys_listen fd' 5, 0)]"
    "sock_stages ((?t2 @ [(Sys_listen fd 5, 0)]) @ [(Sys_listen fd' 5, 0)]) = [fd \<mapsto> S_listening ?an 5, fd' \<mapsto> S_listening ?am 5]"
    using Acceptor_Listen_granted [OF assms(1), of "?t2 @ [(Sys_listen fd 5, 0)]" b ?am] t3(2) b(2) by simp_all
  show ?thesis
    using ne t4(2) by (simp add: main_setup_def Let_def server_ops a(1,2) b(1,2) t3(1) [simplified] t4(1) [simplified] serves_def
      Server_started_def interest_two sin_port_port port_of_decimal [OF assms(2)] port_of_decimal [OF assms(3)] del: decimal.simps)
qed

text \<open>A kernel that hands out descriptors no answer has named yet.\<close>

definition next_fd :: "sys_trace \<Rightarrow> int" where
  "next_fd tr = foldr (\<lambda>(c, r). max (r + 1)) tr 3"

definition plain_kernel :: kernel where
  "plain_kernel tr c = ((case c of Sys_socket family flags \<Rightarrow> next_fd tr | Sys_accept fd len \<Rightarrow> next_fd tr | _ \<Rightarrow> 0), InetAddress_port 0 True)"

lemma dom_advance: "dom (advance fd f m) = dom m"
  by (auto simp: advance_def split: option.splits)

lemma dom_sock_apply: "dom (sock_apply (c, r) m) \<subseteq> insert r (dom m)"
  by (cases c) (auto simp: dom_advance split: if_splits)

lemma dom_sock_stages: "dom (sock_stages tr) \<subseteq> snd ` set tr"
proof (induction tr rule: rev_induct)
  case (snoc x tr)
  have "dom (sock_apply x (sock_stages tr)) \<subseteq> insert (snd x) (dom (sock_stages tr))"
    using dom_sock_apply [of "fst x" "snd x"] by simp
  also have "\<dots> \<subseteq> snd ` set (tr @ [x])" using snoc by auto
  finally show ?case by simp
qed simp

lemma next_fd_above: "x \<in> set tr \<Longrightarrow> snd x < next_fd tr" and next_fd_pos: "0 < next_fd tr"
  unfolding next_fd_def by (induction tr) auto

lemma plain_kernel_grants: "kernel_grants plain_kernel"
proof -
  have "sock_stages tr (next_fd tr) = None" for tr
    using dom_sock_stages [of tr] next_fd_above [of _ tr] by fastforce
  then show ?thesis using next_fd_pos by (simp add: kernel_grants_def plain_kernel_def less_imp_le)
qed

theorem main_listens_witness:
  "\<exists>ms cs calls tr. main_setup plain_kernel [lit ''live'', decimal 60000, decimal 8080] = Inr (ms, cs, calls, tr) \<and>
     serves (lit ''main_server'') 60000 (Some Callback_OnConnection) None ms calls tr \<and>
     serves (lit ''client_server'') 8080 None (Some Callback_OnClientMessage) cs calls tr"
  using main_listens [OF plain_kernel_grants, of 60000 8080 "lit ''live''"] by fastforce

section \<open>The first loop\<close>

text \<open>
  \<^verbatim>\<open>Acceptor::OnReadable\<close> of the server at a position: its channel is the one at the same position. The
  acceptors set no writable callback.
\<close>

definition acceptor_readable :: "kernel \<Rightarrow> (nat \<Rightarrow> bytes \<Rightarrow> bytes) \<Rightarrow> ('m, server list \<times> sys_trace) channel_cb" where
  "acceptor_readable k ntop p = (\<lambda>(m, chans, svs, tr).
     let sv = svs ! p; address = snd (k tr (Sys_accept (acc_listenfd (sv_acceptor sv)) INET6_ADDRSTRLEN)) in
     ebind (Acceptor_Accept k (sv_acceptor sv) True tr) (\<lambda>(fd, _, tr).
     ebind (OnNewConnection ntop fd address (sv_tcp sv)) (\<lambda>ts.
     Inr (m, chans, svs[p := sv\<lparr>sv_tcp := ts\<rparr>], tr))))"

definition no_callback :: "('m, 's) channel_cb" where
  "no_callback p s = Inr s"

text \<open>A kernel that never fails to accept.\<close>

definition kernel_accepts :: "kernel \<Rightarrow> bool" where
  "kernel_accepts k \<longleftrightarrow> (\<forall>tr fd len. 0 \<le> fst (k tr (Sys_accept fd len)))"

definition servers_ok :: "(nat \<Rightarrow> bytes \<Rightarrow> bytes) \<Rightarrow> server list \<Rightarrow> bool" where
  "servers_ok ntop svs \<longleftrightarrow> (\<forall>sv \<in> set svs. server_ok ntop [] (sv_tcp sv))"

text \<open>
  A server that has got one connection more, for the descriptor and the address an \<open>accept\<close> gave: the object, its name, its entry
  in the map, the loop whose turn it is, and what waits on that loop.
\<close>

definition gains :: "(nat \<Rightarrow> bytes \<Rightarrow> bytes) \<Rightarrow> int \<Rightarrow> inet_address \<Rightarrow> tcp_server \<Rightarrow> tcp_server \<Rightarrow> bool" where
  "gains ntop fd a ts ts' \<longleftrightarrow> (let n = connection_id ts; name = ConnectionName ntop (server_name ts) a n; pool = thread_pool ts;
       l = (if thread_num pool = 0 then base_loop pool else pool_loops pool ! nat (next_thread_id pool)) in
     connection_id ts' = n + 1 \<and> server_name ts' = server_name ts \<and> ts_objs ts' = ts_objs ts @ [TcpConnection_new name fd] \<and>
     map_find name (connection_map ts') = Some n \<and> (\<forall>k. k \<noteq> name \<longrightarrow> map_find k (connection_map ts') = map_find k (connection_map ts)) \<and>
     ts_loop ts' = ts_loop ts @ [l] \<and> ts_pending ts' = (ts_pending ts)[l := ts_pending ts ! l @ [Func_Established n]])"

lemma OnNewConnection_gains:
  assumes "server_ok ntop [] ts" "OnNewConnection ntop fd a ts = Inr ts'"
  shows "gains ntop fd a ts ts'"
proof -
  have len: "length (ts_objs ts) = connection_id ts" and so: "map_sorted (connection_map ts)" and po: "pool_ok (thread_pool ts)"
    using assms(1) by (simp_all add: server_ok_def objs_ok_def owns_open_def pool_known_def)
  show ?thesis using assms(2) len GetNextLoop_ok [OF po]
    by (auto simp: gains_def OnNewConnection_def Let_def Server_RunInLoop_def map_find_set [OF so])
qed

lemma acceptor_readable_ok:
  assumes "ntop_ok ntop" "kernel_accepts k" "p < length svs" "server_ok ntop [] (sv_tcp (svs ! p))" "connection_id (sv_tcp (svs ! p)) < 10 ^ 9"
  obtains ts fd a where "acceptor_readable k ntop p (m, chans, svs, tr) =
      Inr (m, chans, svs[p := (svs ! p)\<lparr>sv_tcp := ts\<rparr>], tr @ [(Sys_accept (acc_listenfd (sv_acceptor (svs ! p))) INET6_ADDRSTRLEN, fd)])"
    "k tr (Sys_accept (acc_listenfd (sv_acceptor (svs ! p))) INET6_ADDRSTRLEN) = (fd, a)"
    "server_ok ntop [] ts" "gains ntop fd a (sv_tcp (svs ! p)) ts"
proof -
  let ?sv = "svs ! p"
  let ?c = "Sys_accept (acc_listenfd (sv_acceptor ?sv)) INET6_ADDRSTRLEN"
  have fd: "0 \<le> fst (k tr ?c)" using assms(2) by (simp add: kernel_accepts_def)
  obtain ts where ts: "Acceptor_OnReadable ntop (fst (k tr ?c), snd (k tr ?c)) (sv_tcp ?sv) = Inr ts" "server_ok ntop [] ts"
    by (rule accept_step [OF assms(1,4,5) fd])
  have new: "OnNewConnection ntop (fst (k tr ?c)) (snd (k tr ?c)) (sv_tcp ?sv) = Inr ts"
    using ts(1) fd by (simp add: Acceptor_OnReadable_def split: prod.splits)
  show thesis using that [of ts "fst (k tr ?c)" "snd (k tr ?c)"] ts(2) fd new OnNewConnection_gains [OF assms(4) new]
    by (simp add: acceptor_readable_def Acceptor_Accept_def socket_ops Let_def)
qed

text \<open>The servers whose acceptors are reported as readable, in that order.\<close>

definition readable_at :: "(nat \<times> u32) list \<Rightarrow> nat list" where
  "readable_at evs = map fst (filter (\<lambda>(p, ev). ev AND EPOLLIN \<noteq> 0) evs)"

lemma run_calls_readable:
  "for_each (run_call cb no_callback) (concat (map event_calls evs)) s = for_each cb (readable_at evs) s"
proof (induction evs arbitrary: s)
  case (Cons e evs)
  obtain p ev where e: "e = (p, ev)" by (cases e)
  have "for_each (run_call cb no_callback) (event_calls e) s = (if ev AND EPOLLIN \<noteq> 0 then cb p s else Inr s)" for s
    by (cases "cb p s") (simp_all add: e event_calls_def run_call_def no_callback_def)
  then show ?case using Cons e
    by (cases "cb p s") (simp_all add: for_each_append readable_at_def)
qed (simp add: readable_at_def)

text \<open>The calls of \<open>accept\<close> on the listening sockets of some servers, with what they returned.\<close>

definition accept_calls :: "server list \<Rightarrow> nat list \<Rightarrow> int list \<Rightarrow> sys_trace" where
  "accept_calls svs ps fds = map (\<lambda>(p, fd). (Sys_accept (acc_listenfd (sv_acceptor (svs ! p))) 46, fd)) (zip ps fds)"

lemma accept_calls_Cons [simp]:
  "accept_calls svs (p # ps) (fd # fds) = (Sys_accept (acc_listenfd (sv_acceptor (svs ! p))) 46, fd) # accept_calls svs ps fds"
  by (simp add: accept_calls_def)

lemma accept_calls_same: "(\<And>q. sv_acceptor (svs' ! q) = sv_acceptor (svs ! q)) \<Longrightarrow> accept_calls svs' ps fds = accept_calls svs ps fds"
  by (simp add: accept_calls_def)

text \<open>The \<open>i\<close>-th of these calls: what the kernel answers it, after those before, is what its server gets.\<close>

definition accepts_at :: "(nat \<Rightarrow> bytes \<Rightarrow> bytes) \<Rightarrow> kernel \<Rightarrow> sys_trace \<Rightarrow> nat list \<Rightarrow> int list \<Rightarrow> server list \<Rightarrow> server list \<Rightarrow> nat \<Rightarrow> bool" where
  "accepts_at ntop k tr ps fds svs svs' i \<longleftrightarrow>
     (\<exists>a. k (tr @ take i (accept_calls svs ps fds)) (Sys_accept (acc_listenfd (sv_acceptor (svs ! (ps ! i)))) 46) = (fds ! i, a) \<and>
       gains ntop (fds ! i) a (sv_tcp (svs ! (ps ! i))) (sv_tcp (svs' ! (ps ! i))))"

lemma accepts_ok:
  assumes "ntop_ok ntop" "kernel_accepts k"
  shows "servers_ok ntop svs \<Longrightarrow> distinct ps \<Longrightarrow> set ps \<subseteq> {..<length svs} \<Longrightarrow> \<forall>p \<in> set ps. connection_id (sv_tcp (svs ! p)) < 10 ^ 9 \<Longrightarrow>
    \<exists>svs' fds. for_each (acceptor_readable k ntop) ps (m, chans, svs, tr) = Inr (m, chans, svs', tr @ accept_calls svs ps fds) \<and>
      length fds = length ps \<and> servers_ok ntop svs' \<and> length svs' = length svs \<and>
      (\<forall>i < length ps. accepts_at ntop k tr ps fds svs svs' i) \<and>
      (\<forall>q < length svs. svs' ! q = (svs ! q)\<lparr>sv_tcp := sv_tcp (svs' ! q)\<rparr> \<and> (q \<notin> set ps \<longrightarrow> svs' ! q = svs ! q))"
proof (induction ps arbitrary: svs tr)
  case Nil
  then show ?case by (simp add: accept_calls_def)
next
  case (Cons p ps)
  have p: "p < length svs" "p \<notin> set ps" using Cons.prems(2,3) by simp_all
  then have sv: "server_ok ntop [] (sv_tcp (svs ! p))" using Cons.prems(1) by (simp add: servers_ok_def)
  obtain ts fd a where ts: "acceptor_readable k ntop p (m, chans, svs, tr) =
      Inr (m, chans, svs[p := (svs ! p)\<lparr>sv_tcp := ts\<rparr>], tr @ [(Sys_accept (acc_listenfd (sv_acceptor (svs ! p))) INET6_ADDRSTRLEN, fd)])"
    "k tr (Sys_accept (acc_listenfd (sv_acceptor (svs ! p))) INET6_ADDRSTRLEN) = (fd, a)"
    "server_ok ntop [] ts" "gains ntop fd a (sv_tcp (svs ! p)) ts"
    by (rule acceptor_readable_ok [OF assms p(1) sv]) (use Cons.prems(4) in auto)
  let ?svs = "svs[p := (svs ! p)\<lparr>sv_tcp := ts\<rparr>]" and ?tr = "tr @ [(Sys_accept (acc_listenfd (sv_acceptor (svs ! p))) 46, fd)]"
  have same: "?svs ! q = svs ! q" if "q \<in> set ps" for q using that p(2) by (metis nth_list_update_neq)
  have ok: "servers_ok ntop ?svs"
    unfolding servers_ok_def
  proof
    fix sv
    assume "sv \<in> set ?svs"
    then have "sv \<in> insert ((svs ! p)\<lparr>sv_tcp := ts\<rparr>) (set svs)" using set_update_subset_insert by (rule rev_subsetD)
    then show "server_ok ntop [] (sv_tcp sv)" using Cons.prems(1) ts(3) by (auto simp: servers_ok_def)
  qed
  have acc: "sv_acceptor (?svs ! q) = sv_acceptor (svs ! q)" for q using p(1) by (cases "q = p") simp_all
  have "\<forall>q \<in> set ps. connection_id (sv_tcp (?svs ! q)) < 10 ^ 9" using Cons.prems(4) same by simp
  moreover have "distinct ps" "set ps \<subseteq> {..<length ?svs}" using Cons.prems(2,3) by simp_all
  ultimately obtain svs' fds where r: "for_each (acceptor_readable k ntop) ps (m, chans, ?svs, ?tr) = Inr (m, chans, svs', ?tr @ accept_calls svs ps fds)"
    "length fds = length ps" "servers_ok ntop svs'" "length svs' = length ?svs" "\<forall>i < length ps. accepts_at ntop k ?tr ps fds ?svs svs' i"
    "\<forall>q < length ?svs. svs' ! q = (?svs ! q)\<lparr>sv_tcp := sv_tcp (svs' ! q)\<rparr> \<and> (q \<notin> set ps \<longrightarrow> svs' ! q = ?svs ! q)"
    using Cons.IH [OF ok, of ?tr] accept_calls_same [OF acc] by fastforce
  have "accepts_at ntop k tr (p # ps) (fd # fds) svs svs' i" if i: "i < length (p # ps)" for i
  proof (cases i)
    case 0
    have "svs' ! p = ?svs ! p" using r(6) p by simp
    then show ?thesis using 0 ts(2,4) p(1) by (simp add: accepts_at_def INET6_ADDRSTRLEN_def)
  next
    case (Suc j)
    then have "accepts_at ntop k ?tr ps fds ?svs svs' j" "ps ! j \<in> set ps" using r(5) i by simp_all
    then show ?thesis using Suc same accept_calls_same [OF acc] by (simp add: accepts_at_def)
  qed
  moreover have "\<forall>q < length svs. svs' ! q = (svs ! q)\<lparr>sv_tcp := sv_tcp (svs' ! q)\<rparr> \<and> (q \<notin> set (p # ps) \<longrightarrow> svs' ! q = svs ! q)"
  proof (intro allI impI)
    fix q
    assume q: "q < length svs"
    show "svs' ! q = (svs ! q)\<lparr>sv_tcp := sv_tcp (svs' ! q)\<rparr> \<and> (q \<notin> set (p # ps) \<longrightarrow> svs' ! q = svs ! q)"
      using r(6) [rule_format, of q] q by (cases "q = p") auto
  qed
  ultimately show ?case using r(1-4) ts(1)
    by (intro exI [of _ svs'] exI [of _ "fd # fds"]) (simp add: INET6_ADDRSTRLEN_def)
qed

text \<open>
  C33: a turn of the first loop. When the kernel reports the listening sockets of some servers as
  readable, and only then, \<^verbatim>\<open>accept\<close> is called once on each of these, in the order of the report and with
  46 bytes for the address. Each of these servers gets one connection more: an object for just the descriptor this call
  returned, under the name made of the address it gave, entered in the server's map, placed on the loop of the
  pool whose turn it is, with its \<^verbatim>\<open>Established\<close> queued on that loop behind what waits there. The other
  servers are not touched, and every server keeps its invariant.
\<close>

theorem first_loop_accepts:
  assumes "ntop_ok ntop" "kernel_accepts k" "servers_ok ntop svs" "wait_reports wait e 20 (length chans) evs" "length chans = length svs"
    and "\<forall>sv \<in> set svs. connection_id (sv_tcp sv) < 10 ^ 9"
  shows "\<exists>e' svs' fds. epoll_turn wait (acceptor_readable k ntop) no_callback (e, chans, (svs, tr)) =
      Inr (e', set_events evs chans, (svs', tr @ accept_calls svs (readable_at evs) fds)) \<and>
    length fds = length (readable_at evs) \<and> servers_ok ntop svs' \<and> length svs' = length svs \<and>
    (\<forall>i < length (readable_at evs). accepts_at ntop k tr (readable_at evs) fds svs svs' i) \<and>
    (\<forall>q < length svs. svs' ! q = (svs ! q)\<lparr>sv_tcp := sv_tcp (svs' ! q)\<rparr> \<and> (q \<notin> set (readable_at evs) \<longrightarrow> svs' ! q = svs ! q))"
proof -
  have keeps: "keeps_events (acceptor_readable k ntop)" "keeps_events no_callback"
    by (auto simp: keeps_events_def acceptor_readable_def no_callback_def Let_def ebind_Inr_iff)
  have evs: "distinct (map fst evs)" "fst ` set evs \<subseteq> {..<length svs}" using assms(4,5) by (simp_all add: wait_reports_def)
  then have ps: "distinct (readable_at evs)" "set (readable_at evs) \<subseteq> {..<length svs}"
    by (auto simp: readable_at_def distinct_map_filter)
  then have ids: "\<forall>p \<in> set (readable_at evs). connection_id (sv_tcp (svs ! p)) < 10 ^ 9" using assms(6) nth_mem by blast
  obtain e' where "epoll_turn wait (acceptor_readable k ntop) no_callback (e, chans, (svs, tr)) =
      for_each (acceptor_readable k ntop) (readable_at evs) (e', set_events evs chans, svs, tr)"
    using ep.turn_calls [OF assms(4) keeps] unfolding epoll_turn_def run_calls_readable by blast
  then show ?thesis using accepts_ok [OF assms(1,2,3) ps ids, of e' "set_events evs chans" tr] by auto
qed

text \<open>Two servers that have started, and a client for the second one.\<close>

definition example_server :: "bytes \<Rightarrow> int \<Rightarrow> server" where
  "example_server name fd = \<lparr>sv_tcp = Server_started name 2, sv_address = InetAddress_port 80 True,
     sv_acceptor = \<lparr>acc_name = name, acc_listenfd = fd, acc_channel = Channel_new name fd\<rparr>, sv_connection = None, sv_message = None\<rparr>"

definition second_wait :: sys_epoll_wait where
  "second_wait fd maxevents timeout = (1, W_OTHER, [(Some 1, 1)])"

theorem first_loop_accepts_witness:
  "\<exists>e' svs' c. epoll_turn second_wait (acceptor_readable plain_kernel (\<lambda>_ _. [])) no_callback
      (Epoll_new 3, [Channel_new [] 4, Channel_new [] 5], ([example_server [65] 4, example_server [66] 5], [(Sys_listen 5 5, 0)])) =
      Inr (e', set_events [(1, 1)] [Channel_new [] 4, Channel_new [] 5], (svs', [(Sys_listen 5 5, 0), (Sys_accept 5 46, 3)])) \<and>
    ts_objs (sv_tcp (svs' ! 1)) = [c] \<and> ch_fd (conn_channel c) = 3 \<and> svs' ! 0 = example_server [65] 4"
proof -
  let ?svs = "[example_server [65] 4, example_server [66] 5]" and ?chans = "[Channel_new [] 4, Channel_new [] 5]" and ?tr = "[(Sys_listen 5 5, 0 :: int)]"
  have k: "kernel_accepts plain_kernel" using next_fd_pos by (simp add: kernel_accepts_def plain_kernel_def less_imp_le)
  have ids: "connection_id (Server_started name 2) = 0" "ts_objs (Server_started name 2) = []" for name
    by (simp_all add: Server_started_def Server_Start_def Server_SetThreadNum_def TcpServer_new_def)
  have ok: "servers_ok (\<lambda>_ _. []) ?svs" by (simp add: servers_ok_def example_server_def started_ok)
  have w: "wait_reports second_wait (Epoll_new 3) 20 (length ?chans) [(1, 1)]" by (auto simp: wait_reports_def second_wait_def Epoll_new_def)
  have r: "readable_at [(1, 1)] = [1]" by (simp add: readable_at_def EPOLLIN_def)
  obtain e' svs' fds where t: "epoll_turn second_wait (acceptor_readable plain_kernel (\<lambda>_ _. [])) no_callback (Epoll_new 3, ?chans, (?svs, ?tr)) =
      Inr (e', set_events [(1, 1)] ?chans, (svs', ?tr @ accept_calls ?svs [1] fds))"
    "length fds = length [1 :: nat]" "\<forall>i < length [1 :: nat]. accepts_at (\<lambda>_ _. []) plain_kernel ?tr [1] fds ?svs svs' i"
    "\<forall>q < length ?svs. svs' ! q = (?svs ! q)\<lparr>sv_tcp := sv_tcp (svs' ! q)\<rparr> \<and> (q \<notin> set [1] \<longrightarrow> svs' ! q = ?svs ! q)"
    using first_loop_accepts [OF no_name_ok k ok w, of ?tr, unfolded r] by (auto simp: example_server_def ids)
  then obtain fd where fds: "fds = [fd]" by (auto simp: length_Suc_conv)
  then have "accepts_at (\<lambda>_ _. []) plain_kernel ?tr [1] [fd] ?svs svs' 0" using t(3) by simp
  moreover have "fst (plain_kernel ?tr (Sys_accept 5 46)) = 3" by (simp add: plain_kernel_def next_fd_def)
  ultimately have g: "fd = 3" "\<exists>a. gains (\<lambda>_ _. []) 3 a (sv_tcp (?svs ! 1)) (sv_tcp (svs' ! 1))"
    by (auto simp: accepts_at_def example_server_def)
  then obtain name where "ts_objs (sv_tcp (svs' ! 1)) = [TcpConnection_new name 3]"
    by (auto simp: gains_def Let_def example_server_def ids)
  moreover have "ch_fd (conn_channel (TcpConnection_new name 3)) = 3" by (simp add: TcpConnection_new_def Channel_new_def)
  ultimately show ?thesis using t(1) t(4) fds g(1)
    by (intro exI [of _ e'] exI [of _ svs'] exI [of _ "TcpConnection_new name 3"]) (simp add: example_server_def accept_calls_def)
qed

end
