(* ===== verification/Spec2Isabelle.thy ===== *)
theory Spec2Isabelle
  imports Format StreamHead LiveRegistry RejectedPublisher PublisherSession LongMessage FlvFile TcpClient Logger Mysql ThreadPool LoopQueue Multiplexing ServerLoop MainProgram
begin

text \<open>
  LiveBroadcast is a live-streaming server: publishers push RTMP streams over TCP, viewers fetch them as
  FLV over chunked HTTP. This development models the program in the order of its layers and proves
  what each layer promises, and, where the code breaks the promise, exactly how.

  Data flow. An \<^verbatim>\<open>EventLoop\<close> waits for its channels and hands the events to them; a \<^verbatim>\<open>TcpConnection\<close> reads into
  its buffer and calls back; a publisher's \<^verbatim>\<open>RtmpServerConnection\<close> gives the bytes to its \<^verbatim>\<open>RtmpManager\<close>, which does the
  handshake, keeps the head of the stream and turns every audio or video message into a shared FLV tag; each tag becomes
  one HTTP chunk, which is sent to every viewer (\<^verbatim>\<open>RtmpClientConnection\<close>). \<^verbatim>\<open>main.cpp\<close> keeps the registry
  from paths to publishers that joins the two servers.

  Theories and sources.
  \<^item> \<open>Prelude\<close>: bytes, \<open>size_t\<close> arithmetic, the faults an execution can end in and the \<open>result\<close> type that carries them;
    \<open>StdMap\<close>: \<open>std::map\<close> as its sorted entries, with the contract \<open>ordered_map\<close>; \<open>Decimal\<close>: printed numbers.
  \<^item> \<open>Fifo\<close> (the contract \<open>byte_fifo\<close>) and \<open>Buffer\<close> (\<^verbatim>\<open>utils/Buffer\<close>): no byte lost, doubled or reordered.
  \<^item> \<open>PrefixCode\<close> (the contract \<open>prefix_code\<close> of self-delimiting items), \<open>Format\<close> (\<^verbatim>\<open>utils/Format\<close>: HTTP chunk lengths, paths),
    \<open>FlvCodec\<close> and \<open>FlvManager\<close> (\<^verbatim>\<open>utils/codec/FlvCodec\<close>, \<^verbatim>\<open>FlvManager\<close>: tags and the head of a stream).
  \<^item> \<open>FileIO\<close> (\<^verbatim>\<open>utils/File\<close>) and \<open>FlvFile\<close> (the file parser of \<^verbatim>\<open>FlvManager\<close>).
  \<^item> \<open>RtmpCodec\<close>, \<open>RtmpManager\<close> (\<^verbatim>\<open>utils/codec/RtmpCodec\<close>, \<^verbatim>\<open>RtmpManager\<close>): message headers, the chunk stream, the handshake. \<open>ChunkStream\<close> is
    the abstract specification, a machine that reads one byte at a time; \<open>RtmpRefinement\<close> proves that the parser refines
    it, whatever consumes the tags (the locale \<open>tag_sink\<close>); \<open>StreamHead\<close>: the first three messages and the stream behind them.
  \<^item> \<open>Channel\<close> (\<^verbatim>\<open>network/Channel\<close>, the registration sides of \<^verbatim>\<open>Epoll\<close> and \<^verbatim>\<open>Select\<close>), \<open>Multiplexing\<close> (their \<open>LoopOnce\<close>; the contract \<open>multiplexer\<close>, which both
    meet, and what a turn makes of the events) and \<open>TcpConnection\<close> (\<^verbatim>\<open>network/TcpConnection\<close>).
  \<^item> \<open>InetAddress\<close>, \<open>EventLoop\<close> (with \<^verbatim>\<open>EventLoopThread\<close> and \<^verbatim>\<open>EventLoopThreadPool\<close>), \<open>TcpServer\<close> (with \<^verbatim>\<open>Acceptor\<close>) and \<open>TcpClient\<close>
    (with \<^verbatim>\<open>Connector\<close>); \<open>ServerLoop\<close>: the events of a server's loop through the plain pointers of its list of active channels;
    \<open>LoopQueue\<close> (\<^verbatim>\<open>thread/Mutex\<close>, \<^verbatim>\<open>CurrentThread\<close>, \<^verbatim>\<open>EventLoop::RunInLoop\<close> and \<open>HandlePendingFunc\<close>): the functions of a loop, one access at a time.
  \<^item> \<open>Sockets\<close> (\<^verbatim>\<open>network/SocketOps\<close>, \<^verbatim>\<open>Socket\<close>, the set-up of \<^verbatim>\<open>Acceptor\<close>): traces of system calls; \<open>MainProgram\<close>: \<open>main\<close> up to its loop.
  \<^item> \<open>RtmpConnections\<close>, \<open>RtmpViewer\<close>, \<open>RtmpStream\<close>, \<open>RtmpHandshake\<close>, \<open>RtmpJoin\<close> (\<^verbatim>\<open>network/protocol\<close>): publishers and viewers, what
    a stream does to a viewer, the handshake driver, joining; \<open>LiveServer\<close> (\<^verbatim>\<open>main.cpp\<close>); \<open>LiveRegistry\<close>: its two servers as a step relation, and
    what becomes of the registry, of the lists of viewers and of the objects their callbacks point to.
  \<^item> \<open>SocketStream\<close>, \<open>HandshakeMessages\<close>, \<open>PublisherHandshake\<close>, \<open>RejectedPublisher\<close>, \<open>PublisherSession\<close>, \<open>LongMessage\<close>: a publisher on its socket, from \<^verbatim>\<open>read(2)\<close> through
    \<^verbatim>\<open>TcpConnection::OnReadable\<close> and the callbacks of \<^verbatim>\<open>main.cpp\<close> to its viewers: while it streams; what its handshake
    is made of; the whole handshake, with the right password and with a wrong one; the head of the stream and the first tags, up to the point where viewers can join; the message that does not fit. The pieces in which its bytes arrive are arbitrary.
  \<^item> \<open>Logger\<close> (\<^verbatim>\<open>utils/Logger\<close>, \<^verbatim>\<open>LoggerStream\<close>, \<^verbatim>\<open>Timestamp\<close>), \<open>Mysql\<close> (\<^verbatim>\<open>mysql\<close>, \<^verbatim>\<open>mapper\<close>), \<open>ThreadPool\<close> (\<^verbatim>\<open>thread\<close>).

  State. A class is a record with the source's members under prefixed names; a shared pointer is an index into
  a heap of objects that is part of the state (tags in \<open>flv_heap\<close>, connections in \<open>ts_objs\<close>), so that sharing and
  lifetime are visible; an \<^verbatim>\<open>enum\<close> is a datatype; an integer keeps its width where it can wrap. A method is a function of the object, and
  of the states it reaches through callbacks. A fault (an access out of
  bounds, a null or freed object, an uncaught exception, a failed assertion) is a value of the result and every theorem
  that gives \<open>Inr\<close> excludes them all. Threads are step relations: \<open>thread_step\<close> (a loop's thread and its
  owner), \<open>live_step\<close> (publishers and viewers at the registry), \<open>server_step\<close> (the loops of a server and its users), \<open>connector_step\<close>, \<open>pool_step\<close> (callers, workers and the stopping thread of a pool; a thread at a condition variable
  goes on when it is signalled, or by a step of its own, the spurious wake-up), \<open>queue_step\<close> (the threads at a loop's functions, with
  \<^verbatim>\<open>push_back\<close> and \<^verbatim>\<open>swap\<close> in two steps each, which refines the atomic operations of the other models);
  their theorems are invariants of all reachable states, or of all runs from a state. What a callback of the loop does to the
  multiplexer is part of the turn: the callbacks of \<open>Multiplexing\<close> get its state and return it.

  What the theorems show.
  \<^item> The handshake: a publisher that sends well-formed messages ends up registered under its path, with its state at the first
    byte of the stream, however its bytes are cut, when what follows its release message comes after that has been read
    (\<open>handshake_registers_stream\<close>, \<open>ShakeHand_answers\<close>; \<open>answer_depends_on_cutting\<close> shows why the condition is needed).
  \<^item> The session: from the end of the handshake on, the head of the stream is kept and the first tag opens the stream
    for viewers (\<open>session_opens_for_viewers\<close>, \<open>published_stream\<close>).
  \<^item> The stream: from the socket of the publisher to that of a viewer, a viewer receives the response header, the head, the last tag with its previous tag
    size corrected, and then every tag, each as one chunk of one FLV tag
    (\<open>viewer_stream\<close>, \<open>ParseData_refines\<close>, \<open>FlvTagBuffer_is_chunk\<close>).
  \<^item> Conservation: buffers and connections neither lose nor repeat bytes; epoll watches what the channel asks
    for, and a turn of the loop calls exactly the handlers of what is reported, under either multiplexer; a server owns exactly its open connections, under distinct names,
    and the pointers a turn holds to them stay good; a publisher's viewers exist for as long as their connections are open; the functions
    given to a loop are called once, in order; a query's result is a cursor over its rows.
  \<^item> The start: \<open>main\<close> ends its set-up with both servers listening on the ports of its command line.
  \<^item> Termination: the handshake ends with the answers that the messages in the buffer call for; stopping a pool ends when the waiting workers are woken; what is given to a loop is called under every schedule; the loops of the parser end within the fuel given.
  \<^item> Flaws, each as a theorem about the model of the code as it is: stalls of a connection after a flush until its peer is heard from, a lost shutdown, a
    rejected publisher that streams, a viewer whose connection has ended and that is kept for ever, joins through a null pointer, an unparsable file,
    a queued \<^verbatim>\<open>Send\<close> on a freed connection, a closed one that is watched again,
    a head of a stream that is lost when it comes in pieces, a publisher cut off for a handshake message longer than its input buffer, an answer that waits for bytes that need not come,
    a stop of a loop that is lost when it comes early, a log line longer than its buffer, a database handle used after it was freed, a pool that never pools.

  Bounds and fuel. \<open>max_size\<close> is the largest \<open>std::string\<close>; buffers are bounded by \<open>2 ^ 62\<close> bytes in the well-formedness
  invariant, above which \<open>std::length_error\<close> is allowed. \<open>ParseData_loop\<close> takes the length of the buffer as fuel, since every round consumes at least one
  byte; \<open>ShakeHand_loop\<close> needs one unit per message left; \<open>find_user\<close> one per row. \<open>ParseFile_loop\<close> and \<open>Loop_turns\<close> may run for ever: running out of
  fuel is the fault \<open>Diverges\<close>, and the theorems say for which fuels that happens. \<open>publisher_reads\<close> takes one element of a list of sizes per readable event.
  The input buffer of a connection holds 4096 bytes and never grows: the stream is taken out of it as it comes, a message of the handshake is not. A server's names are distinct up to \<open>10 ^ 9\<close> connections, where the
  number could outgrow its buffer; log lines have four-digit years and second counts below \<open>2 ^ 31\<close>.

  Not modelled: data races at unsynchronized maps (the connections of a server, the registry and the viewers of a publisher are changed from several
  threads without a mutex, which is undefined behaviour; the steps of \<open>server_step\<close> and \<open>live_step\<close> are atomic, and the races are listed as findings), the names of threads, the output functions of the log, debug printers,
  trivial setters of callbacks (a callback is an argument), and the tests. In \<open>MainProgram\<close> the callbacks are names, in \<open>LiveServer\<close> they are functions. The callbacks of the servers do not log in
  their models; \<open>request_log\<close> models the one log line whose length a viewer chooses. \<open>read\<close>, \<open>send\<close>, \<open>accept\<close>, \<open>connect\<close>, \<open>epoll_wait\<close>, \<open>select\<close>, the other socket calls, \<open>inet_ntop\<close>, the
  resolver, the file system and the MySQL client library are arguments (so are the columns that can be read behind the pointer of
  \<^verbatim>\<open>mysql_fetch_field\<close>, of which its documentation promises one); what is assumed of
  them is named (\<open>ntop_ok\<close>, \<open>fetch_ok\<close>, \<open>wait_reports\<close>, \<open>kernel_grants\<close>, \<open>read_contract\<close>, \<open>send_contract\<close>, \<open>has_users\<close>).
\<close>

end
